(* ===== verification/Prelude.thy ===== *)
theory Prelude
  imports Main "HOL-Library.Word"
begin

text \<open>
  Shared vocabulary of the libcppx development: machine integer types, pointers, the result
  codes of \<open>base/include/utilities/error_code.h\<close>, the thread-local last error of
  \<open>base/sources/utilities/error_code_impl.cpp\<close>, and generic facts on words, lists and maps
  that several components use. The unfolding facts of the logger and of the network objects are
  collected in \<open>log_ops\<close> and \<open>net_ops\<close>.
\<close>

unbundle bit_operations_syntax

named_theorems log_ops \<open>unfolding the logger operations\<close>
named_theorems net_ops \<open>unfolding the network operations\<close>

section \<open>Machine integers and pointers\<close>

type_synonym uint8_t = "8 word"
type_synonym uint16_t = "16 word"
type_synonym uint32_t = "32 word"
type_synonym uint64_t = "64 word"

text \<open>
  A pointer is an address, or none for \<open>nullptr\<close>. Addresses are 64-bit words, so pointer
  arithmetic wraps where the machine's does.
\<close>

type_synonym pointer = "uint64_t option"

abbreviation nullptr :: "'a option" where
  "nullptr \<equiv> None"

section \<open>Result codes\<close>

datatype ErrorCode =
    kSuccess | kTrace | kDebug | kInfo | kWarn | kError | kFatal | kEvent
  | kNotSupported | kOutOfMemory | kInvalidParam | kThrowException | kInvalidCall
  | kSysCallFailed | kSystemError | kInvalidState

text \<open>The numeric values of the enumeration.\<close>

fun error_code_value :: "ErrorCode \<Rightarrow> int" where
  "error_code_value kSuccess = 0"
| "error_code_value kTrace = 1"
| "error_code_value kDebug = 2"
| "error_code_value kInfo = 3"
| "error_code_value kWarn = 4"
| "error_code_value kError = 5"
| "error_code_value kFatal = 6"
| "error_code_value kEvent = 7"
| "error_code_value kNotSupported = 100"
| "error_code_value kOutOfMemory = 101"
| "error_code_value kInvalidParam = 102"
| "error_code_value kThrowException = 103"
| "error_code_value kInvalidCall = 104"
| "error_code_value kSysCallFailed = 105"
| "error_code_value kSystemError = 106"
| "error_code_value kInvalidState = 107"

lemma error_code_value_inj: "error_code_value a = error_code_value b \<longleftrightarrow> a = b"
  by (cases a; cases b) simp_all

text \<open>
  The thread-local variable \<open>tls_eErrorCode\<close> is a state component of its own; the operations
  that call \<open>SetLastError\<close> take it and return it.
\<close>

type_synonym last_error = ErrorCode

definition tls_eErrorCode_init :: last_error where
  "tls_eErrorCode_init = kSuccess"

definition GetLastError :: "last_error \<Rightarrow> ErrorCode" where
  "GetLastError e = e"

definition SetLastError :: "ErrorCode \<Rightarrow> last_error \<Rightarrow> last_error" where
  "SetLastError c e = c"

lemma GetLastError_SetLastError [simp]: "GetLastError (SetLastError c e) = c"
  by (simp add: GetLastError_def SetLastError_def)

lemma SetLastError_eq [simp]: "SetLastError c e = c"
  by (simp add: SetLastError_def)

section \<open>Generic facts on words\<close>

lemma unat_lt64: "unat (w :: uint64_t) < 2 ^ 64"
  using unsigned_less [of w] by simp

lemma unat_lt32: "unat (w :: uint32_t) < 2 ^ 32"
  using unsigned_less [of w] by simp

lemma unat_eq_iff_eq: "unat a = unat b \<longleftrightarrow> a = (b :: 'a::len word)"
  by (auto intro: unsigned_word_eqI)

lemma unat_sub_le: "a \<le> b \<Longrightarrow> unat (b - a :: 'a::len word) = unat b - unat a"
  by (simp add: unat_sub)

lemma unat_Suc_word:
  fixes w :: "'a::len word"
  assumes "unat w + 1 < 2 ^ LENGTH('a)"
  shows "unat (w + 1) = unat w + 1"
  using assms by (simp add: unat_word_ariths)

lemma unat_mult_small:
  fixes a b :: "'a::len word"
  assumes "unat a * unat b < 2 ^ LENGTH('a)"
  shows "unat (a * b) = unat a * unat b"
  using assms by (simp add: unat_word_ariths)

lemma unat_plus_small:
  fixes a b :: "'a::len word"
  assumes "unat a + unat b < 2 ^ LENGTH('a)"
  shows "unat (a + b) = unat a + unat b"
  using assms by (simp add: unat_word_ariths)

lemma unat_ucast_32_64: "unat (ucast (x :: uint32_t) :: uint64_t) = unat x"
  using unat_lt32 [of x] by (simp add: unsigned_ucast_eq take_bit_nat_eq_self)

lemma unat_of_nat32: "n < 2 ^ 32 \<Longrightarrow> unat (of_nat n :: uint32_t) = n"
  by (simp add: unat_of_nat)

lemma unat_and_mask: "unat (w AND mask k) = unat (w :: 'a::len word) mod 2 ^ k"
  by (metis take_bit_eq_mask take_bit_eq_mod unsigned_take_bit_eq)

lemma and_not_mask_eq_diff:
  fixes w :: "'a::len word"
  shows "w AND NOT (mask k) = w - (w AND mask k)"
proof -
  have "(w AND mask k) AND (w AND NOT (mask k)) = 0"
    by (rule bit_word_eqI) (auto simp: bit_simps)
  moreover have "(w AND mask k) OR (w AND NOT (mask k)) = w"
    by (rule bit_word_eqI) (auto simp: bit_simps)
  ultimately have "(w AND mask k) + (w AND NOT (mask k)) = w"
    using word_plus_and_or [of "w AND mask k" "w AND NOT (mask k)"] by simp
  then show ?thesis
    by (simp add: algebra_simps)
qed

lemma unat_and_not_mask:
  fixes w :: "'a::len word"
  shows "unat (w AND NOT (mask k)) = unat w div 2 ^ k * 2 ^ k"
proof -
  have "unat (w AND NOT (mask k)) = unat w - unat w mod 2 ^ k"
    unfolding and_not_mask_eq_diff by (subst unat_sub) (simp_all add: word_and_le2 unat_and_mask)
  then show ?thesis
    by (simp add: minus_mod_eq_div_mult)
qed

lemma unat_power_two:
  assumes "k < LENGTH('a)"
  shows "unat (2 ^ k :: 'a::len word) = 2 ^ k"
proof -
  have "(0 :: 'a word) < 2 ^ k"
    using assms by (simp add: word_gt_0 exp_eq_zero_iff)
  then have "uint (2 ^ k :: 'a word) = 2 ^ k"
    by (rule uint_2p)
  then show ?thesis
    by (metis nat_int of_nat_numeral of_nat_power uint_nat)
qed

lemma unat_mask_word:
  assumes "k < LENGTH('a)"
  shows "unat (mask k :: 'a::len word) = 2 ^ k - 1"
proof -
  have "(1 :: 'a word) \<le> 2 ^ k"
    using unat_power_two [OF assms] by (simp add: word_le_nat_alt)
  then show ?thesis
    using assms by (simp add: mask_eq_exp_minus_1 unat_sub unat_power_two)
qed

section \<open>Generic facts on intervals and lists\<close>

lemma mod_window_eq:
  fixes a b n :: nat
  assumes "a mod n = b mod n" "a \<le> b" "b < a + n"
  shows "a = b"
proof -
  from assms(1) have "n dvd b - a"
    using assms(2) by (metis mod_eq_dvd_iff_nat)
  then obtain q where "b - a = n * q" ..
  with assms(2,3) show ?thesis
    by (cases q) auto
qed

lemma mod_window_inj:
  fixes a b n h :: nat
  assumes "a mod n = b mod n" "h \<le> a" "a < h + n" "h \<le> b" "b < h + n"
  shows "a = b"
  using mod_window_eq [of a n b] mod_window_eq [of b n a] assms by (cases "a \<le> b") auto

text \<open>Two positions less than a ring apart, in the same lap or in successive ones.\<close>

lemma mod_lap:
  fixes h t n :: nat
  assumes "h \<le> t" "t < h + n"
  shows "t mod n = (if h mod n + (t - h) < n then h mod n + (t - h) else h mod n + (t - h) - n)"
proof -
  define x where "x = h mod n + (t - h)"
  have "t mod n = x mod n"
    unfolding x_def mod_add_left_eq using assms(1) by simp
  moreover have "h mod n < n"
    using assms by (intro mod_less_divisor) simp
  then have "x < n + n"
    unfolding x_def using assms(1,2) by linarith
  then have "x mod n = (if x < n then x else x - n)"
    by (simp add: le_mod_geq)
  ultimately show ?thesis
    by (simp only: x_def)
qed

lemma mod_lap_end:
  fixes h n :: nat
  assumes "0 < n"
  shows "(h + (n - h mod n)) mod n = 0"
proof -
  have "(h + (n - h mod n)) mod n = (h mod n + (n - h mod n)) mod n"
    by (simp only: mod_add_left_eq)
  then show ?thesis
    using assms by (simp add: less_imp_le)
qed

lemma round8_bounds:
  fixes n :: nat
  shows "n \<le> (n + 7) div 8 * 8" "(n + 7) div 8 * 8 < n + 8"
  by presburger+

lemma map_upt_snoc: "i \<le> j \<Longrightarrow> map f [i..<Suc j] = map f [i..<j] @ [f j]"
  by simp

lemma map_upt_Cons: "i < j \<Longrightarrow> map f [i..<j] = f i # map f [Suc i..<j]"
  by (simp add: upt_conv_Cons)

end
