(* ===== verification/Common.thy ===== *)
theory Common
  imports Prelude
begin

text \<open>
  \<open>base/include/utilities/common.h\<close>: the alignment macros, the pointer tagging helpers and the
  time units.
\<close>

section \<open>Alignment macros\<close>

definition ALIGNN :: "'a::len word \<Rightarrow> 'a word \<Rightarrow> 'a word" where
  "ALIGNN num base = (num + base) AND NOT base"

definition ALIGN8 :: "'a::len word \<Rightarrow> 'a word" where
  "ALIGN8 num = ALIGNN num 7"

definition ALIGN64 :: "'a::len word \<Rightarrow> 'a word" where
  "ALIGN64 num = ALIGNN num 63"

text \<open>Rounding up to a multiple of \<open>2 ^ k\<close>, as long as the addition does not wrap.\<close>

lemma unat_ALIGNN:
  fixes w :: "'a::len word"
  assumes "k < LENGTH('a)" "unat w + (2 ^ k - 1) < 2 ^ LENGTH('a)"
  shows "unat (ALIGNN w (mask k)) = (unat w + (2 ^ k - 1)) div 2 ^ k * 2 ^ k"
proof -
  have m: "unat (mask k :: 'a word) = 2 ^ k - 1"
    using assms(1) by (rule unat_mask_word)
  have "unat (w + mask k) = unat w + (2 ^ k - 1)"
    using assms(2) m by (simp add: unat_plus_small)
  then show ?thesis
    by (simp add: ALIGNN_def unat_and_not_mask)
qed

lemma mask_3: "(7 :: 'a::len word) = mask 3"
  by (simp add: mask_eq_exp_minus_1)

lemma unat_ALIGN8:
  fixes w :: "'a::len word"
  assumes "3 < LENGTH('a)" "unat w + 7 < 2 ^ LENGTH('a)"
  shows "unat (ALIGN8 w) = (unat w + 7) div 8 * 8"
  using unat_ALIGNN [of 3 w] assms by (simp add: ALIGN8_def mask_3)

lemma ALIGN8_bounds:
  fixes w :: "'a::len word"
  assumes "3 < LENGTH('a)" "unat w + 7 < 2 ^ LENGTH('a)"
  shows "unat w \<le> unat (ALIGN8 w)" "unat (ALIGN8 w) < unat w + 8" "8 dvd unat (ALIGN8 w)"
  by (simp_all add: unat_ALIGN8 [OF assms])

section \<open>Pointer tagging\<close>

definition GetPointerLastBit :: "uint64_t \<Rightarrow> uint64_t" where
  "GetPointerLastBit ptr = ptr AND 1"

definition ClearPointerLastBit :: "uint64_t \<Rightarrow> uint64_t" where
  "ClearPointerLastBit ptr = ptr AND NOT 1"

definition SetPointerLastBit :: "uint64_t \<Rightarrow> uint64_t" where
  "SetPointerLastBit ptr = ptr OR 1"

lemma bit_one_word: "bit (1 :: 'a::len word) n \<longleftrightarrow> n = 0"
  by (simp add: bit_1_iff)

lemma Clear_Set: "ClearPointerLastBit (SetPointerLastBit p) = ClearPointerLastBit p"
  by (rule bit_word_eqI)
    (auto simp: ClearPointerLastBit_def SetPointerLastBit_def bit_simps bit_one_word)

lemma Clear_aligned:
  assumes "\<not> bit p 0"
  shows "ClearPointerLastBit p = p"
proof (rule bit_word_eqI)
  fix n
  assume "n < LENGTH(64)"
  then show "bit (ClearPointerLastBit p) n = bit p n"
    using assms by (cases n) (auto simp: ClearPointerLastBit_def bit_simps bit_one_word)
qed

lemma GetBit_Set: "GetPointerLastBit (SetPointerLastBit p) = 1"
  by (rule bit_word_eqI) (auto simp: GetPointerLastBit_def SetPointerLastBit_def bit_simps)

lemma GetBit_Clear: "GetPointerLastBit (ClearPointerLastBit p) = 0"
  by (rule bit_word_eqI) (auto simp: GetPointerLastBit_def ClearPointerLastBit_def bit_simps)

section \<open>Time units\<close>

definition kNano :: uint64_t where "kNano = 1"

definition kMicro :: uint64_t where "kMicro = kNano * 1000"

definition kMill :: uint64_t where "kMill = kMicro * 1000"

definition kSecond :: uint64_t where "kSecond = kMill * 1000"

text \<open>\<open>clock_get_time_nano\<close>: the value computed from a \<open>timespec\<close>.\<close>

definition clock_time_nano :: "uint64_t \<Rightarrow> uint64_t \<Rightarrow> uint64_t" where
  "clock_time_nano tv_sec tv_nsec = tv_sec * kSecond + tv_nsec"

end
