(* ===== verification/ChannelCommon.thy ===== *)
theory ChannelCommon
  imports Common
begin

text \<open>
  \<open>base/sources/channel/channel_common.h\<close> and the configuration types of
  \<open>base/include/channel/channel.h\<close>: the entry header of variable-size channels, the operation
  counters, rounding up to a power of two and reducing a position to a ring index.
\<close>

section \<open>Configuration\<close>

datatype ChannelType = kSPSC | kSPMC | kMPSC | kMPMC

datatype ElementType = kFixedSize | kVariableSize

datatype LengthType = kBounded | kUnbounded

record ChannelConfig =
  uElementSize :: uint32_t
  uMaxElementCount :: uint32_t
  uTotalMemorySizeKB :: uint32_t

section \<open>Entry headers\<close>

definition kMagic :: uint16_t where
  "kMagic = 0x7F7F"

definition kPlacehold :: uint16_t where
  "kPlacehold = 1"

record Entry =
  uMagic :: uint16_t
  uFlags :: uint16_t
  uLength :: uint32_t

text \<open>\<open>sizeof(Entry)\<close>: two 16-bit fields and one 32-bit field.\<close>

definition sizeof_Entry :: uint64_t where
  "sizeof_Entry = 8"

definition Entry_GetData :: "uint64_t \<Rightarrow> uint64_t" where
  "Entry_GetData this = this + sizeof_Entry"

definition Entry_GetEntry :: "uint64_t \<Rightarrow> uint64_t" where
  "Entry_GetEntry pData = pData - sizeof_Entry"

definition Entry_GetDataLength :: "Entry \<Rightarrow> uint32_t" where
  "Entry_GetDataLength e = ucast (ucast (uLength e) - sizeof_Entry)"

text \<open>
  \<open>CalSize\<close>: \<open>ALIGN8\<close> is computed on the \<open>uint32_t\<close> argument, the sum with
  \<open>sizeof(Entry)\<close> in 64 bits, and the result is narrowed to \<open>uint32_t\<close>.
\<close>

definition Entry_CalSize :: "uint32_t \<Rightarrow> uint32_t" where
  "Entry_CalSize uSize = ucast (sizeof_Entry + ucast (ALIGN8 uSize))"

lemma ucast_add_ucast:
  "ucast (a + ucast x :: uint64_t) = (ucast a + x :: uint32_t)"
proof (rule word_uint_eqI)
  have "uint (ucast (a + ucast x :: uint64_t) :: uint32_t) = (uint a + uint x) mod 2 ^ 64 mod 2 ^ 32"
    by (simp add: uint_word_ariths unsigned_ucast_eq take_bit_eq_mod mod_simps)
  also have "\<dots> = (uint a + uint x) mod 2 ^ 32"
    by (rule mod_mod_cancel) simp
  also have "\<dots> = uint (ucast a + x :: uint32_t)"
    by (simp add: uint_word_ariths unsigned_ucast_eq take_bit_eq_mod mod_simps)
  finally show "uint (ucast (a + ucast x :: uint64_t) :: uint32_t) = uint (ucast a + x :: uint32_t)" .
qed

lemma Entry_CalSize_eq: "Entry_CalSize uSize = ALIGN8 uSize + 8"
  by (simp add: Entry_CalSize_def sizeof_Entry_def ucast_add_ucast)

lemma Entry_GetEntry_GetData [simp]: "Entry_GetEntry (Entry_GetData p) = p"
  by (simp add: Entry_GetEntry_def Entry_GetData_def)

lemma unat_CalSize:
  assumes "unat uSize + 15 < 2 ^ 32"
  shows "unat (Entry_CalSize uSize) = (unat uSize + 7) div 8 * 8 + 8"
proof -
  have "unat (ALIGN8 uSize) = (unat uSize + 7) div 8 * 8"
    using assms by (simp add: unat_ALIGN8)
  then show ?thesis
    using assms by (simp add: Entry_CalSize_eq unat_plus_small)
qed

section \<open>Operation counters\<close>

record ChannelStats =
  uCount :: uint64_t
  uFailed :: uint64_t
  uCount2 :: uint64_t
  uFailed2 :: uint64_t

definition ChannelStats_Reset :: ChannelStats where
  "ChannelStats_Reset = \<lparr>uCount = 0, uFailed = 0, uCount2 = 0, uFailed2 = 0\<rparr>"

section \<open>Ring sizes and indices\<close>

definition Up2PowerOf2 :: "uint64_t \<Rightarrow> uint64_t" where
  "Up2PowerOf2 uValue =
     (if uValue = 0 then 0
      else let v = uValue - 1;
               v = v OR drop_bit 1 v;
               v = v OR drop_bit 2 v;
               v = v OR drop_bit 4 v;
               v = v OR drop_bit 8 v;
               v = v OR drop_bit 16 v;
               v = v OR drop_bit 32 v
           in v + 1)"

definition GetIndex :: "uint64_t \<Rightarrow> uint64_t \<Rightarrow> uint64_t" where
  "GetIndex uIndex uSize = uIndex AND (uSize - 1)"

text \<open>
  A word \<open>w\<close> is \<open>v\<close> smeared over \<open>d\<close> places when its bit \<open>m\<close> says whether \<open>v\<close> has a
  bit among \<open>m, \<dots>, m + d - 1\<close>. Each step of the code doubles the distance.
\<close>

definition smeared :: "uint64_t \<Rightarrow> nat \<Rightarrow> uint64_t \<Rightarrow> bool" where
  "smeared v d w \<longleftrightarrow> (\<forall>m. bit w m \<longleftrightarrow> (\<exists>j<d. bit v (m + j)))"

lemma smeared_1: "smeared v 1 v"
  by (auto simp: smeared_def)

lemma smeared_step:
  assumes "smeared v d w"
  shows "smeared v (d + d) (w OR drop_bit d w)"
  unfolding smeared_def
proof
  fix m
  have "bit (w OR drop_bit d w) m \<longleftrightarrow> (\<exists>j<d. bit v (m + j)) \<or> (\<exists>j<d. bit v (m + d + j))"
    using assms by (simp add: smeared_def bit_simps add.commute)
  also have "\<dots> \<longleftrightarrow> (\<exists>j<d + d. bit v (m + j))"
  proof safe
    fix j
    assume "j < d" "bit v (m + d + j)"
    then show "\<exists>j<d + d. bit v (m + j)"
      by (intro exI [of _ "d + j"]) (simp add: add.assoc)
  next
    fix j
    assume "j < d + d" "bit v (m + j)" "\<not> (\<exists>j<d. bit v (m + d + j))"
    then show "\<exists>j<d. bit v (m + j)"
      by (cases "j < d") (auto dest!: spec [of _ "j - d"])
  qed (auto intro: trans_less_add1)
  finally show "bit (w OR drop_bit d w) m \<longleftrightarrow> (\<exists>j<d + d. bit v (m + j))" .
qed

lemma bit_unat: "bit (w :: 'a::len word) n \<longleftrightarrow> odd (unat w div 2 ^ n)"
  by (metis bit_iff_odd bit_unsigned_iff possible_bit_nat)

lemma smeared_64:
  assumes w: "smeared v 64 w" and v: "unat v < 2 ^ k" "2 ^ k \<le> 2 * unat v" and k: "k \<le> 64"
  shows "w = mask k"
proof (rule bit_word_eqI)
  fix n
  assume n: "n < LENGTH(64)"
  from v obtain i where i: "k = Suc i"
    by (cases k) auto
  have high: "\<not> bit v j" if "k \<le> j" for j
    using v(1) that by (simp add: bit_unat) (metis div_less even_zero less_le_trans one_le_numeral power_increasing)
  have "unat v div 2 ^ i = 1"
    using v i by (simp add: div_nat_eqI)
  then have top: "bit v i"
    by (simp add: bit_unat)
  show "bit w n = bit (mask k :: uint64_t) n"
  proof (cases "n < k")
    case True
    then have "bit v (n + (i - n))" "i - n < 64"
      using top i k by auto
    with w True n show ?thesis
      by (auto simp: smeared_def bit_mask_iff)
  next
    case False
    with w high n show ?thesis
      by (auto simp: smeared_def bit_mask_iff)
  qed
qed

text \<open>The smeared value is a full mask, so adding one gives the next power of two.\<close>

lemma Up2PowerOf2_eq:
  assumes "unat u \<le> 2 ^ k" "2 ^ k < 2 * unat u" "k \<le> 64"
  shows "Up2PowerOf2 u = 2 ^ k"
proof -
  define v where "v = u - 1"
  have u0: "u \<noteq> 0"
    using assms by auto
  then have uv: "unat u = unat v + 1"
    using assms(2) by (simp add: v_def unat_minus_one)
  define w1 where "w1 = v OR drop_bit 1 v"
  define w2 where "w2 = w1 OR drop_bit 2 w1"
  define w4 where "w4 = w2 OR drop_bit 4 w2"
  define w8 where "w8 = w4 OR drop_bit 8 w4"
  define w16 where "w16 = w8 OR drop_bit 16 w8"
  define w32 where "w32 = w16 OR drop_bit 32 w16"
  note steps = w1_def w2_def w4_def w8_def w16_def w32_def
  have "smeared v 2 w1"
    using smeared_step [OF smeared_1 [of v]] by (simp only: w1_def one_add_one)
  then have "smeared v 4 w2"
    using smeared_step [of v 2 w1] by (simp add: w2_def)
  then have "smeared v 8 w4"
    using smeared_step [of v 4 w2] by (simp add: w4_def)
  then have "smeared v 16 w8"
    using smeared_step [of v 8 w4] by (simp add: w8_def)
  then have "smeared v 32 w16"
    using smeared_step [of v 16 w8] by (simp add: w16_def)
  then have "smeared v 64 w32"
    using smeared_step [of v 32 w16] by (simp add: w32_def)
  moreover have "Up2PowerOf2 u = w32 + 1"
    by (simp only: Up2PowerOf2_def Let_def steps v_def u0 if_False)
  moreover have "w32 = mask k"
  proof (cases "v = 0")
    case True
    then have "k = 0"
      using assms uv by (cases k) auto
    with True show ?thesis
      by (simp add: steps)
  next
    case False
    with assms uv have "unat v < 2 ^ k" "2 ^ k \<le> 2 * unat v"
      using unat_gt_0 [of v] by (auto, cases k, auto)
    with \<open>smeared v 64 w32\<close> assms(3) show ?thesis
      by (intro smeared_64)
  qed
  ultimately show ?thesis
    by (simp add: mask_eq_exp_minus_1)
qed

lemma ex_power_above:
  fixes n :: nat
  assumes "0 < n"
  obtains k where "n \<le> 2 ^ k" "2 ^ k < 2 * n"
proof -
  define k where "k = (LEAST k. n \<le> 2 ^ k)"
  have ex: "n \<le> 2 ^ n"
    by (simp add: less_imp_le)
  have k: "n \<le> 2 ^ k"
    unfolding k_def by (rule LeastI) (rule ex)
  have "2 ^ k < 2 * n"
  proof (cases k)
    case 0
    with assms show ?thesis by simp
  next
    case (Suc i)
    then have "\<not> n \<le> 2 ^ i"
      using not_less_Least [of i "\<lambda>k. n \<le> 2 ^ k"] by (simp add: k_def)
    with Suc show ?thesis by simp
  qed
  with k that show thesis by blast
qed

lemma power_window_le_64:
  assumes "2 ^ k < 2 * unat (u :: uint64_t)"
  shows "k \<le> 64"
proof (rule ccontr)
  assume "\<not> k \<le> 64"
  then have "(2 :: nat) ^ 65 \<le> 2 ^ k"
    by (intro power_increasing) auto
  with assms unat_lt64 [of u] show False by simp
qed

lemma Up2PowerOf2_power:
  assumes "u \<noteq> 0" "unat u \<le> 2 ^ 63"
  obtains k where "k < 64" "Up2PowerOf2 u = 2 ^ k" "unat u \<le> 2 ^ k" "2 ^ k < 2 * unat u"
proof -
  from assms(1) have "0 < unat u"
    by (simp add: unat_gt_0)
  then obtain k where k: "unat u \<le> 2 ^ k" "2 ^ k < 2 * unat u"
    by (rule ex_power_above)
  have "k \<noteq> 64"
    using k(2) assms(2) by auto
  with power_window_le_64 [OF k(2)] have "k < 64"
    by simp
  with k that Up2PowerOf2_eq [of u k] show thesis
    by simp
qed

text \<open>A ring index is the position modulo the ring size, for a size that is a power of two.\<close>

lemma unat_GetIndex:
  assumes "k < 64"
  shows "unat (GetIndex i (2 ^ k)) = unat i mod 2 ^ k"
proof -
  have "(2 ^ k - 1 :: uint64_t) = mask k"
    by (simp add: mask_eq_exp_minus_1)
  then show ?thesis
    by (simp add: GetIndex_def unat_and_mask)
qed


lemma CalSize_wraps:
  assumes "2 ^ 32 - 16 < unat uSize"
  shows "unat (Entry_CalSize uSize) \<le> 8"
proof (cases "unat uSize + 7 < 2 ^ 32")
  case True
  have "unat (ALIGN8 uSize) = (unat uSize + 7) div 8 * 8"
    using True by (simp add: unat_ALIGN8)
  also have "(unat uSize + 7) div 8 = 2 ^ 29 - 1"
    using assms True by (intro div_nat_eqI) simp_all
  finally have "ALIGN8 uSize = - 8"
    by (simp flip: unat_eq_iff_eq)
  then show ?thesis
    by (simp add: Entry_CalSize_eq)
next
  case False
  have "unat (uSize + mask 3) = (unat uSize + 7) mod 2 ^ 32"
    by (simp add: unat_word_ariths unat_mask_word)
  also have "\<dots> = unat uSize + 7 - 2 ^ 32"
    using False unat_lt32 [of uSize] by (simp add: mod_if)
  finally have "unat (ALIGN8 uSize) = 0"
    using unat_lt32 [of uSize]
    by (simp add: ALIGN8_def ALIGNN_def mask_3 unat_and_not_mask)
  then show ?thesis
    by (simp add: Entry_CalSize_eq unat_eq_zero)
qed

section \<open>Properties\<close>

text \<open>
  Fact: \<open>Up2PowerOf2\<close> returns the least power of two that is at least its argument, for every
  argument that has such a power in 64 bits.
\<close>

theorem Up2PowerOf2_least:
  assumes "u \<noteq> 0" "unat u \<le> 2 ^ 63"
  shows "u \<le> Up2PowerOf2 u \<and> (\<exists>k<64. Up2PowerOf2 u = 2 ^ k) \<and>
    (\<forall>k<64. u \<le> 2 ^ k \<longrightarrow> Up2PowerOf2 u \<le> 2 ^ k)"
proof -
  obtain k where k: "k < 64" "Up2PowerOf2 u = 2 ^ k" "unat u \<le> 2 ^ k" "2 ^ k < 2 * unat u"
    using assms by (rule Up2PowerOf2_power)
  have "2 ^ k \<le> (2 :: nat) ^ j" if "unat u \<le> 2 ^ j" for j
  proof -
    have "(2 :: nat) ^ k < 2 ^ Suc j"
      using k(4) that by simp
    then have "k < Suc j"
      by (rule power_less_imp_less_exp [rotated]) simp
    then show ?thesis
      by (intro power_increasing) auto
  qed
  with k show ?thesis
    by (auto simp: word_le_nat_alt unat_power_two)
qed

theorem Up2PowerOf2_least_witness: "Up2PowerOf2 5 \<le> 8 \<and> 5 \<le> Up2PowerOf2 5"
proof -
  have "5 \<le> Up2PowerOf2 5 \<and> (\<forall>k<64. (5 :: uint64_t) \<le> 2 ^ k \<longrightarrow> Up2PowerOf2 5 \<le> 2 ^ k)"
    using Up2PowerOf2_least [of 5] by simp
  from this [THEN conjunct2, rule_format, of 3] this show ?thesis
    by simp
qed

text \<open>
  Fact: \<open>Entry::CalSize\<close> reserves room for the header and the data exactly for requests of at most
  2^32 - 16 bytes; above that its 32-bit arithmetic wraps and the entry is no larger than a header.
\<close>

theorem CalSize_room:
  "if unat uSize \<le> 2 ^ 32 - 16
   then unat uSize + 8 \<le> unat (Entry_CalSize uSize) \<and> unat (Entry_CalSize uSize) < unat uSize + 16 \<and>
     8 dvd unat (Entry_CalSize uSize)
   else unat (Entry_CalSize uSize) \<le> 8"
proof (cases "unat uSize \<le> 2 ^ 32 - 16")
  case True
  then have "unat (Entry_CalSize uSize) = (unat uSize + 7) div 8 * 8 + 8"
  proof (cases "unat uSize + 15 < 2 ^ 32")
    case False
    then have "uSize = - 16"
      using True by (simp flip: unat_eq_iff_eq)
    then show ?thesis
      by (simp add: Entry_CalSize_eq ALIGN8_def ALIGNN_def)
  qed (rule unat_CalSize)
  with True round8_bounds [of "unat uSize"] show ?thesis
    by simp
qed (simp add: CalSize_wraps)

end
