(* ===== verification/Allocator.thy ===== *)
theory Allocator
  imports Common
begin

text \<open>
  The allocator: \<open>base/sources/memory/allocator_impl.cpp\<close> and the typed wrapper
  \<open>base/include/memory/allocator_ex.h\<close>. The heap is the map from the address of each live block
  to its size. \<open>std::malloc\<close> may fail at any call and may return any fresh block, so its answer
  is an argument of the operations; \<open>malloc_fresh\<close> is what the C standard promises of it.
\<close>

type_synonym heap = "uint64_t \<rightharpoonup> uint64_t"

definition malloc_fresh :: "heap \<Rightarrow> pointer \<Rightarrow> bool" where
  "malloc_fresh h ans \<longleftrightarrow> (case ans of None \<Rightarrow> True | Some a \<Rightarrow> h a = None)"

text \<open>A block ends within the address space.\<close>

definition block_fits :: "uint64_t \<Rightarrow> nat \<Rightarrow> bool" where
  "block_fits a n \<longleftrightarrow> unat a + n \<le> 2 ^ 64"

section \<open>CAllocatorImpl\<close>

definition CAllocatorImpl_Malloc :: "pointer \<Rightarrow> uint64_t \<Rightarrow> heap \<Rightarrow> pointer \<times> heap" where
  "CAllocatorImpl_Malloc ans uSize h =
     (case ans of None \<Rightarrow> (nullptr, h) | Some a \<Rightarrow> (Some a, h(a \<mapsto> uSize)))"

definition CAllocatorImpl_Free :: "pointer \<Rightarrow> heap \<Rightarrow> heap" where
  "CAllocatorImpl_Free pMem h = (case pMem of None \<Rightarrow> h | Some a \<Rightarrow> h(a := None))"

definition CAllocatorImpl_Init :: ErrorCode where
  "CAllocatorImpl_Init = kSuccess"

definition CAllocatorImpl_Exit :: "heap \<Rightarrow> heap" where
  "CAllocatorImpl_Exit h = h"

text \<open>\<open>GetStats\<close> only clears the object it is given; \<open>clear\<close> is that object's \<open>Clear\<close>.\<close>

definition CAllocatorImpl_GetStats :: "('j \<Rightarrow> 'j) \<Rightarrow> 'j option \<Rightarrow> 'j option \<times> ErrorCode" where
  "CAllocatorImpl_GetStats clear pJson = (map_option clear pJson, kSuccess)"

text \<open>An allocator of its own; \<open>ans\<close> is the answer of \<open>new (std::nothrow)\<close>.\<close>

definition IAllocator_Create :: "pointer \<Rightarrow> uint64_t \<Rightarrow> heap \<Rightarrow> pointer \<times> heap" where
  "IAllocator_Create ans sizeof_CAllocatorImpl h =
     (case ans of None \<Rightarrow> (nullptr, h) | Some a \<Rightarrow> (Some a, h(a \<mapsto> sizeof_CAllocatorImpl)))"

definition IAllocator_Destroy :: "pointer \<Rightarrow> heap \<Rightarrow> heap" where
  "IAllocator_Destroy pAllocator h = (case pAllocator of None \<Rightarrow> h | Some a \<Rightarrow> h(a := None))"

section \<open>The singleton\<close>

text \<open>
  \<open>GetInstance\<close> tests \<open>s_pAllocator\<close> before and again under the mutex. \<open>seen\<close> is the value the
  first, unlocked test read; \<open>s_pAllocator\<close> is the value under the lock.
\<close>

definition IAllocator_GetInstance ::
  "pointer \<Rightarrow> pointer \<Rightarrow> pointer \<Rightarrow> last_error \<Rightarrow> pointer \<times> pointer \<times> last_error" where
  "IAllocator_GetInstance seen ans s_pAllocator e =
     (if seen \<noteq> nullptr then (seen, s_pAllocator, e)
      else if s_pAllocator \<noteq> nullptr then (s_pAllocator, s_pAllocator, e)
      else case ans of
          None \<Rightarrow> (nullptr, nullptr, SetLastError kOutOfMemory e)
        | Some a \<Rightarrow>
            (if CAllocatorImpl_Init \<noteq> kSuccess
             then (nullptr, Some a, SetLastError CAllocatorImpl_Init e)
             else (Some a, Some a, e)))"

text \<open>
  Calls in the order in which they take the lock. Each of them saw either nothing or the value
  that was already stored.
\<close>

fun GetInstance_calls ::
  "(bool \<times> pointer) list \<Rightarrow> pointer \<Rightarrow> last_error \<Rightarrow> pointer list" where
  "GetInstance_calls [] s e = []"
| "GetInstance_calls ((stale, ans) # cs) s e =
     (case IAllocator_GetInstance (if stale then nullptr else s) ans s e of
        (r, s', e') \<Rightarrow> r # GetInstance_calls cs s' e')"

lemma GetInstance_stored:
  "seen = nullptr \<or> seen = Some a \<Longrightarrow>
     IAllocator_GetInstance seen ans (Some a) e = (Some a, Some a, e)"
  by (auto simp: IAllocator_GetInstance_def)

lemma GetInstance_calls_set:
  "r \<in> set (GetInstance_calls cs (Some a) e) \<Longrightarrow> r = Some a"
  by (induction cs arbitrary: e) (auto simp: GetInstance_stored split: prod.splits)

section \<open>IAllocatorEx\<close>

text \<open>
  \<open>New<T>\<close>: \<open>ctor\<close> is the constructor of \<open>T\<close>, which returns the object or throws. The raw memory
  is released when it throws.
\<close>

definition IAllocatorEx_New ::
  "pointer \<Rightarrow> uint64_t \<Rightarrow> 't option \<Rightarrow> heap \<Rightarrow> (uint64_t \<times> 't) option \<times> heap" where
  "IAllocatorEx_New ans sizeof_T ctor h =
     (case CAllocatorImpl_Malloc ans sizeof_T h of
        (None, h) \<Rightarrow> (nullptr, h)
      | (Some pMem, h) \<Rightarrow>
          (case ctor of
             Some t \<Rightarrow> (Some (pMem, t), h)
           | None \<Rightarrow> (nullptr, CAllocatorImpl_Free (Some pMem) h)))"

text \<open>\<open>Delete<T>\<close> runs the destructor, here its effect on the heap, and frees the block.\<close>

definition IAllocatorEx_Delete :: "pointer \<Rightarrow> (heap \<Rightarrow> heap) \<Rightarrow> heap \<Rightarrow> heap" where
  "IAllocatorEx_Delete pMem destructor h =
     (case pMem of None \<Rightarrow> h | Some a \<Rightarrow> CAllocatorImpl_Free (Some a) (destructor h))"

lemma Free_Malloc:
  assumes "malloc_fresh h ans" "CAllocatorImpl_Malloc ans n h = (p, h')"
  shows "CAllocatorImpl_Free p h' = h"
  using assms
  by (auto simp: malloc_fresh_def CAllocatorImpl_Malloc_def CAllocatorImpl_Free_def
      split: option.splits)

lemma New_null_heap:
  assumes "malloc_fresh h ans" "IAllocatorEx_New ans n ctor h = (None, h')"
  shows "h' = h"
  using assms
  by (auto simp: IAllocatorEx_New_def malloc_fresh_def CAllocatorImpl_Malloc_def
      CAllocatorImpl_Free_def split: option.splits)

section \<open>Properties\<close>

text \<open>
  Fact: every call of \<open>IAllocator::GetInstance\<close> returns the same object once one call has
  succeeded, whether its unlocked test saw the stored pointer or not, and whatever the later
  allocations would have answered.
\<close>

theorem GetInstance_unique:
  "set (GetInstance_calls ((stale, Some a) # cs) nullptr e) = {Some a}"
  by (auto simp: IAllocator_GetInstance_def CAllocatorImpl_Init_def dest: GetInstance_calls_set)

text \<open>
  Fact: \<open>IAllocatorEx::New\<close> followed by \<open>Delete\<close> leaves the heap as it was, and so does a \<open>New\<close> whose
  constructor throws or whose allocation fails: no path of the pair leaks or frees twice.
\<close>

theorem New_Delete_balanced:
  assumes "malloc_fresh h ans" "IAllocatorEx_New ans sizeof_T ctor h = (r, h')"
  shows "IAllocatorEx_Delete (map_option fst r) id h' = h"
proof (cases r)
  case None
  with assms New_null_heap show ?thesis
    by (auto simp: IAllocatorEx_Delete_def)
next
  case (Some x)
  with assms Free_Malloc [of h ans] show ?thesis
    by (auto simp: IAllocatorEx_New_def IAllocatorEx_Delete_def split: option.splits prod.splits)
qed

theorem New_Delete_balanced_witness:
  "IAllocatorEx_Delete (Some 64) id [64 \<mapsto> (16 :: uint64_t)] = Map.empty"
proof -
  have "malloc_fresh Map.empty (Some 64)"
    by (simp add: malloc_fresh_def)
  moreover have "IAllocatorEx_New (Some 64) 16 (Some ()) Map.empty = (Some (64, ()), [64 \<mapsto> 16])"
    by (simp add: IAllocatorEx_New_def CAllocatorImpl_Malloc_def)
  ultimately show ?thesis
    using New_Delete_balanced by fastforce
qed

end
