(* ===== verification/Fifo.thy ===== *)
theory Fifo
  imports "HOL-Library.Sublist"
begin

text \<open>
  The contract a channel offers to the code that uses it: pushing and popping act on an abstract
  list, first in, first out. The locale \<open>lossy_fifo\<close> is the contract of every channel: what is
  pushed has to be an \<open>item\<close>, it comes out as \<open>val\<close> tells, and values that are \<open>lossy\<close> may get lost.
  In a \<open>fifo\<close> nothing gets lost, and \<open>bounded_fifo\<close> adds the exact capacity of the fixed-size
  channel. A budget bounds the number of pushes before the 64-bit position counters of the
  implementation would wrap.
\<close>

datatype 'a queue_op = Push 'a | Pop

datatype 'a queue_res = Pushed bool | Popped "'a option"

fun run_queue ::
  "('a \<Rightarrow> 's \<Rightarrow> 's \<times> bool) \<Rightarrow> ('s \<Rightarrow> 's \<times> 'b option) \<Rightarrow> 's \<Rightarrow> 'a queue_op list \<Rightarrow>
     's \<times> 'b queue_res list" where
  "run_queue push pop s [] = (s, [])"
| "run_queue push pop s (Push x # ops) =
     (let (s', ok) = push x s; (t, rs) = run_queue push pop s' ops in (t, Pushed ok # rs))"
| "run_queue push pop s (Pop # ops) =
     (let (s', r) = pop s; (t, rs) = run_queue push pop s' ops in (t, Popped r # rs))"

text \<open>The values that were accepted, and the values that came out, in order.\<close>

fun accepted :: "'a queue_op list \<Rightarrow> 'b queue_res list \<Rightarrow> 'a list" where
  "accepted (Push x # ops) (Pushed ok # rs) = (if ok then x # accepted ops rs else accepted ops rs)"
| "accepted (Pop # ops) (r # rs) = accepted ops rs"
| "accepted _ _ = []"

lemma accepted_pushed: "x \<in> set (accepted ops rs) \<Longrightarrow> Push x \<in> set ops"
  by (induction ops rs rule: accepted.induct) (auto split: if_splits)

fun delivered :: "'a queue_res list \<Rightarrow> 'a list" where
  "delivered [] = []"
| "delivered (Popped (Some x) # rs) = x # delivered rs"
| "delivered (_ # rs) = delivered rs"

text \<open>The specification of a bounded queue, on lists.\<close>

definition spec_push :: "nat \<Rightarrow> 'a \<Rightarrow> 'a list \<Rightarrow> 'a list \<times> bool" where
  "spec_push cap x q = (if length q < cap then (q @ [x], True) else (q, False))"

fun spec_pop :: "'a list \<Rightarrow> 'a list \<times> 'a option" where
  "spec_pop [] = ([], None)"
| "spec_pop (x # q) = (q, Some x)"

locale lossy_fifo =
  fixes push :: "'a \<Rightarrow> 's \<Rightarrow> 's \<times> bool"
    and pop :: "'s \<Rightarrow> 's \<times> 'b option"
    and val :: "'a \<Rightarrow> 'b"
    and item :: "'a \<Rightarrow> bool"
    and lossy :: "'b \<Rightarrow> bool"
    and abs_q :: "'s \<Rightarrow> 'b list"
    and inv_q :: "'s \<Rightarrow> bool"
    and budget :: "'s \<Rightarrow> nat"
  assumes push_inv: "inv_q s \<Longrightarrow> 0 < budget s \<Longrightarrow> item x \<Longrightarrow> push x s = (t, ok) \<Longrightarrow> inv_q t"
    and push_abs: "inv_q s \<Longrightarrow> 0 < budget s \<Longrightarrow> item x \<Longrightarrow> push x s = (t, ok) \<Longrightarrow>
      abs_q t = (if ok then abs_q s @ [val x] else abs_q s) \<or>
      ok \<and> lossy (val x) \<and> abs_q t = abs_q s"
    and push_budget: "inv_q s \<Longrightarrow> 0 < budget s \<Longrightarrow> item x \<Longrightarrow> push x s = (t, ok) \<Longrightarrow>
      budget s \<le> budget t + 1"
    and pop_inv: "inv_q s \<Longrightarrow> pop s = (t, r) \<Longrightarrow> inv_q t"
    and pop_abs: "inv_q s \<Longrightarrow> pop s = (t, r) \<Longrightarrow> (abs_q t, r) = spec_pop (abs_q s)"
    and pop_budget: "inv_q s \<Longrightarrow> pop s = (t, r) \<Longrightarrow> budget t = budget s"
begin

lemma run_budget:
  "inv_q s \<Longrightarrow> length ops \<le> budget s \<Longrightarrow> (\<And>x. Push x \<in> set ops \<Longrightarrow> item x) \<Longrightarrow>
     run_queue push pop s ops = (t, rs) \<Longrightarrow> inv_q t \<and> budget s \<le> budget t + length ops"
proof (induction ops arbitrary: s t rs)
  case (Cons op ops)
  show ?case
  proof (cases op)
    case (Push x)
    obtain s' ok where s': "push x s = (s', ok)" by fastforce
    have "inv_q s'" "length ops \<le> budget s'" "budget s \<le> budget s' + 1"
      using Cons.prems(1,2,3) Push push_inv [OF _ _ _ s'] push_budget [OF _ _ _ s'] by auto
    with Cons.IH [of s'] Cons.prems(3,4) Push s' show ?thesis
      by (fastforce split: prod.splits)
  next
    case Pop
    obtain s' r where s': "pop s = (s', r)" by fastforce
    have "inv_q s'" "budget s' = budget s"
      using Cons.prems(1) pop_inv [OF _ s'] pop_budget [OF _ s'] by auto
    with Cons.IH [of s'] Cons.prems(2-4) Pop s' show ?thesis
      by (fastforce split: prod.splits)
  qed
qed simp

text \<open>
  What was in the queue, then what was accepted, is what came out, then what is left; only lossy
  values may be missing.
\<close>

lemma run_conserves:
  "inv_q s \<Longrightarrow> length ops \<le> budget s \<Longrightarrow> (\<And>x. Push x \<in> set ops \<Longrightarrow> item x) \<Longrightarrow>
     run_queue push pop s ops = (t, rs) \<Longrightarrow>
     subseq (delivered rs @ abs_q t) (abs_q s @ map val (accepted ops rs)) \<and>
     filter (\<lambda>v. \<not> lossy v) (delivered rs @ abs_q t) =
       filter (\<lambda>v. \<not> lossy v) (abs_q s @ map val (accepted ops rs))"
proof (induction ops arbitrary: s t rs)
  case (Cons op ops)
  show ?case
  proof (cases op)
    case (Push x)
    obtain s' ok where s': "push x s = (s', ok)" by fastforce
    obtain rs' where rs': "run_queue push pop s' ops = (t, rs')" "rs = Pushed ok # rs'"
      using Cons.prems(4) Push s' by (auto split: prod.splits)
    have A: "abs_q s' = (if ok then abs_q s @ [val x] else abs_q s) \<or>
        ok \<and> lossy (val x) \<and> abs_q s' = abs_q s"
      and "inv_q s'" "length ops \<le> budget s'"
      using Cons.prems(1,2,3) Push push_inv [OF _ _ _ s'] push_budget [OF _ _ _ s']
        push_abs [OF _ _ _ s'] by auto
    then have IH: "subseq (delivered rs' @ abs_q t) (abs_q s' @ map val (accepted ops rs'))"
      "filter (\<lambda>v. \<not> lossy v) (delivered rs' @ abs_q t) =
        filter (\<lambda>v. \<not> lossy v) (abs_q s' @ map val (accepted ops rs'))"
      using Cons.IH [OF _ _ _ rs'(1)] Cons.prems(3) by auto
    have more: "subseq (abs_q s @ map val (accepted ops rs')) (abs_q s @ val x # map val (accepted ops rs'))"
      by (intro list_emb_append_mono list_emb_Cons subseq_order.order_refl)
    from A consider (kept) "abs_q s' = (if ok then abs_q s @ [val x] else abs_q s)"
      | (lost) "ok" "lossy (val x)" "abs_q s' = abs_q s"
      by blast
    then show ?thesis
    proof cases
      case kept
      with IH rs'(2) Push show ?thesis by (cases ok) simp_all
    next
      case lost
      have "subseq (delivered rs' @ abs_q t) (abs_q s @ val x # map val (accepted ops rs'))"
        using IH(1) more unfolding lost(3) by (rule subseq_order.order_trans)
      with IH(2) lost rs'(2) Push show ?thesis by simp
    qed
  next
    case Pop
    obtain s' r where s': "pop s = (s', r)" by fastforce
    obtain rs' where rs': "run_queue push pop s' ops = (t, rs')" "rs = Popped r # rs'"
      using Cons.prems(4) Pop s' by (auto split: prod.splits)
    have "inv_q s'" "length ops \<le> budget s'" "(abs_q s', r) = spec_pop (abs_q s)"
      using Cons.prems(1,2) pop_inv [OF _ s'] pop_budget [OF _ s'] pop_abs [OF _ s'] by auto
    then show ?thesis
      using Cons.IH [OF _ _ _ rs'(1)] Cons.prems(3) rs'(2) Pop by (cases "abs_q s") auto
  qed
qed simp

end

locale fifo =
  fixes push :: "'a \<Rightarrow> 's \<Rightarrow> 's \<times> bool"
    and pop :: "'s \<Rightarrow> 's \<times> 'a option"
    and abs_q :: "'s \<Rightarrow> 'a list"
    and inv_q :: "'s \<Rightarrow> bool"
    and budget :: "'s \<Rightarrow> nat"
  assumes push_inv: "inv_q s \<Longrightarrow> 0 < budget s \<Longrightarrow> push x s = (t, ok) \<Longrightarrow> inv_q t"
    and push_abs: "inv_q s \<Longrightarrow> 0 < budget s \<Longrightarrow> push x s = (t, ok) \<Longrightarrow>
      abs_q t = (if ok then abs_q s @ [x] else abs_q s)"
    and push_budget: "inv_q s \<Longrightarrow> 0 < budget s \<Longrightarrow> push x s = (t, ok) \<Longrightarrow> budget s \<le> budget t + 1"
    and pop_inv: "inv_q s \<Longrightarrow> pop s = (t, r) \<Longrightarrow> inv_q t"
    and pop_abs: "inv_q s \<Longrightarrow> pop s = (t, r) \<Longrightarrow> (abs_q t, r) = spec_pop (abs_q s)"
    and pop_budget: "inv_q s \<Longrightarrow> pop s = (t, r) \<Longrightarrow> budget t = budget s"

sublocale fifo \<subseteq> exact: lossy_fifo push pop "\<lambda>x. x" "\<lambda>_. True" "\<lambda>_. False" abs_q inv_q budget
proof
  show "inv_q s \<Longrightarrow> 0 < budget s \<Longrightarrow> push x s = (t, ok) \<Longrightarrow>
      abs_q t = (if ok then abs_q s @ [x] else abs_q s) \<or> ok \<and> False \<and> abs_q t = abs_q s" for s x t ok
    using push_abs by blast
qed (fact pop_inv pop_abs pop_budget | erule (2) push_inv push_budget)+

context fifo
begin

lemma run_inv:
  "inv_q s \<Longrightarrow> length ops \<le> budget s \<Longrightarrow> run_queue push pop s ops = (t, rs) \<Longrightarrow> inv_q t"
  using exact.run_budget by blast

lemma run_conserves:
  assumes "inv_q s" "length ops \<le> budget s" "run_queue push pop s ops = (t, rs)"
  shows "abs_q s @ accepted ops rs = delivered rs @ abs_q t"
  using exact.run_conserves [OF assms(1,2) TrueI assms(3)] by simp

end

locale bounded_fifo = fifo push pop abs_q inv_q budget
  for push :: "'a \<Rightarrow> 's \<Rightarrow> 's \<times> bool" and pop abs_q inv_q budget +
  fixes cap :: "'s \<Rightarrow> nat"
  assumes push_ok_iff: "inv_q s \<Longrightarrow> 0 < budget s \<Longrightarrow> push x s = (t, ok) \<Longrightarrow>
      ok \<longleftrightarrow> length (abs_q s) < cap s"
    and push_cap: "inv_q s \<Longrightarrow> 0 < budget s \<Longrightarrow> push x s = (t, ok) \<Longrightarrow> cap t = cap s"
    and pop_cap: "inv_q s \<Longrightarrow> pop s = (t, r) \<Longrightarrow> cap t = cap s"
begin

text \<open>The implementation and the specification give the same answers on every run.\<close>

lemma run_refines:
  "inv_q s \<Longrightarrow> length ops \<le> budget s \<Longrightarrow> run_queue push pop s ops = (t, rs) \<Longrightarrow>
     run_queue (spec_push (cap s)) spec_pop (abs_q s) ops = (abs_q t, rs)"
proof (induction ops arbitrary: s t rs)
  case (Cons op ops)
  show ?case
  proof (cases op)
    case (Push x)
    obtain s' ok where s': "push x s = (s', ok)" by fastforce
    obtain rs' where rs': "run_queue push pop s' ops = (t, rs')" "rs = Pushed ok # rs'"
      using Cons.prems(3) Push s' by (auto split: prod.splits)
    have "inv_q s'" "length ops \<le> budget s'" "cap s' = cap s"
      "spec_push (cap s) x (abs_q s) = (abs_q s', ok)"
      using Cons.prems(1,2) push_inv [OF _ _ s'] push_budget [OF _ _ s'] push_abs [OF _ _ s']
        push_ok_iff [OF _ _ s'] push_cap [OF _ _ s'] by (auto simp: spec_push_def)
    moreover from this have "run_queue (spec_push (cap s)) spec_pop (abs_q s') ops = (abs_q t, rs')"
      using Cons.IH [OF _ _ rs'(1)] by simp
    ultimately show ?thesis
      using rs'(2) Push by simp
  next
    case Pop
    obtain s' r where s': "pop s = (s', r)" by fastforce
    obtain rs' where rs': "run_queue push pop s' ops = (t, rs')" "rs = Popped r # rs'"
      using Cons.prems(3) Pop s' by (auto split: prod.splits)
    have "inv_q s'" "length ops \<le> budget s'" "spec_pop (abs_q s) = (abs_q s', r)" "cap s' = cap s"
      using Cons.prems(1,2) pop_inv [OF _ s'] pop_budget [OF _ s'] pop_abs [OF _ s'] pop_cap [OF _ s']
      by auto
    moreover from this have "run_queue (spec_push (cap s)) spec_pop (abs_q s') ops = (abs_q t, rs')"
      using Cons.IH [OF _ _ rs'(1)] by simp
    ultimately show ?thesis
      using rs'(2) Pop by simp
  qed
qed simp

end

end
