(* ===== verification/FixedChannel.thy ===== *)
theory FixedChannel
  imports ChannelCommon Allocator Fifo
begin

text \<open>
  The single-producer single-consumer channel of fixed-size elements:
  \<open>base/sources/channel/spsc_fixed_bounded_channel.{h,cpp}\<close> and the typed wrapper \<open>IChannelEx\<close> of
  \<open>base/include/channel/channel_ex.h\<close>. The element storage is a function \<open>mem\<close> from the address of a
  slot to the object stored there.
\<close>

section \<open>State\<close>

record CSPSCFixedBoundedChannel =
  m_pDatap :: pointer
  m_uElemSizep :: uint64_t
  m_uSizep :: uint64_t
  m_uTail :: uint64_t
  m_uHeadRef :: uint64_t
  m_Statsp :: ChannelStats
  m_pDatac :: pointer
  m_uElemSizec :: uint64_t
  m_uSizec :: uint64_t
  m_uHead :: uint64_t
  m_uTailRef :: uint64_t
  m_Statsc :: ChannelStats

text \<open>The default constructor.\<close>

definition SPSCFixed_default :: CSPSCFixedBoundedChannel where
  "SPSCFixed_default =
     \<lparr>m_pDatap = nullptr, m_uElemSizep = 0, m_uSizep = 0, m_uTail = 0, m_uHeadRef = 0,
      m_Statsp = ChannelStats_Reset, m_pDatac = nullptr, m_uElemSizec = 0, m_uSizec = 0,
      m_uHead = 0, m_uTailRef = 0, m_Statsc = ChannelStats_Reset\<rparr>"

section \<open>Operations\<close>

text \<open>The destructor frees the storage.\<close>

definition SPSCFixed_destructor :: "CSPSCFixedBoundedChannel \<Rightarrow> heap \<Rightarrow> heap" where
  "SPSCFixed_destructor c h =
     (if m_pDatap c \<noteq> nullptr then CAllocatorImpl_Free (m_pDatap c) h else h)"

definition SPSCFixed_Init ::
  "pointer \<Rightarrow> uint64_t \<Rightarrow> uint64_t \<Rightarrow> CSPSCFixedBoundedChannel \<Rightarrow> heap \<Rightarrow> last_error \<Rightarrow>
     CSPSCFixedBoundedChannel \<times> heap \<times> last_error \<times> ErrorCode" where
  "SPSCFixed_Init ans uElemSize uSize c h e =
     (if uElemSize = 0 \<or> uSize = 0
      then (c, h, SetLastError kInvalidParam e, kInvalidParam)
      else
        let elem = ALIGN8 uElemSize; size = Up2PowerOf2 uSize;
            c = c\<lparr>m_uElemSizep := elem, m_uElemSizec := elem, m_uSizep := size, m_uSizec := size,
                  m_uTail := 0, m_uHead := 0, m_uTailRef := 0, m_uHeadRef := 0,
                  m_Statsp := ChannelStats_Reset, m_Statsc := ChannelStats_Reset\<rparr>
        in case CAllocatorImpl_Malloc ans (size * elem) h of
             (None, h) \<Rightarrow> (c, h, SetLastError kOutOfMemory e, kOutOfMemory)
           | (Some pData, h) \<Rightarrow>
               (c\<lparr>m_pDatap := Some pData, m_pDatac := Some pData\<rparr>, h, e, kSuccess))"

text \<open>\<open>&m_pData[GetIndex(i, size) * elem]\<close>.\<close>

definition SPSCFixed_slot :: "pointer \<Rightarrow> uint64_t \<Rightarrow> uint64_t \<Rightarrow> uint64_t \<Rightarrow> pointer" where
  "SPSCFixed_slot pData i uSize uElemSize =
     map_option (\<lambda>p. p + GetIndex i uSize * uElemSize) pData"

definition SPSCFixed_New ::
  "CSPSCFixedBoundedChannel \<Rightarrow> CSPSCFixedBoundedChannel \<times> pointer" where
  "SPSCFixed_New c =
     (if m_uTail c - m_uHeadRef c < m_uSizep c
      then (c\<lparr>m_Statsp := (m_Statsp c)\<lparr>uCount := uCount (m_Statsp c) + 1\<rparr>\<rparr>,
            SPSCFixed_slot (m_pDatap c) (m_uTail c) (m_uSizep c) (m_uElemSizep c))
      else
        let c = c\<lparr>m_uHeadRef := m_uHead c\<rparr>
        in if m_uTail c - m_uHeadRef c < m_uSizep c
           then (c\<lparr>m_Statsp := (m_Statsp c)\<lparr>uCount := uCount (m_Statsp c) + 1\<rparr>\<rparr>,
                 SPSCFixed_slot (m_pDatap c) (m_uTail c) (m_uSizep c) (m_uElemSizep c))
           else (c\<lparr>m_Statsp := (m_Statsp c)\<lparr>uFailed := uFailed (m_Statsp c) + 1\<rparr>\<rparr>, nullptr))"

text \<open>\<open>New(uint32_t)\<close> is not an operation of a fixed-size channel.\<close>

definition SPSCFixed_New_sized ::
  "uint32_t \<Rightarrow> CSPSCFixedBoundedChannel \<Rightarrow> last_error \<Rightarrow>
     CSPSCFixedBoundedChannel \<times> last_error \<times> pointer" where
  "SPSCFixed_New_sized uSize c e = (c, SetLastError kInvalidCall e, nullptr)"

definition SPSCFixed_Post ::
  "pointer \<Rightarrow> CSPSCFixedBoundedChannel \<Rightarrow> CSPSCFixedBoundedChannel" where
  "SPSCFixed_Post pData c =
     (if pData \<noteq> nullptr
      then c\<lparr>m_uTail := m_uTail c + 1,
             m_Statsp := (m_Statsp c)\<lparr>uCount2 := uCount2 (m_Statsp c) + 1\<rparr>\<rparr>
      else c\<lparr>m_Statsp := (m_Statsp c)\<lparr>uFailed2 := uFailed2 (m_Statsp c) + 1\<rparr>\<rparr>)"

definition SPSCFixed_Get ::
  "CSPSCFixedBoundedChannel \<Rightarrow> CSPSCFixedBoundedChannel \<times> pointer" where
  "SPSCFixed_Get c =
     (if m_uHead c < m_uTailRef c
      then (c\<lparr>m_Statsc := (m_Statsc c)\<lparr>uCount := uCount (m_Statsc c) + 1\<rparr>\<rparr>,
            SPSCFixed_slot (m_pDatac c) (m_uHead c) (m_uSizec c) (m_uElemSizec c))
      else
        let c = c\<lparr>m_uTailRef := m_uTail c\<rparr>
        in if m_uHead c < m_uTailRef c
           then (c\<lparr>m_Statsc := (m_Statsc c)\<lparr>uCount := uCount (m_Statsc c) + 1\<rparr>\<rparr>,
                 SPSCFixed_slot (m_pDatac c) (m_uHead c) (m_uSizec c) (m_uElemSizec c))
           else (c\<lparr>m_Statsc := (m_Statsc c)\<lparr>uFailed := uFailed (m_Statsc c) + 1\<rparr>\<rparr>, nullptr))"

definition SPSCFixed_Delete ::
  "pointer \<Rightarrow> CSPSCFixedBoundedChannel \<Rightarrow> CSPSCFixedBoundedChannel" where
  "SPSCFixed_Delete pData c =
     (if pData \<noteq> nullptr
      then c\<lparr>m_uHead := m_uHead c + 1,
             m_Statsc := (m_Statsc c)\<lparr>uCount2 := uCount2 (m_Statsc c) + 1\<rparr>\<rparr>
      else c\<lparr>m_Statsc := (m_Statsc c)\<lparr>uFailed2 := uFailed2 (m_Statsc c) + 1\<rparr>\<rparr>)"

definition SPSCFixed_IsEmpty :: "CSPSCFixedBoundedChannel \<Rightarrow> bool" where
  "SPSCFixed_IsEmpty c \<longleftrightarrow> m_uHead c = m_uTail c"

definition SPSCFixed_GetSize :: "CSPSCFixedBoundedChannel \<Rightarrow> uint32_t" where
  "SPSCFixed_GetSize c = ucast (m_uTail c - m_uHead c)"

text \<open>
  \<open>GetStats\<close>, as the calls it makes on the statistics object: the sub-object, the key and the
  value narrowed to \<open>uint32_t\<close>. \<open>made\<close> says whether \<open>SetObject\<close> returned a sub-object.
\<close>

definition SPSCFixed_GetStats ::
  "bool \<Rightarrow> (string \<Rightarrow> bool) \<Rightarrow> CSPSCFixedBoundedChannel \<Rightarrow>
     (string \<times> string \<times> uint32_t) list \<times> ErrorCode" where
  "SPSCFixed_GetStats present made c =
     (if present
      then ((if made ''producer'' then
               [(''producer'', ''New'', ucast (uCount (m_Statsp c))),
                (''producer'', ''NewFailed'', ucast (uFailed (m_Statsp c))),
                (''producer'', ''Post'', ucast (uCount2 (m_Statsp c))),
                (''producer'', ''PostFailed'', ucast (uFailed2 (m_Statsp c)))]
             else []) @
            (if made ''consumer'' then
               [(''consumer'', ''Get'', ucast (uCount (m_Statsc c))),
                (''consumer'', ''GetFailed'', ucast (uFailed (m_Statsc c))),
                (''consumer'', ''Delete'', ucast (uCount2 (m_Statsc c))),
                (''consumer'', ''DeleteFailed'', ucast (uFailed2 (m_Statsc c)))]
             else []), kSuccess)
      else ([], kInvalidParam))"

section \<open>Creating and destroying\<close>

text \<open>
  \<open>Create\<close> and \<open>Destroy\<close> of \<open>SPSCFixedBoundedChannel\<close>. \<open>ans1\<close> is the answer of the allocation of
  the object, \<open>ans2\<close> that of its storage.
\<close>

definition SPSCFixed_Create ::
  "pointer \<Rightarrow> pointer \<Rightarrow> uint64_t \<Rightarrow> ChannelConfig option \<Rightarrow> heap \<Rightarrow> last_error \<Rightarrow>
     (uint64_t \<times> CSPSCFixedBoundedChannel) option \<times> heap \<times> last_error" where
  "SPSCFixed_Create ans1 ans2 sizeof_T pConfig h e =
     (case pConfig of
        None \<Rightarrow> (nullptr, h, e)
      | Some cfg \<Rightarrow>
          (case IAllocatorEx_New ans1 sizeof_T (Some SPSCFixed_default) h of
             (None, h) \<Rightarrow> (nullptr, h, e)
           | (Some (pChannel, c), h) \<Rightarrow>
               (case SPSCFixed_Init ans2 (ucast (uElementSize cfg)) (ucast (uMaxElementCount cfg)) c h e
                of (c, h, e, iErrorNo) \<Rightarrow>
                  if iErrorNo \<noteq> kSuccess
                  then (nullptr, IAllocatorEx_Delete (Some pChannel) (SPSCFixed_destructor c) h, e)
                  else (Some (pChannel, c), h, e))))"

definition SPSCFixed_Destroy ::
  "(uint64_t \<times> CSPSCFixedBoundedChannel) option \<Rightarrow> heap \<Rightarrow> heap" where
  "SPSCFixed_Destroy pChannel h =
     (case pChannel of
        None \<Rightarrow> IAllocatorEx_Delete nullptr id h
      | Some (p, c) \<Rightarrow> IAllocatorEx_Delete (Some p) (SPSCFixed_destructor c) h)"

section \<open>The typed wrapper\<close>

text \<open>
  \<open>IChannelEx::Push\<close>: \<open>ctor\<close> is the element built in the slot, or none when the constructor
  throws. In that case the slot is marked by \<open>SetInvalid\<close>, where the type has it, and still
  posted; \<open>garbage\<close> is what the failed construction leaves in the slot.
\<close>

definition IChannelEx_Push ::
  "('a \<Rightarrow> 'a) \<Rightarrow> 'a \<Rightarrow> 'a option \<Rightarrow> CSPSCFixedBoundedChannel \<times> (uint64_t \<Rightarrow> 'a) \<Rightarrow>
     (CSPSCFixedBoundedChannel \<times> (uint64_t \<Rightarrow> 'a)) \<times> int" where
  "IChannelEx_Push call_set_invalid garbage ctor s =
     (case s of (c, mem) \<Rightarrow>
       (case SPSCFixed_New c of
          (c, None) \<Rightarrow> ((c, mem), -1)
        | (c, Some pData) \<Rightarrow>
            (case ctor of
               Some t \<Rightarrow> ((SPSCFixed_Post (Some pData) c, mem(pData := t)), 0)
             | None \<Rightarrow>
                 ((SPSCFixed_Post (Some pData) c, mem(pData := call_set_invalid garbage)), -1))))"

text \<open>
  \<open>IChannelEx::Pop\<close>: when the move assignment throws (\<open>moved\<close> is false) the element stays in
  the channel.
\<close>

definition IChannelEx_Pop ::
  "bool \<Rightarrow> CSPSCFixedBoundedChannel \<times> (uint64_t \<Rightarrow> 'a) \<Rightarrow>
     (CSPSCFixedBoundedChannel \<times> (uint64_t \<Rightarrow> 'a)) \<times> 'a option \<times> int" where
  "IChannelEx_Pop moved s =
     (case s of (c, mem) \<Rightarrow>
       (case SPSCFixed_Get c of
          (c, None) \<Rightarrow> ((c, mem), None, -1)
        | (c, Some pData) \<Rightarrow>
            if moved then ((SPSCFixed_Delete (Some pData) c, mem), Some (mem pData), 0)
            else ((c, mem), None, -1)))"

end
