(* ===== verification/FixedQueue.thy ===== *)
theory FixedQueue
  imports FixedChannel
begin

text \<open>
  The fixed-size channel is a bounded queue: the invariant of its positions and geometry, what
  each operation does under it, and the interpretation of the queue contract on \<open>Push\<close> and \<open>Pop\<close>.
\<close>

section \<open>Geometry and invariant\<close>

definition fixed_cap :: "CSPSCFixedBoundedChannel \<Rightarrow> nat" where
  "fixed_cap c = unat (m_uSizep c)"

definition slot_addr :: "CSPSCFixedBoundedChannel \<Rightarrow> uint64_t \<Rightarrow> uint64_t" where
  "slot_addr c i = the (SPSCFixed_slot (m_pDatap c) i (m_uSizep c) (m_uElemSizep c))"

definition geometry :: "CSPSCFixedBoundedChannel \<Rightarrow> pointer \<times> uint64_t \<times> uint64_t" where
  "geometry c = (m_pDatap c, m_uSizep c, m_uElemSizep c)"

text \<open>
  The storage is allocated, both sides agree on it, the size is a power of two and the slots do
  not wrap around the address space.
\<close>

definition fixed_geom :: "CSPSCFixedBoundedChannel \<Rightarrow> bool" where
  "fixed_geom c \<longleftrightarrow>
     m_pDatap c \<noteq> nullptr \<and> m_pDatac c = m_pDatap c \<and> m_uSizec c = m_uSizep c \<and>
     m_uElemSizec c = m_uElemSizep c \<and> 0 < m_uElemSizep c \<and>
     (\<exists>k<64. m_uSizep c = 2 ^ k) \<and>
     unat (the (m_pDatap c)) + fixed_cap c * unat (m_uElemSizep c) \<le> 2 ^ 64"

definition fixed_inv :: "CSPSCFixedBoundedChannel \<Rightarrow> bool" where
  "fixed_inv c \<longleftrightarrow> fixed_geom c \<and>
     unat (m_uHeadRef c) \<le> unat (m_uHead c) \<and> unat (m_uHead c) \<le> unat (m_uTailRef c) \<and>
     unat (m_uTailRef c) \<le> unat (m_uTail c) \<and>
     unat (m_uTail c) \<le> unat (m_uHeadRef c) + fixed_cap c"

text \<open>The producer may post: \<open>New\<close> has found room.\<close>

definition has_room :: "CSPSCFixedBoundedChannel \<Rightarrow> bool" where
  "has_room c \<longleftrightarrow> unat (m_uTail c) < unat (m_uHeadRef c) + fixed_cap c"

lemma slot_addr_geometry: "geometry d = geometry c \<Longrightarrow> slot_addr d = slot_addr c"
  by (auto simp: geometry_def slot_addr_def)

lemma fixed_cap_geometry: "geometry d = geometry c \<Longrightarrow> fixed_cap d = fixed_cap c"
  by (auto simp: geometry_def fixed_cap_def)

lemma fixed_cap_power:
  assumes "fixed_geom c"
  obtains k where "k < 64" "m_uSizep c = 2 ^ k" "fixed_cap c = 2 ^ k"
  using assms by (auto simp: fixed_geom_def fixed_cap_def unat_power_two)

lemma unat_slot_addr:
  assumes "fixed_geom c"
  shows "unat (slot_addr c i) =
    unat (the (m_pDatap c)) + (unat i mod fixed_cap c) * unat (m_uElemSizep c)"
proof -
  obtain k where k: "k < 64" "m_uSizep c = 2 ^ k" "fixed_cap c = 2 ^ k"
    using assms by (rule fixed_cap_power)
  obtain p where p: "m_pDatap c = Some p"
    using assms by (auto simp: fixed_geom_def)
  let ?e = "unat (m_uElemSizep c)" and ?x = "unat i mod 2 ^ k"
  have e: "0 < ?e"
    using assms by (simp add: fixed_geom_def unat_gt_0 word_neq_0_conv)
  have "Suc ?x * ?e \<le> 2 ^ k * ?e"
    by (intro mult_le_mono1) (simp add: Suc_leI)
  with assms p k e have lt: "unat p + ?x * ?e < 2 ^ 64"
    by (auto simp: fixed_geom_def)
  then have "unat (GetIndex i (2 ^ k) * m_uElemSizep c) = ?x * ?e"
    using k by (subst unat_mult_small) (auto simp: unat_GetIndex)
  with lt k p show ?thesis
    by (simp add: slot_addr_def SPSCFixed_slot_def unat_plus_small)
qed

text \<open>Two positions less than a full ring apart have different slots.\<close>

lemma slot_addr_inj:
  assumes "fixed_geom c" "slot_addr c i = slot_addr c j"
    "h \<le> unat i" "unat i < h + fixed_cap c" "h \<le> unat j" "unat j < h + fixed_cap c"
  shows "i = j"
proof -
  have "0 < unat (m_uElemSizep c)"
    using assms(1) by (simp add: fixed_geom_def unat_gt_0 word_neq_0_conv)
  then have "unat i mod fixed_cap c = unat j mod fixed_cap c"
    using arg_cong [OF assms(2), of unat] assms(1) by (simp add: unat_slot_addr)
  then have "unat i = unat j"
    using assms(3-6) by (rule mod_window_inj)
  then show ?thesis
    by (simp add: unat_eq_iff_eq)
qed

section \<open>The operations under the invariant\<close>

lemma sub_less_iff:
  fixes a b s :: uint64_t
  assumes "unat b \<le> unat a"
  shows "a - b < s \<longleftrightarrow> unat a < unat b + unat s"
  using assms by (auto simp: word_less_nat_alt unat_sub word_le_nat_alt)

lemma New_cases:
  assumes "fixed_inv c" "SPSCFixed_New c = (d, r)"
  shows "fixed_inv d" "geometry d = geometry c" "m_uTail d = m_uTail c" "m_uHead d = m_uHead c"
    and "m_uTailRef d = m_uTailRef c"
    and "r = None \<longleftrightarrow> unat (m_uTail c) = unat (m_uHead c) + fixed_cap c"
    and "r \<noteq> None \<Longrightarrow> r = Some (slot_addr c (m_uTail c)) \<and> has_room d"
proof -
  obtain p where p: "m_pDatap c = Some p"
    using assms(1) by (auto simp: fixed_inv_def fixed_geom_def)
  have "unat (m_uHeadRef c) \<le> unat (m_uTail c)" "unat (m_uHead c) \<le> unat (m_uTail c)"
    using assms(1) by (auto simp: fixed_inv_def)
  note cmp = this [THEN sub_less_iff]
  show "fixed_inv d"
    using assms
    by (auto simp: SPSCFixed_New_def Let_def fixed_inv_def fixed_geom_def fixed_cap_def split: if_splits)
  show "geometry d = geometry c" "m_uTail d = m_uTail c" "m_uHead d = m_uHead c"
    "m_uTailRef d = m_uTailRef c"
    using assms by (auto simp: SPSCFixed_New_def Let_def geometry_def split: if_splits)
  show "r = None \<longleftrightarrow> unat (m_uTail c) = unat (m_uHead c) + fixed_cap c"
    using assms p
    by (auto simp: SPSCFixed_New_def Let_def fixed_inv_def fixed_cap_def SPSCFixed_slot_def cmp
        split: if_splits)
  show "r = Some (slot_addr c (m_uTail c)) \<and> has_room d" if "r \<noteq> None"
    using assms p that
    by (auto simp: SPSCFixed_New_def Let_def slot_addr_def SPSCFixed_slot_def has_room_def
        fixed_cap_def cmp split: if_splits)
qed

lemma Post_inv:
  assumes "fixed_inv c" "has_room c" "unat (m_uTail c) + 1 < 2 ^ 64"
  shows "fixed_inv (SPSCFixed_Post (Some p) c)"
    "unat (m_uTail (SPSCFixed_Post (Some p) c)) = unat (m_uTail c) + 1"
  using assms unat_Suc_word [of "m_uTail c"]
  by (auto simp: SPSCFixed_Post_def fixed_inv_def fixed_geom_def fixed_cap_def has_room_def)

lemma Post_frame:
  "geometry (SPSCFixed_Post q c) = geometry c" "m_uHead (SPSCFixed_Post q c) = m_uHead c"
  "m_uHeadRef (SPSCFixed_Post q c) = m_uHeadRef c" "m_uTailRef (SPSCFixed_Post q c) = m_uTailRef c"
  by (auto simp: SPSCFixed_Post_def geometry_def)

lemma Get_cases:
  assumes "fixed_inv c" "SPSCFixed_Get c = (d, r)"
  shows "fixed_inv d" "geometry d = geometry c" "m_uTail d = m_uTail c" "m_uHead d = m_uHead c"
    and "m_uHeadRef d = m_uHeadRef c"
    and "r = None \<longleftrightarrow> m_uHead c = m_uTail c"
    and "r \<noteq> None \<Longrightarrow> r = Some (slot_addr c (m_uHead c)) \<and> m_uHead d < m_uTailRef d"
proof -
  obtain p where p: "m_pDatac c = Some p" "m_pDatap c = Some p"
    using assms(1) by (auto simp: fixed_inv_def fixed_geom_def)
  show "fixed_inv d"
    using assms
    by (auto simp: SPSCFixed_Get_def Let_def fixed_inv_def fixed_geom_def fixed_cap_def split: if_splits)
  show "geometry d = geometry c" "m_uTail d = m_uTail c" "m_uHead d = m_uHead c"
    "m_uHeadRef d = m_uHeadRef c"
    using assms by (auto simp: SPSCFixed_Get_def Let_def geometry_def split: if_splits)
  show "r = None \<longleftrightarrow> m_uHead c = m_uTail c"
    using assms p
    by (auto simp: SPSCFixed_Get_def Let_def fixed_inv_def SPSCFixed_slot_def word_less_nat_alt
        simp flip: unat_eq_iff_eq split: if_splits)
  show "r = Some (slot_addr c (m_uHead c)) \<and> m_uHead d < m_uTailRef d" if "r \<noteq> None"
    using assms p that
    by (auto simp: SPSCFixed_Get_def Let_def slot_addr_def SPSCFixed_slot_def fixed_inv_def
        fixed_geom_def split: if_splits)
qed

lemma Delete_inv:
  assumes "fixed_inv c" "m_uHead c < m_uTailRef c"
  shows "fixed_inv (SPSCFixed_Delete (Some p) c)"
    "unat (m_uHead (SPSCFixed_Delete (Some p) c)) = unat (m_uHead c) + 1"
proof -
  have "unat (m_uHead c) + 1 < 2 ^ 64"
    using assms(2) unat_lt64 [of "m_uTailRef c"] by (simp add: word_less_nat_alt)
  then have "unat (m_uHead c + 1) = unat (m_uHead c) + 1"
    by (intro unat_Suc_word) simp
  then show "fixed_inv (SPSCFixed_Delete (Some p) c)"
    "unat (m_uHead (SPSCFixed_Delete (Some p) c)) = unat (m_uHead c) + 1"
    using assms
    by (auto simp: SPSCFixed_Delete_def fixed_inv_def fixed_geom_def fixed_cap_def word_less_nat_alt)
qed

lemma Delete_frame:
  "geometry (SPSCFixed_Delete q c) = geometry c" "m_uTail (SPSCFixed_Delete q c) = m_uTail c"
  "m_uTailRef (SPSCFixed_Delete q c) = m_uTailRef c" "m_uHeadRef (SPSCFixed_Delete q c) = m_uHeadRef c"
  by (auto simp: SPSCFixed_Delete_def geometry_def)

section \<open>Contents and the queue contract\<close>

text \<open>The elements between the head and the tail, oldest first.\<close>

definition fixed_contents :: "CSPSCFixedBoundedChannel \<times> (uint64_t \<Rightarrow> 'a) \<Rightarrow> 'a list" where
  "fixed_contents s =
     map (\<lambda>i. snd s (slot_addr (fst s) (of_nat i))) [unat (m_uHead (fst s))..<unat (m_uTail (fst s))]"

definition fixed_push ::
  "'a \<Rightarrow> CSPSCFixedBoundedChannel \<times> (uint64_t \<Rightarrow> 'a) \<Rightarrow>
     (CSPSCFixedBoundedChannel \<times> (uint64_t \<Rightarrow> 'a)) \<times> bool" where
  "fixed_push x s = (let (t, r) = IChannelEx_Push id x (Some x) s in (t, r = 0))"

definition fixed_pop ::
  "CSPSCFixedBoundedChannel \<times> (uint64_t \<Rightarrow> 'a) \<Rightarrow>
     (CSPSCFixedBoundedChannel \<times> (uint64_t \<Rightarrow> 'a)) \<times> 'a option" where
  "fixed_pop s = (let (t, x, r) = IChannelEx_Pop True s in (t, x))"

text \<open>The pushes left before the 64-bit tail position wraps.\<close>

definition fixed_budget :: "CSPSCFixedBoundedChannel \<times> (uint64_t \<Rightarrow> 'a) \<Rightarrow> nat" where
  "fixed_budget s = 2 ^ 64 - 1 - unat (m_uTail (fst s))"

lemma unat_of_nat_le:
  "i \<le> unat (w :: uint64_t) \<Longrightarrow> unat (of_nat i :: uint64_t) = i"
  using unat_lt64 [of w] by (simp add: unat_of_nat)

text \<open>Writing to the slot of the tail changes no element that is in the channel.\<close>

lemma contents_write_tail:
  assumes "fixed_inv c" "has_room c"
  shows "fixed_contents (c, mem(slot_addr c (m_uTail c) := x)) = fixed_contents (c, mem)"
proof -
  have "slot_addr c (of_nat i) \<noteq> slot_addr c (m_uTail c)"
    if i: "unat (m_uHead c) \<le> i" "i < unat (m_uTail c)" for i
  proof
    assume eq: "slot_addr c (of_nat i) = slot_addr c (m_uTail c)"
    have ui: "unat (of_nat i :: uint64_t) = i"
      using i by (intro unat_of_nat_le [of _ "m_uTail c"]) simp
    then have "of_nat i = m_uTail c"
      using assms i by (intro slot_addr_inj [OF _ eq, where h = "unat (m_uHead c)"])
        (auto simp: fixed_inv_def has_room_def)
    with ui i(2) show False by simp
  qed
  then show ?thesis
    by (auto simp: fixed_contents_def)
qed

text \<open>Posting the slot of the tail appends what was written there.\<close>

lemma contents_Post:
  assumes "fixed_inv c" "has_room c" "unat (m_uTail c) + 1 < 2 ^ 64"
  shows "fixed_contents (SPSCFixed_Post (Some p) c, mem) =
    fixed_contents (c, mem) @ [mem (slot_addr c (m_uTail c))]"
proof -
  have "slot_addr (SPSCFixed_Post (Some p) c) = slot_addr c"
    by (rule slot_addr_geometry) (rule Post_frame)
  moreover have "unat (m_uHead c) \<le> unat (m_uTail c)"
    using assms(1) by (simp add: fixed_inv_def)
  ultimately show ?thesis
    using Post_inv(2) [OF assms] by (simp add: fixed_contents_def Post_frame)
qed

text \<open>Deleting removes the oldest element.\<close>

lemma contents_Delete:
  assumes "fixed_inv c" "m_uHead c < m_uTailRef c"
  shows "fixed_contents (c, mem) =
    mem (slot_addr c (m_uHead c)) # fixed_contents (SPSCFixed_Delete (Some p) c, mem)"
proof -
  have "slot_addr (SPSCFixed_Delete (Some p) c) = slot_addr c"
    by (rule slot_addr_geometry) (rule Delete_frame)
  moreover have "unat (m_uHead c) < unat (m_uTail c)"
    using assms by (auto simp: fixed_inv_def word_less_nat_alt)
  ultimately show ?thesis
    using Delete_inv(2) [OF assms] by (simp add: fixed_contents_def Delete_frame upt_conv_Cons)
qed

lemma contents_frame:
  assumes "geometry d = geometry c" "m_uHead d = m_uHead c" "m_uTail d = m_uTail c"
  shows "fixed_contents (d, mem) = fixed_contents (c, mem)"
  using slot_addr_geometry [OF assms(1)] assms(2,3) by (simp add: fixed_contents_def)

lemma length_fixed_contents:
  "length (fixed_contents s) = unat (m_uTail (fst s)) - unat (m_uHead (fst s))"
  by (simp add: fixed_contents_def)

lemma fixed_push_cases:
  assumes "fixed_inv c" "unat (m_uTail c) + 1 < 2 ^ 64" "fixed_push x (c, mem) = (t, ok)"
  shows "fixed_inv (fst t)" "fixed_cap (fst t) = fixed_cap c"
    "unat (m_uTail (fst t)) \<le> unat (m_uTail c) + 1"
    "ok \<longleftrightarrow> length (fixed_contents (c, mem)) < fixed_cap c"
    "fixed_contents t = (if ok then fixed_contents (c, mem) @ [x] else fixed_contents (c, mem))"
proof -
  obtain d r where d: "SPSCFixed_New c = (d, r)" by fastforce
  note N = New_cases [OF assms(1) d]
  have le: "unat (m_uHead c) \<le> unat (m_uTail c)"
    "unat (m_uTail c) \<le> unat (m_uHead c) + fixed_cap c"
    using assms(1) by (auto simp: fixed_inv_def)
  have slot: "slot_addr d = slot_addr c"
    by (rule slot_addr_geometry) (rule N(2))
  have "(r = None \<and> t = (d, mem) \<and> \<not> ok) \<or>
    (\<exists>p. r = Some p \<and> t = (SPSCFixed_Post (Some p) d, mem(p := x)) \<and> ok)"
    using assms(3) d
    by (auto simp: fixed_push_def IChannelEx_Push_def split: option.splits)
  then consider (full) "r = None" "t = (d, mem)" "\<not> ok"
    | (room) p where "r = Some p" "t = (SPSCFixed_Post (Some p) d, mem(p := x))" "ok"
    by blast
  then have "fixed_inv (fst t) \<and> fixed_cap (fst t) = fixed_cap c \<and>
      unat (m_uTail (fst t)) \<le> unat (m_uTail c) + 1 \<and>
      (ok \<longleftrightarrow> length (fixed_contents (c, mem)) < fixed_cap c) \<and>
      fixed_contents t = (if ok then fixed_contents (c, mem) @ [x] else fixed_contents (c, mem))"
  proof cases
    case full
    then show ?thesis
      using N le fixed_cap_geometry [OF N(2)] contents_frame [OF N(2,4,3)]
      by (simp add: length_fixed_contents)
  next
    case room
    then have p: "p = slot_addr d (m_uTail d)" and hr: "has_room d"
      using N(3,7) slot by auto
    have tl: "unat (m_uTail d) + 1 < 2 ^ 64"
      using N(3) assms(2) by simp
    have "fixed_contents t = fixed_contents (d, mem(p := x)) @ [x]"
      using room contents_Post [OF N(1) hr tl, of p "mem(p := x)"] p by simp
    also have "\<dots> = fixed_contents (c, mem) @ [x]"
      using contents_write_tail [OF N(1) hr, of mem x] contents_frame [OF N(2,4,3), of mem]
      unfolding p by simp
    finally show ?thesis
      using room N le Post_inv [OF N(1) hr tl] fixed_cap_geometry [OF N(2)]
        fixed_cap_geometry [OF Post_frame(1)]
      by (auto simp: length_fixed_contents)
  qed
  then show "fixed_inv (fst t)" "fixed_cap (fst t) = fixed_cap c"
    "unat (m_uTail (fst t)) \<le> unat (m_uTail c) + 1"
    "ok \<longleftrightarrow> length (fixed_contents (c, mem)) < fixed_cap c"
    "fixed_contents t = (if ok then fixed_contents (c, mem) @ [x] else fixed_contents (c, mem))"
    by blast+
qed

lemma fixed_pop_cases:
  assumes "fixed_inv c" "fixed_pop (c, mem) = (t, r)"
  shows "fixed_inv (fst t)" "fixed_cap (fst t) = fixed_cap c" "m_uTail (fst t) = m_uTail c"
    "spec_pop (fixed_contents (c, mem)) = (fixed_contents t, r)"
proof -
  obtain d q where d: "SPSCFixed_Get c = (d, q)" by fastforce
  note G = Get_cases [OF assms(1) d]
  have slot: "slot_addr d = slot_addr c"
    by (rule slot_addr_geometry) (rule G(2))
  have "(q = None \<and> t = (d, mem) \<and> r = None) \<or>
    (\<exists>p. q = Some p \<and> t = (SPSCFixed_Delete (Some p) d, mem) \<and> r = Some (mem p))"
    using assms(2) d
    by (auto simp: fixed_pop_def IChannelEx_Pop_def split: option.splits)
  then consider (empty) "q = None" "t = (d, mem)" "r = None"
    | (some) p where "q = Some p" "t = (SPSCFixed_Delete (Some p) d, mem)" "r = Some (mem p)"
    by blast
  then have "fixed_inv (fst t) \<and> fixed_cap (fst t) = fixed_cap c \<and> m_uTail (fst t) = m_uTail c \<and>
    spec_pop (fixed_contents (c, mem)) = (fixed_contents t, r)"
  proof cases
    case empty
    then show ?thesis
      using G fixed_cap_geometry [OF G(2)] by (simp add: fixed_contents_def)
  next
    case some
    then have p: "p = slot_addr d (m_uHead d)" and hr: "m_uHead d < m_uTailRef d"
      using G(4,7) slot by auto
    have "fixed_contents (c, mem) = mem p # fixed_contents t"
      using contents_frame [OF G(2,4,3), of mem] contents_Delete [OF G(1) hr, of mem p] some(2)
      unfolding p by simp
    then show ?thesis
      using some G(3) Delete_inv(1) [OF G(1) hr] Delete_frame fixed_cap_geometry [OF G(2)]
        fixed_cap_geometry [OF Delete_frame(1)]
      by simp
  qed
  then show "fixed_inv (fst t)" "fixed_cap (fst t) = fixed_cap c" "m_uTail (fst t) = m_uTail c"
    "spec_pop (fixed_contents (c, mem)) = (fixed_contents t, r)"
    by blast+
qed

interpretation fixed: bounded_fifo fixed_push fixed_pop fixed_contents "\<lambda>s. fixed_inv (fst s)"
  fixed_budget "\<lambda>s. fixed_cap (fst s)"
proof
  fix s t :: "CSPSCFixedBoundedChannel \<times> (uint64_t \<Rightarrow> 'a)" and x :: 'a and ok
  assume s: "fixed_inv (fst s)" "0 < fixed_budget s" "fixed_push x s = (t, ok)"
  have "unat (m_uTail (fst s)) + 1 < 2 ^ 64" "fixed_push x (fst s, snd s) = (t, ok)"
    using s by (auto simp: fixed_budget_def)
  note P = fixed_push_cases [OF s(1) this]
  show "fixed_inv (fst t)" "fixed_contents t = (if ok then fixed_contents s @ [x] else fixed_contents s)"
    "fixed_budget s \<le> fixed_budget t + 1" "ok \<longleftrightarrow> length (fixed_contents s) < fixed_cap (fst s)"
    "fixed_cap (fst t) = fixed_cap (fst s)"
    using P by (auto simp: fixed_budget_def)
next
  fix s t :: "CSPSCFixedBoundedChannel \<times> (uint64_t \<Rightarrow> 'a)" and r
  assume s: "fixed_inv (fst s)" "fixed_pop s = (t, r)"
  then have "fixed_pop (fst s, snd s) = (t, r)" by simp
  note P = fixed_pop_cases [OF s(1) this]
  show "fixed_inv (fst t)" "(fixed_contents t, r) = spec_pop (fixed_contents s)"
    "fixed_budget t = fixed_budget s" "fixed_cap (fst t) = fixed_cap (fst s)"
    using P by (auto simp: fixed_budget_def)
qed


section \<open>Creation and destruction\<close>

definition rounded_elem :: "ChannelConfig \<Rightarrow> nat" where
  "rounded_elem cfg = (unat (uElementSize cfg) + 7) div 8 * 8"

lemma unat_elem:
  "unat (ALIGN8 (ucast (uElementSize cfg)) :: uint64_t) = rounded_elem cfg"
  using unat_lt32 [of "uElementSize cfg"]
  by (subst unat_ALIGN8) (simp_all add: unat_ucast_32_64 rounded_elem_def)

lemma Init_success:
  assumes "SPSCFixed_Init ans (ucast (uElementSize cfg)) (ucast (uMaxElementCount cfg)) c0 h e =
      (c, h', e', kSuccess)"
    and "\<And>a. ans = Some a \<Longrightarrow>
      block_fits a (unat (Up2PowerOf2 (ucast (uMaxElementCount cfg))) * rounded_elem cfg)"
  shows "fixed_inv c" "fixed_contents (c, mem) = []"
    "fixed_cap c = unat (Up2PowerOf2 (ucast (uMaxElementCount cfg)))"
    "uMaxElementCount cfg \<noteq> 0" "uElementSize cfg \<noteq> 0"
    "\<exists>a. ans = Some a \<and> m_pDatap c = Some a \<and> m_pDatac c = Some a"
proof -
  let ?n = "ucast (uMaxElementCount cfg) :: uint64_t"
  have nz: "(ucast (uElementSize cfg) :: uint64_t) \<noteq> 0" "?n \<noteq> 0"
    using assms(1) by (auto simp: SPSCFixed_Init_def split: if_splits)
  then show z: "uMaxElementCount cfg \<noteq> 0" "uElementSize cfg \<noteq> 0"
    by auto
  from assms(1) nz obtain a where a: "ans = Some a"
    by (auto simp: SPSCFixed_Init_def CAllocatorImpl_Malloc_def Let_def split: option.splits)
  have "unat ?n \<le> 2 ^ 63"
    using unat_lt32 [of "uMaxElementCount cfg"] by (simp add: unat_ucast_32_64)
  then obtain k where k: "k < 64" "Up2PowerOf2 ?n = 2 ^ k"
    using Up2PowerOf2_power [OF nz(2)] by blast
  have "0 < unat (uElementSize cfg)"
    using z(2) by (simp add: unat_gt_0)
  then have pos: "0 < rounded_elem cfg"
    by (simp add: rounded_elem_def div_greater_zero_iff)
  have fits: "unat a + 2 ^ k * rounded_elem cfg \<le> 2 ^ 64"
    using assms(2) [OF a] k by (simp add: block_fits_def unat_power_two)
  have elem: "0 < (ALIGN8 (ucast (uElementSize cfg)) :: uint64_t)"
    using pos by (simp add: word_gt_0 flip: unat_gt_0) (simp add: unat_elem)
  have c: "c = c0\<lparr>m_uElemSizep := ALIGN8 (ucast (uElementSize cfg)),
      m_uElemSizec := ALIGN8 (ucast (uElementSize cfg)), m_uSizep := 2 ^ k, m_uSizec := 2 ^ k,
      m_uTail := 0, m_uHead := 0, m_uTailRef := 0, m_uHeadRef := 0,
      m_Statsp := ChannelStats_Reset, m_Statsc := ChannelStats_Reset,
      m_pDatap := Some a, m_pDatac := Some a\<rparr>"
    using assms(1) nz a k
    by (simp add: SPSCFixed_Init_def CAllocatorImpl_Malloc_def Let_def)
  show "\<exists>a. ans = Some a \<and> m_pDatap c = Some a \<and> m_pDatac c = Some a"
    using a c by simp
  show "fixed_cap c = unat (Up2PowerOf2 ?n)"
    using c k by (simp add: fixed_cap_def)
  show "fixed_inv c"
    using fits elem k by (auto simp: c fixed_inv_def fixed_geom_def fixed_cap_def unat_elem unat_power_two)
  show "fixed_contents (c, mem) = []"
    by (simp add: c fixed_contents_def)
qed


lemma Create_success:
  assumes "SPSCFixed_Create ans1 ans2 sz (Some cfg) h e = (Some (p, c), h', e')"
  shows "ans1 = Some p"
    "\<exists>e0. SPSCFixed_Init ans2 (ucast (uElementSize cfg)) (ucast (uMaxElementCount cfg))
       SPSCFixed_default (h(p \<mapsto> sz)) e0 = (c, h', e', kSuccess)"
  using assms
  by (auto simp: SPSCFixed_Create_def IAllocatorEx_New_def CAllocatorImpl_Malloc_def
      split: option.splits prod.splits if_splits)

lemma push_geometry: "fixed_push x s = (t, ok) \<Longrightarrow> geometry (fst t) = geometry (fst s)"
  by (auto simp: fixed_push_def IChannelEx_Push_def SPSCFixed_New_def SPSCFixed_Post_def Let_def
      geometry_def split: prod.splits option.splits if_splits)

lemma pop_geometry: "fixed_pop s = (t, r) \<Longrightarrow> geometry (fst t) = geometry (fst s)"
  by (auto simp: fixed_pop_def IChannelEx_Pop_def SPSCFixed_Get_def SPSCFixed_Delete_def Let_def
      geometry_def split: prod.splits option.splits if_splits)

lemma run_geometry:
  "run_queue fixed_push fixed_pop s ops = (t, rs) \<Longrightarrow> geometry (fst t) = geometry (fst s)"
proof (induction ops arbitrary: s t rs)
  case (Cons op ops)
  then show ?case
    by (cases op) (auto dest: push_geometry pop_geometry split: prod.splits)
qed simp

lemma destructor_geometry:
  "geometry d = geometry c \<Longrightarrow> SPSCFixed_destructor d = SPSCFixed_destructor c"
  by (auto simp: geometry_def SPSCFixed_destructor_def)

lemma Init_heap:
  assumes "malloc_fresh h ans" "m_pDatap c0 = None"
    "SPSCFixed_Init ans n k c0 h e = (c, h', e', r)"
  shows "SPSCFixed_destructor c h' = h"
  using assms
  by (auto simp: SPSCFixed_Init_def SPSCFixed_destructor_def Let_def CAllocatorImpl_Malloc_def
      CAllocatorImpl_Free_def malloc_fresh_def split: if_splits option.splits)

lemma Create_null:
  assumes "malloc_fresh h ans1" "\<And>p. ans1 = Some p \<Longrightarrow> malloc_fresh (h(p \<mapsto> sz)) ans2"
    and "SPSCFixed_Create ans1 ans2 sz pConfig h e = (None, h', e')"
  shows "h' = h"
proof (cases "pConfig = None \<or> ans1 = None")
  case True
  with assms(3) show ?thesis
    by (auto simp: SPSCFixed_Create_def IAllocatorEx_New_def CAllocatorImpl_Malloc_def
        split: option.splits)
next
  case False
  then obtain cfg p where c: "pConfig = Some cfg" "ans1 = Some p" by auto
  with assms(1) have fresh: "h p = None"
    by (simp add: malloc_fresh_def)
  obtain d h1 e1 r where I: "SPSCFixed_Init ans2 (ucast (uElementSize cfg))
      (ucast (uMaxElementCount cfg)) SPSCFixed_default (h(p \<mapsto> sz)) e = (d, h1, e1, r)"
    by (metis prod_cases4)
  have "SPSCFixed_destructor d h1 = h(p \<mapsto> sz)"
    using c assms(2) I by (intro Init_heap [OF _ _ I]) (simp_all add: SPSCFixed_default_def)
  with assms(3) c I fresh show ?thesis
    by (auto simp: SPSCFixed_Create_def IAllocatorEx_New_def CAllocatorImpl_Malloc_def
        IAllocatorEx_Delete_def CAllocatorImpl_Free_def split: if_splits)
qed

section \<open>Properties\<close>

text \<open>
  C3: a channel that \<open>SPSCFixedBoundedChannel::Create\<close> returned, used through \<open>IChannelEx::Push\<close> and
  \<open>Pop\<close>, is a bounded first-in-first-out queue that starts empty: every sequence of fewer than
  2^64 calls answers as the list specification does, with the configured element count rounded
  up to a power of two as the capacity, so a push is refused exactly when that many elements are
  in the channel and a pop exactly when there is none.
\<close>

theorem fixed_channel_refines_queue:
  assumes "SPSCFixed_Create ans1 ans2 sz (Some cfg) h e = (Some (p, c), h', e')"
    and "\<forall>a. ans2 = Some a \<longrightarrow>
      block_fits a (unat (Up2PowerOf2 (ucast (uMaxElementCount cfg))) * rounded_elem cfg)"
    and "length ops < 2 ^ 64"
    and "run_queue fixed_push fixed_pop (c, mem) ops = (t, rs)"
  shows "run_queue (spec_push (unat (Up2PowerOf2 (ucast (uMaxElementCount cfg))))) spec_pop [] ops =
    (fixed_contents t, rs)"
proof -
  obtain e0 where I: "SPSCFixed_Init ans2 (ucast (uElementSize cfg)) (ucast (uMaxElementCount cfg))
       SPSCFixed_default (h(p \<mapsto> sz)) e0 = (c, h', e', kSuccess)"
    using Create_success [OF assms(1)] by blast
  note S = Init_success [OF I assms(2) [rule_format]]
  have "m_uTail c = 0"
    using I by (auto simp: SPSCFixed_Init_def Let_def split: if_splits prod.splits option.splits)
  then have "length ops \<le> fixed_budget (c, mem)"
    using assms(3) by (simp add: fixed_budget_def)
  with S(1) fixed.run_refines [OF _ _ assms(4)] show ?thesis
    by (simp add: S(2,3))
qed

text \<open>
  Fact: \<open>Create\<close> and \<open>Destroy\<close> of the fixed-size channel leak nothing: when \<open>Create\<close> returns no
  channel, on any of its error paths, the heap is as before; and when it returns one, \<open>Destroy\<close>
  after any sequence of pushes and pops gives back exactly the heap before \<open>Create\<close>.
\<close>

theorem fixed_channel_no_leak:
  assumes "malloc_fresh h ans1" "\<forall>p. ans1 = Some p \<longrightarrow> malloc_fresh (h(p \<mapsto> sz)) ans2"
    and "SPSCFixed_Create ans1 ans2 sz pConfig h e = (r, h', e')"
  shows "case r of
      None \<Rightarrow> h' = h
    | Some (p, c) \<Rightarrow>
        SPSCFixed_Destroy
          (Some (p, fst (fst (run_queue fixed_push fixed_pop (c, mem) ops)))) h' = h"
proof (cases r)
  case None
  with assms Create_null [of h ans1 sz ans2] show ?thesis
    by simp
next
  case (Some pc)
  obtain p c where pc: "pc = (p, c)" by fastforce
  obtain cfg where cfg: "pConfig = Some cfg"
    using assms(3) Some by (cases pConfig) (auto simp: SPSCFixed_Create_def)
  note S = Create_success [OF assms(3) [unfolded Some pc cfg]]
  obtain t rs where t: "run_queue fixed_push fixed_pop (c, mem) ops = (t, rs)"
    by fastforce
  have "SPSCFixed_destructor (fst t) h' = h(p \<mapsto> sz)"
    using S assms(2) run_geometry [OF t] Init_heap
    by (simp add: destructor_geometry [of "fst t" c]) (metis SPSCFixed_default_def select_convs(1))
  with S(1) assms(1) show ?thesis
    by (simp add: Some pc t SPSCFixed_Destroy_def IAllocatorEx_Delete_def CAllocatorImpl_Free_def
        malloc_fresh_def fun_upd_idem)
qed

text \<open>
  Fact: the error paths of \<open>IChannelEx\<close>. A \<open>Push\<close> whose element constructor throws returns -1, and yet,
  when there was room, leaves one more element in the channel: the one marked by \<open>SetInvalid\<close>.
  A \<open>Pop\<close> whose move throws returns -1 and leaves the contents as they were, so the element is
  delivered by a later \<open>Pop\<close>.
\<close>

theorem channel_ex_exceptions:
  assumes "fixed_inv c" "unat (m_uTail c) + 1 < 2 ^ 64"
  shows "(case IChannelEx_Push inval g None (c, mem) of (t, r) \<Rightarrow> r = -1 \<and> fixed_contents t =
      fst (spec_push (fixed_cap c) (inval g) (fixed_contents (c, mem)))) \<and>
    (case IChannelEx_Pop False (c, mem) of (t, x, r) \<Rightarrow> r = -1 \<and> x = None \<and>
      fixed_contents t = fixed_contents (c, mem))"
proof
  obtain t ok where t: "fixed_push (inval g) (c, mem) = (t, ok)" by fastforce
  have "case IChannelEx_Push inval g None (c, mem) of (u, r) \<Rightarrow> r = -1 \<and> u = t"
    using t by (auto simp: fixed_push_def IChannelEx_Push_def split: prod.splits option.splits)
  with fixed_push_cases(4,5) [OF assms t]
  show "case IChannelEx_Push inval g None (c, mem) of (t, r) \<Rightarrow> r = -1 \<and> fixed_contents t =
      fst (spec_push (fixed_cap c) (inval g) (fixed_contents (c, mem)))"
    by (auto simp: spec_push_def)
  obtain d q where d: "SPSCFixed_Get c = (d, q)" by fastforce
  note G = Get_cases [OF assms(1) d]
  show "case IChannelEx_Pop False (c, mem) of (t, x, r) \<Rightarrow> r = -1 \<and> x = None \<and>
      fixed_contents t = fixed_contents (c, mem)"
    using d contents_frame [OF G(2,4,3), of mem]
    by (auto simp: IChannelEx_Pop_def split: option.splits)
qed

text \<open>
  Fact: \<open>IsEmpty\<close> says whether the channel has no element, and \<open>GetSize\<close> is the number of its
  elements as long as that number fits the 32-bit result.
\<close>

theorem fixed_channel_size:
  assumes "fixed_inv c"
  shows "(SPSCFixed_IsEmpty c \<longleftrightarrow> fixed_contents (c, mem) = []) \<and>
    unat (SPSCFixed_GetSize c) = length (fixed_contents (c, mem)) mod 2 ^ 32"
proof
  have le: "unat (m_uHead c) \<le> unat (m_uTail c)"
    using assms by (auto simp: fixed_inv_def)
  then show "SPSCFixed_IsEmpty c \<longleftrightarrow> fixed_contents (c, mem) = []"
    using length_fixed_contents [of "(c, mem)"]
    by (auto simp: SPSCFixed_IsEmpty_def fixed_contents_def simp flip: unat_eq_iff_eq)
  show "unat (SPSCFixed_GetSize c) = length (fixed_contents (c, mem)) mod 2 ^ 32"
    using le by (simp add: SPSCFixed_GetSize_def length_fixed_contents unsigned_ucast_eq
        take_bit_eq_mod unat_sub_le word_le_nat_alt)
qed


section \<open>Witnesses\<close>

text \<open>A channel of four slots of eight bytes: three elements of four bytes were asked for.\<close>

definition example_cfg :: ChannelConfig where
  "example_cfg = \<lparr>uElementSize = 4, uMaxElementCount = 3, uTotalMemorySizeKB = 0\<rparr>"

definition example_chan :: CSPSCFixedBoundedChannel where
  "example_chan = SPSCFixed_default
     \<lparr>m_pDatap := Some 1024, m_pDatac := Some 1024, m_uElemSizep := 8, m_uElemSizec := 8,
      m_uSizep := 4, m_uSizec := 4\<rparr>"

lemma example_Up2: "Up2PowerOf2 3 = 4"
  by (simp add: Up2PowerOf2_def)

lemma example_Create:
  "SPSCFixed_Create (Some 64) (Some 1024) 320 (Some example_cfg) Map.empty kSuccess =
     (Some (64, example_chan), [64 \<mapsto> 320, 1024 \<mapsto> 32], kSuccess)"
  by (simp add: SPSCFixed_Create_def IAllocatorEx_New_def CAllocatorImpl_Malloc_def example_cfg_def
      SPSCFixed_Init_def Let_def example_Up2 ALIGN8_def ALIGNN_def example_chan_def
      SPSCFixed_default_def fun_upd_twist)

lemma example_fits:
  "\<forall>a. Some 1024 = Some a \<longrightarrow>
     block_fits a (unat (Up2PowerOf2 (ucast (uMaxElementCount example_cfg))) * rounded_elem example_cfg)"
  by (simp add: example_cfg_def example_Up2 block_fits_def rounded_elem_def)

lemma example_inv: "fixed_inv example_chan"
  by (auto simp: fixed_inv_def fixed_geom_def fixed_cap_def example_chan_def SPSCFixed_default_def
      intro: exI [of _ 2])

theorem fixed_channel_refines_queue_witness:
  "\<exists>t. run_queue fixed_push fixed_pop (example_chan, \<lambda>_. 0) [Push 5, Push (6 :: nat), Pop, Pop, Pop] =
     (t, [Pushed True, Pushed True, Popped (Some 5), Popped (Some 6), Popped None]) \<and>
     fixed_contents t = []"
proof -
  let ?ops = "[Push 5, Push (6 :: nat), Pop, Pop, Pop]"
  obtain t rs where t: "run_queue fixed_push fixed_pop (example_chan, \<lambda>_. 0) ?ops = (t, rs)"
    by fastforce
  have "run_queue (spec_push 4) spec_pop [] ?ops = (fixed_contents t, rs)"
    using fixed_channel_refines_queue [OF example_Create example_fits _ t]
    by (simp add: example_cfg_def example_Up2)
  with t show ?thesis
    by (auto simp: spec_push_def)
qed

theorem fixed_channel_no_leak_witness:
  "SPSCFixed_Destroy (Some (64, fst (fst (run_queue fixed_push fixed_pop (example_chan, \<lambda>_. 0)
     [Push 5, Push (6 :: nat), Pop])))) [64 \<mapsto> 320, 1024 \<mapsto> 32] = Map.empty"
  using fixed_channel_no_leak [OF _ _ example_Create, of "\<lambda>_. 0" "[Push 5, Push (6 :: nat), Pop]"]
  by (simp add: malloc_fresh_def)

theorem channel_ex_exceptions_witness:
  "(case IChannelEx_Push id 9 None (example_chan, \<lambda>_. 0 :: nat) of (t, r) \<Rightarrow> r = -1 \<and>
     fixed_contents t = [9])"
  using channel_ex_exceptions [of example_chan id 9 "\<lambda>_. 0 :: nat"] example_inv
  by (auto simp: example_chan_def SPSCFixed_default_def spec_push_def fixed_contents_def
      fixed_cap_def)

theorem fixed_channel_size_witness:
  "unat (SPSCFixed_GetSize example_chan) = 0 \<and> SPSCFixed_IsEmpty example_chan"
  using fixed_channel_size [OF example_inv, of "\<lambda>_. ()"]
  by (simp add: fixed_contents_def example_chan_def SPSCFixed_default_def)

end
