(* ===== verification/FixedChannelConc.thy ===== *)
theory FixedChannelConc
  imports FixedQueue
begin

text \<open>
  One producer thread and one consumer thread on a fixed-size channel. Each of \<open>New\<close>, \<open>Post\<close>,
  \<open>Get\<close> and \<open>Delete\<close> touches the position that belongs to the other side at most once, so it is
  one atomic step; filling a slot and reading it are steps of their own, since they happen between
  the calls. The step relation allows every interleaving, the theorems are about all its
  reachable states.
\<close>

section \<open>States and steps\<close>

datatype 'a producer_pc = PIdle | PSlot uint64_t | PWritten uint64_t 'a

datatype 'a consumer_pc = CIdle | CSlot uint64_t | CRead uint64_t 'a

record 'a spsc =
  chan :: CSPSCFixedBoundedChannel
  cells :: "uint64_t \<Rightarrow> 'a"
  ppc :: "'a producer_pc"
  cpc :: "'a consumer_pc"
  produced :: "'a list"
  consumed :: "'a list"

inductive spsc_step :: "'a spsc \<Rightarrow> 'a spsc \<Rightarrow> bool" where
  new_ok: "ppc s = PIdle \<Longrightarrow> SPSCFixed_New (chan s) = (c, Some p) \<Longrightarrow>
    spsc_step s (s\<lparr>chan := c, ppc := PSlot p\<rparr>)"
| new_fail: "ppc s = PIdle \<Longrightarrow> SPSCFixed_New (chan s) = (c, None) \<Longrightarrow>
    spsc_step s (s\<lparr>chan := c\<rparr>)"
| fill: "ppc s = PSlot p \<Longrightarrow>
    spsc_step s (s\<lparr>cells := (cells s)(p := v), ppc := PWritten p v\<rparr>)"
| post: "ppc s = PWritten p v \<Longrightarrow>
    spsc_step s (s\<lparr>chan := SPSCFixed_Post (Some p) (chan s), ppc := PIdle,
      produced := produced s @ [v]\<rparr>)"
| get_ok: "cpc s = CIdle \<Longrightarrow> SPSCFixed_Get (chan s) = (c, Some p) \<Longrightarrow>
    spsc_step s (s\<lparr>chan := c, cpc := CSlot p\<rparr>)"
| get_fail: "cpc s = CIdle \<Longrightarrow> SPSCFixed_Get (chan s) = (c, None) \<Longrightarrow>
    spsc_step s (s\<lparr>chan := c\<rparr>)"
| take: "cpc s = CSlot p \<Longrightarrow> spsc_step s (s\<lparr>cpc := CRead p (cells s p)\<rparr>)"
| release: "cpc s = CRead p v \<Longrightarrow>
    spsc_step s (s\<lparr>chan := SPSCFixed_Delete (Some p) (chan s), cpc := CIdle,
      consumed := consumed s @ [v]\<rparr>)"

inductive_cases spsc_stepE: "spsc_step s t"

definition spsc_init :: "CSPSCFixedBoundedChannel \<Rightarrow> (uint64_t \<Rightarrow> 'a) \<Rightarrow> 'a spsc" where
  "spsc_init c mem =
     \<lparr>chan = c, cells = mem, ppc = PIdle, cpc = CIdle, produced = [], consumed = []\<rparr>"

section \<open>The invariant\<close>

text \<open>The slot a thread holds, if any.\<close>

fun producer_slot :: "'a producer_pc \<Rightarrow> uint64_t option" where
  "producer_slot PIdle = None"
| "producer_slot (PSlot p) = Some p"
| "producer_slot (PWritten p v) = Some p"

fun consumer_slot :: "'a consumer_pc \<Rightarrow> uint64_t option" where
  "consumer_slot CIdle = None"
| "consumer_slot (CSlot p) = Some p"
| "consumer_slot (CRead p v) = Some p"

text \<open>What the program point of each thread says about the channel.\<close>

fun producer_at :: "CSPSCFixedBoundedChannel \<Rightarrow> (uint64_t \<Rightarrow> 'a) \<Rightarrow> 'a producer_pc \<Rightarrow> bool" where
  "producer_at c m PIdle = True"
| "producer_at c m (PSlot p) \<longleftrightarrow> has_room c \<and> p = slot_addr c (m_uTail c)"
| "producer_at c m (PWritten p v) \<longleftrightarrow> has_room c \<and> p = slot_addr c (m_uTail c) \<and> m p = v"

fun consumer_at :: "CSPSCFixedBoundedChannel \<Rightarrow> (uint64_t \<Rightarrow> 'a) \<Rightarrow> 'a consumer_pc \<Rightarrow> bool" where
  "consumer_at c m CIdle = True"
| "consumer_at c m (CSlot p) \<longleftrightarrow> m_uHead c < m_uTailRef c \<and> p = slot_addr c (m_uHead c)"
| "consumer_at c m (CRead p v) \<longleftrightarrow>
     m_uHead c < m_uTailRef c \<and> p = slot_addr c (m_uHead c) \<and> m p = v"

text \<open>
  Positions count messages: the tail is the number produced, the head the number consumed, and
  what was produced is what was consumed followed by the contents.
\<close>

definition spsc_inv :: "'a spsc \<Rightarrow> bool" where
  "spsc_inv s \<longleftrightarrow> fixed_inv (chan s) \<and>
     producer_at (chan s) (cells s) (ppc s) \<and> consumer_at (chan s) (cells s) (cpc s) \<and>
     unat (m_uTail (chan s)) = length (produced s) \<and>
     unat (m_uHead (chan s)) = length (consumed s) \<and>
     produced s = consumed s @ fixed_contents (chan s, cells s)"

lemma producer_at_frame:
  assumes "geometry d = geometry c" "m_uTail d = m_uTail c"
    "has_room c \<Longrightarrow> has_room d" "producer_at c m pc"
  shows "producer_at d m pc"
  using assms slot_addr_geometry [OF assms(1)] by (cases pc) auto

lemma consumer_at_frame:
  assumes "geometry d = geometry c" "m_uHead d = m_uHead c"
    "m_uHead c < m_uTailRef c \<Longrightarrow> m_uHead d < m_uTailRef d" "consumer_at c m pc"
  shows "consumer_at d m pc"
  using assms slot_addr_geometry [OF assms(1)] by (cases pc) auto

lemma contents_le_cap: "fixed_inv c \<Longrightarrow> length (fixed_contents (c, mem)) \<le> fixed_cap c"
  unfolding length_fixed_contents fst_conv fixed_inv_def by linarith

text \<open>The producer's slot is never the slot at the head while the channel has an element.\<close>

lemma slot_tail_head:
  assumes "fixed_inv c" "has_room c" "m_uHead c < m_uTailRef c"
  shows "slot_addr c (m_uTail c) \<noteq> slot_addr c (m_uHead c)"
proof
  assume eq: "slot_addr c (m_uTail c) = slot_addr c (m_uHead c)"
  have "m_uTail c = m_uHead c"
    using assms by (intro slot_addr_inj [OF _ eq, where h = "unat (m_uHead c)"])
      (auto simp: fixed_inv_def has_room_def word_less_nat_alt)
  with assms show False
    by (auto simp: fixed_inv_def word_less_nat_alt)
qed

lemma step_new:
  assumes "spsc_inv s" "SPSCFixed_New (chan s) = (c, r)" "ppc s = PIdle"
  shows "spsc_inv (s\<lparr>chan := c, ppc := (case r of None \<Rightarrow> PIdle | Some p \<Rightarrow> PSlot p)\<rparr>)"
proof -
  have inv: "fixed_inv (chan s)" using assms(1) by (simp add: spsc_inv_def)
  note N = New_cases [OF inv assms(2)]
  have "consumer_at c (cells s) (cpc s)"
    using assms(1) N(4,5) by (intro consumer_at_frame [OF N(2)]) (simp_all add: spsc_inv_def)
  moreover have "producer_at c (cells s) (case r of None \<Rightarrow> PIdle | Some p \<Rightarrow> PSlot p)"
    using N(3,7) slot_addr_geometry [OF N(2)] by (cases r) auto
  ultimately show ?thesis
    using assms(1) N(1,3,4) contents_frame [OF N(2,4,3), of "cells s"] by (simp add: spsc_inv_def)
qed

lemma step_fill:
  assumes "spsc_inv s" "ppc s = PSlot p"
  shows "spsc_inv (s\<lparr>cells := (cells s)(p := v), ppc := PWritten p v\<rparr>)"
proof -
  have inv: "fixed_inv (chan s)" and room: "has_room (chan s)"
    and p: "p = slot_addr (chan s) (m_uTail (chan s))"
    using assms by (simp_all add: spsc_inv_def)
  have "consumer_at (chan s) ((cells s)(p := v)) (cpc s)"
    using assms(1) slot_tail_head [OF inv room] p by (cases "cpc s") (auto simp: spsc_inv_def)
  then show ?thesis
    using assms(1) room p contents_write_tail [OF inv room, of "cells s" v]
    by (simp add: spsc_inv_def)
qed

lemma step_post:
  assumes "spsc_inv s" "ppc s = PWritten p v" "length (produced s) + 1 < 2 ^ 64"
  shows "spsc_inv (s\<lparr>chan := SPSCFixed_Post (Some p) (chan s), ppc := PIdle,
    produced := produced s @ [v]\<rparr>)"
proof -
  have inv: "fixed_inv (chan s)" and room: "has_room (chan s)"
    and p: "cells s (slot_addr (chan s) (m_uTail (chan s))) = v"
    and tl: "unat (m_uTail (chan s)) + 1 < 2 ^ 64"
    using assms by (auto simp: spsc_inv_def)
  have "consumer_at (SPSCFixed_Post (Some p) (chan s)) (cells s) (cpc s)"
    using assms(1) by (intro consumer_at_frame [OF Post_frame(1)])
      (simp_all add: spsc_inv_def Post_frame)
  then show ?thesis
    using assms(1) Post_inv [OF inv room tl] contents_Post [OF inv room tl, of p "cells s"] p
    by (simp add: spsc_inv_def Post_frame)
qed

lemma step_get:
  assumes "spsc_inv s" "SPSCFixed_Get (chan s) = (c, r)" "cpc s = CIdle"
  shows "spsc_inv (s\<lparr>chan := c, cpc := (case r of None \<Rightarrow> CIdle | Some p \<Rightarrow> CSlot p)\<rparr>)"
proof -
  have inv: "fixed_inv (chan s)" using assms(1) by (simp add: spsc_inv_def)
  note G = Get_cases [OF inv assms(2)]
  have "producer_at c (cells s) (ppc s)"
    using assms(1) G(3,5) fixed_cap_geometry [OF G(2)]
    by (intro producer_at_frame [OF G(2)]) (simp_all add: spsc_inv_def has_room_def)
  moreover have "consumer_at c (cells s) (case r of None \<Rightarrow> CIdle | Some p \<Rightarrow> CSlot p)"
    using G(4,7) slot_addr_geometry [OF G(2)] by (cases r) auto
  ultimately show ?thesis
    using assms(1) G(1,3,4) contents_frame [OF G(2,4,3), of "cells s"] by (simp add: spsc_inv_def)
qed

lemma step_release:
  assumes "spsc_inv s" "cpc s = CRead p v"
  shows "spsc_inv (s\<lparr>chan := SPSCFixed_Delete (Some p) (chan s), cpc := CIdle,
    consumed := consumed s @ [v]\<rparr>)"
proof -
  have inv: "fixed_inv (chan s)" and lt: "m_uHead (chan s) < m_uTailRef (chan s)"
    and p: "cells s (slot_addr (chan s) (m_uHead (chan s))) = v"
    using assms by (auto simp: spsc_inv_def)
  have "producer_at (SPSCFixed_Delete (Some p) (chan s)) (cells s) (ppc s)"
    using assms(1) fixed_cap_geometry [OF Delete_frame(1)]
    by (intro producer_at_frame [OF Delete_frame(1)])
      (simp_all add: spsc_inv_def Delete_frame has_room_def)
  then show ?thesis
    using assms(1) Delete_inv [OF inv lt] contents_Delete [OF inv lt, of "cells s" p] p
    by (simp add: spsc_inv_def Delete_frame)
qed

lemma spsc_inv_step:
  assumes "spsc_step s t" "spsc_inv s" "length (produced t) < 2 ^ 64"
  shows "spsc_inv t"
  using assms(1)
proof cases
  case (new_ok c p)
  then show ?thesis using step_new [of s c "Some p"] assms(2) by simp
next
  case (new_fail c)
  have "spsc_inv (s\<lparr>chan := c, ppc := PIdle\<rparr>)"
    using step_new [of s c None] new_fail assms(2) by simp
  then show ?thesis
    unfolding spsc_inv_def new_fail(1) by (simp add: new_fail(2))
next
  case (fill p v)
  then show ?thesis using step_fill [OF assms(2)] by simp
next
  case (post p v)
  then show ?thesis using step_post [of s p v] assms(2,3) by simp
next
  case (get_ok c p)
  then show ?thesis using step_get [of s c "Some p"] assms(2) by simp
next
  case (get_fail c)
  have "spsc_inv (s\<lparr>chan := c, cpc := CIdle\<rparr>)"
    using step_get [of s c None] get_fail assms(2) by simp
  then show ?thesis
    unfolding spsc_inv_def get_fail(1) by (simp add: get_fail(2))
next
  case (take p)
  then show ?thesis using assms(2) by (simp add: spsc_inv_def)
next
  case (release p v)
  then show ?thesis using step_release [OF assms(2)] by simp
qed

lemma step_produced: "spsc_step s t \<Longrightarrow> length (produced s) \<le> length (produced t)"
  by (auto elim: spsc_step.cases)

lemma spsc_reach_inv:
  assumes "spsc_step\<^sup>*\<^sup>* s t" "spsc_inv s" "length (produced t) < 2 ^ 64"
  shows "spsc_inv t"
  using assms
proof (induction rule: rtranclp_induct)
  case (step t u)
  then have "length (produced t) < 2 ^ 64"
    using step_produced by (meson le_less_trans)
  with step show ?case
    by (intro spsc_inv_step [OF step.hyps(2)]) auto
qed

lemma spsc_init_inv:
  assumes "fixed_inv c" "m_uTail c = 0"
  shows "spsc_inv (spsc_init c mem)"
  using assms by (auto simp: spsc_inv_def spsc_init_def fixed_inv_def fixed_contents_def)

section \<open>Properties\<close>

text \<open>
  C4: in every interleaving of the producer and the consumer, what the consumer has taken out is a
  prefix of what the producer has posted, in order, with nothing lost, repeated or torn, and the
  messages in flight never exceed the capacity; for fewer than 2^64 messages.
\<close>

theorem spsc_delivery:
  assumes "fixed_inv c" "m_uTail c = 0"
    and "spsc_step\<^sup>*\<^sup>* (spsc_init c mem) s" "length (produced s) < 2 ^ 64"
  shows "\<exists>flight. produced s = consumed s @ flight \<and> length flight \<le> fixed_cap (chan s)"
proof -
  have "spsc_inv s"
    using spsc_reach_inv [OF assms(3) spsc_init_inv [OF assms(1,2)] assms(4)] .
  then have "produced s = consumed s @ fixed_contents (chan s, cells s)" "fixed_inv (chan s)"
    by (simp_all only: spsc_inv_def)
  moreover from this have "length (fixed_contents (chan s, cells s)) \<le> fixed_cap (chan s)"
    using contents_le_cap [of "chan s" "cells s"] by simp
  ultimately show ?thesis by blast
qed

text \<open>
  C15: the producer and the consumer never hold the same slot, so filling a slot and reading one
  never race; in every interleaving of fewer than 2^64 messages.
\<close>

theorem spsc_no_slot_race:
  assumes "fixed_inv c" "m_uTail c = 0"
    and "spsc_step\<^sup>*\<^sup>* (spsc_init c mem) s" "length (produced s) < 2 ^ 64"
    and "producer_slot (ppc s) = Some p" "consumer_slot (cpc s) = Some q"
  shows "p \<noteq> q"
proof -
  have inv: "spsc_inv s"
    using spsc_reach_inv [OF assms(3) spsc_init_inv [OF assms(1,2)] assms(4)] .
  then have "has_room (chan s) \<and> p = slot_addr (chan s) (m_uTail (chan s))"
    using assms(5) by (cases "ppc s") (simp_all add: spsc_inv_def)
  moreover have "m_uHead (chan s) < m_uTailRef (chan s) \<and> q = slot_addr (chan s) (m_uHead (chan s))"
    using inv assms(6) by (cases "cpc s") (simp_all add: spsc_inv_def)
  ultimately show ?thesis
    using inv slot_tail_head by (simp add: spsc_inv_def)
qed

section \<open>Witnesses\<close>

text \<open>One message posted and a second slot reserved, while the consumer reads the first.\<close>

definition example_run :: "nat spsc" where
  "example_run = \<lparr>chan = example_chan\<lparr>m_uTail := 1, m_uTailRef := 1,
       m_Statsp := \<lparr>uCount = 2, uFailed = 0, uCount2 = 1, uFailed2 = 0\<rparr>,
       m_Statsc := \<lparr>uCount = 1, uFailed = 0, uCount2 = 0, uFailed2 = 0\<rparr>\<rparr>,
     cells = (\<lambda>_. 0)(1024 := 7), ppc = PSlot 1032, cpc = CRead 1024 7,
     produced = [7], consumed = []\<rparr>"

lemma example_New:
  "SPSCFixed_New example_chan =
     (example_chan\<lparr>m_Statsp := \<lparr>uCount = 1, uFailed = 0, uCount2 = 0, uFailed2 = 0\<rparr>\<rparr>, Some 1024)"
  "SPSCFixed_New (example_chan\<lparr>m_uTail := 1, m_uTailRef := 1,
       m_Statsp := \<lparr>uCount = 1, uFailed = 0, uCount2 = 1, uFailed2 = 0\<rparr>,
       m_Statsc := \<lparr>uCount = 1, uFailed = 0, uCount2 = 0, uFailed2 = 0\<rparr>\<rparr>) =
     (example_chan\<lparr>m_uTail := 1, m_uTailRef := 1,
       m_Statsp := \<lparr>uCount = 2, uFailed = 0, uCount2 = 1, uFailed2 = 0\<rparr>,
       m_Statsc := \<lparr>uCount = 1, uFailed = 0, uCount2 = 0, uFailed2 = 0\<rparr>\<rparr>, Some 1032)"
  by (simp_all add: SPSCFixed_New_def example_chan_def SPSCFixed_default_def SPSCFixed_slot_def
      GetIndex_def ChannelStats_Reset_def)

lemma example_Get:
  "SPSCFixed_Get (example_chan\<lparr>m_uTail := 1,
       m_Statsp := \<lparr>uCount = 1, uFailed = 0, uCount2 = 1, uFailed2 = 0\<rparr>\<rparr>) =
     (example_chan\<lparr>m_uTail := 1, m_uTailRef := 1,
       m_Statsp := \<lparr>uCount = 1, uFailed = 0, uCount2 = 1, uFailed2 = 0\<rparr>,
       m_Statsc := \<lparr>uCount = 1, uFailed = 0, uCount2 = 0, uFailed2 = 0\<rparr>\<rparr>, Some 1024)"
  by (simp add: SPSCFixed_Get_def example_chan_def SPSCFixed_default_def SPSCFixed_slot_def
      GetIndex_def ChannelStats_Reset_def)

lemma example_Post:
  "SPSCFixed_Post (Some 1024)
       (example_chan\<lparr>m_Statsp := \<lparr>uCount = 1, uFailed = 0, uCount2 = 0, uFailed2 = 0\<rparr>\<rparr>) =
     example_chan\<lparr>m_uTail := 1,
       m_Statsp := \<lparr>uCount = 1, uFailed = 0, uCount2 = 1, uFailed2 = 0\<rparr>\<rparr>"
  by (simp add: SPSCFixed_Post_def example_chan_def SPSCFixed_default_def)

lemma example_reach: "spsc_step\<^sup>*\<^sup>* (spsc_init example_chan (\<lambda>_. 0)) example_run"
  unfolding spsc_init_def example_run_def
  apply (rule converse_rtranclp_into_rtranclp)
   apply (rule new_ok, simp, simp, rule example_New)
  apply (simp, rule converse_rtranclp_into_rtranclp)
   apply (rule fill [where v = 7], simp)
  apply (simp, rule converse_rtranclp_into_rtranclp)
   apply (rule post, simp)
  apply (simp add: example_Post, rule converse_rtranclp_into_rtranclp)
   apply (rule get_ok, simp, simp, rule example_Get)
  apply (simp, rule converse_rtranclp_into_rtranclp)
   apply (rule take, simp)
  apply (simp, rule converse_rtranclp_into_rtranclp)
   apply (rule new_ok, simp, simp, rule example_New)
  apply simp
  done

theorem spsc_delivery_witness:
  "\<exists>flight. produced example_run = consumed example_run @ flight \<and>
     length flight \<le> fixed_cap (chan example_run)"
  using spsc_delivery [OF example_inv _ example_reach]
  by (simp add: example_run_def example_chan_def SPSCFixed_default_def)

theorem spsc_no_slot_race_witness: "(1032 :: uint64_t) \<noteq> 1024"
  using spsc_no_slot_race [OF example_inv _ example_reach, of 1032 1024]
  by (simp add: example_run_def example_chan_def SPSCFixed_default_def)

end
