(* ===== verification/VariableChannel.thy ===== *)
theory VariableChannel
  imports ChannelCommon Allocator Fifo
begin

text \<open>
  The single-producer single-consumer channel of variable-size messages:
  \<open>base/sources/channel/spsc_variable_bounded_channel.{h,cpp}\<close>. The ring is memory of 64-bit cells,
  each of which can be read as an \<open>Entry\<close> header, as the code's casts do: a cell of a payload
  and a cell that holds a header are the same kind of thing, so an overlap would be seen.
\<close>

section \<open>State\<close>

record CSPSCVariableBoundedChannel =
  m_pDatap_v :: pointer
  m_uSizep_v :: uint64_t
  m_uTail_v :: uint64_t
  m_uHeadRef_v :: uint64_t
  m_Statsp_v :: ChannelStats
  m_pDatac_v :: pointer
  m_uSizec_v :: uint64_t
  m_uHead_v :: uint64_t
  m_uTailRef_v :: uint64_t
  m_Statsc_v :: ChannelStats

type_synonym cells = "uint64_t \<Rightarrow> Entry"

type_synonym var_chan = "CSPSCVariableBoundedChannel \<times> cells"

definition SPSCVar_default :: CSPSCVariableBoundedChannel where
  "SPSCVar_default =
     \<lparr>m_pDatap_v = nullptr, m_uSizep_v = 0, m_uTail_v = 0, m_uHeadRef_v = 0,
      m_Statsp_v = ChannelStats_Reset, m_pDatac_v = nullptr, m_uSizec_v = 0, m_uHead_v = 0,
      m_uTailRef_v = 0, m_Statsc_v = ChannelStats_Reset\<rparr>"

section \<open>Operations\<close>

definition SPSCVar_destructor :: "CSPSCVariableBoundedChannel \<Rightarrow> heap \<Rightarrow> heap" where
  "SPSCVar_destructor c h =
     (if m_pDatap_v c \<noteq> nullptr then CAllocatorImpl_Free (m_pDatap_v c) h else h)"

definition SPSCVar_Init ::
  "pointer \<Rightarrow> uint64_t \<Rightarrow> CSPSCVariableBoundedChannel \<Rightarrow> heap \<Rightarrow> last_error \<Rightarrow>
     CSPSCVariableBoundedChannel \<times> heap \<times> last_error \<times> ErrorCode" where
  "SPSCVar_Init ans uMaxMemorySizeKB c h e =
     (if uMaxMemorySizeKB = 0 then (c, h, SetLastError kInvalidParam e, kInvalidParam)
      else
        let size = Up2PowerOf2 (uMaxMemorySizeKB * 1024);
            c = c\<lparr>m_uSizep_v := size, m_uSizec_v := size, m_uTail_v := 0, m_uHeadRef_v := 0,
                  m_Statsp_v := ChannelStats_Reset, m_Statsc_v := ChannelStats_Reset\<rparr>
        in case CAllocatorImpl_Malloc ans size h of
             (None, h) \<Rightarrow> (c, h, SetLastError kOutOfMemory e, kOutOfMemory)
           | (Some pData, h) \<Rightarrow>
               (c\<lparr>m_pDatap_v := Some pData, m_pDatac_v := Some pData\<rparr>, h, e, kSuccess))"

text \<open>\<open>&m_pData[i]\<close>.\<close>

definition data_at :: "pointer \<Rightarrow> uint64_t \<Rightarrow> uint64_t" where
  "data_at pData i = the pData + i"

definition SPSCVar_NewEntry :: "uint32_t \<Rightarrow> var_chan \<Rightarrow> var_chan \<times> pointer" where
  "SPSCVar_NewEntry uNewSize s =
     (case s of (c, m) \<Rightarrow>
       if m_uTail_v c - m_uHeadRef_v c \<ge> m_uSizep_v c then (s, nullptr)
       else
         let uTail = GetIndex (m_uTail_v c) (m_uSizep_v c);
             uHead = GetIndex (m_uHeadRef_v c) (m_uSizep_v c)
         in if uTail \<ge> uHead then
              (if uTail + ucast uNewSize \<le> m_uSizep_v c
               then (s, Some (data_at (m_pDatap_v c) uTail))
               else
                 let m = (if m_uSizep_v c - uTail \<ge> ucast (Entry_CalSize 0)
                          then m(data_at (m_pDatap_v c) uTail :=
                            \<lparr>uMagic = kMagic, uFlags = kPlacehold,
                             uLength = ucast (m_uSizep_v c - uTail)\<rparr>)
                          else m);
                     c = c\<lparr>m_uTail_v := m_uTail_v c + (m_uSizep_v c - uTail)\<rparr>;
                     uTail = 0
                 in if uTail + ucast uNewSize \<le> uHead
                    then ((c, m), Some (data_at (m_pDatap_v c) uTail))
                    else ((c, m), nullptr))
            else
              (if uTail + ucast uNewSize \<le> uHead
               then (s, Some (data_at (m_pDatap_v c) uTail))
               else (s, nullptr)))"

text \<open>\<open>New()\<close> without a size is not an operation of this channel.\<close>

definition SPSCVar_New0 :: "var_chan \<Rightarrow> last_error \<Rightarrow> var_chan \<times> last_error \<times> pointer" where
  "SPSCVar_New0 s e = (s, SetLastError kInvalidCall e, nullptr)"

definition fresh_entry :: "uint32_t \<Rightarrow> Entry" where
  "fresh_entry uEntrySize = \<lparr>uMagic = kMagic, uFlags = 0, uLength = uEntrySize\<rparr>"

definition SPSCVar_New :: "uint32_t \<Rightarrow> var_chan \<Rightarrow> var_chan \<times> pointer" where
  "SPSCVar_New uSize s =
     (let uEntrySize = Entry_CalSize uSize in
      case SPSCVar_NewEntry uEntrySize s of
        ((c, m), Some p) \<Rightarrow>
          ((c\<lparr>m_Statsp_v := (m_Statsp_v c)\<lparr>uCount := uCount (m_Statsp_v c) + 1\<rparr>\<rparr>,
            m(p := fresh_entry uEntrySize)), Some p)
      | ((c, m), None) \<Rightarrow>
          let c = c\<lparr>m_uHeadRef_v := m_uHead_v c\<rparr> in
          (case SPSCVar_NewEntry uEntrySize (c, m) of
             ((c, m), Some p) \<Rightarrow>
               ((c\<lparr>m_Statsp_v := (m_Statsp_v c)\<lparr>uCount := uCount (m_Statsp_v c) + 1\<rparr>\<rparr>,
                 m(p := fresh_entry uEntrySize)), Some p)
           | ((c, m), None) \<Rightarrow>
               ((c\<lparr>m_Statsp_v := (m_Statsp_v c)\<lparr>uFailed := uFailed (m_Statsp_v c) + 1\<rparr>\<rparr>, m),
                nullptr)))"

definition SPSCVar_Post :: "pointer \<Rightarrow> var_chan \<Rightarrow> var_chan" where
  "SPSCVar_Post pEntry s =
     (case s of (c, m) \<Rightarrow>
       (if pEntry \<noteq> nullptr \<and> uMagic (m (the pEntry)) = kMagic
        then (c\<lparr>m_uTail_v := m_uTail_v c + ucast (uLength (m (the pEntry))),
                m_Statsp_v := (m_Statsp_v c)\<lparr>uCount2 := uCount2 (m_Statsp_v c) + 1\<rparr>\<rparr>, m)
        else (c\<lparr>m_Statsp_v := (m_Statsp_v c)\<lparr>uFailed2 := uFailed2 (m_Statsp_v c) + 1\<rparr>\<rparr>, m)))"

definition SPSCVar_GetEntry :: "var_chan \<Rightarrow> var_chan \<times> pointer" where
  "SPSCVar_GetEntry s =
     (case s of (c, m) \<Rightarrow>
       if m_uHead_v c \<ge> m_uTailRef_v c then (s, nullptr)
       else
         let uHead = GetIndex (m_uHead_v c) (m_uSizec_v c);
             uTail = GetIndex (m_uTailRef_v c) (m_uSizec_v c)
         in if uHead < uTail then (s, Some (data_at (m_pDatac_v c) uHead))
            else
              let pEntry = m (data_at (m_pDatac_v c) uHead) in
              (if m_uSizec_v c - uHead > ucast (Entry_CalSize 0) \<and> uFlags pEntry \<noteq> kPlacehold
               then (s, Some (data_at (m_pDatac_v c) uHead))
               else
                 let c = c\<lparr>m_uHead_v := m_uHead_v c +
                       (if m_uSizec_v c - uHead > ucast (Entry_CalSize 0) then m_uSizec_v c - uHead
                        else ucast (uLength pEntry))\<rparr>;
                     uHead = 0
                 in if uHead < uTail then ((c, m), Some (data_at (m_pDatac_v c) 0))
                    else ((c, m), nullptr)))"

definition SPSCVar_Get :: "var_chan \<Rightarrow> var_chan \<times> pointer" where
  "SPSCVar_Get s =
     (case SPSCVar_GetEntry s of
        ((c, m), Some p) \<Rightarrow>
          ((c\<lparr>m_Statsc_v := (m_Statsc_v c)\<lparr>uCount := uCount (m_Statsc_v c) + 1\<rparr>\<rparr>, m), Some p)
      | ((c, m), None) \<Rightarrow>
          (case SPSCVar_GetEntry (c\<lparr>m_uTailRef_v := m_uTail_v c\<rparr>, m) of
             ((c, m), Some p) \<Rightarrow>
               ((c\<lparr>m_Statsc_v := (m_Statsc_v c)\<lparr>uCount := uCount (m_Statsc_v c) + 1\<rparr>\<rparr>, m), Some p)
           | ((c, m), None) \<Rightarrow>
               ((c\<lparr>m_Statsc_v := (m_Statsc_v c)\<lparr>uFailed := uFailed (m_Statsc_v c) + 1\<rparr>\<rparr>, m),
                nullptr)))"

text \<open>
  The assertions of the code, at the states where they are evaluated: the one of \<open>NewEntry\<close> after the
  tail was moved to the end of the lap, the one of \<open>GetEntry\<close> after the head was, those of \<open>Get\<close> on
  the header of an entry it is about to return. A call satisfies them when none of those that its
  path evaluates fails.
\<close>

definition SPSCVar_NewEntry_assert :: "uint32_t \<Rightarrow> var_chan \<Rightarrow> bool" where
  "SPSCVar_NewEntry_assert uNewSize s =
     (case s of (c, m) \<Rightarrow>
       if m_uTail_v c - m_uHeadRef_v c \<ge> m_uSizep_v c then True
       else
         let uTail = GetIndex (m_uTail_v c) (m_uSizep_v c);
             uHead = GetIndex (m_uHeadRef_v c) (m_uSizep_v c)
         in if uTail \<ge> uHead then
              (if uTail + ucast uNewSize \<le> m_uSizep_v c then True
               else GetIndex (m_uTail_v c + (m_uSizep_v c - uTail)) (m_uSizep_v c) = 0)
            else True)"

definition SPSCVar_New_asserts :: "uint32_t \<Rightarrow> var_chan \<Rightarrow> bool" where
  "SPSCVar_New_asserts uSize s =
     (let uEntrySize = Entry_CalSize uSize in
      SPSCVar_NewEntry_assert uEntrySize s \<and>
      (case SPSCVar_NewEntry uEntrySize s of
         (_, Some p) \<Rightarrow> True
       | ((c, m), None) \<Rightarrow> SPSCVar_NewEntry_assert uEntrySize (c\<lparr>m_uHeadRef_v := m_uHead_v c\<rparr>, m)))"

definition SPSCVar_GetEntry_assert :: "var_chan \<Rightarrow> bool" where
  "SPSCVar_GetEntry_assert s =
     (case s of (c, m) \<Rightarrow>
       if m_uHead_v c \<ge> m_uTailRef_v c then True
       else
         let uHead = GetIndex (m_uHead_v c) (m_uSizec_v c);
             uTail = GetIndex (m_uTailRef_v c) (m_uSizec_v c)
         in if uHead < uTail then True
            else
              let pEntry = m (data_at (m_pDatac_v c) uHead) in
              (if m_uSizec_v c - uHead > ucast (Entry_CalSize 0) \<and> uFlags pEntry \<noteq> kPlacehold
               then True
               else
                 GetIndex (m_uHead_v c +
                     (if m_uSizec_v c - uHead > ucast (Entry_CalSize 0) then m_uSizec_v c - uHead
                      else ucast (uLength pEntry))) (m_uSizec_v c) = 0))"

definition header_assert :: "Entry \<Rightarrow> bool" where
  "header_assert e \<longleftrightarrow> uMagic e = kMagic \<and> uFlags e AND kPlacehold = 0"

definition SPSCVar_Get_asserts :: "var_chan \<Rightarrow> bool" where
  "SPSCVar_Get_asserts s =
     (SPSCVar_GetEntry_assert s \<and>
      (case SPSCVar_GetEntry s of
         ((c, m), Some p) \<Rightarrow> header_assert (m p)
       | ((c, m), None) \<Rightarrow>
           SPSCVar_GetEntry_assert (c\<lparr>m_uTailRef_v := m_uTail_v c\<rparr>, m) \<and>
           (case SPSCVar_GetEntry (c\<lparr>m_uTailRef_v := m_uTail_v c\<rparr>, m) of
              ((c, m), Some p) \<Rightarrow> header_assert (m p)
            | ((c, m), None) \<Rightarrow> True)))"

definition SPSCVar_Delete :: "pointer \<Rightarrow> var_chan \<Rightarrow> var_chan" where
  "SPSCVar_Delete pEntry s =
     (case s of (c, m) \<Rightarrow>
       (if pEntry \<noteq> nullptr \<and> uMagic (m (the pEntry)) = kMagic
        then (c\<lparr>m_uHead_v := m_uHead_v c + ucast (uLength (m (the pEntry))),
                m_Statsc_v := (m_Statsc_v c)\<lparr>uCount2 := uCount2 (m_Statsc_v c) + 1\<rparr>\<rparr>, m)
        else (c\<lparr>m_Statsc_v := (m_Statsc_v c)\<lparr>uFailed2 := uFailed2 (m_Statsc_v c) + 1\<rparr>\<rparr>, m)))"

definition SPSCVar_IsEmpty :: "CSPSCVariableBoundedChannel \<Rightarrow> bool" where
  "SPSCVar_IsEmpty c \<longleftrightarrow> uCount2 (m_Statsp_v c) = uCount2 (m_Statsc_v c)"

definition SPSCVar_GetSize :: "CSPSCVariableBoundedChannel \<Rightarrow> uint32_t" where
  "SPSCVar_GetSize c = ucast (uCount2 (m_Statsp_v c) - uCount2 (m_Statsc_v c))"

definition SPSCVar_GetStats ::
  "bool \<Rightarrow> (string \<Rightarrow> bool) \<Rightarrow> CSPSCVariableBoundedChannel \<Rightarrow>
     (string \<times> string \<times> uint32_t) list \<times> ErrorCode" where
  "SPSCVar_GetStats present made c =
     (if present
      then ((if made ''producer'' then
               [(''producer'', ''New'', ucast (uCount (m_Statsp_v c))),
                (''producer'', ''NewFailed'', ucast (uFailed (m_Statsp_v c))),
                (''producer'', ''Post'', ucast (uCount2 (m_Statsp_v c))),
                (''producer'', ''PostFailed'', ucast (uFailed2 (m_Statsp_v c)))]
             else []) @
            (if made ''consumer'' then
               [(''consumer'', ''Get'', ucast (uCount (m_Statsc_v c))),
                (''consumer'', ''GetFailed'', ucast (uFailed (m_Statsc_v c))),
                (''consumer'', ''Delete'', ucast (uCount2 (m_Statsc_v c))),
                (''consumer'', ''DeleteFailed'', ucast (uFailed2 (m_Statsc_v c)))]
             else []), kSuccess)
      else ([], kInvalidParam))"

section \<open>The exported interface\<close>

definition SPSCVar_Create ::
  "pointer \<Rightarrow> pointer \<Rightarrow> uint64_t \<Rightarrow> ChannelConfig option \<Rightarrow> heap \<Rightarrow> last_error \<Rightarrow>
     (uint64_t \<times> CSPSCVariableBoundedChannel) option \<times> heap \<times> last_error" where
  "SPSCVar_Create ans1 ans2 sizeof_T pConfig h e =
     (case pConfig of
        None \<Rightarrow> (nullptr, h, e)
      | Some cfg \<Rightarrow>
          (case IAllocatorEx_New ans1 sizeof_T (Some SPSCVar_default) h of
             (None, h) \<Rightarrow> (nullptr, h, e)
           | (Some (pChannel, c), h) \<Rightarrow>
               (case SPSCVar_Init ans2 (ucast (uTotalMemorySizeKB cfg)) c h e of
                  (c, h, e, iErrorNo) \<Rightarrow>
                    if iErrorNo \<noteq> kSuccess
                    then (nullptr, IAllocatorEx_Delete (Some pChannel) (SPSCVar_destructor c) h, e)
                    else (Some (pChannel, c), h, e))))"

definition SPSCVar_Destroy ::
  "(uint64_t \<times> CSPSCVariableBoundedChannel) option \<Rightarrow> heap \<Rightarrow> heap" where
  "SPSCVar_Destroy pChannel h =
     (case pChannel of
        None \<Rightarrow> IAllocatorEx_Delete nullptr id h
      | Some (p, c) \<Rightarrow> IAllocatorEx_Delete (Some p) (SPSCVar_destructor c) h)"

definition IChannelVar_New :: "uint32_t \<Rightarrow> var_chan \<Rightarrow> var_chan \<times> pointer" where
  "IChannelVar_New uSize s =
     (case SPSCVar_New uSize s of (s, pEntry) \<Rightarrow> (s, map_option Entry_GetData pEntry))"

definition IChannelVar_Post :: "pointer \<Rightarrow> var_chan \<Rightarrow> var_chan" where
  "IChannelVar_Post pData s =
     (case pData of None \<Rightarrow> s | Some p \<Rightarrow> SPSCVar_Post (Some (Entry_GetEntry p)) s)"

definition IChannelVar_Get :: "var_chan \<Rightarrow> var_chan \<times> pointer" where
  "IChannelVar_Get s = (case SPSCVar_Get s of (s, pEntry) \<Rightarrow> (s, map_option Entry_GetData pEntry))"

definition IChannelVar_Delete :: "pointer \<Rightarrow> var_chan \<Rightarrow> var_chan" where
  "IChannelVar_Delete pData s =
     (case pData of None \<Rightarrow> s | Some p \<Rightarrow> SPSCVar_Delete (Some (Entry_GetEntry p)) s)"

text \<open>The payload a client writes and reads, as 64-bit cells.\<close>

fun write_cells :: "cells \<Rightarrow> uint64_t \<Rightarrow> Entry list \<Rightarrow> cells" where
  "write_cells m p [] = m"
| "write_cells m p (x # xs) = write_cells (m(p := x)) (p + 8) xs"

fun read_cells :: "cells \<Rightarrow> uint64_t \<Rightarrow> nat \<Rightarrow> Entry list" where
  "read_cells m p 0 = []"
| "read_cells m p (Suc n) = m p # read_cells m (p + 8) n"

text \<open>
  Sending a message of \<open>n\<close> bytes: \<open>New\<close> with its size, filling the data, \<open>Post\<close>. The client fills the
  cells that hold the \<open>n\<close> bytes, the rest of the last cell being arbitrary.
\<close>

definition var_send :: "uint32_t \<times> Entry list \<Rightarrow> var_chan \<Rightarrow> var_chan \<times> bool" where
  "var_send nx s =
     (case IChannelVar_New (fst nx) s of
        (s, None) \<Rightarrow> (s, False)
      | ((c, m), Some p) \<Rightarrow> (IChannelVar_Post (Some p) (c, write_cells m p (snd nx)), True))"

text \<open>Receiving: \<open>Get\<close>, reading as many bytes as the header tells, \<open>Delete\<close>.\<close>

definition var_receive :: "var_chan \<Rightarrow> var_chan \<times> Entry list option" where
  "var_receive s =
     (case IChannelVar_Get s of
        (s, None) \<Rightarrow> (s, None)
      | ((c, m), Some p) \<Rightarrow>
          (IChannelVar_Delete (Some p) (c, m),
           Some (read_cells m p (unat (Entry_GetDataLength (m (Entry_GetEntry p))) div 8))))"

end
