(* ===== verification/VariableQueue.thy ===== *)
theory VariableQueue
  imports VariableChannel
begin

text \<open>
  The variable-size channel is a queue of messages. From the head to the tail the ring is tiled by
  entries, none of which wraps around the end of the ring, and by paddings that fill the end of a
  lap: placeholders, and empty messages that occupy the last eight bytes. The operations keep the tiling and the queue contract is interpreted on sending and
  receiving whole messages.
\<close>

section \<open>The tiling of the ring\<close>

text \<open>The address of a position, for the base address and the size of the ring.\<close>

definition ring_addr :: "uint64_t \<Rightarrow> nat \<Rightarrow> nat \<Rightarrow> uint64_t" where
  "ring_addr b n i = b + of_nat (i mod n)"

definition payload :: "uint64_t \<Rightarrow> nat \<Rightarrow> cells \<Rightarrow> nat \<Rightarrow> nat \<Rightarrow> Entry list" where
  "payload b n m h l = map (\<lambda>j. m (ring_addr b n (h + 8 * (j + 1)))) [0..<l div 8 - 1]"

definition entry_at :: "uint64_t \<Rightarrow> nat \<Rightarrow> cells \<Rightarrow> nat \<Rightarrow> nat \<Rightarrow> bool" where
  "entry_at b n m h l \<longleftrightarrow> 8 \<le> l \<and> 8 dvd l \<and> h mod n + l \<le> n \<and> h mod n + 8 < n \<and>
     uMagic (m (ring_addr b n h)) = kMagic \<and> uFlags (m (ring_addr b n h)) = 0 \<and>
     unat (uLength (m (ring_addr b n h))) = l"

definition pad_at :: "uint64_t \<Rightarrow> nat \<Rightarrow> cells \<Rightarrow> nat \<Rightarrow> bool" where
  "pad_at b n m h \<longleftrightarrow> (uFlags (m (ring_addr b n h)) = kPlacehold \<or> n - h mod n = 8) \<and>
     (n - h mod n = 8 \<longrightarrow> uLength (m (ring_addr b n h)) = 8)"

inductive tiled :: "uint64_t \<Rightarrow> nat \<Rightarrow> cells \<Rightarrow> nat \<Rightarrow> nat \<Rightarrow> Entry list list \<Rightarrow> bool"
  for b n m where
  tiled_nil: "tiled b n m h h []"
| tiled_entry: "entry_at b n m h l \<Longrightarrow> tiled b n m (h + l) t ms \<Longrightarrow>
    tiled b n m h t (payload b n m h l # ms)"
| tiled_pad: "pad_at b n m h \<Longrightarrow> h mod n < n \<Longrightarrow> tiled b n m (h + (n - h mod n)) t ms \<Longrightarrow>
    tiled b n m h t ms"

inductive_cases tiledE: "tiled b n m h t ms"

lemma ring_end_after: "0 < n \<Longrightarrow> (h :: nat) < h + n - h mod n"
  using mod_less_divisor [of n h] by linarith

text \<open>The messages between two positions, read off the memory.\<close>

function var_walk :: "uint64_t \<Rightarrow> nat \<Rightarrow> cells \<Rightarrow> nat \<Rightarrow> nat \<Rightarrow> Entry list list" where
  "var_walk b n m h t =
     (if h < t \<and> 0 < n then
        (if uFlags (m (ring_addr b n h)) = kPlacehold \<or> n - h mod n = 8
         then var_walk b n m (h + (n - h mod n)) t
         else if uLength (m (ring_addr b n h)) = 0 then []
         else payload b n m h (unat (uLength (m (ring_addr b n h)))) #
           var_walk b n m (h + unat (uLength (m (ring_addr b n h)))) t)
      else [])"
  by auto
termination
  by (relation "measure (\<lambda>(b, n, m, h, t). t - h)")
    (auto simp: word_gt_0 ring_end_after simp flip: unat_gt_0 intro!: diff_less_mono2)

declare var_walk.simps [simp del]

lemma tiled_le: "tiled b n m h t ms \<Longrightarrow> h \<le> t"
  by (induction rule: tiled.induct) auto

lemma tiled_walk: "tiled b n m h t ms \<Longrightarrow> var_walk b n m h t = ms"
proof (induction rule: tiled.induct)
  case (tiled_nil h)
  then show ?case by (simp add: var_walk.simps)
next
  case (tiled_entry h l t ms)
  have "h + l \<le> t"
    using tiled_entry.hyps(2) by (rule tiled_le)
  moreover have "uLength (m (ring_addr b n h)) \<noteq> 0"
    using tiled_entry.hyps(1) by (auto simp: entry_at_def)
  ultimately show ?case
    using tiled_entry by (subst var_walk.simps) (auto simp: entry_at_def kPlacehold_def)
next
  case (tiled_pad h t ms)
  have "h + (n - h mod n) \<le> t"
    using tiled_pad.hyps(3) by (rule tiled_le)
  then show ?case
    using tiled_pad by (subst var_walk.simps) (auto simp: pad_at_def)
qed

lemma tiled_append:
  "tiled b n m h t ms \<Longrightarrow> tiled b n m t u ns \<Longrightarrow> tiled b n m h u (ms @ ns)"
  by (induction rule: tiled.induct) (auto intro: tiled.intros)

lemma tiled_frame:
  assumes "tiled b n m h t ms" "\<And>i. h \<le> i \<Longrightarrow> i < t \<Longrightarrow> m' (ring_addr b n i) = m (ring_addr b n i)"
  shows "tiled b n m' h t ms"
  using assms
proof (induction rule: tiled.induct)
  case (tiled_nil h)
  show ?case by (rule tiled.tiled_nil)
next
  case (tiled_entry h l t ms)
  have t: "h + l \<le> t" "8 \<le> l"
    using tiled_entry.hyps tiled_le by (auto simp: entry_at_def)
  have "payload b n m' h l = payload b n m h l"
    using t tiled_entry.prems by (auto simp: payload_def)
  moreover have "entry_at b n m' h l"
    using t tiled_entry.hyps(1) tiled_entry.prems [of h] by (simp add: entry_at_def)
  moreover have "tiled b n m' (h + l) t ms"
    using tiled_entry.prems by (intro tiled_entry.IH) auto
  ultimately show ?case
    using tiled.tiled_entry [of b n m' h l t ms] by simp
next
  case (tiled_pad h t ms)
  have t: "h + (n - h mod n) \<le> t"
    using tiled_pad.hyps(3) by (rule tiled_le)
  have "pad_at b n m' h"
    using t tiled_pad.hyps(1,2) tiled_pad.prems [of h] by (simp add: pad_at_def)
  moreover have "tiled b n m' (h + (n - h mod n)) t ms"
    using tiled_pad.prems by (intro tiled_pad.IH) auto
  ultimately show ?case
    using tiled.tiled_pad [OF _ tiled_pad.hyps(2)] by simp
qed

lemma unat_ring_addr:
  assumes "unat b + n \<le> 2 ^ 64" "0 < n"
  shows "unat (ring_addr b n i) = unat b + i mod n"
proof -
  have lt: "unat b + i mod n < 2 ^ 64"
    using assms mod_less_divisor [of n i] by linarith
  then have "unat (of_nat (i mod n) :: uint64_t) = i mod n"
    by (simp add: unat_of_nat)
  with lt show ?thesis
    by (simp add: ring_addr_def unat_plus_small)
qed

lemma ring_addr_inj:
  assumes "unat b + n \<le> 2 ^ 64" "0 < n" "ring_addr b n i = ring_addr b n j"
    "h \<le> i" "i < h + n" "h \<le> j" "j < h + n"
  shows "i = j"
proof -
  have "i mod n = j mod n"
    using arg_cong [OF assms(3), of unat] by (simp add: unat_ring_addr [OF assms(1,2)])
  then show ?thesis
    using assms(4-7) by (rule mod_window_inj)
qed

text \<open>Consecutive cells of an entry have consecutive addresses.\<close>

lemma ring_addr_step:
  assumes "i mod n + d < n"
  shows "ring_addr b n (i + d) = ring_addr b n i + of_nat d"
proof -
  have "(i + d) mod n = i mod n + d"
    using assms by (metis mod_add_left_eq mod_less)
  then show ?thesis
    by (simp add: ring_addr_def)
qed

lemma read_cells_map: "read_cells m p k = map (\<lambda>j. m (p + 8 * of_nat j)) [0..<k]"
proof (induction k arbitrary: p)
  case (Suc k)
  have "map (\<lambda>j. m (p + 8 * of_nat j)) [0..<Suc k] = m p # map (\<lambda>j. m (p + 8 * of_nat (Suc j))) [0..<k]"
    by (simp add: upt_conv_Cons map_Suc_upt [symmetric] del: upt_Suc)
  with Suc show ?case
    by (simp add: algebra_simps)
qed simp

lemma payload_read:
  assumes "h mod n + l \<le> n"
  shows "payload b n m h l = read_cells m (ring_addr b n h + 8) (l div 8 - 1)"
proof -
  have "ring_addr b n (h + 8 * (j + 1)) = ring_addr b n h + 8 + 8 * of_nat j" if "j < l div 8 - 1" for j
  proof -
    have "h mod n + 8 * (j + 1) < n"
      using that assms by auto
    then show ?thesis
      using ring_addr_step [of h n "8 * (j + 1)" b] by (simp add: algebra_simps)
  qed
  then show ?thesis
    by (auto simp: payload_def read_cells_map)
qed

lemma write_cells_other:
  assumes "\<And>j. j < length xs \<Longrightarrow> a \<noteq> p + 8 * of_nat j"
  shows "write_cells m p xs a = m a"
  using assms
proof (induction xs arbitrary: m p)
  case (Cons x xs)
  have "a \<noteq> p"
    using Cons.prems [of 0] by simp
  moreover have "a \<noteq> p + 8 + 8 * of_nat j" if "j < length xs" for j
    using Cons.prems [of "Suc j"] that by (simp add: algebra_simps)
  ultimately show ?case
    using Cons.IH [of "p + 8"] by simp
qed simp

lemma write_cells_at:
  assumes "8 * length xs < 2 ^ 64" "j < length xs"
  shows "write_cells m p xs (p + 8 * of_nat j) = xs ! j"
  using assms
proof (induction xs arbitrary: m p j)
  case (Cons x xs)
  show ?case
  proof (cases j)
    case 0
    have "p \<noteq> p + 8 + 8 * of_nat i" if "i < length xs" for i
    proof
      assume "p = p + 8 + 8 * of_nat i"
      then have "(of_nat (8 * Suc i) :: uint64_t) = 0"
        by (simp add: algebra_simps)
      then have "8 * Suc i mod 2 ^ 64 = 0"
        using unat_of_nat [of "8 * Suc i", where 'a = 64] by simp
      with that Cons.prems(1) show False by simp
    qed
    with 0 show ?thesis
      using write_cells_other [of xs p "p + 8"] by simp
  next
    case (Suc i)
    with Cons show ?thesis
      using Cons.IH [of i "m(p := x)" "p + 8"] by (simp add: algebra_simps del: fun_upd_apply)
  qed
qed simp

section \<open>The invariant\<close>

definition var_size :: "CSPSCVariableBoundedChannel \<Rightarrow> nat" where
  "var_size c = unat (m_uSizep_v c)"

definition var_base :: "CSPSCVariableBoundedChannel \<Rightarrow> uint64_t" where
  "var_base c = the (m_pDatap_v c)"

definition var_geom :: "CSPSCVariableBoundedChannel \<Rightarrow> bool" where
  "var_geom c \<longleftrightarrow> m_pDatap_v c \<noteq> nullptr \<and> m_pDatac_v c = m_pDatap_v c \<and>
     m_uSizec_v c = m_uSizep_v c \<and> (\<exists>k. 4 \<le> k \<and> k < 63 \<and> m_uSizep_v c = 2 ^ k) \<and>
     unat (var_base c) + var_size c \<le> 2 ^ 64"

definition var_pos :: "CSPSCVariableBoundedChannel \<Rightarrow> bool" where
  "var_pos c \<longleftrightarrow> unat (m_uHeadRef_v c) \<le> unat (m_uHead_v c) \<and>
     unat (m_uHead_v c) \<le> unat (m_uTailRef_v c) \<and> unat (m_uTailRef_v c) \<le> unat (m_uTail_v c) \<and>
     unat (m_uTail_v c) \<le> unat (m_uHeadRef_v c) + var_size c \<and>
     8 dvd unat (m_uHead_v c) \<and> 8 dvd unat (m_uTail_v c)"

definition var_tiles :: "var_chan \<Rightarrow> uint64_t \<Rightarrow> uint64_t \<Rightarrow> Entry list list \<Rightarrow> bool" where
  "var_tiles s h t ms \<longleftrightarrow> tiled (var_base (fst s)) (var_size (fst s)) (snd s) (unat h) (unat t) ms"

definition var_inv :: "var_chan \<Rightarrow> bool" where
  "var_inv s \<longleftrightarrow> var_geom (fst s) \<and> var_pos (fst s) \<and>
     (\<exists>ms. var_tiles s (m_uHead_v (fst s)) (m_uTailRef_v (fst s)) ms) \<and>
     (\<exists>ms. var_tiles s (m_uTailRef_v (fst s)) (m_uTail_v (fst s)) ms)"

definition var_contents :: "var_chan \<Rightarrow> Entry list list" where
  "var_contents s = var_walk (var_base (fst s)) (var_size (fst s)) (snd s)
     (unat (m_uHead_v (fst s))) (unat (m_uTail_v (fst s)))"

text \<open>The part of the state that the operations never change.\<close>

definition var_geometry :: "CSPSCVariableBoundedChannel \<Rightarrow> pointer \<times> uint64_t \<times> pointer \<times> uint64_t" where
  "var_geometry c = (m_pDatap_v c, m_uSizep_v c, m_pDatac_v c, m_uSizec_v c)"

lemma var_geometry_eq:
  assumes "var_geometry d = var_geometry c"
  shows "var_base d = var_base c" "var_size d = var_size c" "var_geom d = var_geom c"
  using assms by (auto simp: var_geometry_def var_base_def var_size_def var_geom_def)

lemma var_tiles_eq:
  "var_geometry d = var_geometry c \<Longrightarrow> var_tiles (d, m) h t ms = var_tiles (c, m) h t ms"
  using var_geometry_eq [of d c] by (simp add: var_tiles_def)

lemma var_contents_tiles:
  assumes "var_tiles s (m_uHead_v (fst s)) t ms" "var_tiles s t (m_uTail_v (fst s)) ns"
  shows "var_contents s = ms @ ns"
  using tiled_walk [OF tiled_append [OF assms [unfolded var_tiles_def]]]
  by (simp add: var_contents_def)

lemma var_size_power:
  assumes "var_geom c"
  obtains k where "4 \<le> k" "k < 63" "m_uSizep_v c = 2 ^ k" "var_size c = 2 ^ k"
  using assms by (auto simp: var_geom_def var_size_def unat_power_two)

lemma var_size_bounds:
  assumes "var_geom c"
  shows "16 \<le> var_size c" "var_size c \<le> 2 ^ 62" "8 dvd var_size c"
proof -
  obtain k where k: "4 \<le> k" "k < 63" "var_size c = 2 ^ k"
    using assms by (rule var_size_power)
  have "(16 :: nat) = 2 ^ 4"
    by simp
  also have "\<dots> \<le> 2 ^ k"
    using k(1) by (intro power_increasing) simp_all
  finally show "16 \<le> var_size c"
    using k(3) by simp
  have "(2 :: nat) ^ k \<le> 2 ^ 62"
    using k(2) by (intro power_increasing) simp_all
  then show "var_size c \<le> 2 ^ 62"
    by (simp only: k(3))
  have "(8 :: nat) = 2 ^ 3"
    by simp
  also have "\<dots> dvd 2 ^ k"
    using k(1) by (intro le_imp_power_dvd) simp
  finally show "8 dvd var_size c"
    using k(3) by simp
qed

text \<open>Reading the index computations of the code on natural numbers.\<close>

lemma var_index:
  assumes "var_geom c"
  shows "unat (GetIndex i (m_uSizep_v c)) = unat i mod var_size c"
    "unat (GetIndex i (m_uSizec_v c)) = unat i mod var_size c"
    "data_at (m_pDatap_v c) (GetIndex i (m_uSizep_v c)) = ring_addr (var_base c) (var_size c) (unat i)"
    "data_at (m_pDatac_v c) (GetIndex i (m_uSizep_v c)) = ring_addr (var_base c) (var_size c) (unat i)"
proof -
  obtain k where k: "k < 63" "m_uSizep_v c = 2 ^ k" "var_size c = 2 ^ k"
    using assms by (rule var_size_power)
  then show i: "unat (GetIndex i (m_uSizep_v c)) = unat i mod var_size c" for i
    by (simp add: unat_GetIndex)
  then show "unat (GetIndex i (m_uSizec_v c)) = unat i mod var_size c"
    using assms by (simp add: var_geom_def)
  have "of_nat (unat i mod var_size c) = GetIndex i (m_uSizep_v c)"
    by (simp flip: i)
  then show "data_at (m_pDatap_v c) (GetIndex i (m_uSizep_v c)) =
      ring_addr (var_base c) (var_size c) (unat i)"
    "data_at (m_pDatac_v c) (GetIndex i (m_uSizep_v c)) =
      ring_addr (var_base c) (var_size c) (unat i)"
    using assms by (auto simp: data_at_def ring_addr_def var_base_def var_geom_def)
qed

lemma var_mod_less: "var_geom c \<Longrightarrow> i mod var_size c < var_size c"
  using var_size_bounds(1) [of c] by (intro mod_less_divisor) simp

lemma var_fits:
  assumes "var_geom c" "unat i < var_size c"
  shows "i + ucast (l :: uint32_t) \<le> m_uSizep_v c \<longleftrightarrow> unat i + unat l \<le> var_size c"
    "j \<le> m_uSizep_v c \<longleftrightarrow> unat j \<le> var_size c"
    "i + ucast l \<le> j \<longleftrightarrow> unat i + unat l \<le> unat j"
proof -
  have "unat (ucast l :: uint64_t) = unat l"
    using unat_lt32 [of l] by (simp add: unsigned_ucast_eq take_bit_nat_eq_self)
  moreover have "unat i + unat l < 2 ^ 64"
    using assms(2) var_size_bounds(2) [OF assms(1)] unat_lt32 [of l] by simp
  ultimately have "unat (i + ucast l) = unat i + unat l"
    by (simp add: unat_plus_small)
  then show "i + ucast l \<le> m_uSizep_v c \<longleftrightarrow> unat i + unat l \<le> var_size c"
    "j \<le> m_uSizep_v c \<longleftrightarrow> unat j \<le> var_size c"
    "i + ucast l \<le> j \<longleftrightarrow> unat i + unat l \<le> unat j"
    by (simp_all add: word_le_nat_alt var_size_def)
qed

lemma CalSize_0: "Entry_CalSize 0 = 8"
  by (simp add: Entry_CalSize_eq ALIGN8_def ALIGNN_def)

text \<open>What is left of the lap.\<close>

lemma var_lap_end:
  assumes "var_geom c"
  shows "unat (m_uSizep_v c - GetIndex i (m_uSizep_v c)) = var_size c - unat i mod var_size c"
proof -
  have "GetIndex i (m_uSizep_v c) \<le> m_uSizep_v c"
    using var_index(1) [OF assms, of i] var_mod_less [OF assms, of "unat i"]
    by (simp add: word_le_nat_alt var_size_def)
  then show ?thesis
    using var_index(1) [OF assms, of i] by (simp add: unat_sub_le var_size_def)
qed

lemma var_lap_end_ge:
  assumes "var_geom c" "8 dvd i"
  shows "8 \<le> var_size c - i mod var_size c"
proof -
  have "8 dvd var_size c - i mod var_size c"
    using assms var_size_bounds(3) by (intro dvd_diff_nat) (auto intro: dvd_mod)
  moreover have "0 < var_size c - i mod var_size c"
    using var_mod_less [OF assms(1), of i] by simp
  ultimately show ?thesis
    by (rule dvd_imp_le)
qed

section \<open>Reserving\<close>

text \<open>The state after a placeholder has filled the rest of the lap.\<close>

definition pad_entry :: "CSPSCVariableBoundedChannel \<Rightarrow> Entry" where
  "pad_entry c = \<lparr>uMagic = kMagic, uFlags = kPlacehold,
     uLength = ucast (m_uSizep_v c - GetIndex (m_uTail_v c) (m_uSizep_v c))\<rparr>"

definition padded :: "var_chan \<Rightarrow> var_chan" where
  "padded s = (case s of (c, m) \<Rightarrow>
     (c\<lparr>m_uTail_v := m_uTail_v c + (m_uSizep_v c - GetIndex (m_uTail_v c) (m_uSizep_v c))\<rparr>,
      m(ring_addr (var_base c) (var_size c) (unat (m_uTail_v c)) := pad_entry c)))"

lemma NewEntry_eq:
  assumes "var_geom c" "var_pos c"
  shows "SPSCVar_NewEntry n (c, m) =
    (let t = unat (m_uTail_v c); h = unat (m_uHeadRef_v c); z = var_size c; b = var_base c in
     if h + z \<le> t then ((c, m), None)
     else if h mod z \<le> t mod z then
       (if t mod z + unat n \<le> z then ((c, m), Some (ring_addr b z t))
        else (padded (c, m), if unat n \<le> h mod z then Some (ring_addr b z (t + (z - t mod z))) else None))
     else ((c, m), if t mod z + unat n \<le> h mod z then Some (ring_addr b z t) else None))"
proof -
  let ?t = "GetIndex (m_uTail_v c) (m_uSizep_v c)" and ?h = "GetIndex (m_uHeadRef_v c) (m_uSizep_v c)"
  note i = var_index [OF assms(1)]
  have "unat (m_uHeadRef_v c) \<le> unat (m_uTail_v c)"
    using assms(2) by (simp add: var_pos_def)
  then have full: "m_uTail_v c - m_uHeadRef_v c \<ge> m_uSizep_v c \<longleftrightarrow>
      unat (m_uHeadRef_v c) + var_size c \<le> unat (m_uTail_v c)"
    by (auto simp: word_le_nat_alt unat_sub var_size_def)
  have fit: "?t + ucast n \<le> m_uSizep_v c \<longleftrightarrow> unat (m_uTail_v c) mod var_size c + unat n \<le> var_size c"
    "?t + ucast n \<le> ?h \<longleftrightarrow>
      unat (m_uTail_v c) mod var_size c + unat n \<le> unat (m_uHeadRef_v c) mod var_size c"
    using var_fits(1,3) [OF assms(1), of ?t n] var_mod_less [OF assms(1)] by (simp_all add: i)
  have fit0: "0 + ucast n \<le> ?h \<longleftrightarrow> unat n \<le> unat (m_uHeadRef_v c) mod var_size c"
    using var_fits(3) [OF assms(1), of 0 n ?h] var_size_bounds(1) [OF assms(1)] by (simp add: i)
  have lap: "?h \<le> ?t \<longleftrightarrow> unat (m_uHeadRef_v c) mod var_size c \<le> unat (m_uTail_v c) mod var_size c"
    by (simp add: word_le_nat_alt i)
  have "8 \<le> var_size c - unat (m_uTail_v c) mod var_size c"
    using assms by (intro var_lap_end_ge) (simp_all add: var_pos_def)
  then have room: "m_uSizep_v c - ?t \<ge> ucast (Entry_CalSize 0)"
    by (simp add: word_le_nat_alt var_lap_end [OF assms(1)] CalSize_0)
  have start: "data_at (m_pDatap_v c) 0 = ring_addr (var_base c) (var_size c)
      (unat (m_uTail_v c) + (var_size c - unat (m_uTail_v c) mod var_size c))"
    unfolding ring_addr_def using var_size_bounds(1) [OF assms(1)]
    by (subst mod_lap_end) (simp_all add: data_at_def var_base_def)
  show ?thesis
    unfolding SPSCVar_NewEntry_def prod.case Let_def full lap fit fit0 i(3) start padded_def
      pad_entry_def
    using room start by simp
qed

lemma padded_geometry:
  "var_geometry (fst (padded (c, m))) = var_geometry c"
  "m_uHead_v (fst (padded (c, m))) = m_uHead_v c"
  "m_uHeadRef_v (fst (padded (c, m))) = m_uHeadRef_v c"
  "m_uTailRef_v (fst (padded (c, m))) = m_uTailRef_v c"
  by (simp_all add: padded_def var_geometry_def)

text \<open>A write outside the window from the head to the tail keeps the tiling.\<close>

lemma var_tiles_write:
  assumes "var_tiles (c, m) h t ms" "var_geom c"
    "unat t \<le> i" "i < unat h + var_size c"
  shows "var_tiles (c, m(ring_addr (var_base c) (var_size c) i := x)) h t ms"
proof -
  have "unat (var_base c) + var_size c \<le> 2 ^ 64" "0 < var_size c"
    using assms(2) var_size_bounds(1) [OF assms(2)] by (auto simp: var_geom_def)
  note inj = ring_addr_inj [OF this]
  show ?thesis
    unfolding var_tiles_def fst_conv snd_conv
  proof (rule tiled_frame [OF assms(1) [unfolded var_tiles_def fst_conv snd_conv]])
    fix j
    assume j: "unat h \<le> j" "j < unat t"
    have "ring_addr (var_base c) (var_size c) j \<noteq> ring_addr (var_base c) (var_size c) i"
      using inj [of j i "unat h"] j assms(3,4) by fastforce
    then show "(m(ring_addr (var_base c) (var_size c) i := x))
        (ring_addr (var_base c) (var_size c) j) = m (ring_addr (var_base c) (var_size c) j)"
      by simp
  qed
qed

lemma padded_tail:
  assumes "var_geom c" "unat (m_uTail_v c) + var_size c < 2 ^ 64"
  shows "unat (m_uTail_v (fst (padded (c, m)))) =
    unat (m_uTail_v c) + (var_size c - unat (m_uTail_v c) mod var_size c)"
  unfolding padded_def prod.case fst_conv
  using assms(2) var_lap_end [OF assms(1), of "m_uTail_v c"] by (simp add: unat_plus_small)

lemma padded_inv:
  assumes inv: "var_inv (c, m)" and wrap: "unat (m_uTail_v c) + var_size c < 2 ^ 64"
    and lap: "unat (m_uTail_v c) < unat (m_uHeadRef_v c) + var_size c"
    and room: "unat (m_uTail_v c) + (var_size c - unat (m_uTail_v c) mod var_size c) \<le>
      unat (m_uHeadRef_v c) + var_size c"
  shows "var_inv (padded (c, m))" "var_contents (padded (c, m)) = var_contents (c, m)"
proof -
  let ?b = "var_base c" and ?z = "var_size c" and ?t = "unat (m_uTail_v c)"
  obtain d m' where d: "padded (c, m) = (d, m')" by fastforce
  have g: "var_geom c" and p: "var_pos c"
    using inv by (auto simp: var_inv_def)
  have m': "m' = m(ring_addr ?b ?z ?t := pad_entry c)"
    using d by (auto simp: padded_def)
  have frame: "var_geometry d = var_geometry c" "m_uHead_v d = m_uHead_v c"
    "m_uHeadRef_v d = m_uHeadRef_v c" "m_uTailRef_v d = m_uTailRef_v c"
    "unat (m_uTail_v d) = ?t + (?z - ?t mod ?z)"
    using padded_geometry [of c m] padded_tail [OF g wrap, of m] by (simp_all add: d)
  note eq = var_geometry_eq [OF frame(1)]
  obtain ms ns where ms: "var_tiles (c, m) (m_uHead_v c) (m_uTailRef_v c) ms"
    and ns: "var_tiles (c, m) (m_uTailRef_v c) (m_uTail_v c) ns"
    using inv by (auto simp: var_inv_def)
  have ms': "var_tiles (c, m') (m_uHead_v c) (m_uTailRef_v c) ms"
    unfolding m' using p lap by (intro var_tiles_write [OF ms g]) (auto simp: var_pos_def)
  have ns': "var_tiles (c, m') (m_uTailRef_v c) (m_uTail_v c) ns"
    unfolding m' using p lap by (intro var_tiles_write [OF ns g]) (auto simp: var_pos_def)
  have "uLength (pad_entry c) = 8" if "?z - ?t mod ?z = 8"
  proof -
    have "m_uSizep_v c - GetIndex (m_uTail_v c) (m_uSizep_v c) = 8"
      using var_lap_end [OF g, of "m_uTail_v c"] that by (simp flip: unat_eq_iff_eq)
    then show ?thesis
      by (simp add: pad_entry_def)
  qed
  then have "pad_at ?b ?z m' ?t"
    by (simp add: pad_at_def m' pad_entry_def)
  then have "tiled ?b ?z m' ?t (?t + (?z - ?t mod ?z)) []"
    by (rule tiled_pad [OF _ var_mod_less [OF g] tiled_nil])
  with ns' have tail: "var_tiles (c, m') (m_uTailRef_v c) (m_uTail_v d) ns"
    using tiled_append [of ?b ?z m' "unat (m_uTailRef_v c)" ?t ns _ "[]"]
    by (simp add: var_tiles_def frame(5))
  have "8 dvd unat (m_uTail_v d)"
    unfolding frame(5) using p var_size_bounds(3) [OF g]
    by (intro dvd_add dvd_diff_nat) (auto simp: var_pos_def intro: dvd_mod)
  then have "var_pos d"
    using p room frame(5) by (simp add: var_pos_def frame eq)
  then show "var_inv (padded (c, m))"
    using g ms' tail var_tiles_eq [OF frame(1)] by (auto simp: var_inv_def d eq frame)
  have "var_contents (d, m') = ms @ ns"
    using ms' tail by (intro var_contents_tiles) (simp_all add: var_tiles_eq [OF frame(1)] frame)
  moreover have "var_contents (c, m) = ms @ ns"
    using ms ns by (intro var_contents_tiles) simp_all
  ultimately show "var_contents (padded (c, m)) = var_contents (c, m)"
    by (simp add: d)
qed

text \<open>A reservation of \<open>n\<close> bytes at the tail.\<close>

definition reserved :: "CSPSCVariableBoundedChannel \<Rightarrow> nat \<Rightarrow> pointer \<Rightarrow> bool" where
  "reserved c n r \<longleftrightarrow> r = Some (ring_addr (var_base c) (var_size c) (unat (m_uTail_v c))) \<and>
     unat (m_uTail_v c) mod var_size c + n \<le> var_size c \<and>
     unat (m_uTail_v c) + n \<le> unat (m_uHeadRef_v c) + var_size c"

text \<open>The four cases of the producer's view of the ring.\<close>

lemma lap_room:
  fixes h t z n :: nat
  assumes "h \<le> t" "t < h + z"
  shows "h mod z \<le> t mod z \<Longrightarrow> t + (z - t mod z) \<le> h + z"
    and "h mod z \<le> t mod z \<Longrightarrow> t mod z + n \<le> z \<Longrightarrow> t + n \<le> h + z"
    and "h mod z \<le> t mod z \<Longrightarrow> n \<le> h mod z \<Longrightarrow> t + (z - t mod z) + n \<le> h + z"
    and "\<not> h mod z \<le> t mod z \<Longrightarrow> t mod z + n \<le> h mod z \<Longrightarrow> t mod z + n \<le> z \<and> t + n \<le> h + z"
proof -
  have less: "h mod z < z" "t mod z < z"
    using assms by (auto intro!: mod_less_divisor)
  have "t mod z + h = h mod z + t \<or> t mod z + h + z = h mod z + t"
    using mod_lap [OF assms] assms(1) less by (auto split: if_splits)
  with less assms show "h mod z \<le> t mod z \<Longrightarrow> t + (z - t mod z) \<le> h + z"
    "h mod z \<le> t mod z \<Longrightarrow> t mod z + n \<le> z \<Longrightarrow> t + n \<le> h + z"
    "h mod z \<le> t mod z \<Longrightarrow> n \<le> h mod z \<Longrightarrow> t + (z - t mod z) + n \<le> h + z"
    "\<not> h mod z \<le> t mod z \<Longrightarrow> t mod z + n \<le> h mod z \<Longrightarrow> t mod z + n \<le> z \<and> t + n \<le> h + z"
    by linarith+
qed

lemma NewEntry_cases:
  assumes inv: "var_inv (c, m)" and wrap: "unat (m_uTail_v c) + var_size c < 2 ^ 64"
    and e: "SPSCVar_NewEntry n (c, m) = ((d, m'), r)"
  shows "var_inv (d, m') \<and> var_contents (d, m') = var_contents (c, m) \<and>
    var_geometry d = var_geometry c \<and> m_uHead_v d = m_uHead_v c \<and>
    (m_uTail_v d = m_uTail_v c \<or>
      unat (m_uTail_v d) = unat (m_uTail_v c) + (var_size c - unat (m_uTail_v c) mod var_size c)) \<and>
    (r \<noteq> None \<longrightarrow> reserved d (unat n) r)"
proof -
  let ?h = "unat (m_uHeadRef_v c)" and ?t = "unat (m_uTail_v c)" and ?z = "var_size c"
  have g: "var_geom c" and p: "var_pos c"
    using inv by (auto simp: var_inv_def)
  have ht: "?h \<le> ?t"
    using p by (simp add: var_pos_def)
  note E = e [unfolded NewEntry_eq [OF g p] Let_def]
  show ?thesis
  proof (cases "?t < ?h + ?z")
    case False
    with E inv show ?thesis by simp
  next
    case lt: True
    note room = lap_room [OF ht lt]
    show ?thesis
    proof (cases "?h mod ?z \<le> ?t mod ?z")
      case False
      with E lt inv room(4) [OF False, of "unat n"] show ?thesis
        by (auto simp: reserved_def split: if_splits)
    next
      case True
      show ?thesis
      proof (cases "?t mod ?z + unat n \<le> ?z")
        case fits: True
        with E lt True inv room(2) [OF True, of "unat n"] show ?thesis
          by (auto simp: reserved_def)
      next
        case no_fit: False
        with E lt True have pd: "padded (c, m) = (d, m')"
          and r: "r = (if unat n \<le> ?h mod ?z
            then Some (ring_addr (var_base c) ?z (?t + (?z - ?t mod ?z))) else None)"
          by simp_all
        note P = padded_inv [OF inv wrap lt room(1) [OF True], unfolded pd]
        have f: "var_geometry d = var_geometry c" "m_uHead_v d = m_uHead_v c"
          "m_uHeadRef_v d = m_uHeadRef_v c"
          using padded_geometry [of c m] by (simp_all add: pd)
        have tl: "unat (m_uTail_v d) = ?t + (?z - ?t mod ?z)"
          using padded_tail [OF g wrap, of m] by (simp add: pd)
        have "(?t + (?z - ?t mod ?z)) mod ?z = 0"
          using lt ht by (intro mod_lap_end) linarith
        moreover have "?h mod ?z \<le> ?z"
          using lt ht by (intro less_imp_le mod_less_divisor) linarith
        ultimately have "reserved d (unat n) r" if "r \<noteq> None"
          using that r room(3) [OF True, of "unat n"] var_geometry_eq [OF f(1)]
          unfolding reserved_def tl f(3) by (auto split: if_splits)
        with P f tl show ?thesis
          by simp
      qed
    qed
  qed
qed

text \<open>Taking the current head as the producer's copy keeps the invariant.\<close>

lemma headref_refresh:
  assumes "var_inv (c, m)"
  shows "var_inv (c\<lparr>m_uHeadRef_v := m_uHead_v c\<rparr>, m)"
    "var_contents (c\<lparr>m_uHeadRef_v := m_uHead_v c\<rparr>, m) = var_contents (c, m)"
  using assms
  by (auto simp: var_inv_def var_geom_def var_pos_def var_size_def var_base_def var_tiles_def
      var_contents_def)

text \<open>The counters are not part of the contents.\<close>

lemma var_stats [simp]:
  "var_inv (c\<lparr>m_Statsp_v := x\<rparr>, m) = var_inv (c, m)"
  "var_inv (c\<lparr>m_Statsc_v := x\<rparr>, m) = var_inv (c, m)"
  "var_contents (c\<lparr>m_Statsp_v := x\<rparr>, m) = var_contents (c, m)"
  "var_contents (c\<lparr>m_Statsc_v := x\<rparr>, m) = var_contents (c, m)"
  "reserved (c\<lparr>m_Statsp_v := x\<rparr>) = reserved c"
  "var_geometry (c\<lparr>m_Statsp_v := x\<rparr>) = var_geometry c"
  "var_geometry (c\<lparr>m_Statsc_v := x\<rparr>) = var_geometry c"
  "var_base (c\<lparr>m_Statsp_v := x\<rparr>) = var_base c"
  "var_size (c\<lparr>m_Statsp_v := x\<rparr>) = var_size c"
  by (auto simp: var_inv_def var_geom_def var_pos_def var_size_def var_base_def var_tiles_def
      var_contents_def reserved_def var_geometry_def fun_eq_iff)

text \<open>Writing cells of a reservation changes no message.\<close>

lemma reserved_write:
  assumes "var_inv (c, m)" "unat (m_uTail_v c) \<le> i" "i < unat (m_uHeadRef_v c) + var_size c"
  shows "var_inv (c, m(ring_addr (var_base c) (var_size c) i := x))"
    "var_contents (c, m(ring_addr (var_base c) (var_size c) i := x)) = var_contents (c, m)"
proof -
  let ?m = "m(ring_addr (var_base c) (var_size c) i := x)"
  have g: "var_geom c" and p: "var_pos c"
    using assms(1) by (auto simp: var_inv_def)
  obtain ms ns where ms: "var_tiles (c, m) (m_uHead_v c) (m_uTailRef_v c) ms"
    and ns: "var_tiles (c, m) (m_uTailRef_v c) (m_uTail_v c) ns"
    using assms(1) by (auto simp: var_inv_def)
  have ms': "var_tiles (c, ?m) (m_uHead_v c) (m_uTailRef_v c) ms"
    using p assms(2,3) by (intro var_tiles_write [OF ms g]) (auto simp: var_pos_def)
  have ns': "var_tiles (c, ?m) (m_uTailRef_v c) (m_uTail_v c) ns"
    using p assms(2,3) by (intro var_tiles_write [OF ns g]) (auto simp: var_pos_def)
  show "var_inv (c, ?m)"
    using g p ms' ns' by (auto simp: var_inv_def)
  have "var_contents (c, ?m) = ms @ ns" "var_contents (c, m) = ms @ ns"
    using ms ns ms' ns' by (intro var_contents_tiles; simp)+
  then show "var_contents (c, ?m) = var_contents (c, m)"
    by simp
qed

lemma reserved_write_cells:
  assumes "var_inv (c, m)" "unat (m_uTail_v c) \<le> i"
    "i + 8 * length xs \<le> unat (m_uHeadRef_v c) + var_size c"
    "i mod var_size c + 8 * length xs \<le> var_size c"
  shows "var_inv (c, write_cells m (ring_addr (var_base c) (var_size c) i) xs) \<and>
    var_contents (c, write_cells m (ring_addr (var_base c) (var_size c) i) xs) = var_contents (c, m)"
  using assms
proof (induction xs arbitrary: m i)
  case (Cons x xs)
  let ?m = "m(ring_addr (var_base c) (var_size c) i := x)"
  have W: "var_inv (c, ?m)" "var_contents (c, ?m) = var_contents (c, m)"
    using Cons.prems by (auto intro!: reserved_write)
  show ?case
  proof (cases "xs = []")
    case True
    with W show ?thesis by (simp del: fun_upd_apply)
  next
    case False
    then have "i mod var_size c + 8 < var_size c"
      using Cons.prems(4) by (cases xs) auto
    then have step: "ring_addr (var_base c) (var_size c) i + 8 = ring_addr (var_base c) (var_size c) (i + 8)"
      "(i + 8) mod var_size c = i mod var_size c + 8"
      by (simp_all add: ring_addr_step, metis mod_add_left_eq mod_less)
    have "var_inv (c, write_cells ?m (ring_addr (var_base c) (var_size c) (i + 8)) xs) \<and>
      var_contents (c, write_cells ?m (ring_addr (var_base c) (var_size c) (i + 8)) xs) =
        var_contents (c, ?m)"
      using Cons.IH [of ?m "i + 8"] Cons.prems W(1) by (simp add: step(2) del: fun_upd_apply)
    with W(2) show ?thesis
      by (simp add: step(1))
  qed
qed simp

text \<open>A reservation refused or granted, after at most one refresh of the head.\<close>

definition new_ok :: "CSPSCVariableBoundedChannel \<Rightarrow> cells \<Rightarrow> CSPSCVariableBoundedChannel \<Rightarrow> cells \<Rightarrow>
    uint32_t \<Rightarrow> pointer \<Rightarrow> bool" where
  "new_ok c m d m' n r \<longleftrightarrow> var_inv (d, m') \<and> var_contents (d, m') = var_contents (c, m) \<and>
     var_geometry d = var_geometry c \<and>
     unat (m_uTail_v d) \<le> unat (m_uTail_v c) + 2 * var_size c \<and>
     (r \<noteq> None \<longrightarrow> reserved d (unat n) r \<and> m' (the r) = fresh_entry n)"

lemma NewEntry_tail_le:
  assumes "var_inv (c, m)" "unat (m_uTail_v c) + var_size c < 2 ^ 64"
    "SPSCVar_NewEntry n (c, m) = ((d, m'), r)"
  shows "unat (m_uTail_v d) \<le> unat (m_uTail_v c) + var_size c"
  using NewEntry_cases [OF assms] by (elim conjE disjE) auto

lemma granted_header:
  assumes "var_inv (c, m)" "reserved c (unat n) r" "0 < unat n"
  shows "var_inv (c, m(the r := fresh_entry n)) \<and>
    var_contents (c, m(the r := fresh_entry n)) = var_contents (c, m)"
  using reserved_write [OF assms(1), of "unat (m_uTail_v c)" "fresh_entry n"] assms(2,3)
  by (auto simp: reserved_def)

lemma New_result:
  assumes inv: "var_inv (c, m)" and wrap: "unat (m_uTail_v c) + 2 * var_size c < 2 ^ 64"
    and n: "0 < unat (Entry_CalSize k)" and e: "SPSCVar_New k (c, m) = ((d, m'), r)"
  shows "new_ok c m d m' (Entry_CalSize k) r"
proof -
  let ?n = "Entry_CalSize k"
  obtain d1 m1 r1 where 1: "SPSCVar_NewEntry ?n (c, m) = ((d1, m1), r1)"
    by (metis prod.exhaust_sel)
  have w1: "unat (m_uTail_v c) + var_size c < 2 ^ 64"
    using wrap by simp
  note N1 = NewEntry_cases [OF inv w1 1]
  note t1 = NewEntry_tail_le [OF inv w1 1]
  show ?thesis
  proof (cases r1)
    case (Some p)
    with e 1 have d: "d = d1\<lparr>m_Statsp_v := (m_Statsp_v d1)\<lparr>uCount := uCount (m_Statsp_v d1) + 1\<rparr>\<rparr>"
      "m' = m1(p := fresh_entry ?n)" "r = Some p"
      by (auto simp: SPSCVar_New_def Let_def)
    from N1 Some granted_header [of d1 m1 ?n r1] n t1 show ?thesis
      by (simp add: new_ok_def d)
  next
    case None
    define d1' where "d1' = d1\<lparr>m_uHeadRef_v := m_uHead_v d1\<rparr>"
    obtain d2 m2 r2 where 2: "SPSCVar_NewEntry ?n (d1', m1) = ((d2, m2), r2)"
      by (metis prod.exhaust_sel)
    have g: "var_geometry d1' = var_geometry c"
      using N1 by (simp add: d1'_def var_geometry_def)
    note z = var_geometry_eq(2) [OF g]
    have i1: "var_inv (d1', m1)" "var_contents (d1', m1) = var_contents (c, m)"
      using headref_refresh [of d1 m1] N1 by (auto simp: d1'_def)
    have w2: "unat (m_uTail_v d1') + var_size d1' < 2 ^ 64"
      using t1 wrap z by (simp add: d1'_def)
    note N2 = NewEntry_cases [OF i1(1) w2 2]
    note t2 = NewEntry_tail_le [OF i1(1) w2 2]
    have tl: "unat (m_uTail_v d2) \<le> unat (m_uTail_v c) + 2 * var_size c"
      using t1 t2 z by (simp add: d1'_def)
    have res: "var_inv (d2, m2)" "var_contents (d2, m2) = var_contents (c, m)"
      "var_geometry d2 = var_geometry c" "r2 \<noteq> None \<longrightarrow> reserved d2 (unat ?n) r2"
      using N2 i1(2) g by simp_all
    show ?thesis
    proof (cases r2)
      case (Some p)
      with e 1 2 None have d: "d = d2\<lparr>m_Statsp_v := (m_Statsp_v d2)\<lparr>uCount := uCount (m_Statsp_v d2) + 1\<rparr>\<rparr>"
        "m' = m2(p := fresh_entry ?n)" "r = Some p"
        by (auto simp: SPSCVar_New_def Let_def d1'_def)
      from res Some granted_header [of d2 m2 ?n r2] n tl show ?thesis
        by (simp add: new_ok_def d)
    next
      case None
      with e 1 2 \<open>r1 = None\<close>
      have d: "d = d2\<lparr>m_Statsp_v := (m_Statsp_v d2)\<lparr>uFailed := uFailed (m_Statsp_v d2) + 1\<rparr>\<rparr>"
        "m' = m2" "r = None"
        by (auto simp: SPSCVar_New_def Let_def d1'_def)
      from res tl show ?thesis
        by (simp add: new_ok_def d)
    qed
  qed
qed

section \<open>Posting\<close>

text \<open>An entry that was filled in after the tail: \<open>xs\<close> is what the tiling makes of it.\<close>

lemma Post_result:
  assumes inv: "var_inv (c, m)" and t: "t = unat (m_uTail_v c)"
    and hdr: "uMagic (m (ring_addr (var_base c) (var_size c) t)) = kMagic"
      "unat (uLength (m (ring_addr (var_base c) (var_size c) t))) = l" "8 dvd l"
    and tile: "tiled (var_base c) (var_size c) m t (t + l) xs"
    and room: "t + l \<le> unat (m_uHeadRef_v c) + var_size c" and wrap: "t + l < 2 ^ 64"
    and e: "SPSCVar_Post (Some (ring_addr (var_base c) (var_size c) t)) (c, m) = (d, m')"
  shows "m' = m \<and> var_inv (d, m) \<and> unat (m_uTail_v d) = t + l \<and> var_geometry d = var_geometry c \<and>
    var_contents (d, m) = var_contents (c, m) @ xs"
proof -
  let ?l = "uLength (m (ring_addr (var_base c) (var_size c) t))"
  have l: "unat (ucast ?l :: uint64_t) = l"
    using hdr unat_lt32 [of ?l] by (simp add: unsigned_ucast_eq take_bit_nat_eq_self)
  have d: "d = c\<lparr>m_uTail_v := m_uTail_v c + ucast ?l,
      m_Statsp_v := (m_Statsp_v c)\<lparr>uCount2 := uCount2 (m_Statsp_v c) + 1\<rparr>\<rparr>" and m: "m' = m"
    using e hdr(1) by (auto simp: SPSCVar_Post_def)
  have g: "var_geometry d = var_geometry c"
    by (simp add: d var_geometry_def)
  have f: "m_uHead_v d = m_uHead_v c" "m_uHeadRef_v d = m_uHeadRef_v c"
    "m_uTailRef_v d = m_uTailRef_v c"
    by (simp_all add: d)
  have tl: "unat (m_uTail_v d) = t + l"
    using wrap t l by (simp add: d unat_plus_small)
  obtain ms ns where ms: "var_tiles (c, m) (m_uHead_v c) (m_uTailRef_v c) ms"
    and ns: "var_tiles (c, m) (m_uTailRef_v c) (m_uTail_v c) ns"
    using inv by (auto simp: var_inv_def)
  have ns': "var_tiles (c, m) (m_uTailRef_v c) (m_uTail_v d) (ns @ xs)"
    using ns tile tiled_append unfolding var_tiles_def fst_conv snd_conv tl t by blast
  have "var_pos c" "var_geom c"
    using inv by (auto simp: var_inv_def)
  then have "var_pos d" "var_geom d"
    using room tl t var_geometry_eq [OF g] hdr(3) by (auto simp: var_pos_def f)
  with ms ns' have "var_inv (d, m)"
    using var_tiles_eq [OF g] by (auto simp: var_inv_def f)
  moreover have "var_contents (d, m) = ms @ ns @ xs"
    using ms ns' by (intro var_contents_tiles) (simp_all add: var_tiles_eq [OF g] f)
  moreover have "var_contents (c, m) = ms @ ns"
    using ms ns by (intro var_contents_tiles) simp_all
  ultimately show ?thesis
    using m tl g by simp
qed

text \<open>
  A message as a client sends it: a size in bytes that the header's 32-bit length can hold, and the
  cells that these bytes fill.
\<close>

definition msg_ok :: "uint32_t \<times> Entry list \<Rightarrow> bool" where
  "msg_ok nx \<longleftrightarrow> unat (fst nx) \<le> 2 ^ 32 - 16 \<and> length (snd nx) = (unat (fst nx) + 7) div 8"

lemma CalSize_msg:
  assumes "msg_ok nx"
  shows "unat (Entry_CalSize (fst nx)) = 8 * length (snd nx) + 8"
  using assms by (subst unat_CalSize) (simp_all add: msg_ok_def)

lemma msg_ok_small:
  assumes "msg_ok nx"
  shows "length (snd nx) < 2 ^ 29"
  using assms by (simp add: msg_ok_def) linarith

lemma payload_write:
  assumes "h mod n + (8 * length xs + 8) \<le> n" "length xs < 2 ^ 29"
  shows "payload b n (write_cells m (ring_addr b n h + 8) xs) h (8 * length xs + 8) = xs"
proof -
  have "read_cells (write_cells m p xs) p (length xs) = xs" for p
    unfolding read_cells_map using assms(2) by (intro nth_equalityI) (simp_all add: write_cells_at)
  moreover have "(8 * length xs + 8) div 8 - 1 = length xs"
    by simp
  ultimately show ?thesis
    using assms(1) by (simp only: payload_read)
qed

lemma header_kept:
  assumes "length xs < 2 ^ 29"
  shows "write_cells m (p + 8) xs p = m p"
proof (rule write_cells_other)
  fix j
  assume j: "j < length xs"
  show "p \<noteq> p + 8 + 8 * of_nat j"
  proof
    assume "p = p + 8 + 8 * of_nat j"
    then have "(of_nat (8 * Suc j) :: uint64_t) = 0"
      by (simp add: algebra_simps)
    then have "8 * Suc j mod 2 ^ 64 = 0"
      using unat_of_nat [of "8 * Suc j", where 'a = 64] by simp
    with j assms show False by simp
  qed
qed

text \<open>
  The filled reservation is an entry of the tiling, or, for an empty message in the last eight
  bytes, a padding.
\<close>

lemma filled_tile:
  assumes n: "unat l = 8 * length x + 8" and len: "length x < 2 ^ 29"
    and fit: "t mod z + unat l \<le> z" and hdr: "m (ring_addr b z t) = fresh_entry l"
  defines "m' \<equiv> write_cells m (ring_addr b z t + 8) x"
  shows "m' (ring_addr b z t) = fresh_entry l \<and>
    (\<exists>xs. tiled b z m' t (t + unat l) xs \<and> (xs = [x] \<or> x = [] \<and> xs = []))"
proof -
  have h: "m' (ring_addr b z t) = fresh_entry l"
    using header_kept [OF len] hdr by (simp add: m'_def)
  have dvd: "8 dvd unat l"
    by (simp add: n)
  show ?thesis
  proof (cases "x = [] \<and> t mod z + 8 = z")
    case True
    then have "uLength (fresh_entry l) = 8" "z - t mod z = 8" "unat l = 8" "t mod z < z"
      using n by (auto simp: fresh_entry_def simp flip: unat_eq_iff_eq)
    with h have "tiled b z m' t (t + unat l) []"
      using tiled_pad [of b z m' t "t + unat l" "[]"] by (simp add: pad_at_def tiled_nil)
    with h True show ?thesis by blast
  next
    case False
    then have "t mod z + 8 < z"
      using fit n by (cases x) auto
    with h fit dvd n have "entry_at b z m' t (unat l)"
      by (simp add: entry_at_def fresh_entry_def)
    then have "tiled b z m' t (t + unat l) [payload b z m' t (unat l)]"
      by (rule tiled_entry [OF _ tiled_nil])
    moreover have "payload b z m' t (unat l) = x"
      using fit len unfolding m'_def n by (intro payload_write) auto
    ultimately show ?thesis
      using h by auto
  qed
qed

lemma var_send_cases:
  assumes inv: "var_inv (c, m)" and wrap: "unat (m_uTail_v c) + 3 * var_size c < 2 ^ 64"
    and msg: "msg_ok nx" and e: "var_send nx (c, m) = (s, ok)"
  shows "var_inv s \<and> var_geometry (fst s) = var_geometry c \<and>
    unat (m_uTail_v (fst s)) \<le> unat (m_uTail_v c) + 3 * var_size c \<and>
    (var_contents s = (if ok then var_contents (c, m) @ [snd nx] else var_contents (c, m)) \<or>
     ok \<and> snd nx = [] \<and> var_contents s = var_contents (c, m))"
proof -
  let ?l = "Entry_CalSize (fst nx)" and ?x = "snd nx"
  obtain d m1 r where N: "SPSCVar_New (fst nx) (c, m) = ((d, m1), r)"
    by (metis prod.exhaust_sel)
  note n = CalSize_msg [OF msg]
  have w: "unat (m_uTail_v c) + 2 * var_size c < 2 ^ 64"
    using wrap by simp
  have R: "new_ok c m d m1 ?l r"
    using New_result [OF inv w _ N] n by simp
  have g: "var_geometry d = var_geometry c"
    using R by (simp add: new_ok_def)
  note z = var_geometry_eq [OF g]
  show ?thesis
  proof (cases r)
    case None
    with e N have "s = (d, m1)" "\<not> ok"
      by (auto simp: var_send_def IChannelVar_New_def)
    with R show ?thesis
      by (auto simp: new_ok_def)
  next
    case (Some p)
    let ?t = "unat (m_uTail_v d)" and ?b = "var_base d" and ?z = "var_size d"
    let ?m = "write_cells m1 (p + 8) ?x"
    have p: "p = ring_addr ?b ?z ?t" "?t mod ?z + unat ?l \<le> ?z" "?t + unat ?l \<le> unat (m_uHeadRef_v d) + ?z"
      and fresh: "m1 p = fresh_entry ?l"
      using R by (auto simp: new_ok_def reserved_def Some)
    have tl: "?t \<le> unat (m_uTail_v c) + 2 * ?z"
      using R z by (simp add: new_ok_def)
    have s: "s = SPSCVar_Post (Some p) (d, ?m)" "ok"
      using e N Some
      by (auto simp: var_send_def IChannelVar_New_def IChannelVar_Post_def Entry_GetData_def
          Entry_GetEntry_def sizeof_Entry_def)
    have W: "var_inv (d, ?m) \<and> var_contents (d, ?m) = var_contents (c, m)"
    proof (cases "?x = []")
      case True
      with R show ?thesis by (simp add: new_ok_def)
    next
      case False
      then have "?t mod ?z + 8 < ?z"
        using p(2) n by (cases ?x) auto
      then have "p + 8 = ring_addr ?b ?z (?t + 8)" "(?t + 8) mod ?z = ?t mod ?z + 8"
        by (simp_all add: p(1) ring_addr_step, metis mod_add_left_eq mod_less)
      with R p(2,3) n show ?thesis
        using reserved_write_cells [of d m1 "?t + 8" ?x] by (auto simp: new_ok_def)
    qed
    obtain xs where F: "?m p = fresh_entry ?l" "tiled ?b ?z ?m ?t (?t + unat ?l) xs"
      and xs: "xs = [?x] \<or> ?x = [] \<and> xs = []"
      using filled_tile [OF n msg_ok_small [OF msg] p(2), of m1 ?b] fresh unfolding p(1) by blast
    have big: "?t + unat ?l < 2 ^ 64" "?t + unat ?l \<le> unat (m_uTail_v c) + 3 * ?z"
      using p(2) tl wrap z by simp_all
    obtain d' m' where P: "SPSCVar_Post (Some p) (d, ?m) = (d', m')"
      by fastforce
    have "m' = ?m \<and> var_inv (d', ?m) \<and> unat (m_uTail_v d') = ?t + unat ?l \<and>
        var_geometry d' = var_geometry d \<and> var_contents (d', ?m) = var_contents (d, ?m) @ xs"
      by (rule Post_result [of d ?m ?t "unat ?l" xs d' m', folded p(1)])
        (use W F p(3) big(1) P n in \<open>simp_all add: fresh_entry_def\<close>)
    with big(2) s g z W P xs show ?thesis
      by auto
  qed
qed

section \<open>Receiving\<close>

lemma GetEntry_eq:
  assumes "var_geom c"
  shows "SPSCVar_GetEntry (c, m) =
    (let h = unat (m_uHead_v c); t = unat (m_uTailRef_v c); z = var_size c; b = var_base c;
         e = m (ring_addr b z h) in
     if t \<le> h then ((c, m), None)
     else if h mod z < t mod z \<or> (8 < z - h mod z \<and> uFlags e \<noteq> kPlacehold)
     then ((c, m), Some (ring_addr b z h))
     else ((c\<lparr>m_uHead_v := m_uHead_v c +
         (if 8 < z - h mod z then m_uSizep_v c - GetIndex (m_uHead_v c) (m_uSizep_v c)
          else ucast (uLength e))\<rparr>, m),
       if 0 < t mod z then Some (ring_addr b z (h + (z - h mod z))) else None))"
proof -
  let ?h = "GetIndex (m_uHead_v c) (m_uSizep_v c)" and ?t = "GetIndex (m_uTailRef_v c) (m_uSizep_v c)"
  note i = var_index [OF assms]
  have sz: "m_uSizec_v c = m_uSizep_v c"
    using assms by (simp add: var_geom_def)
  have le: "m_uTailRef_v c \<le> m_uHead_v c \<longleftrightarrow> unat (m_uTailRef_v c) \<le> unat (m_uHead_v c)"
    by (simp add: word_le_nat_alt)
  have lt: "?h < ?t \<longleftrightarrow> unat (m_uHead_v c) mod var_size c < unat (m_uTailRef_v c) mod var_size c"
    "0 < ?t \<longleftrightarrow> 0 < unat (m_uTailRef_v c) mod var_size c"
    by (simp_all add: word_less_nat_alt i)
  have rem: "m_uSizep_v c - ?h > ucast (Entry_CalSize 0) \<longleftrightarrow>
      8 < var_size c - unat (m_uHead_v c) mod var_size c"
    by (simp add: word_less_nat_alt var_lap_end [OF assms] CalSize_0)
  have start: "data_at (m_pDatac_v c) 0 = ring_addr (var_base c) (var_size c)
      (unat (m_uHead_v c) + (var_size c - unat (m_uHead_v c) mod var_size c))"
    unfolding ring_addr_def using var_size_bounds(1) [OF assms] assms
    by (subst mod_lap_end) (simp_all add: data_at_def var_base_def var_geom_def)
  show ?thesis
    unfolding SPSCVar_GetEntry_def prod.case Let_def sz le lt rem i(4) using start by auto
qed

text \<open>The entry at the head is complete and the consumer may read it.\<close>

definition ready :: "CSPSCVariableBoundedChannel \<Rightarrow> cells \<Rightarrow> nat \<Rightarrow> bool" where
  "ready c m l \<longleftrightarrow> entry_at (var_base c) (var_size c) m (unat (m_uHead_v c)) l \<and>
     unat (m_uHead_v c) + l \<le> unat (m_uTailRef_v c)"

definition head_addr :: "CSPSCVariableBoundedChannel \<Rightarrow> uint64_t" where
  "head_addr c = ring_addr (var_base c) (var_size c) (unat (m_uHead_v c))"

definition get_ok :: "CSPSCVariableBoundedChannel \<Rightarrow> cells \<Rightarrow> CSPSCVariableBoundedChannel \<Rightarrow>
    pointer \<Rightarrow> bool" where
  "get_ok c m d r \<longleftrightarrow> var_inv (d, m) \<and> var_contents (d, m) = var_contents (c, m) \<and>
     var_geometry d = var_geometry c \<and> m_uTail_v d = m_uTail_v c \<and>
     (r = None \<longrightarrow> m_uHead_v d = m_uTailRef_v d) \<and>
     (r \<noteq> None \<longrightarrow> r = Some (head_addr d) \<and> (\<exists>l. ready d m l))"

lemma var_tailref_le:
  "var_pos c \<Longrightarrow> unat (m_uTailRef_v c) \<le> unat (m_uHead_v c) + var_size c"
  by (simp add: var_pos_def)

text \<open>Skipping a placeholder.\<close>

lemma skip_pad:
  fixes c m
  defines "h \<equiv> unat (m_uHead_v c)"
  defines "z \<equiv> var_size c"
  assumes inv: "var_inv (c, m)" and pad: "pad_at (var_base c) z m h"
    and le: "h + (z - h mod z) \<le> unat (m_uTailRef_v c)"
    and ms: "tiled (var_base c) z m (h + (z - h mod z)) (unat (m_uTailRef_v c)) ms"
    and d: "d = c\<lparr>m_uHead_v := m_uHead_v c +
         (if 8 < z - h mod z then m_uSizep_v c - GetIndex (m_uHead_v c) (m_uSizep_v c)
          else ucast (uLength (m (ring_addr (var_base c) z h))))\<rparr>"
  shows "unat (m_uHead_v d) = h + (z - h mod z)" "var_inv (d, m)"
    "var_contents (d, m) = var_contents (c, m)"
proof -
  have g: "var_geom c" and p: "var_pos c"
    using inv by (auto simp: var_inv_def)
  have "8 \<le> z - h mod z"
    using g p unfolding h_def z_def by (intro var_lap_end_ge) (simp_all add: var_pos_def)
  then have "unat (if 8 < z - h mod z then m_uSizep_v c - GetIndex (m_uHead_v c) (m_uSizep_v c)
      else ucast (uLength (m (ring_addr (var_base c) z h)))) = z - h mod z"
    using pad var_lap_end [OF g, of "m_uHead_v c"]
    by (auto simp: pad_at_def h_def z_def not_less)
  moreover have "h + (z - h mod z) < 2 ^ 64"
    using le unat_lt64 [of "m_uTailRef_v c"] by linarith
  ultimately show hd: "unat (m_uHead_v d) = h + (z - h mod z)"
    unfolding d by (simp add: unat_plus_small h_def)
  have geo: "var_geometry d = var_geometry c"
    by (simp add: d var_geometry_def)
  note eq = var_geometry_eq [OF geo]
  have f: "m_uTail_v d = m_uTail_v c" "m_uTailRef_v d = m_uTailRef_v c" "m_uHeadRef_v d = m_uHeadRef_v c"
    by (simp_all add: d)
  obtain ns where ns: "var_tiles (c, m) (m_uTailRef_v c) (m_uTail_v c) ns"
    using inv by (auto simp: var_inv_def)
  have ms': "var_tiles (c, m) (m_uHead_v d) (m_uTailRef_v c) ms"
    using ms by (simp add: var_tiles_def hd z_def)
  have "8 dvd h + (z - h mod z)"
    using p var_size_bounds(3) [OF g] unfolding h_def z_def
    by (intro dvd_add dvd_diff_nat) (auto simp: var_pos_def intro: dvd_mod)
  then have "var_pos d"
    using p le unfolding var_pos_def f hd eq by (simp add: h_def)
  with g ms' ns show "var_inv (d, m)"
    using var_tiles_eq [OF geo] by (auto simp: var_inv_def f eq)
  have "h mod z < z"
    using var_mod_less [OF g] by (simp add: z_def)
  then have "tiled (var_base c) z m h (unat (m_uTailRef_v c)) ms"
    by (rule tiled_pad [OF pad _ ms])
  then have "var_contents (c, m) = ms @ ns"
    using ns by (intro var_contents_tiles) (simp_all add: var_tiles_def h_def z_def)
  moreover have "var_contents (d, m) = ms @ ns"
    using ms' ns by (intro var_contents_tiles) (simp_all add: var_tiles_eq [OF geo] f)
  ultimately show "var_contents (d, m) = var_contents (c, m)"
    by simp
qed

lemma entry_at_lap:
  assumes "entry_at b n m h l"
  shows "8 < n - h mod n \<and> uFlags (m (ring_addr b n h)) \<noteq> kPlacehold"
  using assms by (auto simp: entry_at_def kPlacehold_def)

lemma GetEntry_cases:
  assumes inv: "var_inv (c, m)" and e: "SPSCVar_GetEntry (c, m) = ((d, m'), r)"
  shows "m' = m \<and> m_uTailRef_v d = m_uTailRef_v c \<and> get_ok c m d r"
proof -
  let ?h = "unat (m_uHead_v c)" and ?t = "unat (m_uTailRef_v c)" and ?z = "var_size c"
  let ?b = "var_base c"
  have g: "var_geom c" and p: "var_pos c"
    using inv by (auto simp: var_inv_def)
  note E = e [unfolded GetEntry_eq [OF g] Let_def]
  have ht: "?h \<le> ?t" "?t \<le> ?h + ?z"
    using p by (auto simp: var_pos_def)
  obtain ms where ms: "tiled ?b ?z m ?h ?t ms"
    using inv by (auto simp: var_inv_def var_tiles_def)
  have stay: "get_ok c m c r" if "r = None \<longrightarrow> ?h = ?t"
    "r \<noteq> None \<longrightarrow> r = Some (head_addr c) \<and> (\<exists>l. ready c m l)"
    using that inv by (auto simp: get_ok_def simp flip: unat_eq_iff_eq)
  show ?thesis
  proof (cases "?h < ?t")
    case False
    with E ht stay show ?thesis by auto
  next
    case lt: True
    from ms show ?thesis
    proof cases
      case tiled_nil
      with lt show ?thesis by simp
    next
      case (tiled_entry l ns)
      have "8 < ?z - ?h mod ?z" "uFlags (m (ring_addr ?b ?z ?h)) \<noteq> kPlacehold"
        using entry_at_lap [OF tiled_entry(2)] by auto
      with E lt have d: "d = c" "m' = m" "r = Some (head_addr c)"
        by (auto simp: head_addr_def)
      have "ready c m l"
        using tiled_entry(2) tiled_le [OF tiled_entry(3)] by (simp add: ready_def)
      with d stay show ?thesis by blast
    next
      case tiled_pad
      let ?e = "?h + (?z - ?h mod ?z)"
      have e: "?e \<le> ?t"
        using tiled_pad(3) by (rule tiled_le)
      have z: "0 < ?z"
        using var_size_bounds(1) [OF g] by simp
      have "?t - ?e < ?z"
        using ht(2) e tiled_pad(2) lt by linarith
      moreover have "?t mod ?z = (?e + (?t - ?e)) mod ?z"
        using e by simp
      moreover have "\<dots> = (?t - ?e) mod ?z"
        using mod_lap_end [OF z, of ?h] by (metis add_0 mod_add_left_eq)
      ultimately have tm: "?t mod ?z = ?t - ?e"
        by (simp only: mod_less)
      then have "\<not> ?h mod ?z < ?t mod ?z"
        using ht(2) tiled_pad(2) by linarith
      moreover have "\<not> (8 < ?z - ?h mod ?z \<and> uFlags (m (ring_addr ?b ?z ?h)) \<noteq> kPlacehold)"
        using tiled_pad(1) by (auto simp: pad_at_def)
      ultimately have d: "d = c\<lparr>m_uHead_v := m_uHead_v c +
         (if 8 < ?z - ?h mod ?z then m_uSizep_v c - GetIndex (m_uHead_v c) (m_uSizep_v c)
          else ucast (uLength (m (ring_addr ?b ?z ?h))))\<rparr>" "m' = m"
        "r = (if ?e < ?t then Some (ring_addr ?b ?z ?e) else None)"
        using E lt tm by auto
      note S = skip_pad [OF inv tiled_pad(1) e tiled_pad(3) d(1)]
      have geo: "var_geometry d = var_geometry c" and f: "m_uTail_v d = m_uTail_v c"
          "m_uTailRef_v d = m_uTailRef_v c"
        by (simp_all add: d(1) var_geometry_def)
      note eq = var_geometry_eq [OF geo]
      have none: "m_uHead_v d = m_uTailRef_v d" if "\<not> ?e < ?t"
        using that e S(1) f(2) by (simp flip: unat_eq_iff_eq)
      have some: "\<exists>l. ready d m l" if "?e < ?t"
        using tiled_pad(3)
      proof cases
        case tiled_nil
        with that show ?thesis by simp
      next
        case (tiled_entry l ns)
        then have "ready d m l"
          using tiled_le [OF tiled_entry(3)] by (simp add: ready_def S(1) f eq)
        then show ?thesis ..
      next
        case tiled_pad
        have "?e + (?z - ?e mod ?z) \<le> ?t"
          using tiled_pad(3) by (rule tiled_le)
        moreover have "?e mod ?z = 0"
          using mod_lap_end [OF z] .
        ultimately show ?thesis
          using ht(2) \<open>?t - ?e < ?z\<close> by linarith
      qed
      show ?thesis
        using S none some geo f d(2,3) by (auto simp: get_ok_def head_addr_def eq)
    qed
  qed
qed

lemma tailref_refresh:
  assumes "var_inv (c, m)" "m_uHead_v c = m_uTailRef_v c"
  shows "var_inv (c\<lparr>m_uTailRef_v := m_uTail_v c\<rparr>, m) \<and>
    var_contents (c\<lparr>m_uTailRef_v := m_uTail_v c\<rparr>, m) = var_contents (c, m)"
proof -
  let ?d = "c\<lparr>m_uTailRef_v := m_uTail_v c\<rparr>"
  have geo: "var_geometry ?d = var_geometry c"
    by (simp add: var_geometry_def)
  obtain ns where "var_tiles (c, m) (m_uHead_v c) (m_uTail_v c) ns"
    using assms by (auto simp: var_inv_def)
  moreover have "var_tiles (c, m) (m_uTail_v c) (m_uTail_v c) []"
    by (simp add: var_tiles_def tiled_nil)
  ultimately show ?thesis
    using assms(1) var_tiles_eq [OF geo] var_geometry_eq [OF geo]
    by (auto simp: var_inv_def var_pos_def var_contents_def)
qed

lemma get_ok_stats: "get_ok c m (d\<lparr>m_Statsc_v := x\<rparr>) r = get_ok c m d r"
  by (simp add: get_ok_def ready_def head_addr_def) (simp add: var_base_def var_size_def)

text \<open>When an entry is ready, the contents start with its payload.\<close>

lemma tiled_ready:
  assumes "tiled b n m h t ms" "entry_at b n m h l" "h + l \<le> t"
  shows "\<exists>ns. ms = payload b n m h l # ns \<and> tiled b n m (h + l) t ns"
  using assms(1)
proof cases
  case tiled_nil
  with assms(2,3) show ?thesis by (simp add: entry_at_def)
next
  case (tiled_entry l' ns)
  then have "l' = l"
    using assms(2) by (simp add: entry_at_def)
  with tiled_entry show ?thesis by auto
next
  case tiled_pad
  with assms(2) show ?thesis by (auto simp: entry_at_def pad_at_def kPlacehold_def)
qed

lemma ready_contents:
  assumes "var_inv (c, m)" "ready c m l"
  obtains ns ns' where
    "var_contents (c, m) = payload (var_base c) (var_size c) m (unat (m_uHead_v c)) l # ns @ ns'"
    "tiled (var_base c) (var_size c) m (unat (m_uHead_v c) + l) (unat (m_uTailRef_v c)) ns"
    "var_tiles (c, m) (m_uTailRef_v c) (m_uTail_v c) ns'"
proof -
  obtain ms ns' where ms: "var_tiles (c, m) (m_uHead_v c) (m_uTailRef_v c) ms"
    and ns': "var_tiles (c, m) (m_uTailRef_v c) (m_uTail_v c) ns'"
    using assms(1) by (auto simp: var_inv_def)
  have entry: "entry_at (var_base c) (var_size c) m (unat (m_uHead_v c)) l"
    and le: "unat (m_uHead_v c) + l \<le> unat (m_uTailRef_v c)"
    using assms(2) by (auto simp: ready_def)
  obtain ns where "ms = payload (var_base c) (var_size c) m (unat (m_uHead_v c)) l # ns"
    "tiled (var_base c) (var_size c) m (unat (m_uHead_v c) + l) (unat (m_uTailRef_v c)) ns"
    using tiled_ready [OF ms [unfolded var_tiles_def fst_conv snd_conv] entry le] by blast
  moreover have "var_contents (c, m) = ms @ ns'"
    using ms ns' by (intro var_contents_tiles) simp_all
  ultimately show thesis
    using ns' that by auto
qed

lemma get_some_contents:
  assumes "get_ok c m d (Some p)"
  shows "var_contents (c, m) \<noteq> []"
proof -
  obtain l where "var_inv (d, m)" "ready d m l"
    using assms by (auto simp: get_ok_def)
  then have "var_contents (d, m) \<noteq> []"
    by (rule ready_contents) simp
  with assms show ?thesis
    by (simp add: get_ok_def)
qed

lemma Get_result:
  assumes inv: "var_inv (c, m)" and e: "SPSCVar_Get (c, m) = ((d, m'), r)"
  shows "m' = m \<and> get_ok c m d r \<and> (r = None \<longleftrightarrow> var_contents (c, m) = [])"
proof -
  obtain d1 m1 r1 where 1: "SPSCVar_GetEntry (c, m) = ((d1, m1), r1)"
    by (metis prod.exhaust_sel)
  note G1 = GetEntry_cases [OF inv 1]
  show ?thesis
  proof (cases r1)
    case (Some p)
    with e 1 G1 have d: "d = d1\<lparr>m_Statsc_v := (m_Statsc_v d1)\<lparr>uCount := uCount (m_Statsc_v d1) + 1\<rparr>\<rparr>"
      "m' = m" "r = Some p"
      by (auto simp: SPSCVar_Get_def Let_def)
    then show ?thesis
      using G1 Some get_some_contents by (auto simp: get_ok_stats)
  next
    case None
    define c2 where "c2 = d1\<lparr>m_uTailRef_v := m_uTail_v d1\<rparr>"
    have i1: "var_inv (d1, m)" "m_uHead_v d1 = m_uTailRef_v d1" "var_contents (d1, m) = var_contents (c, m)"
      "var_geometry d1 = var_geometry c" "m_uTail_v d1 = m_uTail_v c" and m1: "m1 = m"
      using G1 None by (auto simp: get_ok_def)
    note T = tailref_refresh [OF i1(1,2), folded c2_def]
    obtain d2 m2 r2 where 2: "SPSCVar_GetEntry (c2, m) = ((d2, m2), r2)"
      by (metis prod.exhaust_sel)
    note G2 = GetEntry_cases [OF conjunct1 [OF T] 2]
    have ok: "get_ok c m d2 r2"
      using G2 T i1 by (auto simp: get_ok_def c2_def var_geometry_def)
    show ?thesis
    proof (cases r2)
      case (Some p)
      with e 1 2 None G2 m1 have d: "d = d2\<lparr>m_Statsc_v := (m_Statsc_v d2)\<lparr>uCount := uCount (m_Statsc_v d2) + 1\<rparr>\<rparr>"
        "m' = m" "r = Some p"
        by (auto simp: SPSCVar_Get_def Let_def c2_def)
      then show ?thesis
        using ok Some get_some_contents by (auto simp: get_ok_stats)
    next
      case None
      with e 1 2 \<open>r1 = None\<close> G2 m1
      have d: "d = d2\<lparr>m_Statsc_v := (m_Statsc_v d2)\<lparr>uFailed := uFailed (m_Statsc_v d2) + 1\<rparr>\<rparr>"
        "m' = m" "r = None"
        by (auto simp: SPSCVar_Get_def Let_def c2_def)
      have "m_uHead_v d2 = m_uTail_v d2"
        using G2 None ok by (simp add: get_ok_def c2_def)
      then have "var_contents (d2, m) = []"
        by (simp add: var_contents_def var_walk.simps)
      with ok None d show ?thesis
        by (auto simp: get_ok_stats get_ok_def)
    qed
  qed
qed

lemma Delete_result:
  assumes inv: "var_inv (c, m)" and rd: "ready c m l"
    and e: "SPSCVar_Delete (Some (head_addr c)) (c, m) = (d, m')"
  shows "m' = m \<and> var_inv (d, m) \<and> var_geometry d = var_geometry c \<and> m_uTail_v d = m_uTail_v c \<and>
    var_contents (c, m) =
      payload (var_base c) (var_size c) m (unat (m_uHead_v c)) l # var_contents (d, m)"
proof -
  let ?l = "uLength (m (head_addr c))"
  have entry: "entry_at (var_base c) (var_size c) m (unat (m_uHead_v c)) l"
    and le: "unat (m_uHead_v c) + l \<le> unat (m_uTailRef_v c)"
    using rd by (auto simp: ready_def)
  have l: "unat (ucast ?l :: uint64_t) = l"
    using entry unat_lt32 [of ?l]
    by (simp add: entry_at_def head_addr_def unsigned_ucast_eq take_bit_nat_eq_self)
  have d: "d = c\<lparr>m_uHead_v := m_uHead_v c + ucast ?l,
      m_Statsc_v := (m_Statsc_v c)\<lparr>uCount2 := uCount2 (m_Statsc_v c) + 1\<rparr>\<rparr>" and m: "m' = m"
    using e entry by (auto simp: SPSCVar_Delete_def entry_at_def head_addr_def)
  have geo: "var_geometry d = var_geometry c"
    by (simp add: d var_geometry_def)
  have f: "m_uTail_v d = m_uTail_v c" "m_uHeadRef_v d = m_uHeadRef_v c"
    "m_uTailRef_v d = m_uTailRef_v c"
    by (simp_all add: d)
  have hd: "unat (m_uHead_v d) = unat (m_uHead_v c) + l"
    using le l unat_lt64 [of "m_uTailRef_v c"] by (simp add: d unat_plus_small)
  obtain ns ns' where c: "var_contents (c, m) =
      payload (var_base c) (var_size c) m (unat (m_uHead_v c)) l # ns @ ns'"
    and ns: "tiled (var_base c) (var_size c) m (unat (m_uHead_v c) + l) (unat (m_uTailRef_v c)) ns"
    and ns': "var_tiles (c, m) (m_uTailRef_v c) (m_uTail_v c) ns'"
    using inv rd by (rule ready_contents)
  have nsd: "var_tiles (c, m) (m_uHead_v d) (m_uTailRef_v c) ns"
    using ns by (simp add: var_tiles_def hd)
  have "var_pos c" "var_geom c" "8 dvd l"
    using inv entry by (auto simp: var_inv_def entry_at_def)
  then have "var_pos d" "var_geom d"
    using le hd var_geometry_eq [OF geo] by (auto simp: var_pos_def f)
  with nsd ns' have "var_inv (d, m)"
    using var_tiles_eq [OF geo] by (auto simp: var_inv_def f)
  moreover have "var_contents (d, m) = ns @ ns'"
    using nsd ns' by (intro var_contents_tiles) (simp_all add: var_tiles_eq [OF geo] f)
  ultimately show ?thesis
    using c geo f m by simp
qed

lemma payload_length:
  assumes "entry_at b n m h l"
  shows "unat (Entry_GetDataLength (m (ring_addr b n h))) div 8 = l div 8 - 1"
proof -
  let ?l = "uLength (m (ring_addr b n h))"
  have l: "8 \<le> l" "unat ?l = l" "l < 2 ^ 32"
    using assms unat_lt32 [of ?l] by (auto simp: entry_at_def)
  have "unat (ucast ?l - sizeof_Entry) = l - 8"
    using l by (subst unat_sub_le)
      (simp_all add: sizeof_Entry_def word_le_nat_alt unsigned_ucast_eq take_bit_nat_eq_self)
  then have "unat (Entry_GetDataLength (m (ring_addr b n h))) = l - 8"
    using l by (simp add: Entry_GetDataLength_def unsigned_ucast_eq take_bit_nat_eq_self)
  moreover obtain k where "l = 8 * k"
    using assms by (auto simp: entry_at_def)
  moreover have "(8 * k - 8) div 8 = k - 1"
    by (simp flip: diff_mult_distrib2)
  ultimately show ?thesis
    by simp
qed

lemma var_receive_cases:
  assumes inv: "var_inv (c, m)" and e: "var_receive (c, m) = (s, r)"
  shows "var_inv s \<and> var_geometry (fst s) = var_geometry c \<and> m_uTail_v (fst s) = m_uTail_v c \<and>
    (var_contents s, r) = spec_pop (var_contents (c, m))"
proof -
  obtain d m1 q where G: "SPSCVar_Get (c, m) = ((d, m1), q)"
    by (metis prod.exhaust_sel)
  note R = Get_result [OF inv G]
  show ?thesis
  proof (cases q)
    case None
    with e G R have "s = (d, m)" "r = None"
      by (auto simp: var_receive_def IChannelVar_Get_def)
    with R None show ?thesis
      by (auto simp: get_ok_def)
  next
    case (Some p)
    obtain l where p: "p = head_addr d" and l: "ready d m l" and i: "var_inv (d, m)"
      using R Some by (auto simp: get_ok_def)
    obtain d' m' where D: "SPSCVar_Delete (Some (head_addr d)) (d, m) = (d', m')"
      by fastforce
    note DR = Delete_result [OF i l D]
    let ?x = "payload (var_base d) (var_size d) m (unat (m_uHead_v d)) l"
    have entry: "entry_at (var_base d) (var_size d) m (unat (m_uHead_v d)) l"
      using l by (simp add: ready_def)
    then have "read_cells m (p + 8) (unat (Entry_GetDataLength (m p)) div 8) = ?x"
      unfolding p head_addr_def payload_length [OF entry]
      by (intro payload_read [symmetric]) (simp_all add: entry_at_def)
    with e G R Some D p DR have "s = (d', m)" "r = Some ?x"
      by (auto simp: var_receive_def IChannelVar_Get_def IChannelVar_Delete_def Entry_GetData_def
          Entry_GetEntry_def sizeof_Entry_def)
    moreover have "var_contents (c, m) = ?x # var_contents (d', m)"
      using DR R by (simp add: get_ok_def)
    ultimately show ?thesis
      using DR R by (simp add: get_ok_def)
  qed
qed

section \<open>The queue contract\<close>

text \<open>
  A send moves the tail by less than three rings, so this many sends fit before the 64-bit tail
  wraps.
\<close>

definition var_budget :: "var_chan \<Rightarrow> nat" where
  "var_budget s = (2 ^ 64 - 1 - unat (m_uTail_v (fst s))) div (3 * var_size (fst s))"

lemma budget_step:
  fixes n a b z :: nat
  assumes "b \<le> a + z" "0 < z"
  shows "(n - a) div z \<le> (n - b) div z + 1"
proof -
  have "(n - a) div z \<le> (n - b + z) div z"
    using assms by (intro div_le_mono) linarith
  also have "(n - b + z) div z = (n - b) div z + 1"
    using assms(2) by (rule div_add_self2 [OF less_imp_neq [THEN not_sym]])
  finally show ?thesis .
qed

text \<open>Only an empty message can get lost.\<close>

interpretation var: lossy_fifo var_send var_receive snd msg_ok "\<lambda>x. x = []" var_contents var_inv var_budget
proof
  fix s t :: var_chan and x ok
  assume s: "var_inv s" "0 < var_budget s" "msg_ok x" "var_send x s = (t, ok)"
  obtain c m where cm: "s = (c, m)" by fastforce
  have "3 * var_size c \<le> 2 ^ 64 - 1 - unat (m_uTail_v c)"
    using s(2) by (simp add: cm var_budget_def div_greater_zero_iff)
  then have "unat (m_uTail_v c) + 3 * var_size c < 2 ^ 64"
    using unat_lt64 [of "m_uTail_v c"] by linarith
  note P = var_send_cases [OF s(1) [unfolded cm] this s(3) s(4) [unfolded cm]]
  show "var_inv t"
    using P by simp
  show "var_contents t = (if ok then var_contents s @ [snd x] else var_contents s) \<or>
      ok \<and> snd x = [] \<and> var_contents t = var_contents s"
    using P by (auto simp: cm)
  have "0 < var_size c"
    using s(1) var_size_bounds(1) [of c] by (simp add: cm var_inv_def)
  with P show "var_budget s \<le> var_budget t + 1"
    using var_geometry_eq(2) [of "fst t" c]
      budget_step [of "unat (m_uTail_v (fst t))" "unat (m_uTail_v c)" "3 * var_size c" "2 ^ 64 - 1"]
    by (simp add: cm var_budget_def)
next
  fix s t :: var_chan and r
  assume s: "var_inv s" "var_receive s = (t, r)"
  obtain c m where cm: "s = (c, m)" by fastforce
  note P = var_receive_cases [OF s(1) [unfolded cm] s(2) [unfolded cm]]
  show "var_inv t" "(var_contents t, r) = spec_pop (var_contents s)"
    using P by (simp_all add: cm)
  show "var_budget t = var_budget s"
    using P var_geometry_eq(2) [of "fst t" c] by (simp add: cm var_budget_def)
qed

section \<open>The assertions\<close>

lemma NewEntry_assert_holds:
  assumes "var_geom c" "unat (m_uTail_v c) + var_size c < 2 ^ 64"
  shows "SPSCVar_NewEntry_assert n (c, m)"
proof -
  let ?z = "var_size c" and ?t = "unat (m_uTail_v c)"
  have "unat (m_uTail_v c + (m_uSizep_v c - GetIndex (m_uTail_v c) (m_uSizep_v c))) = ?t + (?z - ?t mod ?z)"
    using assms(2) var_lap_end [OF assms(1), of "m_uTail_v c"] by (simp add: unat_plus_small)
  moreover have "(?t + (?z - ?t mod ?z)) mod ?z = 0"
    using var_size_bounds(1) [OF assms(1)] by (intro mod_lap_end) linarith
  ultimately have "unat (GetIndex (m_uTail_v c + (m_uSizep_v c - GetIndex (m_uTail_v c) (m_uSizep_v c)))
      (m_uSizep_v c)) = 0"
    by (simp only: var_index(1) [OF assms(1)])
  then show ?thesis
    by (simp add: SPSCVar_NewEntry_assert_def Let_def unat_eq_zero)
qed

lemma New_asserts_hold:
  assumes inv: "var_inv (c, m)" and wrap: "unat (m_uTail_v c) + 2 * var_size c < 2 ^ 64"
  shows "SPSCVar_New_asserts k (c, m)"
proof -
  obtain d m1 r where 1: "SPSCVar_NewEntry (Entry_CalSize k) (c, m) = ((d, m1), r)"
    by (metis prod.exhaust_sel)
  have w: "unat (m_uTail_v c) + var_size c < 2 ^ 64"
    using wrap by simp
  note N = NewEntry_cases [OF inv w 1]
  let ?d = "d\<lparr>m_uHeadRef_v := m_uHead_v d\<rparr>"
  have g: "var_geometry ?d = var_geometry c"
    using N by (simp add: var_geometry_def)
  have "var_geom c"
    using inv by (simp add: var_inv_def)
  then have "SPSCVar_NewEntry_assert (Entry_CalSize k) (c, m)"
    "SPSCVar_NewEntry_assert (Entry_CalSize k) (?d, m1)"
    using w wrap NewEntry_tail_le [OF inv w 1] var_geometry_eq [OF g]
    by (intro NewEntry_assert_holds; simp)+
  then show ?thesis
    by (simp add: SPSCVar_New_asserts_def Let_def 1 split: option.split)
qed

lemma GetEntry_assert_holds:
  assumes inv: "var_inv (c, m)"
  shows "SPSCVar_GetEntry_assert (c, m)"
proof -
  let ?h = "unat (m_uHead_v c)" and ?t = "unat (m_uTailRef_v c)" and ?z = "var_size c"
  let ?i = "GetIndex (m_uHead_v c) (m_uSizep_v c)" and ?e = "m (ring_addr (var_base c) ?z ?h)"
  have g: "var_geom c" and sz: "m_uSizec_v c = m_uSizep_v c"
    using inv by (auto simp: var_inv_def var_geom_def)
  have rem: "m_uSizep_v c - ?i > ucast (Entry_CalSize 0) \<longleftrightarrow> 8 < ?z - ?h mod ?z"
    by (simp add: word_less_nat_alt var_lap_end [OF g] CalSize_0)
  define hd' where "hd' = m_uHead_v c +
    (if 8 < ?z - ?h mod ?z then m_uSizep_v c - ?i else ucast (uLength ?e))"
  have "GetIndex hd' (m_uSizep_v c) = 0"
    if lt: "?h < ?t" and stop: "\<not> (8 < ?z - ?h mod ?z \<and> uFlags ?e \<noteq> kPlacehold)"
  proof -
    obtain ms where ms: "tiled (var_base c) ?z m ?h ?t ms"
      using inv by (auto simp: var_inv_def var_tiles_def)
    from ms have "unat hd' = ?h + (?z - ?h mod ?z)"
    proof cases
      case tiled_nil
      with lt show ?thesis by simp
    next
      case (tiled_entry l ns)
      with entry_at_lap [OF tiled_entry(2)] stop show ?thesis by blast
    next
      case tiled_pad
      show ?thesis
        using skip_pad(1) [OF inv tiled_pad(1) tiled_le [OF tiled_pad(3)] tiled_pad(3) refl]
        by (simp add: hd'_def)
    qed
    moreover have "(?h + (?z - ?h mod ?z)) mod ?z = 0"
      using var_size_bounds(1) [OF g] by (intro mod_lap_end) linarith
    ultimately have "unat (GetIndex hd' (m_uSizep_v c)) = 0"
      by (simp only: var_index(1) [OF g])
    then show ?thesis
      by (simp add: unat_eq_zero)
  qed
  then show ?thesis
    unfolding SPSCVar_GetEntry_assert_def prod.case Let_def sz rem var_index(4) [OF g]
    by (auto simp: hd'_def word_less_nat_alt not_le)
qed

lemma ready_header:
  assumes "get_ok c m d (Some p)"
  shows "header_assert (m p)"
  using assms by (auto simp: get_ok_def ready_def entry_at_def header_assert_def head_addr_def)

lemma Get_asserts_hold:
  assumes inv: "var_inv (c, m)"
  shows "SPSCVar_Get_asserts (c, m)"
proof -
  obtain d1 m1 r1 where 1: "SPSCVar_GetEntry (c, m) = ((d1, m1), r1)"
    by (metis prod.exhaust_sel)
  note G1 = GetEntry_cases [OF inv 1]
  show ?thesis
  proof (cases r1)
    case (Some p)
    with G1 1 GetEntry_assert_holds [OF inv] ready_header [of c m d1 p] show ?thesis
      by (simp add: SPSCVar_Get_asserts_def)
  next
    case None
    let ?c = "d1\<lparr>m_uTailRef_v := m_uTail_v d1\<rparr>"
    have "var_inv (d1, m)" "m_uHead_v d1 = m_uTailRef_v d1" and m1: "m1 = m"
      using G1 None by (auto simp: get_ok_def)
    then have T: "var_inv (?c, m)"
      using tailref_refresh by blast
    obtain d2 m2 r2 where 2: "SPSCVar_GetEntry (?c, m) = ((d2, m2), r2)"
      by (metis prod.exhaust_sel)
    note G2 = GetEntry_cases [OF T 2]
    have "header_assert (m2 p)" if "r2 = Some p" for p
      using G2 that ready_header [of ?c m d2 p] by simp
    with 1 2 None m1 GetEntry_assert_holds [OF inv] GetEntry_assert_holds [OF T] show ?thesis
      by (simp add: SPSCVar_Get_asserts_def split: option.split)
  qed
qed

text \<open>The entry that \<open>Get\<close> returns lies in the ring, without wrapping around its end.\<close>

definition entry_in_ring :: "CSPSCVariableBoundedChannel \<Rightarrow> cells \<Rightarrow> uint64_t \<Rightarrow> bool" where
  "entry_in_ring c m p \<longleftrightarrow> unat (the (m_pDatac_v c)) \<le> unat p \<and>
     unat p + unat (uLength (m p)) \<le> unat (the (m_pDatac_v c)) + unat (m_uSizec_v c)"

lemma Get_in_ring:
  assumes "var_inv (c, m)" "SPSCVar_Get (c, m) = ((d, m'), Some p)"
  shows "entry_in_ring d m' p"
proof -
  obtain l where p: "p = head_addr d" and l: "ready d m l" and i: "var_inv (d, m)" and m: "m' = m"
    using Get_result [OF assms] by (auto simp: get_ok_def)
  have g: "var_geom d"
    using i by (simp add: var_inv_def)
  then have "unat (head_addr d) = unat (var_base d) + unat (m_uHead_v d) mod var_size d"
    using var_size_bounds(1) [OF g] unfolding head_addr_def
    by (intro unat_ring_addr) (auto simp: var_geom_def)
  with l g show ?thesis
    by (simp add: entry_in_ring_def p m ready_def entry_at_def head_addr_def var_geom_def var_base_def
        var_size_def)
qed

section \<open>Creation\<close>

lemma var_Create_success:
  assumes "SPSCVar_Create ans1 ans2 sz (Some cfg) h e = (Some (p, c), h', e')"
  shows "ans1 = Some p"
    "\<exists>e0. SPSCVar_Init ans2 (ucast (uTotalMemorySizeKB cfg)) SPSCVar_default (h(p \<mapsto> sz)) e0 =
       (c, h', e', kSuccess)"
  using assms
  by (auto simp: SPSCVar_Create_def IAllocatorEx_New_def CAllocatorImpl_Malloc_def
      split: option.splits prod.splits if_splits)

text \<open>The ring size of a configuration, in bytes.\<close>

definition ring_bytes :: "ChannelConfig \<Rightarrow> uint64_t" where
  "ring_bytes cfg = Up2PowerOf2 (ucast (uTotalMemorySizeKB cfg) * 1024)"

lemma ring_bytes_power:
  assumes "uTotalMemorySizeKB cfg \<noteq> 0"
  obtains k where "10 \<le> k" "k < 43" "ring_bytes cfg = 2 ^ k"
proof -
  let ?u = "ucast (uTotalMemorySizeKB cfg) * 1024 :: uint64_t" and ?k = "unat (uTotalMemorySizeKB cfg)"
  have "unat (ucast (uTotalMemorySizeKB cfg) :: uint64_t) = ?k"
    using unat_lt32 [of "uTotalMemorySizeKB cfg"] by (simp add: unsigned_ucast_eq take_bit_nat_eq_self)
  then have u: "unat ?u = ?k * 1024"
    using unat_lt32 [of "uTotalMemorySizeKB cfg"] by (subst unat_mult_small) simp_all
  have pos: "0 < ?k"
    using assms by (simp add: unat_gt_0)
  have "unat ?u \<le> 2 ^ 63" "?u \<noteq> 0"
    using u pos unat_lt32 [of "uTotalMemorySizeKB cfg"] by auto
  then obtain k where k: "Up2PowerOf2 ?u = 2 ^ k" "unat ?u \<le> 2 ^ k" "2 ^ k < 2 * unat ?u"
    using Up2PowerOf2_power [of ?u] by blast
  have "(2 :: nat) ^ 9 < 2 ^ k"
    using k(2) u pos by simp
  then have "9 < k"
    by (rule power_less_imp_less_exp [rotated]) simp
  moreover have "(2 :: nat) ^ k < 2 ^ 43"
    using k(3) u unat_lt32 [of "uTotalMemorySizeKB cfg"] by simp
  then have "k < 43"
    by (rule power_less_imp_less_exp [rotated]) simp
  ultimately show thesis
    using that [of k] k(1) by (simp add: ring_bytes_def)
qed

lemma var_Init_success:
  assumes "SPSCVar_Init ans (ucast (uTotalMemorySizeKB cfg)) SPSCVar_default h e =
      (c, h', e', kSuccess)"
    and "\<And>a. ans = Some a \<Longrightarrow> block_fits a (unat (ring_bytes cfg))"
  shows "var_inv (c, m) \<and> var_contents (c, m) = [] \<and> m_uTail_v c = 0 \<and>
    var_size c = unat (ring_bytes cfg)"
proof -
  have nz: "uTotalMemorySizeKB cfg \<noteq> 0"
    using assms(1) by (auto simp: SPSCVar_Init_def split: if_splits)
  then obtain k where k: "10 \<le> k" "k < 43" "ring_bytes cfg = 2 ^ k"
    by (rule ring_bytes_power)
  have nz64: "(ucast (uTotalMemorySizeKB cfg) :: uint64_t) \<noteq> 0"
    using assms(1) by (auto simp: SPSCVar_Init_def split: if_splits)
  from assms(1) nz64 obtain a where a: "ans = Some a"
    by (auto simp: SPSCVar_Init_def CAllocatorImpl_Malloc_def Let_def split: option.splits)
  have c: "c = SPSCVar_default\<lparr>m_uSizep_v := 2 ^ k, m_uSizec_v := 2 ^ k,
      m_pDatap_v := Some a, m_pDatac_v := Some a\<rparr>"
    using assms(1) nz64 a k(3)
    by (simp add: SPSCVar_Init_def CAllocatorImpl_Malloc_def Let_def ring_bytes_def SPSCVar_default_def)
  have "unat a + 2 ^ k \<le> 2 ^ 64"
    using assms(2) [OF a] k by (simp add: block_fits_def unat_power_two)
  then have "var_geom c"
    using k by (auto simp: c var_geom_def var_base_def var_size_def unat_power_two intro!: exI [of _ k])
  then show ?thesis
    using k by (simp add: var_inv_def var_pos_def var_tiles_def tiled_nil var_contents_def
        var_walk.simps c SPSCVar_default_def var_size_def)
      (auto intro: tiled_nil)
qed

text \<open>
  A channel after a run of sends and receives from its creation: \<open>var_run cfg m ops t rs\<close> for the
  configuration \<open>cfg\<close>, memory that held \<open>m\<close>, and the final state and results.
\<close>

lemma var_run:
  assumes C: "SPSCVar_Create ans1 ans2 sz (Some cfg) h e = (Some (p, c), h', e')"
    "\<forall>a. ans2 = Some a \<longrightarrow> block_fits a (unat (ring_bytes cfg))"
    and ops: "length ops < (2 ^ 64 - 1) div (3 * unat (ring_bytes cfg))"
    "\<And>x. Push x \<in> set ops \<Longrightarrow> msg_ok x"
    and R: "run_queue var_send var_receive (c, m) ops = (t, rs)"
  shows "var_inv t" "unat (m_uTail_v (fst t)) + 3 * var_size (fst t) < 2 ^ 64"
    "subseq (delivered rs @ var_contents t) (map snd (accepted ops rs))"
    "filter (\<lambda>x. x \<noteq> []) (delivered rs @ var_contents t) =
       filter (\<lambda>x. x \<noteq> []) (map snd (accepted ops rs))"
proof -
  obtain e0 where I: "SPSCVar_Init ans2 (ucast (uTotalMemorySizeKB cfg)) SPSCVar_default
      (h(p \<mapsto> sz)) e0 = (c, h', e', kSuccess)"
    using var_Create_success [OF C(1)] by blast
  have S: "var_inv (c, m)" "var_contents (c, m) = []" "m_uTail_v c = 0"
    "var_size c = unat (ring_bytes cfg)"
    using var_Init_success [OF I C(2) [rule_format]] by blast+
  have b: "length ops < var_budget (c, m)"
    using ops(1) by (simp add: var_budget_def S)
  note le = less_imp_le [OF b]
  have B: "var_inv t \<and> var_budget (c, m) \<le> var_budget t + length ops"
    by (rule var.run_budget [OF S(1) le ops(2) R])
  then show "var_inv t" by simp
  from B b have "0 < var_budget t" by linarith
  then have "3 * var_size (fst t) \<le> 2 ^ 64 - 1 - unat (m_uTail_v (fst t))"
    by (simp add: var_budget_def div_greater_zero_iff)
  then show "unat (m_uTail_v (fst t)) + 3 * var_size (fst t) < 2 ^ 64"
    using unat_lt64 [of "m_uTail_v (fst t)"] by linarith
  show "subseq (delivered rs @ var_contents t) (map snd (accepted ops rs))"
    "filter (\<lambda>x. x \<noteq> []) (delivered rs @ var_contents t) =
      filter (\<lambda>x. x \<noteq> []) (map snd (accepted ops rs))"
    using var.run_conserves [OF S(1) le ops(2) R] S(2) by simp_all
qed

section \<open>Properties\<close>

text \<open>
  C1: a channel that \<open>SPSCVariableBoundedChannel::Create\<close> returned delivers messages first in, first
  out and intact. After any sequence of sends (\<open>New\<close>, filling the data, \<open>Post\<close>) of messages of up to
  2^32 - 16 bytes, empty ones included, and of receives (\<open>Get\<close>, reading, \<open>Delete\<close>), short enough for
  the 64-bit positions, the messages received, followed by those still in the channel, are the ones
  accepted, in the same order and with the same contents, except that empty messages may be missing;
  with no empty message sent, none is missing. A receive is refused only when the channel holds no
  message. That an empty message can get lost is shown by the theorem on zero-length messages below;
  a longer size wraps in \<open>CalSize\<close>, as \<open>CalSize_room\<close> of theory \<open>ChannelCommon\<close> shows.
\<close>

theorem variable_channel_fifo:
  assumes "SPSCVar_Create ans1 ans2 sz (Some cfg) h e = (Some (p, c), h', e')"
    and "\<forall>a. ans2 = Some a \<longrightarrow> block_fits a (unat (ring_bytes cfg))"
    and "length ops < (2 ^ 64 - 1) div (3 * unat (ring_bytes cfg))"
    and "\<forall>x. Push x \<in> set ops \<longrightarrow> msg_ok x"
    and "run_queue var_send var_receive (c, m) ops = (t, rs)"
  shows "subseq (delivered rs @ var_contents t) (map snd (accepted ops rs)) \<and>
    filter (\<lambda>x. x \<noteq> []) (delivered rs @ var_contents t) =
      filter (\<lambda>x. x \<noteq> []) (map snd (accepted ops rs)) \<and>
    ((\<forall>x. Push x \<in> set ops \<longrightarrow> fst x \<noteq> 0) \<longrightarrow> delivered rs @ var_contents t = map snd (accepted ops rs)) \<and>
    (snd (var_receive t) = None \<longleftrightarrow> var_contents t = [])"
proof -
  note R = var_run [OF assms(1-3) assms(4) [rule_format] assms(5)]
  have "(var_contents (fst (var_receive t)), snd (var_receive t)) = spec_pop (var_contents t)"
    using R(1) by (intro var.pop_abs) simp_all
  then have empty: "snd (var_receive t) = None \<longleftrightarrow> var_contents t = []"
    by (cases "var_contents t") auto
  have "delivered rs @ var_contents t = map snd (accepted ops rs)"
    if nz: "\<forall>x. Push x \<in> set ops \<longrightarrow> fst x \<noteq> 0"
  proof -
    have "snd x \<noteq> []" if "Push x \<in> set ops" for x
    proof -
      have "0 < unat (fst x)" "length (snd x) = (unat (fst x) + 7) div 8"
        using assms(4) [rule_format, OF that] nz [rule_format, OF that]
        by (simp_all add: msg_ok_def unat_gt_0)
      then show ?thesis by auto
    qed
    then have "filter (\<lambda>x. x \<noteq> []) (map snd (accepted ops rs)) = map snd (accepted ops rs)"
      using accepted_pushed [of _ ops rs] by (auto simp: filter_id_conv)
    moreover have "[] \<notin> set (delivered rs @ var_contents t)"
      using calculation list_emb_set [OF R(3)] by (metis (mono_tags, lifting) filter_id_conv)
    then have "filter (\<lambda>x. x \<noteq> []) (delivered rs @ var_contents t) = delivered rs @ var_contents t"
      unfolding filter_id_conv by blast
    ultimately show ?thesis
      using R(4) by metis
  qed
  with R(3,4) empty show ?thesis by blast
qed

text \<open>
  C14: no assertion of the variable-size channel fails. In every state that sends and receives of
  such messages lead to from \<open>Create\<close>, the next \<open>Get\<close> and the next \<open>New\<close> of any size satisfy every
  assertion on their path: \<open>NewEntry\<close>'s and \<open>GetEntry\<close>'s that a padding ends exactly with the lap,
  \<open>Get\<close>'s on the magic number and the flag of an entry; and the entry that \<open>Get\<close> returns lies
  within the ring without wrapping around its end.
\<close>

theorem variable_get_asserts:
  assumes "SPSCVar_Create ans1 ans2 sz (Some cfg) h e = (Some (p, c), h', e')"
    and "\<forall>a. ans2 = Some a \<longrightarrow> block_fits a (unat (ring_bytes cfg))"
    and "length ops < (2 ^ 64 - 1) div (3 * unat (ring_bytes cfg))"
    and "\<forall>x. Push x \<in> set ops \<longrightarrow> msg_ok x"
    and "run_queue var_send var_receive (c, m) ops = (t, rs)"
  shows "SPSCVar_Get_asserts t \<and> SPSCVar_New_asserts uSize t \<and>
    (case SPSCVar_Get t of ((d, m'), r) \<Rightarrow> case r of None \<Rightarrow> True | Some q \<Rightarrow> entry_in_ring d m' q)"
proof -
  note R = var_run [OF assms(1-3) assms(4) [rule_format] assms(5)]
  obtain d n where t: "t = (d, n)" by fastforce
  have "SPSCVar_Get_asserts t" "SPSCVar_New_asserts uSize t"
    using R(1,2) unfolding t by (auto intro!: Get_asserts_hold New_asserts_hold)
  then show ?thesis
    using R(1) Get_in_ring unfolding t by (auto split: option.split)
qed

text \<open>
  Fact: a zero-length message that lands in the last eight bytes of the ring is accepted and posted,
  but the consumer takes it for the end of a lap and never returns it.
\<close>

theorem zero_length_message_lost:
  assumes "var_inv (c, m)" "m_uHead_v c = m_uTail_v c"
    and "unat (m_uTail_v c) mod unat (m_uSizep_v c) + 8 = unat (m_uSizep_v c)"
    and "unat (m_uTail_v c) + 8 < 2 ^ 64"
    and "SPSCVar_New 0 (c, m) = ((d, m'), Some p)" "SPSCVar_Post (Some p) (d, m') = (d', m'')"
  shows "snd (SPSCVar_Get (d', m'')) = None \<and> \<not> m_uTail_v d' = m_uTail_v c"
proof -
  let ?t = "unat (m_uTail_v c)" and ?z = "var_size c"
  have g: "var_geom c" and pos: "var_pos c"
    using assms(1) by (auto simp: var_inv_def)
  have z: "?t mod ?z + 8 = ?z" "16 \<le> ?z"
    using assms(3) var_size_bounds(1) [OF g] by (simp_all add: var_size_def)
  have refs: "unat (m_uHeadRef_v c) \<le> ?t" "unat (m_uTailRef_v c) = ?t"
    using pos assms(2) by (auto simp: var_pos_def)
  have step: "SPSCVar_NewEntry 8 (c\<lparr>m_uHeadRef_v := h\<rparr>, m) =
      ((c\<lparr>m_uHeadRef_v := h\<rparr>, m), Some (ring_addr (var_base c) ?z ?t)) \<or>
      SPSCVar_NewEntry 8 (c\<lparr>m_uHeadRef_v := h\<rparr>, m) = ((c\<lparr>m_uHeadRef_v := h\<rparr>, m), None)"
    if "h = m_uHeadRef_v c \<or> h = m_uTail_v c" for h
  proof -
    have "var_geom (c\<lparr>m_uHeadRef_v := h\<rparr>)" "var_pos (c\<lparr>m_uHeadRef_v := h\<rparr>)"
      using g pos that assms(2) by (auto simp: var_geom_def var_pos_def var_base_def var_size_def)
    note E = NewEntry_eq [OF this, of 8 m, unfolded Let_def]
    have eq: "var_size (c\<lparr>m_uHeadRef_v := h\<rparr>) = ?z" "var_base (c\<lparr>m_uHeadRef_v := h\<rparr>) = var_base c"
      "m_uTail_v (c\<lparr>m_uHeadRef_v := h\<rparr>) = m_uTail_v c"
      by (simp_all add: var_size_def var_base_def)
    have fit: "?t mod ?z + unat (8 :: uint32_t) \<le> ?z"
      using z(1) by simp
    have "unat h mod ?z < ?z"
      using z(2) by (intro mod_less_divisor) linarith
    moreover have "?t mod ?z + unat (8 :: uint32_t) = ?z"
      using z(1) by simp
    ultimately have "\<not> ?t mod ?z + unat (8 :: uint32_t) \<le> unat h mod ?z"
      by (simp only: not_le)
    with fit show ?thesis
      unfolding E eq by (auto simp only: if_True if_False split: if_split)
  qed
  let ?q = "ring_addr (var_base c) ?z ?t"
  have new: "\<exists>h x. d = c\<lparr>m_uHeadRef_v := h, m_Statsp_v := x\<rparr> \<and> m' = m(p := fresh_entry 8) \<and> p = ?q"
  proof (cases "SPSCVar_NewEntry 8 (c, m) = ((c, m), Some ?q)")
    case True
    with assms(5) have "d = c\<lparr>m_uHeadRef_v := m_uHeadRef_v c,
        m_Statsp_v := (m_Statsp_v c)\<lparr>uCount := uCount (m_Statsp_v c) + 1\<rparr>\<rparr>"
      "m' = m(p := fresh_entry 8)" "p = ?q"
      by (auto simp: SPSCVar_New_def Let_def CalSize_0)
    then show ?thesis by blast
  next
    case False
    then have none: "SPSCVar_NewEntry 8 (c, m) = ((c, m), None)"
      using step [of "m_uHeadRef_v c"] by simp
    from step [of "m_uTail_v c", OF disjI2, OF refl] show ?thesis
    proof (elim disjE)
      assume "SPSCVar_NewEntry 8 (c\<lparr>m_uHeadRef_v := m_uTail_v c\<rparr>, m) =
        ((c\<lparr>m_uHeadRef_v := m_uTail_v c\<rparr>, m), Some ?q)"
      with assms(2,5) none have "d = c\<lparr>m_uHeadRef_v := m_uTail_v c,
          m_Statsp_v := (m_Statsp_v c)\<lparr>uCount := uCount (m_Statsp_v c) + 1\<rparr>\<rparr>"
        "m' = m(p := fresh_entry 8)" "p = ?q"
        by (auto simp: SPSCVar_New_def Let_def CalSize_0)
      then show ?thesis by blast
    qed (use assms(2,5) none in \<open>simp_all add: SPSCVar_New_def Let_def CalSize_0\<close>)
  qed
  then obtain h x where d: "d = c\<lparr>m_uHeadRef_v := h, m_Statsp_v := x\<rparr>"
      "m' = m(p := fresh_entry 8)" "p = ?q"
    by blast
  have tl: "unat (m_uTail_v c + 8) = ?t + 8"
    using assms(4) by (subst unat_plus_small) simp_all
  have d': "d' = c\<lparr>m_uHeadRef_v := h, m_uTail_v := m_uTail_v c + 8,
        m_Statsp_v := x\<lparr>uCount2 := uCount2 x + 1\<rparr>\<rparr>" "m'' = m(p := fresh_entry 8)"
    using assms(6) by (simp_all add: SPSCVar_Post_def d fresh_entry_def)
  have E1: "SPSCVar_GetEntry (d', m'') = ((d', m''), None)"
    using GetEntry_eq [of d' m''] g refs assms(2)
    by (simp add: d' Let_def var_geom_def var_base_def var_size_def)
  have "?z - ?t mod ?z = 8" "0 < ?z"
    using z by linarith+
  with mod_lap_end [of ?z ?t] have "(?t + 8) mod ?z = 0"
    by metis
  moreover have "unat (m_uSizep_v c) - ?t mod unat (m_uSizep_v c) = 8"
    using \<open>?z - ?t mod ?z = 8\<close> by (simp only: var_size_def)
  ultimately have E2: "snd (SPSCVar_GetEntry (d'\<lparr>m_uTailRef_v := m_uTail_v c + 8\<rparr>, m'')) = None"
    using GetEntry_eq [of "d'\<lparr>m_uTailRef_v := m_uTail_v c + 8\<rparr>" m''] g refs assms(2) tl z
    by (simp add: d' Let_def var_geom_def var_base_def var_size_def)
  have "snd (SPSCVar_Get (d', m'')) = None"
  proof -
    have "m_uTail_v d' = m_uTail_v c + 8"
      by (simp add: d')
    with E1 E2 show ?thesis
      by (auto simp: SPSCVar_Get_def Let_def split: prod.splits option.splits)
  qed
  moreover have "m_uTail_v c + 8 \<noteq> m_uTail_v c"
    by simp
  ultimately show ?thesis
    by (simp add: d')
qed

section \<open>Witnesses\<close>

text \<open>A ring of one kilobyte at address 4096 whose positions are all \<open>i\<close>, but for the tail.\<close>

definition var_example :: "uint64_t \<Rightarrow> uint64_t \<Rightarrow> CSPSCVariableBoundedChannel" where
  "var_example i t = SPSCVar_default\<lparr>m_pDatap_v := Some 4096, m_pDatac_v := Some 4096,
     m_uSizep_v := 1024, m_uSizec_v := 1024, m_uHeadRef_v := i, m_uHead_v := i, m_uTailRef_v := i,
     m_uTail_v := t\<rparr>"

definition var_example_cfg :: ChannelConfig where
  "var_example_cfg = \<lparr>uElementSize = 0, uMaxElementCount = 0, uTotalMemorySizeKB = 1\<rparr>"

definition zero_cells :: cells where
  "zero_cells a = \<lparr>uMagic = 0, uFlags = 0, uLength = 0\<rparr>"

lemma var_example_ring: "ring_bytes var_example_cfg = 1024"
  by (simp add: ring_bytes_def var_example_cfg_def Up2PowerOf2_def)

lemma var_example_geom: "var_geom (var_example i t)"
  by (auto simp: var_geom_def var_base_def var_size_def var_example_def intro!: exI [of _ 10])

lemma var_example_Create:
  "SPSCVar_Create (Some 64) (Some 4096) 320 (Some var_example_cfg) Map.empty kSuccess =
     (Some (64, var_example 0 0), [64 \<mapsto> 320, 4096 \<mapsto> 1024], kSuccess)"
  using var_example_ring
  by (simp add: SPSCVar_Create_def IAllocatorEx_New_def CAllocatorImpl_Malloc_def SPSCVar_Init_def
      Let_def var_example_def SPSCVar_default_def fun_upd_twist ring_bytes_def)
    (simp add: var_example_cfg_def)

lemma var_example_inv0:
  assumes "8 dvd unat i"
  shows "var_inv (var_example i i, m)"
  using assms var_example_geom [of i i]
  by (auto simp: var_inv_def var_pos_def var_tiles_def var_example_def intro: tiled_nil)

text \<open>One posted message of a single cell.\<close>

lemma var_example_inv1: "var_inv (var_example 0 16, zero_cells(4096 := fresh_entry 16))"
proof -
  let ?m = "zero_cells(4096 := fresh_entry 16)"
  have "entry_at 4096 1024 ?m 0 16"
    by (simp add: entry_at_def ring_addr_def fresh_entry_def)
  then have "tiled 4096 1024 ?m 0 (0 + 16) [payload 4096 1024 ?m 0 16]"
    by (rule tiled_entry) (rule tiled_nil)
  then have "\<exists>ms. tiled 4096 1024 ?m 0 16 ms"
    by auto
  with var_example_geom [of 0 16] show ?thesis
    by (auto simp: var_inv_def var_pos_def var_tiles_def var_example_def var_base_def var_size_def
        SPSCVar_default_def intro: tiled_nil)
qed

definition var_example_ops :: "(uint32_t \<times> Entry list) queue_op list" where
  "var_example_ops = [Push (13, [fresh_entry 7, fresh_entry 9]), Push (0, []), Pop]"

lemma var_example_length: "length var_example_ops = 3"
  by (simp add: var_example_ops_def)

lemma var_example_msgs: "Push x \<in> set var_example_ops \<Longrightarrow> msg_ok x"
  by (auto simp: msg_ok_def var_example_ops_def)

theorem variable_channel_fifo_witness:
  "\<exists>t rs. run_queue var_send var_receive (var_example 0 0, zero_cells) var_example_ops = (t, rs) \<and>
     subseq (delivered rs @ var_contents t) (map snd (accepted var_example_ops rs))"
proof -
  obtain t rs where t: "run_queue var_send var_receive (var_example 0 0, zero_cells) var_example_ops = (t, rs)"
    by fastforce
  have "subseq (delivered rs @ var_contents t) (map snd (accepted var_example_ops rs))"
    by (rule variable_channel_fifo [OF var_example_Create _ _ _ t, THEN conjunct1])
      (use var_example_msgs in \<open>simp_all add: var_example_ring block_fits_def var_example_length\<close>)
  with t show ?thesis by blast
qed

theorem variable_get_asserts_witness:
  "\<exists>t rs. run_queue var_send var_receive (var_example 0 0, zero_cells) var_example_ops = (t, rs) \<and>
     SPSCVar_Get_asserts t \<and> SPSCVar_New_asserts 5 t"
proof -
  obtain t rs where t: "run_queue var_send var_receive (var_example 0 0, zero_cells) var_example_ops = (t, rs)"
    by fastforce
  have "SPSCVar_Get_asserts t \<and> SPSCVar_New_asserts 5 t \<and>
    (case SPSCVar_Get t of ((d, m'), r) \<Rightarrow> case r of None \<Rightarrow> True | Some q \<Rightarrow> entry_in_ring d m' q)"
    by (rule variable_get_asserts [OF var_example_Create _ _ _ t])
      (use var_example_msgs in \<open>simp_all add: var_example_ring block_fits_def var_example_length\<close>)
  with t show ?thesis by blast
qed

theorem zero_length_message_lost_witness:
  "\<exists>d m p. SPSCVar_New 0 (var_example 1016 1016, zero_cells) = ((d, m), Some p) \<and>
     snd (SPSCVar_Get (SPSCVar_Post (Some p) (d, m))) = None"
proof -
  obtain d m p where N: "SPSCVar_New 0 (var_example 1016 1016, zero_cells) = ((d, m), Some p)"
    by (auto simp: SPSCVar_New_def SPSCVar_NewEntry_def Let_def var_example_def GetIndex_def
        data_at_def SPSCVar_default_def CalSize_0)
  obtain d' m' where P: "SPSCVar_Post (Some p) (d, m) = (d', m')"
    by fastforce
  have "var_inv (var_example 1016 1016, zero_cells)"
    by (rule var_example_inv0) simp
  from zero_length_message_lost [OF this _ _ _ N P] have "snd (SPSCVar_Get (d', m')) = None"
    by (simp add: var_example_def)
  with N P show ?thesis by auto
qed

end
