(* ===== verification/Calendar.thy ===== *)
theory Calendar
  imports Prelude
begin

text \<open>
  The parts of \<open>time.h\<close> of the C library that \<open>time_impl.cpp\<close> uses: \<open>struct tm\<close>, \<open>timegm\<close> and
  \<open>gmtime_r\<close>, on the proleptic Gregorian calendar without leap seconds, as POSIX has it.
\<close>

record tm =
  tm_year :: int
  tm_mon :: int
  tm_mday :: int
  tm_hour :: int
  tm_min :: int
  tm_sec :: int

section \<open>Years\<close>

definition leap :: "int \<Rightarrow> bool" where
  "leap y \<longleftrightarrow> y mod 4 = 0 \<and> (y mod 100 \<noteq> 0 \<or> y mod 400 = 0)"

text \<open>The leap years up to a year, and the days from the epoch to its first day.\<close>

definition leaps :: "int \<Rightarrow> int" where
  "leaps y = y div 4 - y div 100 + y div 400"

definition year_start :: "int \<Rightarrow> int" where
  "year_start y = 365 * (y - 1970) + leaps (y - 1) - leaps 1969"

definition year_length :: "int \<Rightarrow> int" where
  "year_length y = (if leap y then 366 else 365)"

lemma div_step:
  fixes y n :: int
  assumes n: "0 < n"
  shows "y div n = (y - 1) div n + (if y mod n = 0 then 1 else 0)"
proof (cases "y mod n = 0")
  case True
  then obtain q where y: "y = n * q"
    by (auto elim: dvdE simp: mod_eq_0_iff_dvd)
  have "(y - 1) div n = q - 1"
    by (rule int_div_pos_eq [where r = "n - 1"]) (use n y in \<open>simp_all add: algebra_simps\<close>)
  with n y show ?thesis
    by simp
next
  case False
  then have r: "0 < y mod n" "y mod n < n"
    using pos_mod_sign [OF n, of y] pos_mod_bound [OF n, of y] by simp_all
  have "y - 1 = n * (y div n) + (y mod n - 1)"
    using mult_div_mod_eq [of n y] by linarith
  then have "(y - 1) div n = y div n"
    by (rule int_div_pos_eq) (use r in simp_all)
  with False show ?thesis
    by simp
qed

lemma mod_100_400:
  fixes y :: int
  shows "y mod 400 = 0 \<Longrightarrow> y mod 100 = 0"
  unfolding mod_eq_0_iff_dvd by (rule dvd_trans [of _ 400]) simp_all

lemma mod_4_100:
  fixes y :: int
  shows "y mod 100 = 0 \<Longrightarrow> y mod 4 = 0"
  unfolding mod_eq_0_iff_dvd by (rule dvd_trans [of _ 100]) simp_all

lemma leaps_step: "leaps y = leaps (y - 1) + (if leap y then 1 else 0)"
proof -
  define a b c :: int where "a = (if y mod 4 = 0 then 1 else 0)"
    and "b = (if y mod 100 = 0 then 1 else 0)" and "c = (if y mod 400 = 0 then 1 else 0)"
  have "y div 4 = (y - 1) div 4 + a" "y div 100 = (y - 1) div 100 + b" "y div 400 = (y - 1) div 400 + c"
    unfolding a_def b_def c_def by (rule div_step; simp)+
  then have "leaps y = leaps (y - 1) + (a - b + c)"
    unfolding leaps_def by linarith
  moreover have "a - b + c = (if leap y then 1 else 0)"
    using mod_100_400 [of y] mod_4_100 [of y]
    unfolding a_def b_def c_def leap_def by (cases "y mod 400 = 0"; cases "y mod 100 = 0") simp_all
  ultimately show ?thesis
    by simp
qed

lemma year_start_step: "year_start (y + 1) = year_start y + year_length y"
  using leaps_step [of y] by (simp add: year_start_def year_length_def)

lemma year_length_bounds: "365 \<le> year_length y \<and> year_length y \<le> 366"
  by (simp add: year_length_def)

lemma year_start_1970: "year_start 1970 = 0"
  by (simp add: year_start_def)

lemma year_start_add: "year_start y + 365 * int n \<le> year_start (y + int n)"
proof (induction n)
  case (Suc n)
  have "year_start (y + int (Suc n)) = year_start (y + int n) + year_length (y + int n)"
    using year_start_step [of "y + int n"] by (simp add: algebra_simps)
  with Suc year_length_bounds [of "y + int n"] show ?case
    by simp
qed simp

lemma year_start_add_le: "year_start (y + int n) \<le> year_start y + 366 * int n"
proof (induction n)
  case (Suc n)
  have "year_start (y + int (Suc n)) = year_start (y + int n) + year_length (y + int n)"
    using year_start_step [of "y + int n"] by (simp add: algebra_simps)
  with Suc year_length_bounds [of "y + int n"] show ?case
    by simp
qed simp

lemma year_start_mono:
  assumes "x \<le> y"
  shows "year_start x + 365 * (y - x) \<le> year_start y" "year_start y \<le> year_start x + 366 * (y - x)"
  using year_start_add [of x "nat (y - x)"] year_start_add_le [of x "nat (y - x)"] assms by simp_all

text \<open>The year of a day: the last year that starts no later, searched down from an estimate.\<close>

function find_year :: "int \<Rightarrow> int \<Rightarrow> int" where
  "find_year y d = (if year_start y \<le> d then y else find_year (y - 1) d)"
  by auto
termination
proof (relation "measure (\<lambda>(y, d). nat (year_start y - d))")
  fix y d :: int
  assume "\<not> year_start y \<le> d"
  moreover have "year_start (y - 1) < year_start y"
    using year_start_mono(1) [of "y - 1" y] by simp
  ultimately show "((y - 1, d), y, d) \<in> measure (\<lambda>(y, d). nat (year_start y - d))"
    by simp
qed simp

declare find_year.simps [simp del]

definition year_of :: "int \<Rightarrow> int" where
  "year_of d = find_year (1970 + max (d div 365) (d div 366) + 1) d"

lemma find_year_spec:
  assumes "d < year_start (y + 1)"
  shows "year_start (find_year y d) \<le> d \<and> d < year_start (find_year y d + 1)"
  using assms
proof (induction y d rule: find_year.induct)
  case (1 y d)
  then show ?case
    by (subst (1 2) find_year.simps) auto
qed

text \<open>The estimate is no earlier than the year.\<close>

lemma year_estimate: "d < year_start (1970 + max (d div 365) (d div 366) + 1 + 1)"
proof (cases "0 \<le> d")
  case True
  then have "0 \<le> d div 365" "d div 366 \<le> d div 365"
    by (simp_all add: div_int_pos_iff zdiv_mono2)
  then have "365 * (d div 365 + 2) \<le> year_start (1970 + d div 365 + 2)"
    using year_start_mono(1) [of 1970 "1970 + d div 365 + 2"] by (simp add: year_start_1970)
  moreover have "d < 365 * (d div 365 + 2)"
    by presburger
  ultimately show ?thesis
    using \<open>d div 366 \<le> d div 365\<close> by (simp add: max_absorb1)
next
  case False
  define k where "k = max (d div 365) (d div 366) + 2"
  have "d < year_start (1970 + k)"
  proof (cases "k \<le> 0")
    case True
    then have "year_start 1970 \<le> year_start (1970 + k) + 366 * (- k)"
      using year_start_mono(2) [of "1970 + k" 1970] by simp
    moreover have "d < 366 * (d div 366 + 2)"
      by presburger
    moreover have "d div 366 + 2 \<le> k"
      by (simp add: k_def)
    ultimately show ?thesis
      unfolding year_start_1970 by linarith
  next
    case le: False
    have "0 \<le> year_start (1970 + k)"
      using le year_start_mono(1) [of 1970 "1970 + k"] by (simp add: year_start_1970)
    with False show ?thesis
      by simp
  qed
  then show ?thesis
    by (simp add: k_def add.assoc)
qed

lemma year_of_spec: "year_start (year_of d) \<le> d" "d < year_start (year_of d + 1)"
  using find_year_spec [OF year_estimate] by (simp_all add: year_of_def)

lemma year_of_unique:
  assumes "year_start y \<le> d" "d < year_start (y + 1)"
  shows "year_of d = y"
proof (rule ccontr)
  assume "year_of d \<noteq> y"
  then have "year_of d + 1 \<le> y \<or> y + 1 \<le> year_of d"
    by linarith
  then show False
    using year_start_mono(1) [of "year_of d + 1" y] year_start_mono(1) [of "y + 1" "year_of d"]
      year_of_spec [of d] assms by auto
qed

section \<open>Months\<close>

definition month_lengths :: "int \<Rightarrow> int list" where
  "month_lengths y = [31, if leap y then 29 else 28, 31, 30, 31, 30, 31, 31, 30, 31, 30, 31]"

definition month_start :: "int \<Rightarrow> int \<Rightarrow> int" where
  "month_start y m = sum_list (take (nat m) (month_lengths y))"

text \<open>The month of a day of the year, and the day of that month, both from zero.\<close>

fun split_month :: "int list \<Rightarrow> int \<Rightarrow> int \<Rightarrow> int \<times> int" where
  "split_month [] m d = (m, d)"
| "split_month (n # ns) m d = (if d < n then (m, d) else split_month ns (m + 1) (d - n))"

lemma split_month_spec:
  "split_month ns m d = (m', d') \<Longrightarrow> 0 \<le> d \<Longrightarrow> d < sum_list ns \<Longrightarrow>
     m \<le> m' \<and> m' - m < int (length ns) \<and> sum_list (take (nat (m' - m)) ns) + d' = d \<and>
     0 \<le> d' \<and> d' < ns ! nat (m' - m)"
proof (induction ns m d rule: split_month.induct)
  case (2 n ns m d)
  show ?case
  proof (cases "d < n")
    case True
    with 2 show ?thesis by auto
  next
    case False
    with 2 have "m + 1 \<le> m' \<and> m' - (m + 1) < int (length ns) \<and>
        sum_list (take (nat (m' - (m + 1))) ns) + d' = d - n \<and> 0 \<le> d' \<and>
        d' < ns ! nat (m' - (m + 1))"
      by auto
    moreover from this have "nat (m' - m) = Suc (nat (m' - (m + 1)))"
      by (simp add: Suc_nat_eq_nat_zadd1)
    ultimately show ?thesis
      by auto
  qed
qed simp

lemma split_month_start:
  assumes "k < length ns" "0 \<le> d" "d < ns ! k" "\<forall>n\<in>set ns. 0 \<le> n"
  shows "split_month ns m (sum_list (take k ns) + d) = (m + int k, d)"
  using assms
proof (induction ns arbitrary: k m)
  case (Cons n ns)
  show ?case
  proof (cases k)
    case 0
    with Cons show ?thesis by simp
  next
    case (Suc i)
    have "0 \<le> sum_list (take i ns)"
      using Cons.prems(4) by (intro sum_list_nonneg) (auto dest: in_set_takeD)
    with Cons Suc show ?thesis
      by (auto simp: algebra_simps)
  qed
qed simp

lemma month_lengths_facts:
  "length (month_lengths y) = 12" "\<forall>n\<in>set (month_lengths y). 0 \<le> n \<and> n \<le> 31"
  "sum_list (month_lengths y) = year_length y"
  by (simp_all add: month_lengths_def year_length_def)

section \<open>\<open>timegm\<close> and \<open>gmtime_r\<close>\<close>

text \<open>\<open>timegm\<close> normalizes fields that are out of range.\<close>

definition timegm :: "tm \<Rightarrow> int" where
  "timegm t =
     (let y = 1900 + tm_year t + tm_mon t div 12; m = tm_mon t mod 12 in
      (year_start y + month_start y m + (tm_mday t - 1)) * 86400 +
        tm_hour t * 3600 + tm_min t * 60 + tm_sec t)"

text \<open>\<open>gmtime_r\<close> fails when the year does not fit in an \<open>int\<close>.\<close>

definition gmtime_r :: "int \<Rightarrow> tm option" where
  "gmtime_r t =
     (let d = t div 86400; s = t mod 86400; y = year_of d;
          (m, md) = split_month (month_lengths y) 0 (d - year_start y)
      in if - (2 ^ 31) \<le> y - 1900 \<and> y - 1900 < 2 ^ 31
         then Some \<lparr>tm_year = y - 1900, tm_mon = m, tm_mday = md + 1,
           tm_hour = s div 3600, tm_min = s mod 3600 div 60, tm_sec = s mod 60\<rparr>
         else None)"

text \<open>Dates whose fields are in range.\<close>

definition valid_tm :: "tm \<Rightarrow> bool" where
  "valid_tm t \<longleftrightarrow> 0 \<le> tm_mon t \<and> tm_mon t < 12 \<and> 1 \<le> tm_mday t \<and>
     tm_mday t \<le> month_lengths (1900 + tm_year t) ! nat (tm_mon t) \<and>
     0 \<le> tm_hour t \<and> tm_hour t < 24 \<and> 0 \<le> tm_min t \<and> tm_min t < 60 \<and>
     0 \<le> tm_sec t \<and> tm_sec t < 60"

lemma split_day:
  "split_month (month_lengths (year_of d)) 0 (d - year_start (year_of d)) = (m, md) \<Longrightarrow>
     0 \<le> m \<and> m < 12 \<and> month_start (year_of d) m + md = d - year_start (year_of d) \<and> 0 \<le> md \<and>
     md < month_lengths (year_of d) ! nat m"
  using split_month_spec [of "month_lengths (year_of d)" 0 "d - year_start (year_of d)" m md]
    year_of_spec [of d] year_start_step [of "year_of d"]
  by (simp add: month_lengths_facts month_start_def)

lemma hms_bounds:
  fixes s :: int
  assumes "0 \<le> s" "s < 86400"
  shows "0 \<le> s div 3600 \<and> s div 3600 < 24 \<and> 0 \<le> s mod 3600 div 60 \<and> s mod 3600 div 60 < 60 \<and>
    0 \<le> s mod 60 \<and> s mod 60 < 60"
proof -
  have "s div 3600 \<le> 86399 div 3600"
    using assms by (intro zdiv_mono1) simp_all
  moreover have "s mod 3600 div 60 \<le> 3599 div 60"
    by (intro zdiv_mono1) (simp_all add: pos_mod_bound zle_diff1_eq [symmetric])
  ultimately show ?thesis
    using assms by (simp add: div_int_pos_iff)
qed

lemma gmtime_fields:
  assumes "gmtime_r t = Some x"
  obtains m md where
    "split_month (month_lengths (year_of (t div 86400))) 0
       (t div 86400 - year_start (year_of (t div 86400))) = (m, md)"
    "x = \<lparr>tm_year = year_of (t div 86400) - 1900, tm_mon = m, tm_mday = md + 1,
      tm_hour = t mod 86400 div 3600, tm_min = t mod 86400 mod 3600 div 60, tm_sec = t mod 86400 mod 60\<rparr>"
proof -
  obtain m md where "split_month (month_lengths (year_of (t div 86400))) 0
       (t div 86400 - year_start (year_of (t div 86400))) = (m, md)"
    by fastforce
  with assms that show thesis
    by (simp add: gmtime_r_def Let_def split: if_splits)
qed

lemma gmtime_valid:
  assumes "gmtime_r t = Some x"
  shows "valid_tm x"
  using assms
proof (rule gmtime_fields)
  fix m md
  assume "split_month (month_lengths (year_of (t div 86400))) 0
      (t div 86400 - year_start (year_of (t div 86400))) = (m, md)"
  note S = split_day [OF this]
  have "0 \<le> t mod 86400" "t mod 86400 < 86400"
    by simp_all
  note H = hms_bounds [OF this]
  assume x: "x = \<lparr>tm_year = year_of (t div 86400) - 1900, tm_mon = m, tm_mday = md + 1,
      tm_hour = t mod 86400 div 3600, tm_min = t mod 86400 mod 3600 div 60, tm_sec = t mod 86400 mod 60\<rparr>"
  show "valid_tm x"
    unfolding valid_tm_def x tm.select_convs using S H by auto
qed

lemma hms_split:
  fixes h m s :: int
  assumes "0 \<le> m" "m < 60" "0 \<le> s" "s < 60"
  shows "(h * 3600 + m * 60 + s) div 3600 = h" "(h * 3600 + m * 60 + s) mod 3600 div 60 = m"
    "(h * 3600 + m * 60 + s) mod 60 = s"
proof -
  show "(h * 3600 + m * 60 + s) div 3600 = h"
    by (rule int_div_pos_eq [where r = "m * 60 + s"]) (use assms in simp_all)
  have "(h * 3600 + m * 60 + s) mod 3600 = m * 60 + s"
    by (rule int_mod_pos_eq [where q = h]) (use assms in simp_all)
  moreover have "(m * 60 + s) div 60 = m"
    by (rule int_div_pos_eq [where r = s]) (use assms in simp_all)
  ultimately show "(h * 3600 + m * 60 + s) mod 3600 div 60 = m"
    by simp
  show "(h * 3600 + m * 60 + s) mod 60 = s"
    by (rule int_mod_pos_eq [where q = "h * 60 + m"]) (use assms in simp_all)
qed

lemma hms_join:
  fixes s :: int
  shows "s div 3600 * 3600 + s mod 3600 div 60 * 60 + s mod 60 = s"
proof -
  have "s mod 3600 mod 60 = s mod 60"
    by (rule mod_mod_cancel) simp
  then show ?thesis
    using div_mult_mod_eq [of s 3600] div_mult_mod_eq [of "s mod 3600" 60] by linarith
qed

lemma timegm_gmtime: "gmtime_r t = Some x \<Longrightarrow> timegm x = t"
proof -
  assume x: "gmtime_r t = Some x"
  let ?d = "t div 86400" and ?s = "t mod 86400"
  obtain m md where md: "split_month (month_lengths (year_of ?d)) 0 (?d - year_start (year_of ?d)) = (m, md)"
    and x: "x = \<lparr>tm_year = year_of ?d - 1900, tm_mon = m, tm_mday = md + 1, tm_hour = ?s div 3600,
      tm_min = ?s mod 3600 div 60, tm_sec = ?s mod 60\<rparr>"
    using x by (rule gmtime_fields)
  note S = split_day [OF md]
  have m: "m div 12 = 0" "m mod 12 = m"
    using S by simp_all
  from x have "timegm x = (year_start (year_of ?d) + (month_start (year_of ?d) m + md)) * 86400 +
      (?s div 3600 * 3600 + ?s mod 3600 div 60 * 60 + ?s mod 60)"
    by (simp add: timegm_def m add.assoc Let_def)
  also have "year_start (year_of ?d) + (month_start (year_of ?d) m + md) = ?d"
    using S by linarith
  also have "?s div 3600 * 3600 + ?s mod 3600 div 60 * 60 + ?s mod 60 = ?s"
    by (rule hms_join)
  finally show "timegm x = t"
    by simp
qed

lemma gmtime_timegm:
  assumes "valid_tm t" "- (2 ^ 31) \<le> tm_year t" "tm_year t < 2 ^ 31"
  shows "gmtime_r (timegm t) = Some t"
proof -
  let ?y = "1900 + tm_year t" and ?m = "tm_mon t"
  let ?d = "year_start ?y + month_start ?y ?m + (tm_mday t - 1)"
  let ?s = "tm_hour t * 3600 + tm_min t * 60 + tm_sec t"
  have v: "0 \<le> ?m" "?m < 12" "0 \<le> ?s" "?s < 86400"
    using assms(1) by (auto simp: valid_tm_def)
  have t: "timegm t = 86400 * ?d + ?s"
    using v by (simp add: timegm_def Let_def algebra_simps)
  have ds: "timegm t div 86400 = ?d" "timegm t mod 86400 = ?s"
    using int_div_pos_eq [OF t v(3,4)] int_mod_pos_eq [OF t v(3,4)] by simp_all
  have sp: "split_month (month_lengths ?y) 0 (month_start ?y ?m + (tm_mday t - 1)) =
      (?m, tm_mday t - 1)"
    using split_month_start [of "nat ?m" "month_lengths ?y" "tm_mday t - 1" 0] assms(1) v(1,2)
      month_lengths_facts [of ?y]
    by (auto simp: valid_tm_def month_start_def)
  have len: "nat ?m < 12"
    using v by simp
  have "sum_list (take (Suc (nat ?m)) (month_lengths ?y)) \<le> year_length ?y"
  proof -
    have "0 \<le> sum_list (drop (Suc (nat ?m)) (month_lengths ?y))"
      using month_lengths_facts(2) [of ?y] by (intro sum_list_nonneg) (auto dest: in_set_dropD)
    then show ?thesis
      using month_lengths_facts(3) [of ?y]
        sum_list_append [of "take (Suc (nat ?m)) (month_lengths ?y)" "drop (Suc (nat ?m)) (month_lengths ?y)"]
      by simp
  qed
  then have "month_start ?y ?m + (tm_mday t - 1) < year_length ?y"
    using assms(1) len by (simp add: month_start_def take_Suc_conv_app_nth month_lengths_facts valid_tm_def)
  moreover have "0 \<le> month_start ?y ?m"
    unfolding month_start_def using month_lengths_facts(2) [of ?y]
    by (intro sum_list_nonneg) (auto dest: in_set_takeD)
  ultimately have y: "year_of ?d = ?y"
    using assms(1) year_start_step [of ?y] by (intro year_of_unique) (auto simp: valid_tm_def)
  have hms: "?s div 3600 = tm_hour t" "?s mod 3600 div 60 = tm_min t" "?s mod 60 = tm_sec t"
    using assms(1) by (simp_all only: valid_tm_def hms_split)
  have "gmtime_r (timegm t) = Some \<lparr>tm_year = tm_year t, tm_mon = ?m, tm_mday = tm_mday t,
      tm_hour = tm_hour t, tm_min = tm_min t, tm_sec = tm_sec t\<rparr>"
    using assms(2,3) sp unfolding gmtime_r_def ds y Let_def hms by (simp add: add.assoc)
  then show ?thesis
    by simp
qed

text \<open>Two dates in range denote the same second only if they are the same.\<close>

lemma year_bound:
  assumes "0 \<le> t" "t < 2 ^ 55"
  shows "1970 \<le> year_of (t div 86400)" "year_of (t div 86400) < 2 ^ 31"
proof -
  let ?d = "t div 86400"
  have d: "0 \<le> ?d" "?d < 2 ^ 39"
    using assms zdiv_mono1 [of t "2 ^ 55" 86400] by (simp_all add: div_int_pos_iff)
  show ge: "1970 \<le> year_of ?d"
  proof (rule ccontr)
    assume "\<not> 1970 \<le> year_of ?d"
    then have "year_start (year_of ?d + 1) \<le> 0"
      using year_start_mono(1) [of "year_of ?d + 1" 1970] by (simp add: year_start_1970)
    with year_of_spec(2) [of ?d] d show False by simp
  qed
  have "365 * (year_of ?d - 1970) \<le> ?d"
    using ge year_start_mono(1) [of 1970 "year_of ?d"] year_of_spec(1) [of ?d]
    by (simp add: year_start_1970)
  with d(2) show "year_of ?d < 2 ^ 31"
    by simp
qed

end
