(* ===== verification/TimeImpl.thy ===== *)
theory TimeImpl
  imports Calendar Common
begin

text \<open>
  \<open>ITime\<close>: \<open>base/include/utilities/time.h\<close> and \<open>base/sources/utilities/time_impl.cpp\<close>. The padding
  field \<open>uReserved\<close> is left out. The clock of the system and its time zone are arguments.
\<close>

section \<open>Data and conversions\<close>

record ITime =
  uYear :: uint32_t
  uMonth :: uint32_t
  uDay :: uint32_t
  uHour :: uint32_t
  uMinute :: uint32_t
  uSecond :: uint32_t
  uMicro :: uint32_t

definition ITime_default :: ITime where
  "ITime_default = \<lparr>uYear = 0, uMonth = 0, uDay = 0, uHour = 0, uMinute = 0, uSecond = 0, uMicro = 0\<rparr>"

definition ITime_of_fields ::
  "uint32_t \<Rightarrow> uint32_t \<Rightarrow> uint32_t \<Rightarrow> uint32_t \<Rightarrow> uint32_t \<Rightarrow> uint32_t \<Rightarrow> uint32_t \<Rightarrow> ITime" where
  "ITime_of_fields y mo d h mi s us =
     \<lparr>uYear = y, uMonth = mo, uDay = d, uHour = h, uMinute = mi, uSecond = s, uMicro = us\<rparr>"

definition ITime_copy :: "ITime \<Rightarrow> ITime" where
  "ITime_copy t = t"

definition ITime_of_tm :: "tm \<Rightarrow> uint32_t \<Rightarrow> ITime" where
  "ITime_of_tm t us = ITime_of_fields (word_of_int (tm_year t + 1900)) (word_of_int (tm_mon t + 1))
     (word_of_int (tm_mday t)) (word_of_int (tm_hour t)) (word_of_int (tm_min t))
     (word_of_int (tm_sec t)) us"

text \<open>
  The constructor from a timestamp ignores the result of \<open>gmtime_r\<close>; \<open>junk\<close> is the content of the
  uninitialized \<open>struct tm\<close>.
\<close>

definition ITime_of_second :: "tm \<Rightarrow> uint64_t \<Rightarrow> ITime" where
  "ITime_of_second junk u =
     ITime_of_tm (case gmtime_r (sint u) of Some t \<Rightarrow> t | None \<Rightarrow> junk) 0"

definition tm_of_ITime :: "ITime \<Rightarrow> tm" where
  "tm_of_ITime t = \<lparr>tm_year = sint (uYear t) - 1900, tm_mon = sint (uMonth t) - 1,
     tm_mday = sint (uDay t), tm_hour = sint (uHour t), tm_min = sint (uMinute t),
     tm_sec = sint (uSecond t)\<rparr>"

definition GetTimeStampSecond :: "ITime \<Rightarrow> uint64_t" where
  "GetTimeStampSecond t = word_of_int (timegm (tm_of_ITime t))"

definition GetTimeStampMill :: "ITime \<Rightarrow> uint64_t" where
  "GetTimeStampMill t = GetTimeStampSecond t * 1000 + ucast (uMicro t div 1000)"

definition GetTimeStampMicro :: "ITime \<Rightarrow> uint64_t" where
  "GetTimeStampMicro t = GetTimeStampSecond t * 1000000 + ucast (uMicro t)"

section \<open>Comparisons\<close>

definition ITime_lt :: "ITime \<Rightarrow> ITime \<Rightarrow> bool" where
  "ITime_lt a b \<longleftrightarrow> uYear a < uYear b \<or> uMonth a < uMonth b \<or> uDay a < uDay b \<or>
     uHour a < uHour b \<or> uMinute a < uMinute b \<or> uSecond a < uSecond b \<or> uMicro a < uMicro b"

definition ITime_gt :: "ITime \<Rightarrow> ITime \<Rightarrow> bool" where
  "ITime_gt a b \<longleftrightarrow> ITime_lt b a"

definition ITime_le :: "ITime \<Rightarrow> ITime \<Rightarrow> bool" where
  "ITime_le a b \<longleftrightarrow> \<not> ITime_lt b a"

definition ITime_ge :: "ITime \<Rightarrow> ITime \<Rightarrow> bool" where
  "ITime_ge a b \<longleftrightarrow> \<not> ITime_lt a b"

definition ITime_eq :: "ITime \<Rightarrow> ITime \<Rightarrow> bool" where
  "ITime_eq a b \<longleftrightarrow> uYear a = uYear b \<and> uMonth a = uMonth b \<and> uDay a = uDay b \<and>
     uHour a = uHour b \<and> uMinute a = uMinute b \<and> uSecond a = uSecond b \<and> uMicro a = uMicro b"

definition ITime_ne :: "ITime \<Rightarrow> ITime \<Rightarrow> bool" where
  "ITime_ne a b \<longleftrightarrow> \<not> ITime_eq a b"

section \<open>Arithmetic\<close>

text \<open>
  The binary operators on \<open>ITime\<close> assign to \<open>*this\<close> and return a reference to it: the result is
  the new value of the left operand.
\<close>

definition ITime_plus :: "tm \<Rightarrow> ITime \<Rightarrow> ITime \<Rightarrow> ITime" where
  "ITime_plus junk this other =
     ITime_of_second junk (GetTimeStampSecond this + GetTimeStampSecond other)"

definition ITime_minus :: "tm \<Rightarrow> ITime \<Rightarrow> ITime \<Rightarrow> ITime" where
  "ITime_minus junk this other =
     (let uThisSecond = GetTimeStampSecond this; uOtherSecond = GetTimeStampSecond other in
      if uThisSecond > uOtherSecond then ITime_of_second junk (uThisSecond - uOtherSecond)
      else ITime_of_second junk 0)"

definition ITime_plus_assign :: "tm \<Rightarrow> ITime \<Rightarrow> ITime \<Rightarrow> ITime" where
  "ITime_plus_assign junk this other = ITime_plus junk this other"

definition ITime_minus_assign :: "tm \<Rightarrow> ITime \<Rightarrow> ITime \<Rightarrow> ITime" where
  "ITime_minus_assign junk this other = ITime_minus junk this other"

definition ITime_plus_assign_sec :: "tm \<Rightarrow> ITime \<Rightarrow> uint64_t \<Rightarrow> ITime" where
  "ITime_plus_assign_sec junk this u = ITime_plus_assign junk this (ITime_of_second junk u)"

definition ITime_minus_assign_sec :: "tm \<Rightarrow> ITime \<Rightarrow> uint64_t \<Rightarrow> ITime" where
  "ITime_minus_assign_sec junk this u = ITime_minus_assign junk this (ITime_of_second junk u)"

text \<open>The operators with a timestamp work on a copy: the pair is the left operand and the result.\<close>

definition ITime_plus_sec :: "tm \<Rightarrow> ITime \<Rightarrow> uint64_t \<Rightarrow> ITime \<times> ITime" where
  "ITime_plus_sec junk this u = (this, ITime_plus_assign_sec junk this u)"

definition ITime_minus_sec :: "tm \<Rightarrow> ITime \<Rightarrow> uint64_t \<Rightarrow> ITime \<times> ITime" where
  "ITime_minus_sec junk this u = (this, ITime_minus_assign_sec junk this u)"

definition ITime_preinc :: "tm \<Rightarrow> ITime \<Rightarrow> ITime" where
  "ITime_preinc junk this = ITime_plus_assign_sec junk this 1"

definition ITime_predec :: "tm \<Rightarrow> ITime \<Rightarrow> ITime" where
  "ITime_predec junk this = ITime_minus_assign_sec junk this 1"

text \<open>The new value of the object, and the old one, which is returned.\<close>

definition ITime_postinc :: "tm \<Rightarrow> ITime \<Rightarrow> ITime \<times> ITime" where
  "ITime_postinc junk this = (ITime_preinc junk this, this)"

definition ITime_postdec :: "tm \<Rightarrow> ITime \<Rightarrow> ITime \<times> ITime" where
  "ITime_postdec junk this = (ITime_predec junk this, this)"

section \<open>The system clock\<close>

text \<open>\<open>ts_sec\<close> and \<open>ts_nsec\<close> are what \<open>clock_gettime\<close> gave, \<open>localtime\<close> is \<open>localtime_r\<close>.\<close>

definition ITime_GetLocalTime :: "(int \<Rightarrow> tm) \<Rightarrow> int \<Rightarrow> int \<Rightarrow> ITime" where
  "ITime_GetLocalTime localtime ts_sec ts_nsec =
     ITime_of_tm (localtime ts_sec) (word_of_int (ts_nsec div 1000))"

definition ITime_GetUTCTSecond :: "int \<Rightarrow> uint64_t" where
  "ITime_GetUTCTSecond ts_sec = word_of_int ts_sec"

definition ITime_GetUTCTime :: "tm \<Rightarrow> int \<Rightarrow> ITime" where
  "ITime_GetUTCTime junk ts_sec = ITime_of_second junk (ITime_GetUTCTSecond ts_sec)"

text \<open>\<open>settime\<close> is \<open>clock_settime\<close>, which says whether it accepted the seconds.\<close>

definition ITime_SetUTCTime_sec :: "(uint64_t \<Rightarrow> bool) \<Rightarrow> uint64_t \<Rightarrow> ErrorCode" where
  "ITime_SetUTCTime_sec settime u = (if settime u then kSuccess else kSysCallFailed)"

definition ITime_SetUTCTime :: "(uint64_t \<Rightarrow> bool) \<Rightarrow> ITime option \<Rightarrow> ErrorCode" where
  "ITime_SetUTCTime settime pTime =
     (case pTime of
        None \<Rightarrow> kInvalidParam
      | Some t \<Rightarrow> ITime_SetUTCTime_sec settime (word_of_int (timegm (tm_of_ITime t))))"

text \<open>The zone is a global of the C library, of type \<open>long\<close>; \<open>isdst\<close> is the flag of \<open>localtime_r\<close> for a time.\<close>

definition ITime_GetTimeZone :: "int \<Rightarrow> uint32_t" where
  "ITime_GetTimeZone timezone = word_of_int timezone"

definition ITime_IsDst :: "(int \<Rightarrow> int) \<Rightarrow> int \<Rightarrow> uint32_t" where
  "ITime_IsDst isdst tv_sec = word_of_int (isdst tv_sec)"

definition ITime_SetTimeZone :: "int \<Rightarrow> ErrorCode" where
  "ITime_SetTimeZone iTimeZone = kInvalidCall"

section \<open>Facts\<close>

lemma sint_small64: "uint (w :: uint64_t) < 2 ^ 63 \<Longrightarrow> sint w = uint w"
  by (subst sint_uint, rule signed_take_bit_int_eq_self) (simp_all add: order_trans [OF _ uint_ge_0])

lemma sint_word_of_int32: "- (2 ^ 31) \<le> i \<Longrightarrow> i < 2 ^ 31 \<Longrightarrow> sint (word_of_int i :: uint32_t) = i"
  by (simp add: signed_of_int signed_take_bit_int_eq_self)

text \<open>A timestamp below \<open>2 ^ 55\<close> seconds, a billion years, has a representable date.\<close>

lemma ITime_of_small:
  assumes "uint u < 2 ^ 55"
  obtains x where "gmtime_r (uint u) = Some x" "valid_tm x" "timegm x = uint u"
    "70 \<le> tm_year x" "tm_year x < 2 ^ 31 - 1900" "ITime_of_second junk u = ITime_of_tm x 0"
proof -
  note yb = year_bound [OF uint_ge_0 assms]
  obtain m md where md: "split_month (month_lengths (year_of (uint u div 86400))) 0
      (uint u div 86400 - year_start (year_of (uint u div 86400))) = (m, md)"
    by fastforce
  then obtain x where x: "gmtime_r (uint u) = Some x" "tm_year x = year_of (uint u div 86400) - 1900"
    using yb by (simp add: gmtime_r_def Let_def)
  moreover have "sint u = uint u"
    using assms by (intro sint_small64) simp
  ultimately show thesis
    using that [of x] yb gmtime_valid timegm_gmtime by (simp add: ITime_of_second_def)
qed

lemma valid_mday: "valid_tm x \<Longrightarrow> tm_mday x \<le> 31"
proof -
  assume v: "valid_tm x"
  then have "nat (tm_mon x) < length (month_lengths (1900 + tm_year x))"
    unfolding valid_tm_def month_lengths_facts by linarith
  then have "month_lengths (1900 + tm_year x) ! nat (tm_mon x) \<le> 31"
    using month_lengths_facts(2) [of "1900 + tm_year x"] nth_mem by blast
  with v show ?thesis
    by (simp add: valid_tm_def)
qed

lemma tm_ITime:
  assumes "valid_tm x" "- (2 ^ 31) \<le> tm_year x" "tm_year x < 2 ^ 31 - 1900"
  shows "tm_of_ITime (ITime_of_tm x us) = x"
  using assms valid_mday [OF assms(1)]
  by (simp add: tm_of_ITime_def ITime_of_tm_def ITime_of_fields_def sint_word_of_int32 valid_tm_def
      del: of_int_add)

lemma GetTimeStampSecond_of_second:
  assumes "uint u < 2 ^ 55"
  shows "GetTimeStampSecond (ITime_of_second junk u) = u"
proof -
  obtain x where x: "valid_tm x" "timegm x = uint u" "70 \<le> tm_year x" "tm_year x < 2 ^ 31 - 1900"
    "ITime_of_second junk u = ITime_of_tm x 0"
    using assms by (rule ITime_of_small)
  then have "tm_of_ITime (ITime_of_tm x 0) = x"
    by (intro tm_ITime) simp_all
  with x show ?thesis
    by (simp add: GetTimeStampSecond_def)
qed

text \<open>A date whose fields are in range, not before the epoch.\<close>

definition valid_ITime :: "ITime \<Rightarrow> bool" where
  "valid_ITime t \<longleftrightarrow> valid_tm (tm_of_ITime t) \<and> 1970 \<le> uYear t \<and> uYear t < 2 ^ 30"

lemma sint_uint32: "uint (w :: uint32_t) < 2 ^ 31 \<Longrightarrow> sint w = uint w"
  by (subst sint_uint, rule signed_take_bit_int_eq_self) (simp_all add: order_trans [OF _ uint_ge_0])

lemma ITime_of_tm_of: "ITime_of_tm (tm_of_ITime t) (uMicro t) = t"
  by (simp add: ITime_of_tm_def tm_of_ITime_def ITime_of_fields_def)

lemma timegm_bounds:
  assumes "valid_ITime t"
  shows "0 \<le> timegm (tm_of_ITime t)" "timegm (tm_of_ITime t) < 2 ^ 55"
    "tm_year (tm_of_ITime t) = uint (uYear t) - 1900"
proof -
  let ?x = "tm_of_ITime t" and ?y = "uint (uYear t)"
  have yb: "1970 \<le> ?y" "?y < 2 ^ 30"
    using assms by (auto simp: valid_ITime_def word_le_def word_less_def)
  then show y: "tm_year ?x = ?y - 1900"
    by (simp add: tm_of_ITime_def sint_uint32)
  have v: "valid_tm ?x"
    using assms by (simp add: valid_ITime_def)
  have m: "tm_mon ?x div 12 = 0" "tm_mon ?x mod 12 = tm_mon ?x" "nat (tm_mon ?x) < 12"
    using v by (auto simp: valid_tm_def)
  have "0 \<le> month_start ?y (tm_mon ?x)" "month_start ?y (tm_mon ?x) \<le> 366"
  proof -
    have "0 \<le> sum_list (drop (nat (tm_mon ?x)) (month_lengths ?y))"
      using month_lengths_facts(2) [of ?y] by (intro sum_list_nonneg) (auto dest: in_set_dropD)
    then show "month_start ?y (tm_mon ?x) \<le> 366"
      using month_lengths_facts(3) [of ?y] year_length_bounds [of ?y]
        sum_list_append [of "take (nat (tm_mon ?x)) (month_lengths ?y)" "drop (nat (tm_mon ?x)) (month_lengths ?y)"]
      by (simp add: month_start_def)
    show "0 \<le> month_start ?y (tm_mon ?x)"
      unfolding month_start_def using month_lengths_facts(2) [of ?y]
      by (intro sum_list_nonneg) (auto dest: in_set_takeD)
  qed
  moreover have "0 \<le> year_start ?y" "year_start ?y \<le> 366 * (2 ^ 30 - 1970)"
    using yb year_start_mono [of 1970 ?y] by (auto simp: year_start_1970)
  moreover have "timegm ?x = (year_start ?y + month_start ?y (tm_mon ?x) + (tm_mday ?x - 1)) * 86400 +
      tm_hour ?x * 3600 + tm_min ?x * 60 + tm_sec ?x"
    unfolding timegm_def Let_def m y by simp
  ultimately show "0 \<le> timegm ?x" "timegm ?x < 2 ^ 55"
    using v valid_mday [OF v] by (auto simp: valid_tm_def)
qed

lemma second_of_date:
  assumes "valid_ITime t"
  shows "ITime_of_second junk (GetTimeStampSecond t) = t\<lparr>uMicro := 0\<rparr>"
proof -
  let ?x = "tm_of_ITime t"
  note b = timegm_bounds [OF assms]
  have y: "uint (uYear t) < 2 ^ 30" "1970 \<le> uint (uYear t)"
    using assms by (auto simp: valid_ITime_def word_le_def word_less_def)
  have "gmtime_r (timegm ?x) = Some ?x"
    using assms y b(3) by (intro gmtime_timegm) (simp_all add: valid_ITime_def)
  moreover have "sint (GetTimeStampSecond t) = timegm ?x"
    using b by (simp add: GetTimeStampSecond_def signed_of_int signed_take_bit_int_eq_self)
  ultimately have "ITime_of_second junk (GetTimeStampSecond t) = ITime_of_tm ?x 0"
    by (simp add: ITime_of_second_def)
  also have "\<dots> = (ITime_of_tm ?x (uMicro t))\<lparr>uMicro := 0\<rparr>"
    by (simp add: ITime_of_tm_def ITime_of_fields_def)
  finally show ?thesis
    by (simp add: ITime_of_tm_of)
qed

section \<open>Properties\<close>

text \<open>
  C19: a timestamp of less than 2^55 seconds survives the conversion to a date and back, and the date
  has its fields in range, whatever the uninitialized \<open>struct tm\<close> held.
\<close>

theorem timestamp_roundtrip:
  assumes "uint u < 2 ^ 55"
  shows "GetTimeStampSecond (ITime_of_second junk u) = u \<and>
    valid_tm (tm_of_ITime (ITime_of_second junk u))"
proof
  show "GetTimeStampSecond (ITime_of_second junk u) = u"
    using assms by (rule GetTimeStampSecond_of_second)
  obtain x where "valid_tm x" "70 \<le> tm_year x" "tm_year x < 2 ^ 31 - 1900"
    "ITime_of_second junk u = ITime_of_tm x 0"
    using assms by (rule ITime_of_small)
  moreover from this have "tm_of_ITime (ITime_of_tm x 0) = x"
    by (intro tm_ITime) simp_all
  ultimately show "valid_tm (tm_of_ITime (ITime_of_second junk u))"
    by simp
qed

text \<open>
  Fact: a date with its fields in range, from 1970 on, is recovered from its timestamp, but for the
  microseconds, which the timestamp constructor sets to zero.
\<close>

theorem date_roundtrip:
  assumes "valid_ITime t"
  shows "ITime_of_second junk (GetTimeStampSecond t) = t\<lparr>uMicro := 0\<rparr>"
  using assms by (rule second_of_date)

text \<open>
  Fact: addition and subtraction of times work on whole seconds: the timestamp of the sum is the sum,
  the timestamp of the difference is the difference cut off at zero, and both drop the
  microseconds of the operands.
\<close>

theorem time_arithmetic:
  assumes "uint (GetTimeStampSecond a) + uint (GetTimeStampSecond b) < 2 ^ 55"
  shows "uint (GetTimeStampSecond (ITime_plus junk a b)) =
      uint (GetTimeStampSecond a) + uint (GetTimeStampSecond b) \<and>
    uint (GetTimeStampSecond (ITime_minus junk a b)) =
      max 0 (uint (GetTimeStampSecond a) - uint (GetTimeStampSecond b)) \<and>
    uMicro (ITime_plus junk a b) = 0 \<and> uMicro (ITime_minus junk a b) = 0"
proof -
  let ?a = "GetTimeStampSecond a" and ?b = "GetTimeStampSecond b"
  have sum: "uint (?a + ?b) = uint ?a + uint ?b"
    using assms uint_ge_0 [of ?a] uint_ge_0 [of ?b] by (simp add: uint_word_ariths)
  have diff: "uint (?a - ?b) = uint ?a - uint ?b" if "?b < ?a"
  proof -
    have lt: "uint ?b < uint ?a"
      using that by (simp add: word_less_def)
    have "uint ?a < 2 ^ 64"
      using uint_bounded [of ?a] by simp
    then have "uint ?a - uint ?b < 2 ^ 64"
      using uint_ge_0 [of ?b] by linarith
    with lt show ?thesis
      by (simp add: uint_word_ariths mod_pos_pos_trivial)
  qed
  have micro: "uMicro (ITime_of_second junk u) = 0" for u
    by (simp add: ITime_of_second_def ITime_of_tm_def ITime_of_fields_def)
  have "GetTimeStampSecond (ITime_of_second junk (?a + ?b)) = ?a + ?b"
    using assms sum by (intro GetTimeStampSecond_of_second) simp
  moreover have "GetTimeStampSecond (ITime_of_second junk (?a - ?b)) = ?a - ?b" if "?b < ?a"
  proof (rule GetTimeStampSecond_of_second)
    show "uint (?a - ?b) < 2 ^ 55"
      unfolding diff [OF that] using assms uint_ge_0 [of ?b] by linarith
  qed
  moreover have "GetTimeStampSecond (ITime_of_second junk 0) = 0"
    by (intro GetTimeStampSecond_of_second) simp
  ultimately show ?thesis
    using sum diff by (auto simp: ITime_plus_def ITime_minus_def Let_def micro word_less_def)
qed

text \<open>
  Fact: two times are equal for \<open>operator==\<close> exactly when neither is below the other for \<open>operator<\<close>;
  but \<open>operator<\<close> compares field by field without regard to the more significant ones, so it is not
  an order: the last second of 2023 and the first second of 2024 are each below the other.
\<close>

theorem time_comparison:
  "(ITime_eq a b \<longleftrightarrow> \<not> ITime_lt a b \<and> \<not> ITime_lt b a) \<and>
   (let x = ITime_of_fields 2023 12 31 23 59 59 0; y = ITime_of_fields 2024 1 1 0 0 0 0
    in ITime_lt x y \<and> ITime_lt y x \<and> \<not> ITime_le x y \<and>
      GetTimeStampSecond x + 1 = GetTimeStampSecond y)"
  by (auto simp: ITime_eq_def ITime_lt_def ITime_le_def ITime_of_fields_def Let_def not_less
      GetTimeStampSecond_def tm_of_ITime_def timegm_def year_start_def leaps_def month_start_def
      month_lengths_def leap_def)


section \<open>Witnesses\<close>

definition example_time :: ITime where
  "example_time = ITime_of_fields 2024 2 29 12 34 56 789"

lemma example_stamp: "GetTimeStampSecond example_time = 1709210096"
  by (simp add: example_time_def GetTimeStampSecond_def tm_of_ITime_def ITime_of_fields_def
      timegm_def year_start_def leaps_def month_start_def month_lengths_def leap_def)

theorem timestamp_roundtrip_witness:
  "GetTimeStampSecond (ITime_of_second (tm_of_ITime ITime_default) 1709210096) = 1709210096"
  using timestamp_roundtrip [of 1709210096 "tm_of_ITime ITime_default"] by simp

lemma example_valid: "valid_ITime example_time"
  by (simp add: valid_ITime_def valid_tm_def example_time_def tm_of_ITime_def ITime_of_fields_def
      month_lengths_def leap_def)

theorem date_roundtrip_witness:
  "ITime_of_second (tm_of_ITime ITime_default) 1709210096 = ITime_of_fields 2024 2 29 12 34 56 0"
  using date_roundtrip [OF example_valid, of "tm_of_ITime ITime_default"]
  unfolding example_stamp by (simp add: example_time_def ITime_of_fields_def)

theorem time_arithmetic_witness:
  "uint (GetTimeStampSecond (ITime_plus (tm_of_ITime ITime_default) example_time example_time)) =
     3418420192"
  using time_arithmetic [of example_time example_time "tm_of_ITime ITime_default"]
  by (simp add: example_stamp)

end
