(* ===== verification/Spin.thy ===== *)
theory Spin
  imports Allocator
begin

text \<open>
  \<open>SpinLock\<close> and \<open>SpinLockGuard\<close>: \<open>base/include/thread/spin_lock.h\<close> and
  \<open>base/sources/thread/spin_lock_impl.{h,cpp}\<close>. Any number of threads enter and leave guarded blocks;
  \<open>test_and_set\<close> and \<open>clear\<close> are atomic.
\<close>

section \<open>The lock\<close>

record CSpinLockImpl =
  m_bLocked :: bool

definition SpinLock_Create :: "pointer \<Rightarrow> uint64_t \<Rightarrow> heap \<Rightarrow> (uint64_t \<times> CSpinLockImpl) option \<times> heap" where
  "SpinLock_Create ans sizeof_T h = IAllocatorEx_New ans sizeof_T (Some \<lparr>m_bLocked = False\<rparr>) h"

definition SpinLock_Destroy :: "pointer \<Rightarrow> heap \<Rightarrow> heap" where
  "SpinLock_Destroy pSpinLock h = IAllocatorEx_Delete pSpinLock id h"

text \<open>One round of the loop of \<open>Lock\<close>: the new state, and whether the loop ends.\<close>

definition CSpinLockImpl_Lock_round :: "CSpinLockImpl \<Rightarrow> CSpinLockImpl \<times> bool" where
  "CSpinLockImpl_Lock_round l = (l\<lparr>m_bLocked := True\<rparr>, \<not> m_bLocked l)"

definition CSpinLockImpl_Unlock :: "CSpinLockImpl \<Rightarrow> CSpinLockImpl" where
  "CSpinLockImpl_Unlock l = l\<lparr>m_bLocked := False\<rparr>"

text \<open>The members of the interface forward to them.\<close>

definition SpinLock_Lock_round :: "CSpinLockImpl \<Rightarrow> CSpinLockImpl \<times> bool" where
  "SpinLock_Lock_round l = CSpinLockImpl_Lock_round l"

definition SpinLock_Unlock :: "CSpinLockImpl \<Rightarrow> CSpinLockImpl" where
  "SpinLock_Unlock l = CSpinLockImpl_Unlock l"

section \<open>Guards in many threads\<close>

text \<open>A thread outside a guarded block, in the constructor of its guard, and inside the block.\<close>

datatype guard_pc = GOut | GTry | GIn

record spin_sys =
  lock :: CSpinLockImpl
  gpc :: "nat \<Rightarrow> guard_pc"

inductive spin_step :: "spin_sys \<Rightarrow> spin_sys \<Rightarrow> bool" where
  enter: "gpc s i = GOut \<Longrightarrow> spin_step s (s\<lparr>gpc := (gpc s)(i := GTry)\<rparr>)"
| acquire: "gpc s i = GTry \<Longrightarrow> CSpinLockImpl_Lock_round (lock s) = (l, True) \<Longrightarrow>
    spin_step s (s\<lparr>lock := l, gpc := (gpc s)(i := GIn)\<rparr>)"
| spin: "gpc s i = GTry \<Longrightarrow> CSpinLockImpl_Lock_round (lock s) = (l, False) \<Longrightarrow>
    spin_step s (s\<lparr>lock := l\<rparr>)"
| leave: "gpc s i = GIn \<Longrightarrow>
    spin_step s (s\<lparr>lock := CSpinLockImpl_Unlock (lock s), gpc := (gpc s)(i := GOut)\<rparr>)"

inductive_cases spin_stepE: "spin_step s t"

definition spin_init :: spin_sys where
  "spin_init = \<lparr>lock = \<lparr>m_bLocked = False\<rparr>, gpc = (\<lambda>_. GOut)\<rparr>"

definition spin_inv :: "spin_sys \<Rightarrow> bool" where
  "spin_inv s \<longleftrightarrow> (\<forall>i j. gpc s i = GIn \<longrightarrow> gpc s j = GIn \<longrightarrow> i = j) \<and>
     (m_bLocked (lock s) \<longleftrightarrow> (\<exists>i. gpc s i = GIn))"

lemma spin_inv_step: "spin_step s t \<Longrightarrow> spin_inv s \<Longrightarrow> spin_inv t"
proof (induction rule: spin_step.induct)
  case (enter s i)
  then show ?case by (auto simp: spin_inv_def) (metis guard_pc.distinct(3))+
next
  case (acquire s i l)
  then show ?case by (auto simp: spin_inv_def CSpinLockImpl_Lock_round_def)
next
  case (spin s i l)
  then show ?case by (auto simp: spin_inv_def CSpinLockImpl_Lock_round_def)
next
  case (leave s i)
  then show ?case by (auto simp: spin_inv_def CSpinLockImpl_Unlock_def)
qed

lemma spin_reach: "spin_step\<^sup>*\<^sup>* spin_init s \<Longrightarrow> spin_inv s"
proof (induction rule: rtranclp_induct)
  case base
  show ?case by (simp add: spin_inv_def spin_init_def)
qed (rule spin_inv_step)

section \<open>Properties\<close>

text \<open>
  C38: two threads are never inside blocks guarded by the same lock, for any number of threads and
  any interleaving; and the lock is never lost: when no thread is inside, the next attempt of a
  thread that waits succeeds.
\<close>

theorem spin_lock_mutex:
  assumes "spin_step\<^sup>*\<^sup>* spin_init s"
  shows "(gpc s i = GIn \<and> gpc s j = GIn \<longrightarrow> i = j) \<and>
    ((\<forall>k. gpc s k \<noteq> GIn) \<longrightarrow> snd (CSpinLockImpl_Lock_round (lock s)))"
  using spin_reach [OF assms] by (auto simp: spin_inv_def CSpinLockImpl_Lock_round_def)

theorem spin_lock_mutex_witness:
  "\<exists>s. spin_step\<^sup>*\<^sup>* spin_init s \<and> gpc s 3 = GIn \<and> gpc s 4 \<noteq> GIn"
proof -
  let ?s1 = "spin_init\<lparr>gpc := (gpc spin_init)(3 := GTry)\<rparr>"
  let ?s2 = "?s1\<lparr>lock := \<lparr>m_bLocked = True\<rparr>, gpc := (gpc ?s1)(3 := GIn)\<rparr>"
  have "spin_step spin_init ?s1"
    by (rule enter) (simp add: spin_init_def)
  moreover have "spin_step ?s1 ?s2"
    by (rule acquire) (simp_all add: spin_init_def CSpinLockImpl_Lock_round_def)
  ultimately have r: "spin_step\<^sup>*\<^sup>* spin_init ?s2"
    by (meson rtranclp.rtrancl_refl rtranclp.rtrancl_into_rtrancl)
  have "gpc ?s2 4 \<noteq> GIn"
    using spin_lock_mutex [OF r, of 3 4] by auto
  with r show ?thesis
    by (intro exI [of _ ?s2]) auto
qed

end
