(* ===== verification/OrdMap.thy ===== *)
theory OrdMap
  imports Prelude
begin

text \<open>
  \<open>std::map\<close> with ordered keys: the contract that the task scheduler relies on, as a locale, and the
  sorted association list that models it. An iterator runs over the list, and a reference to an
  element is its key, since the nodes of a \<open>std::map\<close> do not move.
\<close>

section \<open>Sorted association lists\<close>

fun om_find :: "'k::linorder \<Rightarrow> ('k \<times> 'v) list \<Rightarrow> 'v option" where
  "om_find k [] = None"
| "om_find k ((j, v) # m) = (if j = k then Some v else om_find k m)"

text \<open>\<open>m[k] = v\<close>.\<close>

fun om_assign :: "'k::linorder \<Rightarrow> 'v \<Rightarrow> ('k \<times> 'v) list \<Rightarrow> ('k \<times> 'v) list" where
  "om_assign k v [] = [(k, v)]"
| "om_assign k v ((j, w) # m) =
     (if k < j then (k, v) # (j, w) # m
      else if k = j then (k, v) # m
      else (j, w) # om_assign k v m)"

definition om_erase :: "'k::linorder \<Rightarrow> ('k \<times> 'v) list \<Rightarrow> ('k \<times> 'v) list" where
  "om_erase k m = filter (\<lambda>(j, v). j \<noteq> k) m"

definition om_valid :: "('k::linorder \<times> 'v) list \<Rightarrow> bool" where
  "om_valid m \<longleftrightarrow> sorted_wrt (<) (map fst m)"

section \<open>The contract\<close>

locale std_map =
  fixes find_k :: "'k::linorder \<Rightarrow> 'm \<Rightarrow> 'v option"
    and assign_k :: "'k \<Rightarrow> 'v \<Rightarrow> 'm \<Rightarrow> 'm"
    and erase_k :: "'k \<Rightarrow> 'm \<Rightarrow> 'm"
    and entries :: "'m \<Rightarrow> ('k \<times> 'v) list"
    and valid :: "'m \<Rightarrow> bool"
  assumes valid_assign: "valid m \<Longrightarrow> valid (assign_k k v m)"
    and valid_erase: "valid m \<Longrightarrow> valid (erase_k k m)"
    and entries_assign: "valid m \<Longrightarrow>
      set (entries (assign_k k v m)) = {(k, v)} \<union> {x \<in> set (entries m). fst x \<noteq> k}"
    and entries_erase: "valid m \<Longrightarrow> set (entries (erase_k k m)) = {x \<in> set (entries m). fst x \<noteq> k}"
    and find_entries: "valid m \<Longrightarrow> find_k k m = Some v \<longleftrightarrow> (k, v) \<in> set (entries m)"
    and entries_ordered: "valid m \<Longrightarrow> sorted_wrt (<) (map fst (entries m))"
begin

lemma entries_functional:
  "valid m \<Longrightarrow> (k, v) \<in> set (entries m) \<Longrightarrow> (k, w) \<in> set (entries m) \<Longrightarrow> v = w"
  using find_entries [of m k v] find_entries [of m k w] by simp

lemma find_none: "valid m \<Longrightarrow> find_k k m = None \<longleftrightarrow> k \<notin> fst ` set (entries m)"
  using find_entries [of m k] by (cases "find_k k m") (force simp: image_iff)+

lemma find_assign:
  assumes "valid m"
  shows "find_k j (assign_k k v m) = (if j = k then Some v else find_k j m)"
proof (cases "find_k j (assign_k k v m)")
  case None
  then show ?thesis
    using find_none [OF valid_assign [OF assms], of j k v] find_none [OF assms, of j]
      entries_assign [OF assms, of k v] by force
next
  case (Some w)
  then have "(j, w) \<in> set (entries (assign_k k v m))"
    using find_entries [OF valid_assign [OF assms]] by simp
  then show ?thesis
    using Some entries_assign [OF assms, of k v] find_entries [OF assms, of j w] by auto
qed

lemma find_erase:
  assumes "valid m"
  shows "find_k j (erase_k k m) = (if j = k then None else find_k j m)"
proof (cases "find_k j (erase_k k m)")
  case None
  then show ?thesis
    using find_none [OF valid_erase [OF assms], of j k] find_none [OF assms, of j]
      entries_erase [OF assms, of k] by force
next
  case (Some w)
  then have "(j, w) \<in> set (entries (erase_k k m))"
    using find_entries [OF valid_erase [OF assms]] by simp
  then show ?thesis
    using Some entries_erase [OF assms, of k] find_entries [OF assms, of j w] by auto
qed

lemma card_keys: "valid m \<Longrightarrow> card (fst ` set (entries m)) = length (entries m)"
  using entries_ordered [of m] distinct_card [of "map fst (entries m)"]
  by (simp add: strict_sorted_iff)

end

section \<open>Sorted lists meet the contract\<close>

lemma om_assign_set:
  "om_valid m \<Longrightarrow> set (om_assign k v m) = {(k, v)} \<union> {x \<in> set m. fst x \<noteq> k}"
  by (induction k v m rule: om_assign.induct) (auto simp: om_valid_def)

lemma om_assign_valid: "om_valid m \<Longrightarrow> om_valid (om_assign k v m)"
proof (induction k v m rule: om_assign.induct)
  case (2 k v j w m)
  then have "om_valid m"
    by (simp add: om_valid_def)
  with 2 om_assign_set [of m k v] show ?case
    by (auto simp: om_valid_def)
qed (simp add: om_valid_def)

lemma om_find_set: "om_valid m \<Longrightarrow> om_find k m = Some v \<longleftrightarrow> (k, v) \<in> set m"
  by (induction k m rule: om_find.induct) (auto simp: om_valid_def)

lemma om_erase_valid: "om_valid m \<Longrightarrow> om_valid (om_erase k m)"
  by (induction m) (auto simp: om_valid_def om_erase_def)

interpretation om: std_map om_find om_assign om_erase "\<lambda>m. m" om_valid
proof
  fix m :: "('k::linorder \<times> 'v) list" and k v
  assume m: "om_valid m"
  show "om_valid (om_assign k v m)" "om_valid (om_erase k m)"
    using m by (simp_all add: om_assign_valid om_erase_valid)
  show "set (om_assign k v m) = {(k, v)} \<union> {x \<in> set m. fst x \<noteq> k}"
    using m by (rule om_assign_set)
  show "set (om_erase k m) = {x \<in> set m. fst x \<noteq> k}"
    by (auto simp: om_erase_def)
  show "om_find k m = Some v \<longleftrightarrow> (k, v) \<in> set m"
    using m by (rule om_find_set)
  show "sorted_wrt (<) (map fst m)"
    using m by (simp add: om_valid_def)
qed

section \<open>Searching for a free key\<close>

text \<open>\<open>while (m.count(k) != 0) ++k;\<close> with a bound on its rounds.\<close>

fun next_free :: "(uint64_t \<Rightarrow> bool) \<Rightarrow> uint64_t \<Rightarrow> nat \<Rightarrow> uint64_t option" where
  "next_free used k 0 = None"
| "next_free used k (Suc n) = (if used k then next_free used (k + 1) n else Some k)"

lemma next_free_None:
  "next_free used k n = None \<Longrightarrow> i < n \<Longrightarrow> used (k + of_nat i)"
proof (induction used k n arbitrary: i rule: next_free.induct)
  case (2 used k n)
  then show ?case
    by (cases i) (auto simp: algebra_simps split: if_splits)
qed simp

lemma next_free_Some:
  "next_free used k n = Some j \<Longrightarrow> \<not> used j \<and> (\<exists>i<n. j = k + of_nat i)"
proof (induction used k n rule: next_free.induct)
  case (2 used k n)
  show ?case
  proof (cases "used k")
    case True
    with 2 obtain i where "\<not> used j" "i < n" "j = k + 1 + of_nat i"
      by auto
    then show ?thesis
      by (intro conjI exI [of _ "Suc i"]) (simp_all add: algebra_simps)
  next
    case False
    with 2 show ?thesis
      by (intro conjI exI [of _ 0]) auto
  qed
qed simp

text \<open>All the keys before it are in use.\<close>

lemma next_free_first:
  "next_free used k n = Some j \<Longrightarrow> \<exists>i<n. j = k + of_nat i \<and> (\<forall>l<i. used (k + of_nat l))"
proof (induction used k n rule: next_free.induct)
  case (2 used k n)
  show ?case
  proof (cases "used k")
    case True
    with 2 obtain i where i: "i < n" "j = k + 1 + of_nat i" "\<forall>l<i. used (k + 1 + of_nat l)"
      by auto
    have "used (k + of_nat l)" if "l < Suc i" for l
    proof (cases l)
      case (Suc l')
      with that i(3) have "used (k + 1 + of_nat l')"
        by simp
      with Suc show ?thesis
        by (simp add: algebra_simps)
    qed (simp add: True)
    with i(1,2) show ?thesis
      by (intro exI [of _ "Suc i"]) (simp add: algebra_simps)
  next
    case False
    with 2 show ?thesis
      by (intro exI [of _ 0]) auto
  qed
qed simp

text \<open>One more round than there are keys in use is enough.\<close>

lemma next_free_enough:
  assumes "finite {k. used k}" "card {k. used k} < n" "n \<le> 2 ^ 64"
  shows "next_free used k n \<noteq> None"
proof
  assume none: "next_free used k n = None"
  have inj: "inj_on (\<lambda>i. k + of_nat i) {..<n}"
  proof (rule inj_onI)
    fix i j
    assume ij: "i \<in> {..<n}" "j \<in> {..<n}" "k + of_nat i = k + of_nat j"
    then have "(of_nat i :: uint64_t) = of_nat j"
      by simp
    then have "unat (of_nat i :: uint64_t) = unat (of_nat j :: uint64_t)"
      by (rule arg_cong)
    moreover have "i < 2 ^ 64" "j < 2 ^ 64"
      using ij assms(3) by auto
    ultimately show "i = j"
      unfolding unat_of_nat by simp
  qed
  have "(\<lambda>i. k + of_nat i) ` {..<n} \<subseteq> {k. used k}"
    using next_free_None [OF none] by auto
  then have "card ((\<lambda>i. k + of_nat i) ` {..<n}) \<le> card {k. used k}"
    by (rule card_mono [OF assms(1)])
  with inj assms(2) show False
    by (simp add: card_image)
qed

end
