(* ===== verification/Thread.thy ===== *)
theory Thread
  imports Common
begin

text \<open>
  \<open>IThread\<close>: \<open>base/include/thread/thread.h\<close> and \<open>base/sources/thread/thread_impl.cpp\<close>. The calls of the
  owner are functions on the object; the worker's \<open>Run\<close> and the owner's calls interleave in a step
  relation, one access to a shared field per step. As the interface demands, one owner calls
  \<open>Start\<close>, \<open>Stop\<close>, \<open>Pause\<close> and \<open>Resume\<close>.
\<close>

section \<open>The object\<close>

datatype ThreadState = kCreated | kRunning | kPaused | kStopped

text \<open>\<open>m_thThread\<close> is represented by whether it is joinable.\<close>

record ('f, 'a) CThreadImpl =
  m_bJoinable :: bool
  m_bRunning :: bool
  m_eSetState :: ThreadState
  m_uLastLoopTimeNs :: uint64_t
  m_pThreadFunc :: "'f option"
  m_pThreadArg :: 'a
  m_eCurrState :: ThreadState
  m_iThreadId :: int
  m_strThreadName :: string
  m_iCpuNo :: int
  m_iNodeNo :: int

definition CThreadImpl_ctor :: "string \<Rightarrow> 'f option \<Rightarrow> 'a \<Rightarrow> ('f, 'a) CThreadImpl" where
  "CThreadImpl_ctor pThreadName pThreadFunc pThreadArg =
     \<lparr>m_bJoinable = False, m_bRunning = False, m_eSetState = kCreated, m_uLastLoopTimeNs = 0,
      m_pThreadFunc = pThreadFunc, m_pThreadArg = pThreadArg, m_eCurrState = kCreated,
      m_iThreadId = -1, m_strThreadName = pThreadName, m_iCpuNo = -1, m_iNodeNo = -1\<rparr>"

text \<open>\<open>Create\<close>: \<open>ok\<close> says whether the allocation succeeded.\<close>

definition IThread_Create ::
  "bool \<Rightarrow> string option \<Rightarrow> 'f option \<Rightarrow> 'a \<Rightarrow> ('f, 'a) CThreadImpl option" where
  "IThread_Create ok pThreadName pThreadFunc pThreadArg =
     (let name = (case pThreadName of None \<Rightarrow> '''' | Some n \<Rightarrow> n) in
      if ok then Some (CThreadImpl_ctor name pThreadFunc pThreadArg) else nullptr)"

definition CThreadImpl_Bind ::
  "string option \<Rightarrow> 'f option \<Rightarrow> 'a \<Rightarrow> ('f, 'a) CThreadImpl \<Rightarrow> last_error \<Rightarrow>
     ('f, 'a) CThreadImpl \<times> last_error \<times> ErrorCode" where
  "CThreadImpl_Bind pThreadName pThreadFunc pThreadArg t e =
     (let name = (case pThreadName of None \<Rightarrow> '''' | Some n \<Rightarrow> n) in
      if pThreadFunc = nullptr then (t, SetLastError kInvalidParam e, kInvalidParam)
      else if m_bRunning t then (t, SetLastError kInvalidCall e, kInvalidCall)
      else (t\<lparr>m_strThreadName := name, m_pThreadFunc := pThreadFunc, m_pThreadArg := pThreadArg\<rparr>,
            e, kSuccess))"

definition CThreadImpl_BindCpu ::
  "int \<Rightarrow> int \<Rightarrow> ('f, 'a) CThreadImpl \<Rightarrow> last_error \<Rightarrow>
     ('f, 'a) CThreadImpl \<times> last_error \<times> ErrorCode" where
  "CThreadImpl_BindCpu iCpuCount iCpuNo t e =
     (if m_bRunning t then (t, SetLastError kInvalidCall e, kInvalidCall)
      else if iCpuNo < 0 \<or> iCpuNo \<ge> iCpuCount then (t, SetLastError kInvalidParam e, kInvalidParam)
      else if m_iNodeNo t \<noteq> -1 then (t, SetLastError kInvalidParam e, kInvalidParam)
      else (t\<lparr>m_iCpuNo := iCpuNo\<rparr>, e, kSuccess))"

definition CThreadImpl_BindNode ::
  "int \<Rightarrow> ('f, 'a) CThreadImpl \<Rightarrow> last_error \<Rightarrow> ('f, 'a) CThreadImpl \<times> last_error \<times> ErrorCode" where
  "CThreadImpl_BindNode iNodeNo t e =
     (if m_bRunning t then (t, SetLastError kInvalidCall e, kInvalidCall)
      else if iNodeNo < 0 then (t, SetLastError kInvalidParam e, kInvalidParam)
      else if m_iCpuNo t \<noteq> -1 then (t, SetLastError kInvalidParam e, kInvalidParam)
      else (t\<lparr>m_iNodeNo := iNodeNo\<rparr>, e, kSuccess))"

text \<open>
  \<open>Start\<close>: \<open>spawned\<close> says whether the constructor of \<open>std::thread\<close> returned. The move assignment to a
  joinable \<open>m_thThread\<close> would call \<open>std::terminate\<close>, which is the result \<open>None\<close>.
\<close>

definition CThreadImpl_Start ::
  "bool \<Rightarrow> ('f, 'a) CThreadImpl \<Rightarrow> last_error \<Rightarrow>
     (('f, 'a) CThreadImpl \<times> last_error \<times> ErrorCode) option" where
  "CThreadImpl_Start spawned t e =
     (if m_bRunning t then Some (t, SetLastError kInvalidCall e, kInvalidCall)
      else if m_pThreadFunc t = nullptr then Some (t, SetLastError kInvalidParam e, kInvalidParam)
      else
        let t = t\<lparr>m_bRunning := True\<rparr> in
        if \<not> spawned then Some (t, SetLastError kThrowException e, kThrowException)
        else if m_bJoinable t then None
        else Some (t\<lparr>m_bJoinable := True\<rparr>, e, kSuccess))"

text \<open>\<open>Stop\<close> up to \<open>join\<close>: the second result says whether it has to join.\<close>

definition CThreadImpl_Stop_request ::
  "('f, 'a) CThreadImpl \<Rightarrow> ('f, 'a) CThreadImpl \<times> bool" where
  "CThreadImpl_Stop_request t =
     (if m_bRunning t = False then (t, False)
      else (t\<lparr>m_bRunning := False\<rparr>, m_bJoinable t))"

text \<open>The destructor stops the thread.\<close>

definition CThreadImpl_destructor :: "('f, 'a) CThreadImpl \<Rightarrow> ('f, 'a) CThreadImpl \<times> bool" where
  "CThreadImpl_destructor t = CThreadImpl_Stop_request t"

text \<open>\<open>Pause\<close> and \<open>Resume\<close>: the test of the current state, then the request.\<close>

definition CThreadImpl_Pause_check :: "('f, 'a) CThreadImpl \<Rightarrow> last_error \<Rightarrow> last_error \<times> ErrorCode" where
  "CThreadImpl_Pause_check t e =
     (if m_eCurrState t = kRunning then (e, kSuccess)
      else (SetLastError kInvalidCall e, kInvalidCall))"

definition CThreadImpl_Pause_request :: "('f, 'a) CThreadImpl \<Rightarrow> ('f, 'a) CThreadImpl" where
  "CThreadImpl_Pause_request t = t\<lparr>m_eSetState := kPaused\<rparr>"

definition CThreadImpl_Resume_check :: "('f, 'a) CThreadImpl \<Rightarrow> last_error \<Rightarrow> last_error \<times> ErrorCode" where
  "CThreadImpl_Resume_check t e =
     (if m_eCurrState t = kPaused then (e, kSuccess)
      else (SetLastError kInvalidCall e, kInvalidCall))"

definition CThreadImpl_Resume_request :: "('f, 'a) CThreadImpl \<Rightarrow> ('f, 'a) CThreadImpl" where
  "CThreadImpl_Resume_request t = t\<lparr>m_eSetState := kRunning\<rparr>"

definition CThreadImpl_GetThreadState :: "('f, 'a) CThreadImpl \<Rightarrow> ThreadState" where
  "CThreadImpl_GetThreadState t = m_eCurrState t"

definition CThreadImpl_GetThreadId :: "('f, 'a) CThreadImpl \<Rightarrow> int" where
  "CThreadImpl_GetThreadId t = m_iThreadId t"

definition CThreadImpl_GetLastRunTimeNs :: "('f, 'a) CThreadImpl \<Rightarrow> uint64_t" where
  "CThreadImpl_GetLastRunTimeNs t = m_uLastLoopTimeNs t"

section \<open>The worker\<close>

text \<open>
  Where the worker is in \<open>Run\<close>: before its first write, between the two initial writes, at the loop
  test, having read \<open>m_bRunning\<close>, having read \<open>m_eSetState\<close>, out of the loop, and returned.
\<close>

datatype worker_pc =
    WNone | WStart | WInit | WTest | WRead | WBody ThreadState | WExit | WDone

text \<open>One step of \<open>Run\<close>: \<open>tid\<close>, \<open>now\<close> and \<open>ret\<close> are what the system and the thread function gave.\<close>

fun Run_step ::
  "int \<Rightarrow> uint64_t \<Rightarrow> bool \<Rightarrow> worker_pc \<Rightarrow> ('f, 'a) CThreadImpl \<Rightarrow>
     (worker_pc \<times> ('f, 'a) CThreadImpl) option" where
  "Run_step tid now ret WNone t = None"
| "Run_step tid now ret WStart t = Some (WInit, t\<lparr>m_iThreadId := tid, m_eSetState := kRunning\<rparr>)"
| "Run_step tid now ret WInit t = Some (WTest, t\<lparr>m_eCurrState := kRunning\<rparr>)"
| "Run_step tid now ret WTest t = Some (if m_bRunning t then WRead else WExit, t)"
| "Run_step tid now ret WRead t = Some (WBody (m_eSetState t), t\<lparr>m_uLastLoopTimeNs := now\<rparr>)"
| "Run_step tid now ret (WBody state) t =
     (if state = kRunning then Some (if ret then WTest else WExit, t)
      else Some (WTest, t\<lparr>m_eCurrState := state\<rparr>))"
| "Run_step tid now ret WExit t = Some (WDone, t\<lparr>m_eCurrState := kStopped\<rparr>)"
| "Run_step tid now ret WDone t = None"

section \<open>The owner and the worker together\<close>

datatype owner_pc = OIdle | OPauseSet | OPauseWait | OResumeSet | OJoin

text \<open>\<open>paused\<close> records that the last of \<open>Pause\<close>, \<open>Resume\<close>, \<open>Start\<close>, \<open>Stop\<close> to take effect was a \<open>Pause\<close>.\<close>

record ('f, 'a) thread_sys =
  obj :: "('f, 'a) CThreadImpl"
  wpc :: worker_pc
  opc :: owner_pc
  paused :: bool

inductive thread_step :: "('f, 'a) thread_sys \<Rightarrow> ('f, 'a) thread_sys \<Rightarrow> bool" where
  start: "opc s = OIdle \<Longrightarrow> CThreadImpl_Start spawned (obj s) e = Some (t, e', r) \<Longrightarrow>
    thread_step s (s\<lparr>obj := t, wpc := (if r = kSuccess then WStart else wpc s),
      paused := (if r = kSuccess then False else paused s)\<rparr>)"
| stop: "opc s = OIdle \<Longrightarrow> CThreadImpl_Stop_request (obj s) = (t, joins) \<Longrightarrow>
    thread_step s (s\<lparr>obj := t, opc := (if joins then OJoin else OIdle), paused := False\<rparr>)"
| join: "opc s = OJoin \<Longrightarrow> wpc s = WDone \<Longrightarrow>
    thread_step s (s\<lparr>obj := (obj s)\<lparr>m_bJoinable := False\<rparr>, wpc := WNone, opc := OIdle\<rparr>)"
| pause: "opc s = OIdle \<Longrightarrow> CThreadImpl_Pause_check (obj s) e = (e', r) \<Longrightarrow>
    thread_step s (s\<lparr>opc := (if r = kSuccess then OPauseSet else OIdle)\<rparr>)"
| pause_set: "opc s = OPauseSet \<Longrightarrow>
    thread_step s (s\<lparr>obj := CThreadImpl_Pause_request (obj s), opc := OPauseWait\<rparr>)"
| pause_done: "opc s = OPauseWait \<Longrightarrow> m_eCurrState (obj s) = kPaused \<Longrightarrow>
    thread_step s (s\<lparr>opc := OIdle, paused := True\<rparr>)"
| pause_wait: "opc s = OPauseWait \<Longrightarrow> m_eCurrState (obj s) \<noteq> kPaused \<Longrightarrow> thread_step s s"
| resume: "opc s = OIdle \<Longrightarrow> CThreadImpl_Resume_check (obj s) e = (e', r) \<Longrightarrow>
    thread_step s (s\<lparr>opc := (if r = kSuccess then OResumeSet else OIdle), paused := False\<rparr>)"
| resume_set: "opc s = OResumeSet \<Longrightarrow>
    thread_step s (s\<lparr>obj := CThreadImpl_Resume_request (obj s), opc := OIdle\<rparr>)"
| run: "Run_step tid now ret (wpc s) (obj s) = Some (w, t) \<Longrightarrow>
    thread_step s (s\<lparr>obj := t, wpc := w\<rparr>)"

inductive_cases thread_stepE: "thread_step s t"

definition thread_init :: "string \<Rightarrow> 'f \<Rightarrow> 'a \<Rightarrow> ('f, 'a) thread_sys" where
  "thread_init name func arg =
     \<lparr>obj = CThreadImpl_ctor name (Some func) arg, wpc = WNone, opc = OIdle, paused = False\<rparr>"

section \<open>The invariant\<close>

text \<open>
  A worker exists exactly while \<open>m_thThread\<close> is joinable, and that is while the object is running or
  is being stopped. The states the two sides have announced agree with where they are.
\<close>

definition starting :: "worker_pc \<Rightarrow> bool" where
  "starting w \<longleftrightarrow> w = WNone \<or> w = WStart \<or> w = WInit"

definition live_pc :: "worker_pc \<Rightarrow> bool" where
  "live_pc w \<longleftrightarrow> \<not> starting w \<and> w \<noteq> WDone"

definition handle_inv :: "('f, 'a) thread_sys \<Rightarrow> bool" where
  "handle_inv s \<longleftrightarrow> (m_bJoinable (obj s) \<longleftrightarrow> wpc s \<noteq> WNone) \<and>
     (m_bJoinable (obj s) \<longrightarrow> (m_bRunning (obj s) \<longleftrightarrow> opc s \<noteq> OJoin)) \<and>
     (opc s = OJoin \<longrightarrow> m_bJoinable (obj s)) \<and>
     (starting (wpc s) \<longrightarrow> opc s = OIdle \<or> opc s = OJoin)"

definition state_inv :: "('f, 'a) thread_sys \<Rightarrow> bool" where
  "state_inv s \<longleftrightarrow>
     (live_pc (wpc s) \<longrightarrow> m_eCurrState (obj s) = kRunning \<or> m_eCurrState (obj s) = kPaused) \<and>
     (\<not> live_pc (wpc s) \<longrightarrow> m_eCurrState (obj s) \<noteq> kRunning \<and> m_eCurrState (obj s) \<noteq> kPaused) \<and>
     (m_eCurrState (obj s) = kRunning \<longrightarrow>
        m_eSetState (obj s) = kRunning \<and> wpc s \<noteq> WBody kPaused \<or> opc s = OPauseWait) \<and>
     (opc s = OPauseSet \<longrightarrow> m_eCurrState (obj s) \<noteq> kPaused \<and> wpc s \<noteq> WBody kPaused \<and>
        m_eSetState (obj s) = kRunning) \<and>
     (opc s = OPauseWait \<longrightarrow> m_eSetState (obj s) = kPaused) \<and>
     (opc s = OPauseWait \<and> m_eCurrState (obj s) = kPaused \<longrightarrow> wpc s \<noteq> WBody kRunning) \<and>
     (\<not> starting (wpc s) \<longrightarrow> m_eSetState (obj s) = kRunning \<or> m_eSetState (obj s) = kPaused) \<and>
     (\<forall>st. wpc s = WBody st \<longrightarrow> st = kRunning \<or> st = kPaused) \<and>
     (wpc s = WInit \<longrightarrow> m_eSetState (obj s) = kRunning)"

definition paused_inv :: "('f, 'a) thread_sys \<Rightarrow> bool" where
  "paused_inv s \<longleftrightarrow> (paused s \<longrightarrow> opc s = OIdle \<and> m_eSetState (obj s) = kPaused \<and>
     m_eCurrState (obj s) \<noteq> kRunning \<and> wpc s \<noteq> WBody kRunning \<and> \<not> starting (wpc s))"

definition thread_inv :: "('f, 'a) thread_sys \<Rightarrow> bool" where
  "thread_inv s \<longleftrightarrow> handle_inv s \<and> state_inv s \<and> paused_inv s"

lemmas thread_inv_defs = thread_inv_def handle_inv_def state_inv_def paused_inv_def starting_def live_pc_def

lemmas thread_calls = CThreadImpl_Start_def CThreadImpl_Stop_request_def CThreadImpl_Pause_check_def
  CThreadImpl_Pause_request_def CThreadImpl_Resume_check_def CThreadImpl_Resume_request_def

lemma thread_init_inv: "thread_inv (thread_init name func arg)"
  by (simp add: thread_inv_defs thread_init_def CThreadImpl_ctor_def)

text \<open>In every state of the invariant \<open>Start\<close> finds no joinable thread to overwrite.\<close>

lemma Start_no_terminate:
  assumes "thread_inv s" "opc s = OIdle"
  shows "CThreadImpl_Start spawned (obj s) e \<noteq> None"
  using assms by (auto simp: thread_inv_defs CThreadImpl_Start_def Let_def)

lemma run_keeps_inv:
  assumes "thread_inv s" "Run_step tid now ret (wpc s) (obj s) = Some (w, t)"
  shows "thread_inv (s\<lparr>obj := t, wpc := w\<rparr>)"
proof (cases "wpc s")
  case (WBody st)
  then show ?thesis
    using assms
    by (cases st; cases ret; cases "m_eCurrState (obj s)"; cases "m_eSetState (obj s)")
      (auto simp: thread_inv_defs)
next
  case WStart
  then have w: "w = WInit" "t = (obj s)\<lparr>m_iThreadId := tid, m_eSetState := kRunning\<rparr>"
    using assms(2) by auto
  show ?thesis
    using assms(1) WStart unfolding w thread_inv_defs by auto
next
  case WInit
  then have w: "w = WTest" "t = (obj s)\<lparr>m_eCurrState := kRunning\<rparr>"
    using assms(2) by auto
  show ?thesis
    using assms(1) WInit unfolding w thread_inv_defs by auto
next
  case WTest
  then have w: "w = WRead \<or> w = WExit" "t = obj s"
    using assms(2) by (auto split: if_splits)
  show ?thesis
    using w(1) assms(1) WTest unfolding w(2) thread_inv_defs by (elim disjE) simp_all
next
  case WRead
  then have w: "w = WBody (m_eSetState (obj s))" "t = (obj s)\<lparr>m_uLastLoopTimeNs := now\<rparr>"
    using assms(2) by auto
  show ?thesis
    using assms(1) WRead unfolding w thread_inv_defs
    by (cases "m_eSetState (obj s)"; cases "m_eCurrState (obj s)") simp_all
next
  case WExit
  then have w: "w = WDone" "t = (obj s)\<lparr>m_eCurrState := kStopped\<rparr>"
    using assms(2) by auto
  show ?thesis
    using assms(1) WExit unfolding w thread_inv_defs by simp
qed (use assms in simp_all)

lemma thread_inv_step:
  assumes "thread_step s t" "thread_inv s"
  shows "thread_inv t"
  using assms(1)
proof cases
  case (start spawned e o' e' r)
  then show ?thesis
    using assms(2) by (auto simp: thread_inv_defs thread_calls Let_def split: if_splits)
next
  case (stop o' joins)
  show ?thesis
  proof (cases "m_bRunning (obj s)")
    case True
    then have o: "o' = (obj s)\<lparr>m_bRunning := False\<rparr>" "joins = m_bJoinable (obj s)"
      using stop(3) by (auto simp: CThreadImpl_Stop_request_def)
    show ?thesis
      using assms(2) unfolding stop(1) o thread_inv_defs by (simp add: stop(2) True)
  next
    case False
    then have "o' = obj s" "\<not> joins"
      using stop(3) by (auto simp: CThreadImpl_Stop_request_def)
    moreover have "\<not> m_bJoinable (obj s)" "wpc s = WNone"
      using assms(2) unfolding thread_inv_def handle_inv_def by (auto simp: stop(2) False)
    ultimately show ?thesis
      using assms(2) unfolding stop(1) thread_inv_defs by (simp add: stop(2) False)
  qed
next
  case join
  then show ?thesis
    using assms(2) by (auto simp: thread_inv_defs)
next
  case (pause e e' r)
  then show ?thesis
    using assms(2) by (auto simp: thread_inv_defs thread_calls split: if_splits)
next
  case pause_set
  then show ?thesis
    using assms(2) by (auto simp: thread_inv_defs thread_calls)
next
  case pause_done
  then show ?thesis
    using assms(2) by (auto simp: thread_inv_defs)
next
  case pause_wait
  then show ?thesis
    using assms(2) by simp
next
  case (resume e e' r)
  then show ?thesis
    using assms(2) by (auto simp: thread_inv_defs thread_calls split: if_splits)
next
  case resume_set
  then show ?thesis
    using assms(2) by (auto simp: thread_inv_defs thread_calls)
next
  case (run tid now ret w o')
  then show ?thesis
    using assms(2) run_keeps_inv by blast
qed

lemma thread_reach_inv:
  assumes "thread_step\<^sup>*\<^sup>* (thread_init name func arg) s"
  shows "thread_inv s"
  using assms by (induction rule: rtranclp_induct) (auto intro: thread_init_inv thread_inv_step)

section \<open>Properties\<close>

text \<open>
  C10: in every interleaving of the owner's calls with the worker, \<open>Start\<close> never assigns to a joinable
  \<open>std::thread\<close>, so it never terminates the process, and whenever the object is not running and no
  call is in progress there is no worker and no thread left to join: destruction is safe then.
\<close>

theorem thread_handle_safe:
  assumes "thread_step\<^sup>*\<^sup>* (thread_init name func arg) s" "opc s = OIdle"
  shows "CThreadImpl_Start spawned (obj s) e \<noteq> None \<and>
    (\<not> m_bRunning (obj s) \<longrightarrow> \<not> m_bJoinable (obj s) \<and> wpc s = WNone)"
proof
  have inv: "thread_inv s"
    using assms(1) by (rule thread_reach_inv)
  then show "CThreadImpl_Start spawned (obj s) e \<noteq> None"
    using assms(2) by (rule Start_no_terminate)
  show "\<not> m_bRunning (obj s) \<longrightarrow> \<not> m_bJoinable (obj s) \<and> wpc s = WNone"
    using inv assms(2) by (auto simp: thread_inv_def handle_inv_def)
qed

text \<open>
  C9: after \<open>Pause\<close> has returned success, and until \<open>Resume\<close> or \<open>Stop\<close> is called, the thread function
  is not being executed, in every interleaving with the worker.
\<close>

theorem pause_excludes_func:
  assumes "thread_step\<^sup>*\<^sup>* (thread_init name func arg) s" "paused s"
  shows "wpc s \<noteq> WBody kRunning"
  using thread_reach_inv [OF assms(1)] assms(2) by (auto simp: thread_inv_def paused_inv_def)

text \<open>
  Fact: once the current state of a running thread is \<open>kPaused\<close> it never becomes \<open>kRunning\<close> again
  during that run, although \<open>Resume\<close> makes the thread function run again: the only next value is
  \<open>kStopped\<close>. So \<open>GetThreadState\<close> keeps answering \<open>kPaused\<close> and a second \<open>Pause\<close> is refused.
\<close>

theorem paused_state_sticks:
  assumes "thread_step\<^sup>*\<^sup>* (thread_init name func arg) s" "m_eCurrState (obj s) = kPaused"
    and "thread_step s t"
  shows "m_eCurrState (obj t) = kPaused \<or> m_eCurrState (obj t) = kStopped"
proof -
  have "thread_inv s"
    using assms(1) by (rule thread_reach_inv)
  then have live: "wpc s \<noteq> WInit" "\<forall>st. wpc s = WBody st \<longrightarrow> st = kRunning \<or> st = kPaused"
    using assms(2) by (auto simp: thread_inv_def state_inv_def live_pc_def starting_def)
  from assms(3) show ?thesis
  proof cases
    case (run tid now ret w o')
    with assms(2) live show ?thesis
      by (cases "wpc s") (auto split: if_splits)
  qed (use assms(2) in \<open>auto simp: thread_calls Let_def split: if_splits\<close>)
qed

text \<open>The owner waits for a worker that is gone.\<close>

definition stuck :: "('f, 'a) thread_sys \<Rightarrow> bool" where
  "stuck s \<longleftrightarrow> opc s = OPauseWait \<and> wpc s = WDone \<and> m_eCurrState (obj s) = kStopped"

lemma stuck_step: "thread_step s t \<Longrightarrow> stuck s \<Longrightarrow> stuck t"
  by (induction rule: thread_step.induct) (auto simp: stuck_def)

lemma stuck_reach: "thread_step\<^sup>*\<^sup>* s t \<Longrightarrow> stuck s \<Longrightarrow> stuck t"
  by (induction rule: rtranclp_induct) (auto intro: stuck_step)

text \<open>A run of the system: started, in the middle of its first call of the thread function.\<close>

definition busy_obj :: "'f \<Rightarrow> 'a \<Rightarrow> ('f, 'a) CThreadImpl" where
  "busy_obj func arg = \<lparr>m_bJoinable = True, m_bRunning = True, m_eSetState = kRunning,
     m_uLastLoopTimeNs = 5, m_pThreadFunc = Some func, m_pThreadArg = arg,
     m_eCurrState = kRunning, m_iThreadId = 42, m_strThreadName = '''', m_iCpuNo = -1,
     m_iNodeNo = -1\<rparr>"

lemma run_step_eq:
  "Run_step tid now ret (wpc s) (obj s) = Some (w, t) \<Longrightarrow> u = s\<lparr>obj := t, wpc := w\<rparr> \<Longrightarrow>
     thread_step s u"
  using thread_step.run by blast

lemma reach_busy:
  "thread_step\<^sup>*\<^sup>* (thread_init '''' func arg)
     \<lparr>obj = busy_obj func arg, wpc = WBody kRunning, opc = OIdle, paused = False\<rparr>"
proof -
  let ?o = "CThreadImpl_ctor '''' (Some func) arg"
  let ?s0 = "thread_init '''' func arg"
  let ?s1 = "\<lparr>obj = ?o\<lparr>m_bRunning := True, m_bJoinable := True\<rparr>, wpc = WStart, opc = OIdle, paused = False\<rparr>"
  let ?s2 = "\<lparr>obj = (obj ?s1)\<lparr>m_iThreadId := 42, m_eSetState := kRunning\<rparr>, wpc = WInit, opc = OIdle, paused = False\<rparr>"
  let ?s3 = "\<lparr>obj = (obj ?s2)\<lparr>m_eCurrState := kRunning\<rparr>, wpc = WTest, opc = OIdle, paused = False\<rparr>"
  let ?s4 = "\<lparr>obj = obj ?s3, wpc = WRead, opc = OIdle, paused = False\<rparr>"
  let ?s5 = "\<lparr>obj = busy_obj func arg, wpc = WBody kRunning, opc = OIdle, paused = False\<rparr>"
  have "thread_step ?s0 ?s1"
    using thread_step.start [of ?s0 True kSuccess]
    by (simp add: thread_init_def CThreadImpl_Start_def CThreadImpl_ctor_def)
  moreover have "thread_step ?s1 ?s2"
    by (rule run_step_eq [of 42 0 True]) simp_all
  moreover have "thread_step ?s2 ?s3"
    by (rule run_step_eq [of 42 0 True]) simp_all
  moreover have "thread_step ?s3 ?s4"
    by (rule run_step_eq [of 42 0 True]) (simp_all add: CThreadImpl_ctor_def)
  moreover have "thread_step ?s4 ?s5"
    by (rule run_step_eq [of 42 5 True]) (simp_all add: CThreadImpl_ctor_def busy_obj_def)
  ultimately show ?thesis
    by (meson rtranclp.rtrancl_refl rtranclp.rtrancl_into_rtrancl)
qed

text \<open>
  C40: \<open>Pause\<close> can wait for ever. When the thread function asks to stop while \<open>Pause\<close> waits for the
  paused state, the worker ends in \<open>kStopped\<close> and the owner never leaves its waiting loop.
\<close>

theorem pause_may_hang:
  "\<exists>s. thread_step\<^sup>*\<^sup>* (thread_init '''' func arg) s \<and> opc s = OPauseWait \<and>
     \<not> (\<exists>t. thread_step\<^sup>*\<^sup>* s t \<and> opc t \<noteq> OPauseWait)"
proof -
  let ?o = "busy_obj func arg"
  let ?s0 = "\<lparr>obj = ?o, wpc = WBody kRunning, opc = OIdle, paused = False\<rparr>"
  let ?s1 = "?s0\<lparr>opc := OPauseSet\<rparr>"
  let ?s2 = "?s1\<lparr>obj := ?o\<lparr>m_eSetState := kPaused\<rparr>, opc := OPauseWait\<rparr>"
  let ?s3 = "?s2\<lparr>wpc := WExit\<rparr>"
  let ?s4 = "?s3\<lparr>wpc := WDone, obj := ?o\<lparr>m_eSetState := kPaused, m_eCurrState := kStopped\<rparr>\<rparr>"
  have "thread_step ?s0 ?s1"
    using thread_step.pause [of ?s0 kSuccess] by (simp add: CThreadImpl_Pause_check_def busy_obj_def)
  moreover have "thread_step ?s1 ?s2"
    using thread_step.pause_set [of ?s1] by (simp add: CThreadImpl_Pause_request_def)
  moreover have "thread_step ?s2 ?s3"
    by (rule run_step_eq [of 42 0 False]) simp_all
  moreover have "thread_step ?s3 ?s4"
    by (rule run_step_eq [of 42 0 False]) simp_all
  ultimately have "thread_step\<^sup>*\<^sup>* (thread_init '''' func arg) ?s4"
    using reach_busy [of func arg] by (meson rtranclp.rtrancl_into_rtrancl)
  moreover have "stuck ?s4"
    by (simp add: stuck_def)
  then have "opc t = OPauseWait" if "thread_step\<^sup>*\<^sup>* ?s4 t" for t
    using stuck_reach [OF that] by (simp add: stuck_def)
  ultimately show ?thesis
    by (intro exI [of _ ?s4]) auto
qed

section \<open>Witnesses\<close>

theorem thread_handle_safe_witness:
  "CThreadImpl_Start True (busy_obj () ()) kSuccess \<noteq> None"
  using thread_handle_safe [OF reach_busy [of "()" "()"], of True kSuccess] by simp

text \<open>A run that was paused.\<close>

definition paused_obj :: "'f \<Rightarrow> 'a \<Rightarrow> ('f, 'a) CThreadImpl" where
  "paused_obj func arg = (busy_obj func arg)\<lparr>m_eSetState := kPaused, m_eCurrState := kPaused\<rparr>"

lemma reach_paused:
  "thread_step\<^sup>*\<^sup>* (thread_init '''' func arg)
     \<lparr>obj = paused_obj func arg, wpc = WTest, opc = OIdle, paused = True\<rparr>"
proof -
  let ?o = "busy_obj func arg"
  let ?s0 = "\<lparr>obj = ?o, wpc = WBody kRunning, opc = OIdle, paused = False\<rparr>"
  let ?s1 = "?s0\<lparr>opc := OPauseSet\<rparr>"
  let ?s2 = "?s1\<lparr>obj := ?o\<lparr>m_eSetState := kPaused\<rparr>, opc := OPauseWait\<rparr>"
  let ?s3 = "?s2\<lparr>wpc := WTest\<rparr>"
  let ?s4 = "?s2\<lparr>wpc := WRead\<rparr>"
  let ?s5 = "?s2\<lparr>wpc := WBody kPaused\<rparr>"
  let ?s6 = "\<lparr>obj = paused_obj func arg, wpc = WTest, opc = OPauseWait, paused = False\<rparr>"
  let ?s7 = "\<lparr>obj = paused_obj func arg, wpc = WTest, opc = OIdle, paused = True\<rparr>"
  have "thread_step ?s0 ?s1"
    using thread_step.pause [of ?s0 kSuccess] by (simp add: CThreadImpl_Pause_check_def busy_obj_def)
  moreover have "thread_step ?s1 ?s2"
    using thread_step.pause_set [of ?s1] by (simp add: CThreadImpl_Pause_request_def)
  moreover have "thread_step ?s2 ?s3"
    by (rule run_step_eq [of 42 5 True]) simp_all
  moreover have "thread_step ?s3 ?s4"
    by (rule run_step_eq [of 42 5 True]) (simp_all add: busy_obj_def)
  moreover have "thread_step ?s4 ?s5"
    by (rule run_step_eq [of 42 5 True]) (simp_all add: busy_obj_def)
  moreover have "thread_step ?s5 ?s6"
    by (rule run_step_eq [of 42 5 True]) (simp_all add: paused_obj_def)
  moreover have "thread_step ?s6 ?s7"
    using thread_step.pause_done [of ?s6] by (simp add: paused_obj_def)
  ultimately show ?thesis
    using reach_busy [of func arg] by (meson rtranclp.rtrancl_into_rtrancl)
qed

theorem pause_excludes_func_witness:
  "wpc \<lparr>obj = paused_obj () (), wpc = WTest, opc = OIdle, paused = True\<rparr> \<noteq> WBody kRunning"
  by (rule pause_excludes_func [OF reach_paused]) simp

theorem paused_state_sticks_witness:
  "\<exists>t. thread_step \<lparr>obj = paused_obj () (), wpc = WTest, opc = OIdle, paused = True\<rparr> t \<and>
     (m_eCurrState (obj t) = kPaused \<or> m_eCurrState (obj t) = kStopped)"
proof -
  let ?s = "\<lparr>obj = paused_obj () (), wpc = WTest, opc = OIdle, paused = True\<rparr>"
  have "thread_step ?s (?s\<lparr>wpc := WRead\<rparr>)"
    by (rule run_step_eq [of 42 5 True]) (simp_all add: paused_obj_def busy_obj_def)
  moreover from this have "m_eCurrState (obj (?s\<lparr>wpc := WRead\<rparr>)) = kPaused \<or>
      m_eCurrState (obj (?s\<lparr>wpc := WRead\<rparr>)) = kStopped"
    by (rule paused_state_sticks [OF reach_paused, rotated]) (simp add: paused_obj_def)
  ultimately show ?thesis by blast
qed

end
