(* ===== verification/ThreadManager.thy ===== *)
theory ThreadManager
  imports Thread
begin

text \<open>
  \<open>CThreadManagerImpl\<close>: \<open>base/sources/thread/thread_manager_impl.cpp\<close>. The thread objects that exist are
  the domain of a store from addresses to objects; deleting an address outside it is undefined
  behaviour, the result \<open>None\<close>. Each call holds \<open>m_lock\<close>, so calls are atomic.
\<close>

section \<open>State\<close>

datatype ThreadEventType = kThreadStart | kThreadStop | kThreadBlock | kThreadUnblock

type_synonym ('f, 'a) thread_store = "uint64_t \<rightharpoonup> ('f, 'a) CThreadImpl"

text \<open>
  A slot of \<open>m_mapThreadLocals\<close> that holds \<open>nullptr\<close> is different from one that does not exist.
\<close>

record 'g CThreadManagerImpl =
  m_iThreadLocalId :: uint32_t
  m_mapThreadLocals :: "int \<rightharpoonup> (int \<rightharpoonup> pointer)"
  m_vecThreadEventFuncs :: "'g list"
  m_setThreads :: "uint64_t set"
  m_mapThreads :: "string \<rightharpoonup> uint64_t"

definition CThreadManagerImpl_default :: "'g CThreadManagerImpl" where
  "CThreadManagerImpl_default =
     \<lparr>m_iThreadLocalId = 0, m_mapThreadLocals = Map.empty, m_vecThreadEventFuncs = [],
      m_setThreads = {}, m_mapThreads = Map.empty\<rparr>"

text \<open>\<open>IThread::Create\<close> and \<open>Destroy\<close> on the store; \<open>ans\<close> is what \<open>new (std::nothrow)\<close> gave.\<close>

definition store_Create ::
  "pointer \<Rightarrow> string \<Rightarrow> 'f option \<Rightarrow> 'a \<Rightarrow> ('f, 'a) thread_store \<Rightarrow>
     pointer \<times> ('f, 'a) thread_store" where
  "store_Create ans name func arg st =
     (case ans of
        None \<Rightarrow> (nullptr, st)
      | Some p \<Rightarrow> (Some p, st(p \<mapsto> CThreadImpl_ctor name func arg)))"

definition store_Destroy :: "pointer \<Rightarrow> ('f, 'a) thread_store \<Rightarrow> ('f, 'a) thread_store option" where
  "store_Destroy pThread st =
     (case pThread of
        None \<Rightarrow> Some st
      | Some p \<Rightarrow> (if st p = None then None else Some (st(p := None))))"

section \<open>Operations\<close>

text \<open>
  \<open>IThreadManager::Create\<close>, \<open>Destroy\<close> and \<open>GetInstance\<close>. The destructor is the default one: it destroys
  the containers, and deletes none of the thread objects whose addresses they hold.
\<close>

definition IThreadManager_Create :: "pointer \<Rightarrow> (uint64_t \<times> 'g CThreadManagerImpl) option" where
  "IThreadManager_Create ans = (case ans of None \<Rightarrow> None | Some a \<Rightarrow> Some (a, CThreadManagerImpl_default))"

definition CThreadManagerImpl_destructor ::
  "'g CThreadManagerImpl \<Rightarrow> ('f, 'a) thread_store \<Rightarrow> ('f, 'a) thread_store" where
  "CThreadManagerImpl_destructor m st = st"

definition IThreadManager_Destroy ::
  "(uint64_t \<times> 'g CThreadManagerImpl) option \<Rightarrow> ('f, 'a) thread_store \<Rightarrow> ('f, 'a) thread_store" where
  "IThreadManager_Destroy pThreadManager st =
     (case pThreadManager of None \<Rightarrow> st | Some (a, m) \<Rightarrow> CThreadManagerImpl_destructor m st)"

definition IThreadManager_GetInstance :: "'g CThreadManagerImpl" where
  "IThreadManager_GetInstance = CThreadManagerImpl_default"

text \<open>\<open>throws\<close> says whether the container's insertion throws.\<close>

definition TM_RegisterThreadEventFunc ::
  "bool \<Rightarrow> 'g option \<Rightarrow> 'g CThreadManagerImpl \<Rightarrow> last_error \<Rightarrow>
     'g CThreadManagerImpl \<times> last_error \<times> ErrorCode" where
  "TM_RegisterThreadEventFunc throws f m e =
     (case f of
        None \<Rightarrow> (m, SetLastError kInvalidParam e, kInvalidParam)
      | Some g \<Rightarrow>
          if throws then (m, SetLastError kThrowException e, kThrowException)
          else (m\<lparr>m_vecThreadEventFuncs := m_vecThreadEventFuncs m @ [g]\<rparr>, e, kSuccess))"

definition TM_CreateThread0 ::
  "pointer \<Rightarrow> bool \<Rightarrow> 'a \<Rightarrow> 'g CThreadManagerImpl \<Rightarrow> ('f, 'a) thread_store \<Rightarrow> last_error \<Rightarrow>
     ('g CThreadManagerImpl \<times> ('f, 'a) thread_store \<times> last_error \<times> pointer) option" where
  "TM_CreateThread0 ans throws noarg m st e =
     (case store_Create ans '''' None noarg st of
        (None, st) \<Rightarrow> Some (m, st, e, nullptr)
      | (Some p, st) \<Rightarrow>
          if throws then
            map_option (\<lambda>st. (m, st, SetLastError kThrowException e, nullptr)) (store_Destroy (Some p) st)
          else Some (m\<lparr>m_setThreads := insert p (m_setThreads m)\<rparr>, st, e, Some p))"

definition TM_DestroyThread0 ::
  "pointer \<Rightarrow> 'g CThreadManagerImpl \<Rightarrow> ('f, 'a) thread_store \<Rightarrow>
     ('g CThreadManagerImpl \<times> ('f, 'a) thread_store) option" where
  "TM_DestroyThread0 pThread m st =
     (case pThread of
        None \<Rightarrow> Some (m, st)
      | Some p \<Rightarrow>
          map_option (\<lambda>st. (m\<lparr>m_setThreads := m_setThreads m - {p}\<rparr>, st)) (store_Destroy (Some p) st))"

definition TM_CreateThread ::
  "pointer \<Rightarrow> bool \<Rightarrow> string option \<Rightarrow> 'f option \<Rightarrow> 'a \<Rightarrow> 'g CThreadManagerImpl \<Rightarrow>
     ('f, 'a) thread_store \<Rightarrow> last_error \<Rightarrow>
     ('g CThreadManagerImpl \<times> ('f, 'a) thread_store \<times> last_error \<times> ErrorCode) option" where
  "TM_CreateThread ans throws pThreadName pThreadFunc pThreadParam m st e =
     (case pThreadName of
        None \<Rightarrow> Some (m, st, SetLastError kInvalidParam e, kInvalidParam)
      | Some name \<Rightarrow>
          if pThreadFunc = nullptr then Some (m, st, SetLastError kInvalidParam e, kInvalidParam)
          else if m_mapThreads m name \<noteq> None
          then Some (m, st, SetLastError kInvalidParam e, kInvalidParam)
          else (case store_Create ans name pThreadFunc pThreadParam st of
              (None, st) \<Rightarrow> Some (m, st, e, kSuccess)
            | (Some p, st) \<Rightarrow>
                if throws then
                  map_option (\<lambda>st. (m, st, SetLastError kThrowException e, kThrowException))
                    (store_Destroy (Some p) st)
                else Some (m\<lparr>m_mapThreads := (m_mapThreads m)(name \<mapsto> p)\<rparr>, st, e, kSuccess)))"

definition TM_DestroyThread ::
  "string option \<Rightarrow> 'g CThreadManagerImpl \<Rightarrow> ('f, 'a) thread_store \<Rightarrow> last_error \<Rightarrow>
     ('g CThreadManagerImpl \<times> ('f, 'a) thread_store \<times> last_error \<times> ErrorCode) option" where
  "TM_DestroyThread pThreadName m st e =
     (case pThreadName of
        None \<Rightarrow> Some (m, st, SetLastError kInvalidParam e, kInvalidParam)
      | Some name \<Rightarrow>
          (case m_mapThreads m name of
             None \<Rightarrow> Some (m, st, SetLastError kInvalidParam e, kInvalidParam)
           | Some p \<Rightarrow>
               map_option (\<lambda>st. (m\<lparr>m_mapThreads := (m_mapThreads m)(name := None)\<rparr>, st, e, kSuccess))
                 (store_Destroy (Some p) st)))"

definition TM_NewThreadLocalId :: "'g CThreadManagerImpl \<Rightarrow> 'g CThreadManagerImpl \<times> int" where
  "TM_NewThreadLocalId m =
     (m\<lparr>m_iThreadLocalId := m_iThreadLocalId m + 1\<rparr>, sint (m_iThreadLocalId m))"

definition TM_FreeThreadLocalId :: "int \<Rightarrow> 'g CThreadManagerImpl \<Rightarrow> 'g CThreadManagerImpl" where
  "TM_FreeThreadLocalId iThreadLocalId m = m"

text \<open>
  \<open>GetThreadLocal\<close> of the thread \<open>tid\<close>: \<open>operator[]\<close> creates the slot before the memory is allocated,
  and the slot stays when \<open>new\<close> throws, which is \<open>ans = None\<close>.
\<close>

definition TM_GetThreadLocal ::
  "pointer \<Rightarrow> int \<Rightarrow> int \<Rightarrow> 'g CThreadManagerImpl \<Rightarrow> last_error \<Rightarrow>
     'g CThreadManagerImpl \<times> last_error \<times> pointer" where
  "TM_GetThreadLocal ans tid iThreadLocalId m e =
     (let locals = (case m_mapThreadLocals m tid of None \<Rightarrow> Map.empty | Some l \<Rightarrow> l);
          slot = (case locals iThreadLocalId of None \<Rightarrow> nullptr | Some p \<Rightarrow> p);
          put = (\<lambda>p. m\<lparr>m_mapThreadLocals := (m_mapThreadLocals m)(tid \<mapsto> locals(iThreadLocalId \<mapsto> p))\<rparr>)
      in case slot of
           Some p \<Rightarrow> (put (Some p), e, Some p)
         | None \<Rightarrow>
             (case ans of
                None \<Rightarrow> (put nullptr, SetLastError kThrowException e, nullptr)
              | Some p \<Rightarrow> (put (Some p), e, Some p)))"

text \<open>
  \<open>ForEachAllThreadLocal\<close>: \<open>tids\<close> is the order in which the hash map lists its threads, \<open>f\<close> the
  callback; the result is the list of the pointers it was called with.
\<close>

fun foreach_slots ::
  "(pointer \<Rightarrow> bool) \<Rightarrow> int \<Rightarrow> (int \<rightharpoonup> (int \<rightharpoonup> pointer)) \<Rightarrow> int list \<Rightarrow> pointer list" where
  "foreach_slots f i locals [] = []"
| "foreach_slots f i locals (tid # tids) =
     (case Option.bind (locals tid) (\<lambda>l. l i) of
        None \<Rightarrow> foreach_slots f i locals tids
      | Some p \<Rightarrow> p # (if f p then foreach_slots f i locals tids else []))"

definition TM_ForEachAllThreadLocal ::
  "int list \<Rightarrow> int \<Rightarrow> (pointer \<Rightarrow> bool) option \<Rightarrow> 'g CThreadManagerImpl \<Rightarrow> last_error \<Rightarrow>
     pointer list \<times> last_error \<times> ErrorCode" where
  "TM_ForEachAllThreadLocal tids iThreadLocalId func m e =
     (case func of
        None \<Rightarrow> ([], SetLastError kInvalidParam e, kInvalidParam)
      | Some f \<Rightarrow> (foreach_slots f iThreadLocalId (m_mapThreadLocals m) tids, e, kSuccess))"

definition TM_GetStats :: "('j \<Rightarrow> 'j) \<Rightarrow> 'j option \<Rightarrow> last_error \<Rightarrow> 'j option \<times> last_error \<times> ErrorCode" where
  "TM_GetStats clear pJson e =
     (case pJson of
        None \<Rightarrow> (None, SetLastError kInvalidParam e, kInvalidParam)
      | Some j \<Rightarrow> (Some (clear j), e, kSuccess))"

section \<open>Ownership of the thread objects\<close>

text \<open>
  The manager owns exactly the objects that exist, each of them through one entry of one of its two
  containers.
\<close>

definition tm_inv :: "'g CThreadManagerImpl \<Rightarrow> ('f, 'a) thread_store \<Rightarrow> bool" where
  "tm_inv m st \<longleftrightarrow> dom st = m_setThreads m \<union> ran (m_mapThreads m) \<and>
     m_setThreads m \<inter> ran (m_mapThreads m) = {} \<and>
     inj_on (m_mapThreads m) (dom (m_mapThreads m))"

text \<open>The calls that create and destroy threads, with what the allocator answers.\<close>

datatype ('f, 'a) tm_call =
    CreateUnnamed pointer bool
  | DestroyUnnamed pointer
  | CreateNamed pointer bool "string option" "'f option" 'a
  | DestroyNamed "string option"

fun tm_call_step ::
  "'a \<Rightarrow> ('f, 'a) tm_call \<Rightarrow> 'g CThreadManagerImpl \<times> ('f, 'a) thread_store \<Rightarrow>
     ('g CThreadManagerImpl \<times> ('f, 'a) thread_store) option" where
  "tm_call_step noarg (CreateUnnamed ans throws) (m, st) =
     map_option (\<lambda>(m, st, e, p). (m, st)) (TM_CreateThread0 ans throws noarg m st kSuccess)"
| "tm_call_step noarg (DestroyUnnamed p) (m, st) = TM_DestroyThread0 p m st"
| "tm_call_step noarg (CreateNamed ans throws name func arg) (m, st) =
     map_option (\<lambda>(m, st, e, r). (m, st)) (TM_CreateThread ans throws name func arg m st kSuccess)"
| "tm_call_step noarg (DestroyNamed name) (m, st) =
     map_option (\<lambda>(m, st, e, r). (m, st)) (TM_DestroyThread name m st kSuccess)"

text \<open>What the allocator promises: the address of a new object is not that of another one.\<close>

fun tm_fresh :: "('f, 'a) tm_call \<Rightarrow> ('f, 'a) thread_store \<Rightarrow> bool" where
  "tm_fresh (CreateUnnamed ans throws) st \<longleftrightarrow> (case ans of None \<Rightarrow> True | Some p \<Rightarrow> st p = None)"
| "tm_fresh (CreateNamed ans throws name func arg) st \<longleftrightarrow> (case ans of None \<Rightarrow> True | Some p \<Rightarrow> st p = None)"
| "tm_fresh c st \<longleftrightarrow> True"

text \<open>
  The client's side: the handles that \<open>CreateThread()\<close> returned to it and that it has not given to
  \<open>DestroyThread\<close> yet. It may give only these, and each once; the manager does not check it.
\<close>

fun client_handles ::
  "'a \<Rightarrow> ('f, 'a) tm_call \<Rightarrow> 'g CThreadManagerImpl \<times> ('f, 'a) thread_store \<Rightarrow> uint64_t set \<Rightarrow> uint64_t set" where
  "client_handles noarg (CreateUnnamed ans throws) (m, st) held =
     (case TM_CreateThread0 ans throws noarg m st kSuccess of
        Some (m, st, e, Some p) \<Rightarrow> insert p held
      | _ \<Rightarrow> held)"
| "client_handles noarg (DestroyUnnamed (Some p)) s held = held - {p}"
| "client_handles noarg c s held = held"

fun client_ok :: "('f, 'a) tm_call \<Rightarrow> uint64_t set \<Rightarrow> bool" where
  "client_ok (DestroyUnnamed (Some p)) held \<longleftrightarrow> p \<in> held"
| "client_ok c held \<longleftrightarrow> True"

text \<open>The manager, the objects and the client's handles after any sequence of calls.\<close>

inductive tm_reach ::
  "'a \<Rightarrow> 'g CThreadManagerImpl \<times> ('f, 'a) thread_store \<Rightarrow> uint64_t set \<Rightarrow> bool" for noarg where
  tm_init: "IThreadManager_Create ans = Some (a, m) \<Longrightarrow> tm_reach noarg (m, Map.empty) {}"
| tm_step: "tm_reach noarg (m, st) held \<Longrightarrow> tm_fresh c st \<Longrightarrow> client_ok c held \<Longrightarrow>
    tm_call_step noarg c (m, st) = Some t \<Longrightarrow> tm_reach noarg t (client_handles noarg c (m, st) held)"

lemma ran_del:
  assumes "inj_on m (dom m)" "m k = Some v"
  shows "ran (m(k := None)) = ran m - {v}"
proof (intro equalityI subsetI)
  fix x
  assume "x \<in> ran (m(k := None))"
  then obtain j where j: "j \<noteq> k" "m j = Some x"
    unfolding ran_def by (auto split: if_splits)
  then have "x \<noteq> v"
    using assms inj_onD [of m "dom m" j k] by auto
  with j show "x \<in> ran m - {v}"
    by (auto simp: ran_def)
next
  fix x
  assume "x \<in> ran m - {v}"
  then obtain j where j: "m j = Some x" "x \<noteq> v"
    by (auto simp: ran_def)
  with assms(2) have "(m(k := None)) j = Some x"
    by auto
  then show "x \<in> ran (m(k := None))"
    by (rule ranI)
qed

lemma inj_upd_new: "inj_on m (dom m) \<Longrightarrow> v \<notin> ran m \<Longrightarrow> inj_on (m(k \<mapsto> v)) (dom (m(k \<mapsto> v)))"
  by (auto simp: inj_on_def ran_def)

lemma inj_del: "inj_on m (dom m) \<Longrightarrow> inj_on (m(k := None)) (dom (m(k := None)))"
  by (auto simp: inj_on_def)

lemma tm_step_defined:
  assumes "tm_inv m st" "tm_fresh c st" "client_ok c (m_setThreads m)"
  shows "\<exists>m' st'. tm_call_step noarg c (m, st) = Some (m', st') \<and> tm_inv m' st' \<and>
    m_setThreads m' = client_handles noarg c (m, st) (m_setThreads m)"
proof (cases c)
  case (CreateUnnamed ans throws)
  then show ?thesis
    using assms
    by (auto simp: tm_inv_def TM_CreateThread0_def store_Create_def store_Destroy_def
        split: option.splits)
next
  case (DestroyUnnamed p)
  show ?thesis
  proof (cases p)
    case None
    with DestroyUnnamed assms(1) show ?thesis
      by (simp add: TM_DestroyThread0_def)
  next
    case (Some q)
    then have q: "q \<in> m_setThreads m" "q \<in> dom st"
      using DestroyUnnamed assms by (auto simp: tm_inv_def)
    then have "tm_call_step noarg c (m, st) =
        Some (m\<lparr>m_setThreads := m_setThreads m - {q}\<rparr>, st(q := None))"
      using DestroyUnnamed Some by (auto simp: TM_DestroyThread0_def store_Destroy_def)
    moreover have "tm_inv (m\<lparr>m_setThreads := m_setThreads m - {q}\<rparr>) (st(q := None))"
      using assms(1) q by (auto simp: tm_inv_def)
    ultimately show ?thesis
      using DestroyUnnamed Some by (intro exI conjI) (assumption | simp)+
  qed
next
  case (CreateNamed ans throws name func arg)
  show ?thesis
  proof (cases "name = None \<or> func = None \<or> ans = None \<or> m_mapThreads m (the name) \<noteq> None")
    case True
    with CreateNamed assms(1) show ?thesis
      by (cases name) (auto simp: TM_CreateThread_def store_Create_def)
  next
    case False
    then obtain n g p where n: "name = Some n" "func = Some g" "ans = Some p" "m_mapThreads m n = None"
      by auto
    with assms CreateNamed have p: "st p = None" "p \<notin> m_setThreads m" "p \<notin> ran (m_mapThreads m)"
      by (auto simp: tm_inv_def)
    show ?thesis
    proof (cases throws)
      case True
      with n p(1) CreateNamed have "tm_call_step noarg c (m, st) = Some (m, st)"
        by (simp add: TM_CreateThread_def store_Create_def store_Destroy_def fun_upd_idem)
      then show ?thesis
        using assms(1) CreateNamed by (intro exI [of _ m] exI [of _ st]) simp
    next
      case False
      with n CreateNamed have "tm_call_step noarg c (m, st) =
          Some (m\<lparr>m_mapThreads := (m_mapThreads m)(n \<mapsto> p)\<rparr>, st(p \<mapsto> CThreadImpl_ctor n func arg))"
        by (simp add: TM_CreateThread_def store_Create_def)
      moreover have "tm_inv (m\<lparr>m_mapThreads := (m_mapThreads m)(n \<mapsto> p)\<rparr>)
          (st(p \<mapsto> CThreadImpl_ctor n func arg))"
        using assms(1) p inj_upd_new [of "m_mapThreads m" p n] ran_map_upd [of "m_mapThreads m" n p] n(4)
        unfolding tm_inv_def by simp
      ultimately show ?thesis
        using CreateNamed by (intro exI conjI) (assumption | simp)+
    qed
  qed
next
  case (DestroyNamed name)
  show ?thesis
  proof (cases "name = None \<or> m_mapThreads m (the name) = None")
    case True
    with DestroyNamed assms(1) show ?thesis
      by (cases name) (auto simp: TM_DestroyThread_def)
  next
    case False
    then obtain n p where n: "name = Some n" "m_mapThreads m n = Some p"
      by auto
    then have "p \<in> dom st"
      using assms(1) by (auto simp: tm_inv_def ran_def)
    with n DestroyNamed have "tm_call_step noarg c (m, st) =
        Some (m\<lparr>m_mapThreads := (m_mapThreads m)(n := None)\<rparr>, st(p := None))"
      by (auto simp: TM_DestroyThread_def store_Destroy_def)
    moreover have "p \<notin> m_setThreads m"
      using assms(1) n(2) by (auto simp: tm_inv_def ran_def)
    then have "tm_inv (m\<lparr>m_mapThreads := (m_mapThreads m)(n := None)\<rparr>) (st(p := None))"
      using assms(1) ran_del [of "m_mapThreads m" n p] n(2) inj_del [of "m_mapThreads m" n]
      unfolding tm_inv_def by auto
    ultimately show ?thesis
      using DestroyNamed by (intro exI conjI) (assumption | simp)+
  qed
qed

lemma tm_reach_inv: "tm_reach noarg (m, st) held \<Longrightarrow> tm_inv m st \<and> held = m_setThreads m"
proof (induction "(m, st)" held arbitrary: m st rule: tm_reach.induct)
  case (tm_init ans a m)
  then show ?case
    by (auto simp: tm_inv_def CThreadManagerImpl_default_def IThreadManager_Create_def split: option.splits)
next
  case (tm_step m0 st0 held c)
  then show ?case
    using tm_step_defined [of m0 st0 c noarg] by auto
qed

text \<open>A handle that is not the client's: no object, or the object of a name.\<close>

lemma tm_foreign_handle:
  assumes "tm_inv m st"
  shows "q \<notin> dom st \<Longrightarrow> tm_call_step noarg (DestroyUnnamed (Some q)) (m, st) = None"
    and "m_mapThreads m n = Some q \<Longrightarrow> \<exists>m' st'. tm_call_step noarg (DestroyUnnamed (Some q)) (m, st) = Some (m', st') \<and>
      tm_call_step noarg (DestroyNamed (Some n)) (m', st') = None"
proof -
  show "q \<notin> dom st \<Longrightarrow> tm_call_step noarg (DestroyUnnamed (Some q)) (m, st) = None"
    by (auto simp: TM_DestroyThread0_def store_Destroy_def)
  assume n: "m_mapThreads m n = Some q"
  then have "q \<in> dom st"
    using assms by (auto simp: tm_inv_def ran_def)
  then show "\<exists>m' st'. tm_call_step noarg (DestroyUnnamed (Some q)) (m, st) = Some (m', st') \<and>
      tm_call_step noarg (DestroyNamed (Some n)) (m', st') = None"
    using n by (auto simp: TM_DestroyThread0_def TM_DestroyThread_def store_Destroy_def)
qed

section \<open>Properties\<close>

text \<open>
  C11: a thread manager and its client, from \<open>IThreadManager::Create\<close> on, under every sequence of
  calls that create and destroy threads, by name or by handle, failures of the allocator and of the
  containers included, where the client destroys by handle only what \<open>CreateThread()\<close> gave it, and
  only once. No call deletes an object twice or one that does not exist, and no thread object is
  lost: those that exist are exactly those the manager lists, each under one name or handle, and
  the handles it lists are those the client holds. The condition on the client is needed: giving
  \<open>DestroyThread\<close> the address of no object, as a handle a second time, is undefined, and giving it
  the object of a name leaves the name, whose own \<open>DestroyThread\<close> then is. \<open>IThreadManager::Destroy\<close>
  deletes none of the objects that are still listed.
\<close>

theorem thread_manager_ownership:
  assumes "tm_reach noarg (m, st) held" "tm_fresh c st"
  shows "tm_inv m st \<and> held = m_setThreads m \<and>
    (client_ok c held \<longrightarrow> tm_call_step noarg c (m, st) \<noteq> None) \<and>
    (\<forall>q. q \<notin> dom st \<longrightarrow> tm_call_step noarg (DestroyUnnamed (Some q)) (m, st) = None) \<and>
    (\<forall>n q. m_mapThreads m n = Some q \<longrightarrow>
      (\<exists>m' st'. tm_call_step noarg (DestroyUnnamed (Some q)) (m, st) = Some (m', st') \<and>
         tm_call_step noarg (DestroyNamed (Some n)) (m', st') = None)) \<and>
    dom (IThreadManager_Destroy (Some (a, m)) st) = m_setThreads m \<union> ran (m_mapThreads m)"
proof -
  have inv: "tm_inv m st" and held: "held = m_setThreads m"
    using tm_reach_inv [OF assms(1)] by simp_all
  have "dom (IThreadManager_Destroy (Some (a, m)) st) = m_setThreads m \<union> ran (m_mapThreads m)"
    using inv by (simp add: IThreadManager_Destroy_def CThreadManagerImpl_destructor_def tm_inv_def)
  with inv held tm_step_defined [OF inv assms(2), of noarg] tm_foreign_handle [OF inv, where noarg = noarg]
  show ?thesis
    by auto
qed

text \<open>
  Fact: a thread gets the same memory for the same thread-local id on every call once it got some, and
  memory of another thread or id is not touched by the call.
\<close>

theorem thread_local_stable:
  assumes "TM_GetThreadLocal ans tid i m e = (m', e', Some p)"
  shows "snd (snd (TM_GetThreadLocal ans2 tid i m' e2)) = Some p \<and>
    ((tid', j) \<noteq> (tid, i) \<longrightarrow> Option.bind (m_mapThreadLocals m' tid') (\<lambda>l. l j) =
       Option.bind (m_mapThreadLocals m tid') (\<lambda>l. l j))"
  using assms by (auto simp: TM_GetThreadLocal_def Let_def split: option.splits)

text \<open>
  Fact: when the allocation of a thread-local block fails, the slot that was made for it stays, and
  \<open>ForEachAllThreadLocal\<close> calls its callback with a null pointer for it.
\<close>

theorem foreach_sees_null:
  assumes "Option.bind (m_mapThreadLocals m tid) (\<lambda>l. l i) = None"
    and "TM_GetThreadLocal None tid i m e = (m', e', r)"
  shows "r = None \<and> fst (TM_ForEachAllThreadLocal [tid] i (Some f) m' e') = [nullptr]"
  using assms by (auto simp: TM_GetThreadLocal_def TM_ForEachAllThreadLocal_def Let_def split: option.splits)

section \<open>Witnesses\<close>

definition tm_example :: "unit CThreadManagerImpl" where
  "tm_example = CThreadManagerImpl_default\<lparr>m_mapThreads := [''io'' \<mapsto> 64], m_setThreads := {128}\<rparr>"

definition tm_example_store :: "(unit, unit) thread_store" where
  "tm_example_store = [64 \<mapsto> CThreadImpl_ctor ''io'' (Some ()) (), 128 \<mapsto> CThreadImpl_ctor '''' None ()]"

lemma tm_example_reach: "tm_reach () (tm_example, tm_example_store) {128}"
proof -
  let ?m = "CThreadManagerImpl_default\<lparr>m_mapThreads := [''io'' \<mapsto> 64]\<rparr> :: unit CThreadManagerImpl"
  let ?st = "[64 \<mapsto> CThreadImpl_ctor ''io'' (Some ()) ()] :: (unit, unit) thread_store"
  let ?c = "CreateNamed (Some 64) False (Some ''io'') (Some ()) () :: (unit, unit) tm_call"
  have "tm_reach () (CThreadManagerImpl_default :: unit CThreadManagerImpl, Map.empty :: (unit, unit) thread_store) {}"
    by (rule tm_init [of "Some 8" 8]) (simp add: IThreadManager_Create_def)
  moreover have "tm_call_step () ?c (CThreadManagerImpl_default, Map.empty) = Some (?m, ?st)"
    by (simp add: TM_CreateThread_def store_Create_def CThreadManagerImpl_default_def)
  ultimately have 1: "tm_reach () (?m, ?st) {}"
    using tm_step [of "()" _ _ "{}" ?c "(?m, ?st)"] by fastforce
  have "tm_call_step () (CreateUnnamed (Some 128) False) (?m, ?st) = Some (tm_example, tm_example_store)"
    "client_handles () (CreateUnnamed (Some 128) False) (?m, ?st) {} = {128}"
    by (simp_all add: TM_CreateThread0_def store_Create_def tm_example_def tm_example_store_def CThreadManagerImpl_default_def)
  then show ?thesis
    using tm_step [OF 1, of "CreateUnnamed (Some 128) False" "(tm_example, tm_example_store)"] by simp
qed

theorem thread_manager_ownership_witness:
  "tm_call_step () (DestroyUnnamed (Some 128)) (tm_example, tm_example_store) \<noteq> None \<and>
   tm_call_step () (DestroyUnnamed (Some 72)) (tm_example, tm_example_store) = None \<and>
   dom (IThreadManager_Destroy (Some (8, tm_example)) tm_example_store) = {64, 128}"
proof -
  have "tm_example_store 72 = None" "m_setThreads tm_example \<union> ran (m_mapThreads tm_example) = {64, 128}"
    by (auto simp: tm_example_store_def tm_example_def)
  moreover have "tm_fresh (DestroyUnnamed (Some 128)) tm_example_store"
    by simp
  ultimately show ?thesis
    using thread_manager_ownership [OF tm_example_reach, of "DestroyUnnamed (Some 128)" 8]
    by (simp add: domIff)
qed

theorem thread_local_stable_witness:
  "\<exists>m. TM_GetThreadLocal (Some 8) 1 0 (CThreadManagerImpl_default :: unit CThreadManagerImpl) kSuccess =
     (m, kSuccess, Some 8) \<and>
     snd (snd (TM_GetThreadLocal (Some 16) 1 0 m kSuccess)) = Some (8 :: uint64_t)"
proof -
  obtain m :: "unit CThreadManagerImpl" where m:
    "TM_GetThreadLocal (Some 8) 1 0 CThreadManagerImpl_default kSuccess = (m, kSuccess, Some 8)"
    by (simp add: TM_GetThreadLocal_def CThreadManagerImpl_default_def Let_def)
  then show ?thesis
    using thread_local_stable [OF m, of "Some 16" kSuccess 0 0] by blast
qed

theorem foreach_sees_null_witness:
  "\<exists>m. TM_GetThreadLocal None 1 0 (CThreadManagerImpl_default :: unit CThreadManagerImpl) kSuccess =
     (m, kThrowException, None) \<and>
     fst (TM_ForEachAllThreadLocal [1] 0 (Some (\<lambda>_. True)) m kThrowException) = [nullptr]"
proof -
  obtain m :: "unit CThreadManagerImpl" where m:
    "TM_GetThreadLocal None 1 0 CThreadManagerImpl_default kSuccess = (m, kThrowException, None)"
    by (simp add: TM_GetThreadLocal_def CThreadManagerImpl_default_def Let_def)
  then show ?thesis
    using foreach_sees_null [OF _ m, of "\<lambda>_. True"] by (auto simp: CThreadManagerImpl_default_def)
qed

end
