(* ===== verification/TaskScheduler.thy ===== *)
theory TaskScheduler
  imports OrdMap ThreadManager
begin

text \<open>
  \<open>CTaskSchedulerImpl\<close>: \<open>base/include/thread/task_scheduler.h\<close> and
  \<open>base/sources/thread/task_scheduler_impl.cpp\<close>. \<open>PostTask\<close>, \<open>CancleTask\<close> and the three parts of \<open>Run\<close>
  that hold or do not hold \<open>m_lock\<close> are separate steps; the times that \<open>clock_gettime\<close> gives are
  arguments.
\<close>

section \<open>Tasks\<close>

datatype TaskType = kRunFixedCount | kRunPeriodic

definition kInvalidTaskID :: int where "kInvalidTaskID = -1"

definition kVersion :: uint8_t where "kVersion = 1"

definition kTaskCancel :: uint16_t where "kTaskCancel = 1"

definition kTaskRunning :: uint16_t where "kTaskRunning = 2"

record ('f, 'c) Task =
  pTaskName :: "string option"
  pTaskFunc :: "'f option"
  pTaskCtx :: 'c
  eTaskType :: TaskType
  eVersion :: uint8_t
  uTaskFlags :: uint16_t
  uTaskExecTimes :: uint32_t
  uDelayUs :: uint32_t
  uIntervalUs :: uint32_t

record ('f, 'c) TaskEx =
  task :: "('f, 'c) Task"
  uTaskExecCount :: int
  iTaskID :: int

type_synonym ('f, 'c) task_map = "(uint64_t \<times> ('f, 'c) TaskEx) list"

record ('f, 'c) CTaskSchedulerImpl =
  m_pThread :: "(unit, unit) CThreadImpl option"
  m_strSchedulerName :: string
  m_uCondWaitUs :: uint32_t
  m_mapTasks :: "('f, 'c) task_map"
  m_iNextTaskID :: int

definition CTaskSchedulerImpl_default :: "('f, 'c) CTaskSchedulerImpl" where
  "CTaskSchedulerImpl_default = \<lparr>m_pThread = nullptr, m_strSchedulerName = '''', m_uCondWaitUs = 10,
     m_mapTasks = [], m_iNextTaskID = 0\<rparr>"

section \<open>Creation, start and stop\<close>

text \<open>\<open>made\<close> is the thread that \<open>CreateThread()\<close> of the thread manager returned.\<close>

definition Sched_Init ::
  "(unit, unit) CThreadImpl option \<Rightarrow> string option \<Rightarrow> uint32_t \<Rightarrow> ('f, 'c) CTaskSchedulerImpl \<Rightarrow>
     last_error \<Rightarrow> ('f, 'c) CTaskSchedulerImpl \<times> last_error \<times> ErrorCode" where
  "Sched_Init made pSchedulerName uPrecisionUs s e =
     (let name = (case pSchedulerName of None \<Rightarrow> '''' | Some n \<Rightarrow> n);
          s = s\<lparr>m_uCondWaitUs := uPrecisionUs, m_strSchedulerName := name, m_pThread := made\<rparr>
      in case made of
           None \<Rightarrow> (s, SetLastError kInvalidParam e, kInvalidParam)
         | Some t \<Rightarrow>
             (case CThreadImpl_Bind (Some name) (Some ()) () t e of
                (t, e, r) \<Rightarrow>
                  if r \<noteq> kSuccess
                  then (s\<lparr>m_pThread := Some t\<rparr>, SetLastError kInvalidParam e, kInvalidParam)
                  else (s\<lparr>m_pThread := Some t\<rparr>, e, kSuccess)))"

definition Sched_Start ::
  "bool \<Rightarrow> ('f, 'c) CTaskSchedulerImpl \<Rightarrow> last_error \<Rightarrow>
     (('f, 'c) CTaskSchedulerImpl \<times> last_error \<times> ErrorCode) option" where
  "Sched_Start spawned s e =
     (case m_pThread s of
        None \<Rightarrow> Some (s, SetLastError kInvalidParam e, kInvalidParam)
      | Some t \<Rightarrow>
          map_option (\<lambda>(t, e, r). (s\<lparr>m_pThread := Some t\<rparr>, e, r)) (CThreadImpl_Start spawned t e))"

definition Sched_Stop_request ::
  "('f, 'c) CTaskSchedulerImpl \<Rightarrow> last_error \<Rightarrow> ('f, 'c) CTaskSchedulerImpl \<times> last_error \<times> bool" where
  "Sched_Stop_request s e =
     (case m_pThread s of
        None \<Rightarrow> (s, SetLastError kInvalidParam e, False)
      | Some t \<Rightarrow>
          (case CThreadImpl_Stop_request t of (t, joins) \<Rightarrow> (s\<lparr>m_pThread := Some t\<rparr>, e, joins)))"

section \<open>Posting and cancelling\<close>

definition map_uses :: "('f, 'c) task_map \<Rightarrow> uint64_t \<Rightarrow> bool" where
  "map_uses m k \<longleftrightarrow> om_find k m \<noteq> None"

text \<open>
  \<open>PostTask\<close> at time \<open>now\<close>; \<open>throws\<close> says whether the insertion throws. \<open>None\<close> is the search for a
  free key going round for ever.
\<close>

definition Sched_PostTask ::
  "uint64_t \<Rightarrow> bool \<Rightarrow> ('f, 'c) Task option \<Rightarrow> ('f, 'c) CTaskSchedulerImpl \<Rightarrow> last_error \<Rightarrow>
     (('f, 'c) CTaskSchedulerImpl \<times> last_error \<times> int) option" where
  "Sched_PostTask now throws pTask s e =
     (case pTask of
        None \<Rightarrow> Some (s, SetLastError kInvalidParam e, kInvalidTaskID)
      | Some t \<Rightarrow>
          if pTaskName t = nullptr \<or> pTaskFunc t = nullptr \<or> eVersion t \<noteq> kVersion
          then Some (s, SetLastError kInvalidParam e, kInvalidTaskID)
          else
            let uExecTimeNs = now + ucast (uDelayUs t) * kMicro in
            (case next_free (map_uses (m_mapTasks s)) uExecTimeNs (length (m_mapTasks s) + 1) of
               None \<Rightarrow> None
             | Some k \<Rightarrow>
                 if throws then Some (s, SetLastError kThrowException e, kInvalidTaskID)
                 else Some (s\<lparr>m_mapTasks := om_assign k
                     \<lparr>task = t, uTaskExecCount = 0, iTaskID = m_iNextTaskID s\<rparr> (m_mapTasks s),
                     m_iNextTaskID := m_iNextTaskID s + 1\<rparr>, e, m_iNextTaskID s)))"

definition once_task :: "string option \<Rightarrow> 'f option \<Rightarrow> 'c \<Rightarrow> uint32_t \<Rightarrow> ('f, 'c) Task" where
  "once_task name func ctx delay =
     \<lparr>pTaskName = name, pTaskFunc = func, pTaskCtx = ctx, eTaskType = kRunFixedCount,
      eVersion = kVersion, uTaskFlags = 0, uTaskExecTimes = 1, uDelayUs = delay, uIntervalUs = 0\<rparr>"

definition Sched_PostOnceTask ::
  "uint64_t \<Rightarrow> bool \<Rightarrow> string option \<Rightarrow> 'f option \<Rightarrow> 'c \<Rightarrow> uint32_t \<Rightarrow>
     ('f, 'c) CTaskSchedulerImpl \<Rightarrow> last_error \<Rightarrow>
     (('f, 'c) CTaskSchedulerImpl \<times> last_error \<times> int) option" where
  "Sched_PostOnceTask now throws name func ctx delay s e =
     Sched_PostTask now throws (Some (once_task name func ctx delay)) s e"

definition Sched_PostPeriodicTask ::
  "uint64_t \<Rightarrow> bool \<Rightarrow> string option \<Rightarrow> 'f option \<Rightarrow> 'c \<Rightarrow> uint32_t \<Rightarrow> uint32_t \<Rightarrow>
     ('f, 'c) CTaskSchedulerImpl \<Rightarrow> last_error \<Rightarrow>
     (('f, 'c) CTaskSchedulerImpl \<times> last_error \<times> int) option" where
  "Sched_PostPeriodicTask now throws name func ctx delay interval s e =
     Sched_PostTask now throws
       (Some \<lparr>pTaskName = name, pTaskFunc = func, pTaskCtx = ctx, eTaskType = kRunPeriodic,
          eVersion = kVersion, uTaskFlags = 0, uTaskExecTimes = 0, uDelayUs = delay,
          uIntervalUs = interval\<rparr>) s e"

definition set_flags :: "(uint16_t \<Rightarrow> uint16_t) \<Rightarrow> ('f, 'c) TaskEx \<Rightarrow> ('f, 'c) TaskEx" where
  "set_flags f x = x\<lparr>task := (task x)\<lparr>uTaskFlags := f (uTaskFlags (task x))\<rparr>\<rparr>"

text \<open>The loop of \<open>CancleTask\<close>: the first task with the id gets the flag.\<close>

fun cancel_loop :: "int \<Rightarrow> ('f, 'c) task_map \<Rightarrow> ('f, 'c) task_map option" where
  "cancel_loop i [] = None"
| "cancel_loop i ((k, x) # m) =
     (if iTaskID x = i then Some ((k, set_flags (\<lambda>f. f OR kTaskCancel) x) # m)
      else map_option ((#) (k, x)) (cancel_loop i m))"

definition Sched_CancleTask ::
  "int \<Rightarrow> ('f, 'c) CTaskSchedulerImpl \<Rightarrow> last_error \<Rightarrow>
     ('f, 'c) CTaskSchedulerImpl \<times> last_error \<times> ErrorCode" where
  "Sched_CancleTask i s e =
     (case cancel_loop i (m_mapTasks s) of
        Some m \<Rightarrow> (s\<lparr>m_mapTasks := m\<rparr>, e, kSuccess)
      | None \<Rightarrow> (s, SetLastError kInvalidParam e, kInvalidParam))"

section \<open>One call of \<open>Run\<close>\<close>

text \<open>The predicate of \<open>wait_for\<close>.\<close>

definition Run_wake :: "uint64_t \<Rightarrow> ThreadState \<Rightarrow> ('f, 'c) task_map \<Rightarrow> bool" where
  "Run_wake now st m \<longleftrightarrow> (case m of [] \<Rightarrow> False | (k, x) # _ \<Rightarrow> k \<le> now) \<or> st \<noteq> kRunning"

definition uBatchTask :: nat where "uBatchTask = 16"

text \<open>
  The loop that fills \<open>batchTaskEx\<close>; \<open>n\<close> is the room left in it. Cancelled tasks are erased, due
  tasks are marked as running and their nodes remembered.
\<close>

fun collect_loop ::
  "uint64_t \<Rightarrow> nat \<Rightarrow> ('f, 'c) task_map \<Rightarrow> ('f, 'c) task_map \<times> uint64_t list" where
  "collect_loop now n [] = ([], [])"
| "collect_loop now n ((k, x) # m) =
     (if uTaskFlags (task x) AND kTaskCancel \<noteq> 0 then collect_loop now n m
      else if k > now then ((k, x) # m, [])
      else
        let x = set_flags (\<lambda>f. f OR kTaskRunning) x in
        if n \<le> 1 then ((k, x) # m, [k])
        else (case collect_loop now (n - 1) m of (m, ks) \<Rightarrow> ((k, x) # m, k # ks)))"

definition Run_collect :: "uint64_t \<Rightarrow> ('f, 'c) CTaskSchedulerImpl \<Rightarrow> ('f, 'c) CTaskSchedulerImpl \<times> uint64_t list" where
  "Run_collect now s =
     (case collect_loop now uBatchTask (m_mapTasks s) of (m, ks) \<Rightarrow> (s\<lparr>m_mapTasks := m\<rparr>, ks))"

text \<open>
  Executing the task of a node. A node that is not in the map is a dangling reference: \<open>None\<close>. The
  second result is the task that was run.
\<close>

definition Run_exec ::
  "uint64_t \<Rightarrow> ('f, 'c) CTaskSchedulerImpl \<Rightarrow> (('f, 'c) CTaskSchedulerImpl \<times> ('f, 'c) TaskEx) option" where
  "Run_exec k s =
     (case om_find k (m_mapTasks s) of
        None \<Rightarrow> None
      | Some x \<Rightarrow>
          Some (s\<lparr>m_mapTasks := om_assign k (x\<lparr>uTaskExecCount := uTaskExecCount x + 1\<rparr>) (m_mapTasks s)\<rparr>, x))"

text \<open>Rescheduling or dropping the task of a node after its execution.\<close>

definition Run_finish ::
  "uint64_t \<Rightarrow> bool \<Rightarrow> uint64_t \<Rightarrow> ('f, 'c) CTaskSchedulerImpl \<Rightarrow> ('f, 'c) CTaskSchedulerImpl option" where
  "Run_finish now throws k s =
     (case om_find k (m_mapTasks s) of
        None \<Rightarrow> None
      | Some x \<Rightarrow>
          let x = set_flags (\<lambda>f. f AND NOT kTaskRunning) x;
              m = om_assign k x (m_mapTasks s)
          in if eTaskType (task x) = kRunPeriodic \<or> uTaskExecCount x < uint (uTaskExecTimes (task x))
             then
               (case next_free (map_uses m) (now + ucast (uIntervalUs (task x)) * kMicro) (length m + 1) of
                  None \<Rightarrow> None
                | Some j \<Rightarrow>
                    Some (s\<lparr>m_mapTasks := om_erase k (if throws then m else om_assign j x m)\<rparr>))
             else Some (s\<lparr>m_mapTasks := om_erase k m\<rparr>))"

section \<open>The scheduler with its callers\<close>

text \<open>
  \<open>pend\<close> are the nodes of the batch that wait for execution, \<open>execd\<close> those that wait for the last part
  of \<open>Run\<close>. \<open>ran\<close> is the list of the ids of the tasks that have been run, and \<open>quota\<close> gives for a
  task of a fixed count the number of its runs.
\<close>

record ('f, 'c) sched_sys =
  sch :: "('f, 'c) CTaskSchedulerImpl"
  pend :: "uint64_t list"
  execd :: "uint64_t list"
  ran_ids :: "int list"
  quota :: "int \<Rightarrow> int option"

definition task_quota :: "('f, 'c) Task \<Rightarrow> int option" where
  "task_quota t = (if eTaskType t = kRunPeriodic then None else Some (max 1 (uint (uTaskExecTimes t))))"

inductive sched_step :: "('f, 'c) sched_sys \<Rightarrow> ('f, 'c) sched_sys \<Rightarrow> bool" where
  post: "Sched_PostTask now throws pTask (sch s) e = Some (c, e', i) \<Longrightarrow>
    sched_step s (s\<lparr>sch := c,
      quota := (if i = kInvalidTaskID then quota s else (quota s)(i := task_quota (the pTask)))\<rparr>)"
| cancel: "Sched_CancleTask i (sch s) e = (c, e', r) \<Longrightarrow> sched_step s (s\<lparr>sch := c\<rparr>)"
| collect: "pend s = [] \<Longrightarrow> execd s = [] \<Longrightarrow> Run_collect now (sch s) = (c, ks) \<Longrightarrow>
    sched_step s (s\<lparr>sch := c, pend := ks\<rparr>)"
| exec: "pend s = k # ks \<Longrightarrow> Run_exec k (sch s) = Some (c, x) \<Longrightarrow>
    sched_step s (s\<lparr>sch := c, pend := ks, execd := execd s @ [k], ran_ids := ran_ids s @ [iTaskID x]\<rparr>)"
| finish: "pend s = [] \<Longrightarrow> execd s = k # ks \<Longrightarrow> Run_finish now throws k (sch s) = Some c \<Longrightarrow>
    sched_step s (s\<lparr>sch := c, execd := ks\<rparr>)"

inductive_cases sched_stepE: "sched_step s t"

definition sched_init :: "('f, 'c) sched_sys" where
  "sched_init = \<lparr>sch = CTaskSchedulerImpl_default, pend = [], execd = [], ran_ids = [], quota = (\<lambda>_. None)\<rparr>"

end
