(* ===== verification/SchedulerInv.thy ===== *)
theory SchedulerInv
  imports TaskScheduler
begin

text \<open>
  The proofs about the task scheduler: what the loops of \<open>CancleTask\<close> and \<open>Run\<close> compute, the invariant
  of the scheduler together with its callers, and the properties that follow from it.
\<close>

section \<open>Facts about the loops\<close>

lemma set_flags_simps [simp]:
  "iTaskID (set_flags f x) = iTaskID x" "uTaskExecCount (set_flags f x) = uTaskExecCount x"
  "task_quota (task (set_flags f x)) = task_quota (task x)"
  "eTaskType (task (set_flags f x)) = eTaskType (task x)"
  "uTaskExecTimes (task (set_flags f x)) = uTaskExecTimes (task x)"
  "uIntervalUs (task (set_flags f x)) = uIntervalUs (task x)"
  "uTaskFlags (task (set_flags f x)) = f (uTaskFlags (task x))"
  by (simp_all add: set_flags_def task_quota_def)

text \<open>An entry of the second map comes from the first, up to its flags.\<close>

definition flags_only :: "('f, 'c) task_map \<Rightarrow> ('f, 'c) task_map \<Rightarrow> bool" where
  "flags_only m m' \<longleftrightarrow> (\<forall>(k, y) \<in> set m'. \<exists>x f. (k, x) \<in> set m \<and> (y = x \<or> y = set_flags f x))"

lemma flags_only_keys: "flags_only m m' \<Longrightarrow> fst ` set m' \<subseteq> fst ` set m"
  by (force simp: flags_only_def)

lemma kTaskCancel_nonzero [simp]: "kTaskCancel \<noteq> 0"
  by (simp add: kTaskCancel_def)

lemma cancel_loop_Some:
  "cancel_loop i m = Some m' \<Longrightarrow> \<exists>xs k x ys. m = xs @ (k, x) # ys \<and> iTaskID x = i \<and>
     m' = xs @ (k, set_flags (\<lambda>f. f OR kTaskCancel) x) # ys"
proof (induction i m arbitrary: m' rule: cancel_loop.induct)
  case (2 i k x m)
  show ?case
  proof (cases "iTaskID x = i")
    case True
    with 2(2) show ?thesis
      by (intro exI [of _ "[]"]) auto
  next
    case False
    with 2(2) obtain m1 where m1: "cancel_loop i m = Some m1" "m' = (k, x) # m1"
      by auto
    from 2(1) [OF False m1(1)] obtain xs j y ys where "m = xs @ (j, y) # ys" "iTaskID y = i"
      "m1 = xs @ (j, set_flags (\<lambda>f. f OR kTaskCancel) y) # ys"
      by blast
    then show ?thesis
      by (intro exI [of _ "(k, x) # xs"] exI [of _ j] exI [of _ y] exI [of _ ys]) (simp add: m1(2))
  qed
qed simp

lemma cancel_loop_None: "cancel_loop i m = None \<longleftrightarrow> (\<forall>(k, x) \<in> set m. iTaskID x \<noteq> i)"
  by (induction i m rule: cancel_loop.induct) auto

lemma cancel_loop_keys: "cancel_loop i m = Some m' \<Longrightarrow> map fst m' = map fst m"
  by (drule cancel_loop_Some) auto

lemma cancel_loop_entries:
  assumes "cancel_loop i m = Some m'" "(k, y) \<in> set m'"
  shows "\<exists>x. (k, x) \<in> set m \<and> (y = x \<or> y = set_flags (\<lambda>f. f OR kTaskCancel) x)"
  using cancel_loop_Some [OF assms(1)] assms(2) by (elim exE conjE) (simp, blast)

lemma cancel_loop_flags_only: "cancel_loop i m = Some m' \<Longrightarrow> flags_only m m'"
  by (drule cancel_loop_Some) (auto simp: flags_only_def, blast+)

lemma collect_loop_spec:
  "collect_loop now n m = (m', ks) \<Longrightarrow> om_valid m \<Longrightarrow>
     om_valid m' \<and> flags_only m m' \<and> set ks \<subseteq> fst ` set m' \<and> distinct ks \<and>
     length ks \<le> max 1 n \<and>
     (\<forall>k \<in> set ks. k \<le> now \<and> (\<exists>x. (k, x) \<in> set m \<and> uTaskFlags (task x) AND kTaskCancel = 0)) \<and>
     (\<forall>(k, x) \<in> set m. uTaskFlags (task x) AND kTaskCancel = 0 \<longrightarrow> k \<in> fst ` set m')"
proof (induction now n m arbitrary: m' ks rule: collect_loop.induct)
  case (2 now n k x m)
  have valid: "om_valid m" and less: "\<forall>j \<in> fst ` set m. k < j"
    using 2(4) by (auto simp: om_valid_def)
  consider (gone) "uTaskFlags (task x) AND kTaskCancel \<noteq> 0"
    | (stop) "uTaskFlags (task x) AND kTaskCancel = 0" "k > now"
    | (last) "uTaskFlags (task x) AND kTaskCancel = 0" "\<not> k > now" "n \<le> 1"
    | (more) "uTaskFlags (task x) AND kTaskCancel = 0" "\<not> k > now" "\<not> n \<le> 1"
    by blast
  then show ?case
  proof cases
    case gone
    with 2(3) have "collect_loop now n m = (m', ks)"
      by simp
    from 2(1) [OF gone this valid] gone show ?thesis
      by (fastforce simp: flags_only_def)
  next
    case stop
    with 2(3,4) show ?thesis
      by (force simp: flags_only_def)
  next
    case last
    with 2(3) have e: "m' = (k, set_flags (\<lambda>f. f OR kTaskRunning) x) # m" "ks = [k]"
      by (auto simp: Let_def)
    have "om_valid m'"
      using 2(4) by (simp add: e om_valid_def)
    moreover have "flags_only ((k, x) # m) m'"
      by (auto simp: e flags_only_def)
    ultimately show ?thesis
      using last by (force simp: e not_less)
  next
    case more
    obtain m1 ks1 where r: "collect_loop now (n - 1) m = (m1, ks1)"
      by fastforce
    with 2(3) more have e: "m' = (k, set_flags (\<lambda>f. f OR kTaskRunning) x) # m1" "ks = k # ks1"
      by (auto simp: Let_def)
    note IH = 2(2) [OF _ _ refl _ r valid]
    have IH: "om_valid m1" "flags_only m m1" "set ks1 \<subseteq> fst ` set m1" "distinct ks1"
      "length ks1 \<le> max 1 (n - 1)"
      "\<forall>k \<in> set ks1. k \<le> now \<and> (\<exists>x. (k, x) \<in> set m \<and> uTaskFlags (task x) AND kTaskCancel = 0)"
      "\<forall>(k, x) \<in> set m. uTaskFlags (task x) AND kTaskCancel = 0 \<longrightarrow> k \<in> fst ` set m1"
      using IH more by simp_all
    have keys: "\<forall>j \<in> fst ` set m1. k < j"
      using flags_only_keys [OF IH(2)] less by blast
    then have "k \<notin> set ks1"
      using IH(3) by auto
    moreover have "om_valid m'"
      using IH(1) keys by (auto simp: e om_valid_def)
    moreover have "flags_only ((k, x) # m) m'"
      using IH(2) by (fastforce simp: e flags_only_def)
    moreover have "set ks \<subseteq> fst ` set m'"
      using IH(3) by (auto simp: e)
    moreover have "\<forall>(j, y) \<in> set ((k, x) # m). uTaskFlags (task y) AND kTaskCancel = 0 \<longrightarrow> j \<in> fst ` set m'"
      using IH(7) by (auto simp: e)
    moreover have "\<forall>j \<in> set ks. j \<le> now \<and>
        (\<exists>y. (j, y) \<in> set ((k, x) # m) \<and> uTaskFlags (task y) AND kTaskCancel = 0)"
      using IH(6) more by (auto simp: e not_less)
    ultimately show ?thesis
      using IH(4,5) more by (simp add: e)
  qed
qed (simp add: flags_only_def)

text \<open>The search for a free key ends as long as the map is not as large as the key space.\<close>

lemma map_uses_keys: "om_valid m \<Longrightarrow> map_uses m k \<longleftrightarrow> k \<in> fst ` set m"
  using om.find_none [of m k] by (auto simp: map_uses_def)

lemma next_free_map:
  assumes "om_valid m" "length m < 2 ^ 64"
  obtains k where "next_free (map_uses m) t (length m + 1) = Some k" "k \<notin> fst ` set m"
proof -
  have u: "{k. map_uses m k} = fst ` set m"
    using map_uses_keys [OF assms(1)] by auto
  have "next_free (map_uses m) t (length m + 1) \<noteq> None"
    using assms(2) om.card_keys [OF assms(1)] by (intro next_free_enough) (simp_all add: u)
  then obtain k where k: "next_free (map_uses m) t (length m + 1) = Some k"
    by auto
  then have "k \<notin> fst ` set m"
    using next_free_Some [OF k] map_uses_keys [OF assms(1)] by simp
  with k that show thesis by blast
qed

lemma next_free_unused:
  "om_valid m \<Longrightarrow> next_free (map_uses m) t n = Some k \<Longrightarrow> k \<notin> fst ` set m"
  using next_free_Some [of "map_uses m" t n k] map_uses_keys [of m k] by simp

section \<open>What a batch holds\<close>

definition due :: "uint64_t \<Rightarrow> uint64_t \<times> ('f, 'c) TaskEx \<Rightarrow> bool" where
  "due now kx \<longleftrightarrow> uTaskFlags (task (snd kx)) AND kTaskCancel = 0 \<and> fst kx \<le> now"

lemma no_due_later:
  "om_valid ((k, x) # m) \<Longrightarrow> now < k \<Longrightarrow> filter (due now) m = []"
  by (auto simp: om_valid_def due_def filter_empty_conv)

lemma collect_loop_batch:
  "om_valid m \<Longrightarrow> 0 < n \<Longrightarrow> snd (collect_loop now n m) = take n (map fst (filter (due now) m))"
proof (induction now n m rule: collect_loop.induct)
  case (2 now n k x m)
  have valid: "om_valid m"
    using 2(3) by (simp add: om_valid_def)
  consider (gone) "uTaskFlags (task x) AND kTaskCancel \<noteq> 0"
    | (stop) "uTaskFlags (task x) AND kTaskCancel = 0" "k > now"
    | (last) "uTaskFlags (task x) AND kTaskCancel = 0" "\<not> k > now" "n \<le> 1"
    | (more) "uTaskFlags (task x) AND kTaskCancel = 0" "\<not> k > now" "\<not> n \<le> 1"
    by blast
  then show ?case
  proof cases
    case gone
    with 2(1) [OF gone valid 2(4)] show ?thesis
      by (simp add: due_def)
  next
    case stop
    with no_due_later [OF 2(3) stop(2)] show ?thesis
      by (auto simp: due_def [of now "(k, x)"])
  next
    case last
    with 2(4) have "n = 1"
      by simp
    with last show ?thesis
      by (auto simp: due_def Let_def)
  next
    case more
    then have pos: "0 < n - 1" and n: "n = Suc (n - 1)"
      by simp_all
    have IH: "snd (collect_loop now (n - 1) m) = take (n - 1) (map fst (filter (due now) m))"
      using 2(2) [OF _ _ refl more(3) valid pos] more by simp
    have "snd (collect_loop now n ((k, x) # m)) = k # snd (collect_loop now (n - 1) m)"
      using more by (simp add: Let_def split: prod.splits)
    also have "\<dots> = take n (map fst (filter (due now) ((k, x) # m)))"
      using more(1,2) IH by (subst (2) n) (simp add: due_def [of now "(k, x)"] not_less)
    finally show ?thesis .
  qed
qed simp

section \<open>The invariant\<close>

text \<open>What holds of one entry, with the number of its executions so far.\<close>

definition entry_ok :: "('f, 'c) sched_sys \<Rightarrow> uint64_t \<times> ('f, 'c) TaskEx \<Rightarrow> bool" where
  "entry_ok s kx \<longleftrightarrow>
     0 \<le> iTaskID (snd kx) \<and> iTaskID (snd kx) < m_iNextTaskID (sch s) \<and>
     uTaskExecCount (snd kx) = int (count_list (ran_ids s) (iTaskID (snd kx))) \<and>
     quota s (iTaskID (snd kx)) = task_quota (task (snd kx)) \<and>
     (\<forall>n. task_quota (task (snd kx)) = Some n \<longrightarrow>
        uTaskExecCount (snd kx) \<le> n \<and> (fst kx \<notin> set (execd s) \<longrightarrow> uTaskExecCount (snd kx) < n))"

definition sched_inv :: "('f, 'c) sched_sys \<Rightarrow> bool" where
  "sched_inv s \<longleftrightarrow>
     om_valid (m_mapTasks (sch s)) \<and>
     (\<forall>k x. (k, x) \<in> set (m_mapTasks (sch s)) \<longrightarrow> entry_ok s (k, x)) \<and>
     (\<forall>k x j y. (k, x) \<in> set (m_mapTasks (sch s)) \<longrightarrow> (j, y) \<in> set (m_mapTasks (sch s)) \<longrightarrow>
        iTaskID x = iTaskID y \<longrightarrow> k = j) \<and>
     distinct (pend s @ execd s) \<and> set (pend s @ execd s) \<subseteq> fst ` set (m_mapTasks (sch s)) \<and>
     0 \<le> m_iNextTaskID (sch s) \<and> set (ran_ids s) \<subseteq> {0..<m_iNextTaskID (sch s)} \<and>
     (\<forall>i n. quota s i = Some n \<longrightarrow> int (count_list (ran_ids s) i) \<le> n)"

lemma sched_invI:
  assumes "om_valid (m_mapTasks (sch s))"
    "\<And>k x. (k, x) \<in> set (m_mapTasks (sch s)) \<Longrightarrow> entry_ok s (k, x)"
    "\<And>k x j y. (k, x) \<in> set (m_mapTasks (sch s)) \<Longrightarrow> (j, y) \<in> set (m_mapTasks (sch s)) \<Longrightarrow>
      iTaskID x = iTaskID y \<Longrightarrow> k = j"
    "distinct (pend s @ execd s)" "set (pend s @ execd s) \<subseteq> fst ` set (m_mapTasks (sch s))"
    "0 \<le> m_iNextTaskID (sch s)" "set (ran_ids s) \<subseteq> {0..<m_iNextTaskID (sch s)}"
    "\<And>i n. quota s i = Some n \<Longrightarrow> int (count_list (ran_ids s) i) \<le> n"
  shows "sched_inv s"
  unfolding sched_inv_def by (intro conjI allI impI) (assumption | rule assms)+

lemma sched_invD:
  assumes "sched_inv s"
  shows "om_valid (m_mapTasks (sch s))"
    "(k, x) \<in> set (m_mapTasks (sch s)) \<Longrightarrow> entry_ok s (k, x)"
    "(k, x) \<in> set (m_mapTasks (sch s)) \<Longrightarrow> (j, y) \<in> set (m_mapTasks (sch s)) \<Longrightarrow>
      iTaskID x = iTaskID y \<Longrightarrow> k = j"
    "distinct (pend s @ execd s)" "set (pend s @ execd s) \<subseteq> fst ` set (m_mapTasks (sch s))"
    "0 \<le> m_iNextTaskID (sch s)" "set (ran_ids s) \<subseteq> {0..<m_iNextTaskID (sch s)}"
    "quota s i = Some n \<Longrightarrow> int (count_list (ran_ids s) i) \<le> n"
  using assms unfolding sched_inv_def by blast+

lemma sched_inv_init: "sched_inv sched_init"
  by (simp add: sched_inv_def sched_init_def CTaskSchedulerImpl_default_def om_valid_def)

lemma entry_ok_flags:
  "entry_ok s (k, x) \<Longrightarrow> m_iNextTaskID (sch t) = m_iNextTaskID (sch s) \<Longrightarrow> ran_ids t = ran_ids s \<Longrightarrow>
     quota t = quota s \<Longrightarrow> execd t = execd s \<Longrightarrow> y = x \<or> y = set_flags f x \<Longrightarrow> entry_ok t (k, y)"
  by (auto simp: entry_ok_def)

text \<open>Changing flags and dropping entries that are in no batch keeps the invariant.\<close>

lemma sched_inv_flags_only:
  assumes inv: "sched_inv s" and m: "flags_only (m_mapTasks (sch s)) (m_mapTasks c)"
    and v: "om_valid (m_mapTasks c)" and n: "m_iNextTaskID c = m_iNextTaskID (sch s)"
    and p: "distinct (p @ execd s)" "set (p @ execd s) \<subseteq> fst ` set (m_mapTasks c)"
  shows "sched_inv (s\<lparr>sch := c, pend := p\<rparr>)"
proof (rule sched_invI)
  fix k x
  assume "(k, x) \<in> set (m_mapTasks (sch (s\<lparr>sch := c, pend := p\<rparr>)))"
  then obtain y f where "(k, y) \<in> set (m_mapTasks (sch s))" "x = y \<or> x = set_flags f y"
    using m by (fastforce simp: flags_only_def)
  then show "entry_ok (s\<lparr>sch := c, pend := p\<rparr>) (k, x)"
    using entry_ok_flags [OF sched_invD(2) [OF inv], of k y "s\<lparr>sch := c, pend := p\<rparr>" x f] n by simp
next
  fix k x j y
  assume *: "(k, x) \<in> set (m_mapTasks (sch (s\<lparr>sch := c, pend := p\<rparr>)))"
    "(j, y) \<in> set (m_mapTasks (sch (s\<lparr>sch := c, pend := p\<rparr>)))" "iTaskID x = iTaskID y"
  obtain x' f where x': "(k, x') \<in> set (m_mapTasks (sch s))" "x = x' \<or> x = set_flags f x'"
    using m * by (fastforce simp: flags_only_def)
  obtain y' g where y': "(j, y') \<in> set (m_mapTasks (sch s))" "y = y' \<or> y = set_flags g y'"
    using m * by (fastforce simp: flags_only_def)
  have "iTaskID x' = iTaskID y'"
    using x'(2) y'(2) *(3) by auto
  then show "k = j"
    by (rule sched_invD(3) [OF inv x'(1) y'(1)])
qed (use sched_invD [OF inv] v n p in auto)

lemma task_quota_pos: "task_quota t = Some n \<Longrightarrow> 0 < n"
  by (auto simp: task_quota_def split: if_splits)

lemma PostTask_Some:
  assumes "Sched_PostTask now throws pTask s e = Some (c, e', i)"
  shows "c = s \<and> i = kInvalidTaskID \<or>
    (\<exists>tk k. pTask = Some tk \<and> i = m_iNextTaskID s \<and> e' = e \<and>
       next_free (map_uses (m_mapTasks s)) (now + ucast (uDelayUs tk) * kMicro) (length (m_mapTasks s) + 1) = Some k \<and>
       c = s\<lparr>m_mapTasks := om_assign k \<lparr>task = tk, uTaskExecCount = 0, iTaskID = m_iNextTaskID s\<rparr> (m_mapTasks s),
         m_iNextTaskID := m_iNextTaskID s + 1\<rparr>)"
proof (cases pTask)
  case None
  with assms show ?thesis
    by (simp add: Sched_PostTask_def)
next
  case (Some tk)
  show ?thesis
  proof (cases "pTaskName tk = nullptr \<or> pTaskFunc tk = nullptr \<or> eVersion tk \<noteq> kVersion \<or> throws")
    case True
    with assms Some have "c = s \<and> i = kInvalidTaskID"
      by (auto simp: Sched_PostTask_def Let_def split: option.split_asm if_split_asm)
    then show ?thesis ..
  next
    case False
    let ?r = "next_free (map_uses (m_mapTasks s)) (now + ucast (uDelayUs tk) * kMicro) (length (m_mapTasks s) + 1)"
    have "map_option (\<lambda>k. (s\<lparr>m_mapTasks := om_assign k
        \<lparr>task = tk, uTaskExecCount = 0, iTaskID = m_iNextTaskID s\<rparr> (m_mapTasks s),
        m_iNextTaskID := m_iNextTaskID s + 1\<rparr>, e, m_iNextTaskID s)) ?r = Some (c, e', i)"
      using assms False unfolding Some Sched_PostTask_def by (cases ?r) (simp_all only: Let_def option.simps if_False simp_thms de_Morgan_disj)
    with Some show ?thesis
      by (auto simp only: map_option_eq_Some prod.inject)
  qed
qed

lemma sched_inv_post:
  assumes inv: "sched_inv s" and p: "Sched_PostTask now throws pTask (sch s) e = Some (c, e', i)"
  shows "sched_inv (s\<lparr>sch := c,
      quota := (if i = kInvalidTaskID then quota s else (quota s)(i := task_quota (the pTask)))\<rparr>)"
    (is "sched_inv ?t")
proof (cases "c = sch s \<and> i = kInvalidTaskID")
  case True
  then have "?t = s"
    by simp
  with inv show ?thesis
    by metis
next
  case False
  let ?m = "m_mapTasks (sch s)" and ?n = "m_iNextTaskID (sch s)"
  from False PostTask_Some [OF p] obtain tk k where k: "next_free (map_uses ?m) (now + ucast (uDelayUs tk) * kMicro) (length ?m + 1) = Some k"
    and pT: "pTask = Some tk" and i: "i = ?n"
    and c: "c = (sch s)\<lparr>m_mapTasks := om_assign k \<lparr>task = tk, uTaskExecCount = 0, iTaskID = ?n\<rparr> ?m,
      m_iNextTaskID := ?n + 1\<rparr>"
    by blast
  note I = sched_invD [OF inv]
  have fresh: "k \<notin> fst ` set ?m"
    by (rule next_free_unused [OF I(1) k])
  have ne: "i \<noteq> kInvalidTaskID"
    using I(6) i by (simp add: kInvalidTaskID_def)
  have unrun: "count_list (ran_ids s) ?n = 0"
    using I(7) by (auto simp: count_list_0_iff)
  have m: "set (m_mapTasks c) = insert (k, \<lparr>task = tk, uTaskExecCount = 0, iTaskID = ?n\<rparr>) (set ?m)"
    using om_assign_set [OF I(1), of k] fresh by (force simp: c)
  have t: "sch ?t = c" "quota ?t = (quota s)(?n := task_quota tk)" "pend ?t = pend s"
    "execd ?t = execd s" "ran_ids ?t = ran_ids s" "m_iNextTaskID c = ?n + 1"
    using ne by (simp_all add: i pT c)
  have old: "iTaskID x < ?n" if "(j, x) \<in> set ?m" for j x
    using I(2) [OF that] by (simp add: entry_ok_def)
  have batch: "k \<notin> set (execd s)"
    using I(5) fresh by auto
  show ?thesis
  proof (rule sched_invI, goal_cases)
    case 1
    then show ?case
      using om_assign_valid [OF I(1)] by (simp only: t) (simp add: c)
  next
    case (2 j x)
    then consider "j = k" "x = \<lparr>task = tk, uTaskExecCount = 0, iTaskID = ?n\<rparr>" | "(j, x) \<in> set ?m"
      by (auto simp only: t m)
    then show ?case
    proof cases
      case 1
      then show ?thesis
        using I(6) unrun batch task_quota_pos [of tk] by (auto simp: entry_ok_def t)
    next
      case 2
      from I(2) [OF this] old [OF this] show ?thesis
        by (auto simp: entry_ok_def t)
    qed
  next
    case (3 j x j' x')
    then show ?case
      unfolding t m using I(3) [of j x j' x'] old [of j x] old [of j' x'] by auto
  next
    case 4
    then show ?case
      using I(4) by (simp only: t)
  next
    case 5
    then show ?case
      unfolding t m using I(5) by auto
  next
    case 6
    then show ?case
      using I(6) by (simp add: t)
  next
    case 7
    then show ?case
      unfolding t using I(7) by auto
  next
    case (8 j n)
    then show ?case
      unfolding t using I(8) [of j n] unrun task_quota_pos [of tk n] by (cases "j = ?n") auto
  qed
qed

lemma sched_inv_exec:
  assumes inv: "sched_inv s" and p: "pend s = k # ks" and r: "Run_exec k (sch s) = Some (c, x)"
  shows "sched_inv (s\<lparr>sch := c, pend := ks, execd := execd s @ [k], ran_ids := ran_ids s @ [iTaskID x]\<rparr>)"
    (is "sched_inv ?t")
proof -
  let ?m = "m_mapTasks (sch s)" and ?n = "m_iNextTaskID (sch s)"
  let ?x = "x\<lparr>uTaskExecCount := uTaskExecCount x + 1\<rparr>"
  note I = sched_invD [OF inv]
  have x: "(k, x) \<in> set ?m" and c: "c = (sch s)\<lparr>m_mapTasks := om_assign k ?x ?m\<rparr>"
    using r om_find_set [OF I(1)] by (auto simp: Run_exec_def split: option.splits)
  have m: "set (m_mapTasks c) = insert (k, ?x) {jy \<in> set ?m. fst jy \<noteq> k}"
    using om_assign_set [OF I(1), of k] by (simp add: c)
  have t: "sch ?t = c" "quota ?t = quota s" "pend ?t = ks"
    "execd ?t = execd s @ [k]" "ran_ids ?t = ran_ids s @ [iTaskID x]" "m_iNextTaskID c = ?n"
    by (simp_all add: c)
  have kx: "k \<notin> set (execd s)"
    using I(4) p by auto
  note ok = I(2) [OF x]
  show ?thesis
  proof (rule sched_invI, goal_cases)
    case 1
    then show ?case
      using om_assign_valid [OF I(1)] by (simp only: t) (simp add: c)
  next
    case (2 j y)
    then consider "j = k" "y = ?x" | "(j, y) \<in> set ?m" "j \<noteq> k"
      unfolding t m by auto
    then show ?case
    proof cases
      case 1
      with ok kx show ?thesis
        by (auto simp: entry_ok_def t)
    next
      case 2
      then have "iTaskID x \<noteq> iTaskID y"
        using I(3) [OF x 2(1)] by auto
      with I(2) [OF 2(1)] 2(2) show ?thesis
        by (auto simp: entry_ok_def t)
    qed
  next
    case (3 j y j' y')
    then show ?case
      unfolding t m using I(3) [of j y j' y'] I(3) [OF x, of j y] I(3) [OF x, of j' y'] by auto
  next
    case 4
    then show ?case
      using I(4) unfolding t p by auto
  next
    case 5
    then show ?case
      unfolding t m using I(5) p by force
  next
    case 6
    then show ?case
      using I(6) by (simp add: t)
  next
    case 7
    then show ?case
      unfolding t using I(7) ok by (auto simp: entry_ok_def)
  next
    case (8 j n)
    then have q: "quota s j = Some n"
      by (simp add: t)
    show ?case
      unfolding t using I(8) [OF q] ok kx q by (cases "j = iTaskID x") (auto simp: entry_ok_def)
  qed
qed

lemma Run_finish_Some:
  assumes v: "om_valid (m_mapTasks s)" and r: "Run_finish now throws k s = Some c"
  obtains x x' where "(k, x) \<in> set (m_mapTasks s)" "x' = set_flags (\<lambda>f. f AND NOT kTaskRunning) x"
    "m_iNextTaskID c = m_iNextTaskID s" "om_valid (m_mapTasks c)"
    "set (m_mapTasks c) = {jy \<in> set (m_mapTasks s). fst jy \<noteq> k} \<or>
     (\<exists>j. j \<notin> fst ` set (m_mapTasks s) \<and>
        (eTaskType (task x') = kRunPeriodic \<or> uTaskExecCount x' < uint (uTaskExecTimes (task x'))) \<and>
        set (m_mapTasks c) = insert (j, x') {jy \<in> set (m_mapTasks s). fst jy \<noteq> k})"
proof -
  obtain x where x0: "om_find k (m_mapTasks s) = Some x"
    using r by (auto simp: Run_finish_def split: option.splits)
  then have x: "(k, x) \<in> set (m_mapTasks s)"
    using om_find_set [OF v] by simp
  define x' where "x' = set_flags (\<lambda>f. f AND NOT kTaskRunning) x"
  define m where "m = om_assign k x' (m_mapTasks s)"
  define rest where "rest = {jy \<in> set (m_mapTasks s). fst jy \<noteq> k}"
  have m_valid: "om_valid m" and m_set: "set m = insert (k, x') rest"
    using om_assign_valid [OF v] om_assign_set [OF v, of k] by (simp_all add: m_def rest_def)
  have m_keys: "fst ` set m = fst ` set (m_mapTasks s)"
    using x by (force simp: m_set rest_def)
  have no_k: "k \<notin> fst ` rest"
    by (auto simp: rest_def)
  have erased: "set (om_erase k n) = {jy \<in> set n. fst jy \<noteq> k}" for n :: "('a, 'b) task_map"
    by (auto simp: om_erase_def)
  have dropped: "om_valid (om_erase k m) \<and> set (om_erase k m) = rest"
    using om_erase_valid [OF m_valid] by (auto simp: erased m_set rest_def)
  show thesis
  proof (cases "(eTaskType (task x') = kRunPeriodic \<or> uTaskExecCount x' < uint (uTaskExecTimes (task x'))) \<and> \<not> throws")
    case True
    with r x0 obtain j where j: "next_free (map_uses m) (now + ucast (uIntervalUs (task x')) * kMicro) (length m + 1) = Some j"
      and c: "c = s\<lparr>m_mapTasks := om_erase k (om_assign j x' m)\<rparr>"
      by (auto simp: Run_finish_def Let_def x'_def [symmetric] m_def [symmetric] split: option.split_asm)
    have jm: "j \<notin> fst ` set m"
      by (rule next_free_unused [OF m_valid j])
    have "set (om_erase k (om_assign j x' m)) = insert (j, x') rest"
      using om_assign_set [OF m_valid, of j x'] jm by (auto simp: erased m_set rest_def)
    then show thesis
      using True jm by (intro that [OF x x'_def])
        (auto simp: c om_erase_valid om_assign_valid m_valid m_keys rest_def)
  next
    case False
    with r x0 have "c = s\<lparr>m_mapTasks := om_erase k m\<rparr>"
      by (auto simp: Run_finish_def Let_def x'_def [symmetric] m_def [symmetric] split: option.split_asm if_split_asm)
    with dropped show thesis
      by (intro that [OF x x'_def]) (simp_all add: rest_def)
  qed
qed

lemma sched_inv_finish:
  assumes inv: "sched_inv s" and p: "pend s = []" "execd s = k # ks"
    and r: "Run_finish now throws k (sch s) = Some c"
  shows "sched_inv (s\<lparr>sch := c, execd := ks\<rparr>)" (is "sched_inv ?t")
proof -
  let ?m = "m_mapTasks (sch s)" and ?n = "m_iNextTaskID (sch s)"
  note I = sched_invD [OF inv]
  define rest where "rest = {jy \<in> set ?m. fst jy \<noteq> k}"
  obtain x x' where x: "(k, x) \<in> set ?m" and x'_def: "x' = set_flags (\<lambda>f. f AND NOT kTaskRunning) x"
    and base: "m_iNextTaskID c = ?n" "om_valid (m_mapTasks c)"
    and entries: "set (m_mapTasks c) = rest \<or> (\<exists>j. j \<notin> fst ` set ?m \<and>
      (eTaskType (task x') = kRunPeriodic \<or> uTaskExecCount x' < uint (uTaskExecTimes (task x'))) \<and>
      set (m_mapTasks c) = insert (j, x') rest)"
    using Run_finish_Some [OF I(1) r] unfolding rest_def by blast
  let ?again = "eTaskType (task x') = kRunPeriodic \<or> uTaskExecCount x' < uint (uTaskExecTimes (task x'))"
  note cases = base entries
  have t: "sch ?t = c" "quota ?t = quota s" "pend ?t = pend s"
    "execd ?t = ks" "ran_ids ?t = ran_ids s" "m_iNextTaskID c = ?n"
    using cases by simp_all
  have sub: "\<exists>j' y'. (j', y') \<in> set ?m \<and> iTaskID y' = iTaskID y \<and>
      (j = j' \<and> y = y' \<and> j \<noteq> k \<or> j' = k \<and> y = x' \<and> j \<notin> fst ` set ?m \<and> ?again)"
    if "(j, y) \<in> set (m_mapTasks c)" for j y
  proof -
    from entries that consider "(j, y) \<in> rest" | "y = x'" "j \<notin> fst ` set ?m" ?again
      by (elim disjE exE conjE) auto
    then show ?thesis
    proof cases
      case 1
      then show ?thesis
        by (intro exI [of _ j] exI [of _ y]) (simp add: rest_def)
    next
      case 2
      with x show ?thesis
        by (intro exI [of _ k] exI [of _ x]) (simp add: x'_def)
    qed
  qed
  have fresh_unique: "a = b"
    if "(a, u) \<in> set (m_mapTasks c)" "(b, v) \<in> set (m_mapTasks c)" "a \<notin> fst ` set ?m" "b \<notin> fst ` set ?m"
    for a u b v
  proof -
    have "(a, u) \<notin> rest" "(b, v) \<notin> rest"
      using that(3,4) unfolding rest_def by force+
    with entries that(1,2) show ?thesis
      by (elim disjE exE conjE) auto
  qed
  have ks: "k \<notin> set ks" "set ks \<subseteq> fst ` set ?m" "distinct ks"
    using I(4,5) p by auto
  note ok = I(2) [OF x]
  show ?thesis
  proof (rule sched_invI, goal_cases)
    case 1
    then show ?case
      using cases by (simp only: t)
  next
    case (2 j y)
    then have "(j, y) \<in> set (m_mapTasks c)"
      by (simp only: t)
    from sub [OF this] obtain j' y' where y': "(j', y') \<in> set ?m"
      and "j = j' \<and> y = y' \<and> j \<noteq> k \<or> j' = k \<and> y = x' \<and> j \<notin> fst ` set ?m \<and> ?again"
      by blast
    then consider "j = j'" "y = y'" "j \<noteq> k" | "y = x'" "j \<notin> fst ` set ?m" ?again
      by blast
    then show ?case
    proof cases
      case 1
      with I(2) [OF y'] show ?thesis
        by (auto simp: entry_ok_def t p)
    next
      case 2
      then have "\<And>n. task_quota (task x) = Some n \<Longrightarrow> uTaskExecCount x < n"
        by (auto simp: task_quota_def x'_def split: if_splits)
      then show ?thesis
        using ok unfolding entry_ok_def t by (auto simp: 2(1) x'_def)
    qed
  next
    case (3 j y j' y')
    then have "(j, y) \<in> set (m_mapTasks c)" "(j', y') \<in> set (m_mapTasks c)"
      by (simp_all only: t)
    from sub [OF this(1)] sub [OF this(2)] obtain i z i' z' where z: "(i, z) \<in> set ?m" "iTaskID z = iTaskID y"
      "j = i \<and> y = z \<and> j \<noteq> k \<or> i = k \<and> j \<notin> fst ` set ?m"
      and z': "(i', z') \<in> set ?m" "iTaskID z' = iTaskID y'"
      "j' = i' \<and> y' = z' \<and> j' \<noteq> k \<or> i' = k \<and> j' \<notin> fst ` set ?m"
      by blast
    have "i = i'"
      using I(3) [OF z(1) z'(1)] z(2) z'(2) 3(3) by simp
    moreover have "j = j'" if "i = k" "i' = k"
      using fresh_unique [OF \<open>(j, y) \<in> set (m_mapTasks c)\<close> \<open>(j', y') \<in> set (m_mapTasks c)\<close>]
        that z(3) z'(3) by blast
    ultimately show ?case
      using z(3) z'(3) by blast
  next
    case 4
    then show ?case
      using ks by (simp add: t p)
  next
    case 5
    have "set ks \<subseteq> fst ` rest"
      using ks unfolding rest_def by force
    then show ?case
      using cases by (auto simp: t p)
  next
    case 6
    then show ?case
      using I(6) by (simp add: t)
  next
    case 7
    then show ?case
      unfolding t using I(7) .
  next
    case (8 j n)
    then show ?case
      using I(8) [of j n] by (simp only: t)
  qed
qed

lemma sched_inv_step:
  assumes "sched_step s t" "sched_inv s"
  shows "sched_inv t"
  using assms(1)
proof cases
  case (post now throws pTask e c e' i)
  with sched_inv_post [OF assms(2) post(2)] show ?thesis
    by simp
next
  case (cancel i e c e' r)
  show ?thesis
  proof (cases "cancel_loop i (m_mapTasks (sch s))")
    case None
    with cancel have "t = s"
      by (simp add: Sched_CancleTask_def)
    with assms(2) show ?thesis
      by simp
  next
    case (Some m)
    with cancel have c: "c = (sch s)\<lparr>m_mapTasks := m\<rparr>"
      by (simp add: Sched_CancleTask_def)
    note keys = cancel_loop_keys [OF Some]
    have "fst ` set m = fst ` set (m_mapTasks (sch s))"
      using arg_cong [OF keys, of set] by simp
    then have "sched_inv (s\<lparr>sch := c, pend := pend s\<rparr>)"
      using sched_invD(1,4,5) [OF assms(2)] cancel_loop_flags_only [OF Some] keys
      by (intro sched_inv_flags_only [OF assms(2)]) (simp_all add: c om_valid_def)
    with cancel show ?thesis
      by simp
  qed
next
  case (collect now c ks)
  then obtain m where m: "collect_loop now uBatchTask (m_mapTasks (sch s)) = (m, ks)"
    "c = (sch s)\<lparr>m_mapTasks := m\<rparr>"
    by (auto simp: Run_collect_def split: prod.splits)
  have "sched_inv (s\<lparr>sch := c, pend := ks\<rparr>)"
    using collect_loop_spec [OF m(1) sched_invD(1) [OF assms(2)]] collect
    by (intro sched_inv_flags_only [OF assms(2)]) (simp_all add: m(2))
  with collect show ?thesis
    by simp
next
  case (exec k ks c x)
  with sched_inv_exec [OF assms(2) exec(2,3)] show ?thesis
    by simp
next
  case (finish k ks now throws c)
  with sched_inv_finish [OF assms(2) finish(2,3,4)] show ?thesis
    by simp
qed

lemma sched_inv_reachable: "sched_step\<^sup>*\<^sup>* s t \<Longrightarrow> sched_inv s \<Longrightarrow> sched_inv t"
  by (induction rule: rtranclp_induct) (auto intro: sched_inv_step)

section \<open>Consequences\<close>

lemma task_ids_stable:
  assumes "sched_step s t" "sched_inv s" "i < m_iNextTaskID (sch s)"
  shows "quota t i = quota s i \<and> i < m_iNextTaskID (sch t)"
  using assms(1)
proof cases
  case (post now throws pTask e c e' j)
  from PostTask_Some [OF post(2)] assms(3) show ?thesis
    by (auto simp: post(1))
qed (use assms(3) in \<open>auto simp: Sched_CancleTask_def Run_collect_def Run_exec_def Run_finish_def Let_def
    split: option.split_asm prod.split_asm if_split_asm\<close>)

lemma task_ids_stable_reachable:
  assumes "sched_step\<^sup>*\<^sup>* s t" "sched_inv s" "i < m_iNextTaskID (sch s)"
  shows "quota t i = quota s i \<and> i < m_iNextTaskID (sch t)"
  using assms(1)
proof (induction rule: rtranclp_induct)
  case (step t u)
  with task_ids_stable [OF step(2) sched_inv_reachable [OF step(1) assms(2)]] show ?case
    by simp
qed (simp add: assms(3))

text \<open>A task that is cancelled while it is in no batch.\<close>

definition retired :: "int \<Rightarrow> ('f, 'c) sched_sys \<Rightarrow> bool" where
  "retired i s \<longleftrightarrow> i < m_iNextTaskID (sch s) \<and>
     (\<forall>k x. (k, x) \<in> set (m_mapTasks (sch s)) \<longrightarrow> iTaskID x = i \<longrightarrow>
        uTaskFlags (task x) AND kTaskCancel \<noteq> 0 \<and> k \<notin> set (pend s))"

lemma retiredD:
  "retired i s \<Longrightarrow> (k, x) \<in> set (m_mapTasks (sch s)) \<Longrightarrow> iTaskID x = i \<Longrightarrow>
     uTaskFlags (task x) AND kTaskCancel \<noteq> 0 \<and> k \<notin> set (pend s)"
  by (simp add: retired_def)

lemma cancel_or_keeps: "f AND kTaskCancel \<noteq> 0 \<Longrightarrow> (f OR g) AND kTaskCancel \<noteq> 0" for f g :: uint16_t
  by (metis and_zero_eq word_bw_comms(1) word_ao_absorbs(2) bit.conj_disj_distrib2 or_eq_0_iff)

lemma cancel_not_running_keeps: "(f AND NOT kTaskRunning) AND kTaskCancel = f AND kTaskCancel"
  by (rule bit_eqI) (auto simp: bit_simps kTaskRunning_def kTaskCancel_def numeral_2_eq_2)

lemma collect_loop_entries:
  "(k, y) \<in> set (fst (collect_loop now n m)) \<Longrightarrow>
     \<exists>x. (k, x) \<in> set m \<and> (y = x \<or> y = set_flags (\<lambda>f. f OR kTaskRunning) x)"
proof (induction now n m rule: collect_loop.induct)
  case (2 now n j z m)
  show ?case
  proof (cases "uTaskFlags (task z) AND kTaskCancel \<noteq> 0")
    case True
    with 2 show ?thesis
      by auto
  next
    case False
    note IH = 2(2) [OF False _ refl]
    from 2(3) False show ?thesis
      by (cases "j > now"; cases "n \<le> 1")
        (auto simp: Let_def split: prod.splits dest!: IH)
  qed
qed simp

lemma retired_cancel:
  assumes "sched_inv s" "Sched_CancleTask i (sch s) e = (c, e', kSuccess)"
    and batch: "\<And>k x. k \<in> set (pend s) \<Longrightarrow> om_find k (m_mapTasks (sch s)) = Some x \<Longrightarrow> iTaskID x \<noteq> i"
  shows "retired i (s\<lparr>sch := c\<rparr>)"
proof -
  note I = sched_invD [OF assms(1)]
  obtain m where m: "cancel_loop i (m_mapTasks (sch s)) = Some m" and c: "c = (sch s)\<lparr>m_mapTasks := m\<rparr>"
    using assms(2) by (auto simp: Sched_CancleTask_def split: option.split_asm)
  obtain xs k x ys where old: "m_mapTasks (sch s) = xs @ (k, x) # ys" "iTaskID x = i"
    and new: "m = xs @ (k, set_flags (\<lambda>f. f OR kTaskCancel) x) # ys"
    using cancel_loop_Some [OF m] by blast
  have entry: "j = k \<and> y = set_flags (\<lambda>f. f OR kTaskCancel) x" if "(j, y) \<in> set m" "iTaskID y = i" for j y
  proof (rule ccontr)
    assume other: "\<not> ?thesis"
    with that(1) have "(j, y) \<in> set xs \<union> set ys"
      by (auto simp: new)
    moreover have "j = k"
      using I(3) [of j y k x] calculation that(2) old by auto
    ultimately show False
      using I(1) by (auto simp: old(1) om_valid_def sorted_wrt_append)
  qed
  have kx: "(k, x) \<in> set (m_mapTasks (sch s))"
    by (simp add: old)
  have "k \<notin> set (pend s)"
    using batch [of k x] om_find_set [OF I(1)] kx old(2) by auto
  moreover have "i < m_iNextTaskID (sch s)"
    using I(2) [OF kx] by (simp add: entry_ok_def old(2))
  moreover have "uTaskFlags (task y) AND kTaskCancel \<noteq> 0 \<and> j = k" if "(j, y) \<in> set m" "iTaskID y = i" for j y
    using entry [OF that] by simp
  ultimately show ?thesis
    unfolding retired_def by (simp add: c) blast
qed

lemma retired_step:
  assumes "sched_step s t" "sched_inv s" "retired i s"
  shows "retired i t \<and> count_list (ran_ids t) i = count_list (ran_ids s) i"
  using assms(1)
proof cases
  case (post now throws pTask e c e' j)
  have next_id: "i < m_iNextTaskID (sch s)"
    using assms(3) by (simp add: retired_def)
  from PostTask_Some [OF post(2)] show ?thesis
  proof (elim disjE exE conjE)
    assume "c = sch s"
    with assms(3) show ?thesis
      by (simp add: post(1) retired_def)
  next
    fix tk k
    assume c: "c = (sch s)\<lparr>m_mapTasks := om_assign k \<lparr>task = tk, uTaskExecCount = 0, iTaskID = m_iNextTaskID (sch s)\<rparr> (m_mapTasks (sch s)),
         m_iNextTaskID := m_iNextTaskID (sch s) + 1\<rparr>"
    show ?thesis
      using assms(3) next_id om_assign_set [OF sched_invD(1) [OF assms(2)], of k]
      by (auto simp: post(1) retired_def c)
  qed
next
  case (cancel j e c e' r)
  show ?thesis
  proof (cases "cancel_loop j (m_mapTasks (sch s))")
    case None
    with cancel have "sch t = sch s" "pend t = pend s" "ran_ids t = ran_ids s"
      by (auto simp: Sched_CancleTask_def)
    with assms(3) show ?thesis
      by (simp add: retired_def)
  next
    case (Some m)
    with cancel have c: "c = (sch s)\<lparr>m_mapTasks := m\<rparr>"
      by (simp add: Sched_CancleTask_def)
    have "uTaskFlags (task y) AND kTaskCancel \<noteq> 0 \<and> k \<notin> set (pend s)"
      if y: "(k, y) \<in> set m" "iTaskID y = i" for k y
    proof -
      obtain x where x: "(k, x) \<in> set (m_mapTasks (sch s))"
        "y = x \<or> y = set_flags (\<lambda>f. f OR kTaskCancel) x"
        using cancel_loop_entries [OF Some y(1)] by blast
      with y(2) have "iTaskID x = i"
        by auto
      from retiredD [OF assms(3) x(1) this] x(2) show ?thesis
        by (auto simp: cancel_or_keeps)
    qed
    with assms(3) show ?thesis
      by (simp add: cancel(1) c retired_def)
  qed
next
  case (collect now c ks)
  then obtain m where m: "collect_loop now uBatchTask (m_mapTasks (sch s)) = (m, ks)"
    "c = (sch s)\<lparr>m_mapTasks := m\<rparr>"
    by (auto simp: Run_collect_def split: prod.splits)
  have "uTaskFlags (task y) AND kTaskCancel \<noteq> 0 \<and> k \<notin> set ks"
    if y: "(k, y) \<in> set m" "iTaskID y = i" for k y
  proof -
    obtain x where x: "(k, x) \<in> set (m_mapTasks (sch s))"
      "y = x \<or> y = set_flags (\<lambda>f. f OR kTaskRunning) x"
      using collect_loop_entries [of k y now uBatchTask "m_mapTasks (sch s)"] y(1) m(1) by auto
    with y(2) have "iTaskID x = i"
      by auto
    note r = retiredD [OF assms(3) x(1) this]
    have "k \<notin> set ks"
    proof
      assume "k \<in> set ks"
      then obtain z where z: "(k, z) \<in> set (m_mapTasks (sch s))" "uTaskFlags (task z) AND kTaskCancel = 0"
        using collect_loop_spec [OF m(1) sched_invD(1) [OF assms(2)]] by blast
      have "z = x"
        by (rule om.entries_functional [OF sched_invD(1) [OF assms(2)] z(1) x(1)])
      with z(2) r show False
        by simp
    qed
    with r x(2) show ?thesis
      by (auto simp: cancel_or_keeps)
  qed
  with assms(3) show ?thesis
    by (simp add: collect(1) m(2) retired_def)
next
  case (exec k ks c x)
  have x: "(k, x) \<in> set (m_mapTasks (sch s))" and c: "c = (sch s)\<lparr>m_mapTasks := om_assign k
      (x\<lparr>uTaskExecCount := uTaskExecCount x + 1\<rparr>) (m_mapTasks (sch s))\<rparr>"
    using exec(3) om_find_set [OF sched_invD(1) [OF assms(2)]] by (auto simp: Run_exec_def split: option.splits)
  have "iTaskID x \<noteq> i"
    using retiredD [OF assms(3) x] exec(2) by auto
  with assms(3) show ?thesis
    using om_assign_set [OF sched_invD(1) [OF assms(2)], of k] exec(2)
    by (auto simp: exec(1) retired_def c)
next
  case (finish k ks now throws c)
  note v = sched_invD(1) [OF assms(2)]
  obtain x x' where x: "(k, x) \<in> set (m_mapTasks (sch s))"
    and x': "x' = set_flags (\<lambda>f. f AND NOT kTaskRunning) x"
    and n: "m_iNextTaskID c = m_iNextTaskID (sch s)"
    and entries: "set (m_mapTasks c) = {jy \<in> set (m_mapTasks (sch s)). fst jy \<noteq> k} \<or>
      (\<exists>j. j \<notin> fst ` set (m_mapTasks (sch s)) \<and>
        (eTaskType (task x') = kRunPeriodic \<or> uTaskExecCount x' < uint (uTaskExecTimes (task x'))) \<and>
        set (m_mapTasks c) = insert (j, x') {jy \<in> set (m_mapTasks (sch s)). fst jy \<noteq> k})"
    by (rule Run_finish_Some [OF v finish(4)])
  have "uTaskFlags (task y) AND kTaskCancel \<noteq> 0" if y: "(j, y) \<in> set (m_mapTasks c)" "iTaskID y = i" for j y
  proof -
    from entries y(1) consider "(j, y) \<in> set (m_mapTasks (sch s))" | "y = x'"
      by (elim disjE exE conjE) auto
    then show ?thesis
    proof cases
      case 1
      from retiredD [OF assms(3) 1 y(2)] show ?thesis ..
    next
      case 2
      with y(2) have "iTaskID x = i"
        by (simp add: x')
      from retiredD [OF assms(3) x this] show ?thesis
        by (simp add: 2 x' cancel_not_running_keeps)
    qed
  qed
  with assms(3) finish(2) show ?thesis
    by (simp add: finish(1) n retired_def)
qed

lemma retired_reachable:
  assumes "sched_step\<^sup>*\<^sup>* s t" "sched_inv s" "retired i s"
  shows "retired i t \<and> count_list (ran_ids t) i = count_list (ran_ids s) i"
  using assms(1)
proof (induction rule: rtranclp_induct)
  case (step t u)
  with retired_step [OF step(2) sched_inv_reachable [OF step(1) assms(2)]] show ?case
    by simp
qed (simp add: assms(3))

section \<open>Properties\<close>

lemma batch_found:
  assumes "sched_inv s" "k \<in> set (pend s) \<union> set (execd s)"
  shows "om_find k (m_mapTasks (sch s)) \<noteq> None"
  using sched_invD(5) [OF assms(1)] assms(2) om.find_none [OF sched_invD(1) [OF assms(1)], of k] by auto

lemma exec_defined:
  assumes "sched_inv s" "k \<in> set (pend s)"
  shows "Run_exec k (sch s) \<noteq> None"
  using batch_found [OF assms(1), of k] assms(2) by (auto simp: Run_exec_def split: option.split)

lemma finish_defined:
  assumes inv: "sched_inv s" and small: "length (m_mapTasks (sch s)) < 2 ^ 64" and k: "k \<in> set (execd s)"
  shows "Run_finish now throws k (sch s) \<noteq> None"
proof -
  let ?m = "m_mapTasks (sch s)"
  note I = sched_invD [OF inv]
  obtain x where x: "om_find k ?m = Some x"
    using batch_found [OF inv, of k] k by auto
  define m where "m = om_assign k (set_flags (\<lambda>f. f AND NOT kTaskRunning) x) ?m"
  have v: "om_valid m"
    unfolding m_def by (rule om_assign_valid [OF I(1)])
  have "fst ` set m = fst ` set ?m"
    using x om_find_set [OF I(1)] by (force simp: m_def om_assign_set [OF I(1)])
  then have "length m < 2 ^ 64"
    using small om.card_keys [OF v] om.card_keys [OF I(1)] by simp
  from next_free_map [OF v this] obtain j where "next_free (map_uses m)
      (now + ucast (uIntervalUs (task x)) * kMicro) (length m + 1) = Some j"
    by blast
  then show ?thesis
    using x by (simp add: Run_finish_def Let_def m_def)
qed

text \<open>
  C8: a batch never holds a dangling node. In every reachable state each node that still has to be
  executed, and each node that still has to be finished, is in the map (with fewer than \<open>2^64\<close>
  tasks the search for the next key ends as well), whatever was posted and cancelled in between.
\<close>

theorem batch_nodes_alive:
  assumes "sched_step\<^sup>*\<^sup>* sched_init s"
  shows "(\<forall>k \<in> set (pend s). Run_exec k (sch s) \<noteq> None) \<and>
    (length (m_mapTasks (sch s)) < 2 ^ 64 \<longrightarrow>
      (\<forall>k \<in> set (execd s). \<forall>now throws. Run_finish now throws k (sch s) \<noteq> None))"
  using exec_defined finish_defined sched_inv_reachable [OF assms sched_inv_init] by blast

text \<open>
  C5: a task with a fixed count that was accepted under the id \<open>i\<close> is never executed more often than
  its count asks (a count of zero is executed once), whatever happens after it was posted.
\<close>

theorem fixed_count_respected:
  assumes "sched_step\<^sup>*\<^sup>* sched_init s"
    and "Sched_PostTask now throws (Some tk) (sch s) e = Some (c, e', i)" "i \<noteq> kInvalidTaskID"
    and "eTaskType tk = kRunFixedCount"
    and "sched_step\<^sup>*\<^sup>* (s\<lparr>sch := c, quota := (quota s)(i := task_quota tk)\<rparr>) t"
  shows "int (count_list (ran_ids t) i) \<le> max 1 (uint (uTaskExecTimes tk))"
proof -
  let ?p = "s\<lparr>sch := c, quota := (quota s)(i := task_quota tk)\<rparr>"
  have inv: "sched_inv ?p"
    using sched_inv_post [OF sched_inv_reachable [OF assms(1) sched_inv_init] assms(2)] assms(3) by simp
  have "i < m_iNextTaskID (sch ?p)"
    using PostTask_Some [OF assms(2)] assms(3) by auto
  from task_ids_stable_reachable [OF assms(5) inv this] have "quota t i = task_quota tk"
    by simp
  also have "\<dots> = Some (max 1 (uint (uTaskExecTimes tk)))"
    using assms(4) by (simp add: task_quota_def)
  finally show ?thesis
    using sched_invD(8) [OF sched_inv_reachable [OF assms(5) inv]] by blast
qed

text \<open>
  C7: once \<open>CancleTask\<close> has succeeded on a task that is not in the batch being executed, the task is
  never executed again.
\<close>

theorem cancelled_never_runs:
  assumes "sched_step\<^sup>*\<^sup>* sched_init s" "Sched_CancleTask i (sch s) e = (c, e', kSuccess)"
    and "\<forall>k \<in> set (pend s). \<forall>x. om_find k (m_mapTasks (sch s)) = Some x \<longrightarrow> iTaskID x \<noteq> i"
    and "sched_step\<^sup>*\<^sup>* (s\<lparr>sch := c\<rparr>) t"
  shows "count_list (ran_ids t) i = count_list (ran_ids s) i"
proof -
  note inv = sched_inv_reachable [OF assms(1) sched_inv_init]
  have "retired i (s\<lparr>sch := c\<rparr>)"
    by (rule retired_cancel [OF inv assms(2)]) (use assms(3) in blast)
  from retired_reachable [OF assms(4) sched_inv_step [OF sched_step.cancel [OF assms(2)] inv] this]
  show ?thesis
    by simp
qed

text \<open>
  C18: \<open>PostTask\<close> of a well-formed task, in every state that the scheduler reaches while its map has
  fewer than 2^64 entries. The task gets one new node under the next id, at the first free key from
  its due time on: every earlier key from the due time is in use. The node is the only change to
  the map and the next id the only other change to the scheduler. If the insertion throws, nothing
  changes and the id is \<open>kInvalidTaskID\<close>.
\<close>

theorem post_task_schedules:
  assumes "sched_step\<^sup>*\<^sup>* sched_init s" "length (m_mapTasks (sch s)) < 2 ^ 64"
    and "pTaskName tk \<noteq> nullptr" "pTaskFunc tk \<noteq> nullptr" "eVersion tk = kVersion"
  shows "\<exists>n \<le> length (m_mapTasks (sch s)).
    (let m = m_mapTasks (sch s); due = now + ucast (uDelayUs tk) * kMicro; k = due + of_nat n;
         x = \<lparr>task = tk, uTaskExecCount = 0, iTaskID = m_iNextTaskID (sch s)\<rparr> in
       (\<forall>i<n. om_find (due + of_nat i) m \<noteq> None) \<and> om_find k m = None \<and>
       (\<forall>j. om_find j (om_assign k x m) = (if j = k then Some x else om_find j m)) \<and>
       Sched_PostTask now throws (Some tk) (sch s) e =
         Some (if throws then (sch s, SetLastError kThrowException e, kInvalidTaskID)
           else ((sch s)\<lparr>m_mapTasks := om_assign k x m, m_iNextTaskID := m_iNextTaskID (sch s) + 1\<rparr>,
             e, m_iNextTaskID (sch s))))"
proof -
  let ?m = "m_mapTasks (sch s)" and ?due = "now + ucast (uDelayUs tk) * kMicro"
  let ?x = "\<lparr>task = tk, uTaskExecCount = 0, iTaskID = m_iNextTaskID (sch s)\<rparr>"
  note I = sched_invD [OF sched_inv_reachable [OF assms(1) sched_inv_init]]
  obtain k where k: "next_free (map_uses ?m) ?due (length ?m + 1) = Some k" "k \<notin> fst ` set ?m"
    using next_free_map [OF I(1) assms(2)] by blast
  obtain n where n: "n < length ?m + 1" "k = ?due + of_nat n" "\<forall>i<n. map_uses ?m (?due + of_nat i)"
    using next_free_first [OF k(1)] by blast
  have "Sched_PostTask now throws (Some tk) (sch s) e =
      Some (if throws then (sch s, SetLastError kThrowException e, kInvalidTaskID)
        else ((sch s)\<lparr>m_mapTasks := om_assign k ?x ?m, m_iNextTaskID := m_iNextTaskID (sch s) + 1\<rparr>,
          e, m_iNextTaskID (sch s)))"
    unfolding Sched_PostTask_def Let_def option.case k(1) using assms(3-5) by (simp del: not_None_eq)
  moreover have "om_find k ?m = None"
    using om.find_none [OF I(1)] k(2) by simp
  moreover have "\<forall>j. om_find j (om_assign k ?x ?m) = (if j = k then Some ?x else om_find j ?m)"
    using om.find_assign [OF I(1)] by simp
  ultimately show ?thesis
    using n(1,3) unfolding Let_def n(2) map_uses_def by (intro exI [of _ n]) simp
qed

text \<open>
  C17: a round of \<open>Run\<close> takes exactly the tasks that are due and not cancelled, in the order of their
  times and at most 16 of them; each of them is at a key not later than the time of the round.
\<close>

theorem run_collects_due_tasks:
  assumes "sched_step\<^sup>*\<^sup>* sched_init s" "Run_collect now (sch s) = (c, ks)"
  shows "ks = take 16 (map fst (filter (due now) (m_mapTasks (sch s)))) \<and> sorted ks \<and> distinct ks \<and>
    (\<forall>k \<in> set ks. k \<le> now)"
proof -
  note I = sched_invD [OF sched_inv_reachable [OF assms(1) sched_inv_init]]
  have ks: "ks = take 16 (map fst (filter (due now) (m_mapTasks (sch s))))"
    using assms(2) collect_loop_batch [OF I(1), of uBatchTask now]
    by (auto simp: Run_collect_def uBatchTask_def split: prod.splits)
  have "sorted_wrt (<) (map fst (filter (due now) (m_mapTasks (sch s))))"
    using I(1) by (simp add: om_valid_def sorted_wrt_map sorted_wrt_filter)
  then have "sorted_wrt (<) ks"
    unfolding ks by (rule sorted_wrt_take)
  then have "sorted ks \<and> distinct ks"
    by (simp add: strict_sorted_iff)
  moreover have "\<forall>k \<in> set ks. k \<le> now"
    unfolding ks by (auto simp: due_def dest!: in_set_takeD)
  ultimately show ?thesis
    using ks by blast
qed

section \<open>A concrete run\<close>

text \<open>A task that is to run once is posted at time 5 without a delay; a round at time 9 takes it.\<close>

definition demo_task :: "(nat, unit) Task" where
  "demo_task = once_task (Some ''t'') (Some 0) () 0"

definition demo_posted :: "(nat, unit) CTaskSchedulerImpl" where
  "demo_posted = CTaskSchedulerImpl_default\<lparr>m_mapTasks := [(5, \<lparr>task = demo_task, uTaskExecCount = 0, iTaskID = 0\<rparr>)],
     m_iNextTaskID := 1\<rparr>"

definition demo_collected :: "(nat, unit) CTaskSchedulerImpl" where
  "demo_collected = demo_posted\<lparr>m_mapTasks := [(5, \<lparr>task = demo_task\<lparr>uTaskFlags := kTaskRunning\<rparr>,
     uTaskExecCount = 0, iTaskID = 0\<rparr>)]\<rparr>"

definition demo_quota :: "int \<Rightarrow> int option" where
  "demo_quota = (\<lambda>_. None)(0 := Some 1)"

lemma demo_post:
  "Sched_PostTask 5 False (Some demo_task) CTaskSchedulerImpl_default e = Some (demo_posted, e, 0)"
  by (simp add: Sched_PostTask_def demo_posted_def demo_task_def once_task_def kVersion_def kMicro_def
      map_uses_def CTaskSchedulerImpl_default_def)

lemma demo_fields:
  "task_quota demo_task = Some 1" "pTaskName demo_task \<noteq> nullptr" "pTaskFunc demo_task \<noteq> nullptr"
  "eVersion demo_task = kVersion" "eTaskType demo_task = kRunFixedCount" "uTaskExecTimes demo_task = 1"
  "uTaskFlags demo_task = 0" "uDelayUs demo_task = 0"
  by (simp_all add: demo_task_def once_task_def task_quota_def)

lemma demo_reach_posted: "sched_step\<^sup>*\<^sup>* sched_init (sched_init\<lparr>sch := demo_posted, quota := demo_quota\<rparr>)"
proof -
  have "sched_step (sched_init :: (nat, unit) sched_sys) (sched_init\<lparr>sch := demo_posted, quota := demo_quota\<rparr>)"
    using sched_step.post [of 5 False "Some demo_task" "sched_init :: (nat, unit) sched_sys" kSuccess demo_posted kSuccess 0]
      demo_post [of kSuccess]
    by (simp add: sched_init_def demo_fields demo_quota_def kInvalidTaskID_def)
  then show ?thesis
    by (rule r_into_rtranclp)
qed

lemma demo_collect: "Run_collect 9 demo_posted = (demo_collected, [5])"
  by (simp add: Run_collect_def demo_posted_def demo_collected_def uBatchTask_def set_flags_def demo_fields
      CTaskSchedulerImpl_default_def)

lemma demo_reach_collected:
  "sched_step\<^sup>*\<^sup>* sched_init (sched_init\<lparr>sch := demo_collected, pend := [5], quota := demo_quota\<rparr>)"
proof -
  have "sched_step (sched_init\<lparr>sch := demo_posted, quota := demo_quota\<rparr>)
      (sched_init\<lparr>sch := demo_collected, pend := [5], quota := demo_quota\<rparr>)"
    using sched_step.collect [of "sched_init\<lparr>sch := demo_posted, quota := demo_quota\<rparr>" 9 demo_collected "[5]"]
      demo_collect by (simp add: sched_init_def)
  with demo_reach_posted show ?thesis
    by (rule rtranclp.rtrancl_into_rtrancl)
qed

lemma batch_nodes_alive_witness:
  "5 \<in> set (pend (sched_init\<lparr>sch := demo_collected, pend := [5], quota := demo_quota\<rparr>)) \<and>
   Run_exec 5 demo_collected \<noteq> None"
  using batch_nodes_alive [OF demo_reach_collected] by simp

lemma fixed_count_respected_witness:
  "int (count_list (ran_ids (sched_init\<lparr>sch := demo_posted, quota := demo_quota\<rparr>)) 0) \<le> 1"
proof -
  have "int (count_list (ran_ids (sched_init\<lparr>sch := demo_posted, quota := demo_quota\<rparr>)) 0)
      \<le> max 1 (uint (uTaskExecTimes demo_task))"
    by (rule fixed_count_respected [of "sched_init :: (nat, unit) sched_sys" 5 False demo_task kSuccess demo_posted kSuccess 0])
      (use demo_post [of kSuccess] in \<open>simp_all add: sched_init_def demo_fields demo_quota_def kInvalidTaskID_def\<close>)
  then show ?thesis
    by (simp add: demo_fields)
qed

definition demo_cancelled :: "(nat, unit) CTaskSchedulerImpl" where
  "demo_cancelled = fst (Sched_CancleTask 0 demo_posted kSuccess)"

lemma cancelled_never_runs_witness:
  "count_list (ran_ids (sched_init\<lparr>sch := demo_cancelled, quota := demo_quota\<rparr>)) 0 =
   count_list (ran_ids (sched_init\<lparr>sch := demo_posted, quota := demo_quota\<rparr>)) 0"
proof (rule cancelled_never_runs [OF demo_reach_posted])
  show "Sched_CancleTask 0 (sch (sched_init\<lparr>sch := demo_posted, quota := demo_quota\<rparr>)) kSuccess =
      (demo_cancelled, kSuccess, kSuccess)"
    by (simp add: demo_cancelled_def Sched_CancleTask_def demo_posted_def)
qed (simp_all add: sched_init_def)

lemma post_task_schedules_witness:
  "\<exists>n\<le>0. Sched_PostTask 5 False (Some demo_task) (sch (sched_init :: (nat, unit) sched_sys)) kSuccess =
    Some (CTaskSchedulerImpl_default\<lparr>m_mapTasks :=
      [(5 + of_nat n, \<lparr>task = demo_task, uTaskExecCount = 0, iTaskID = 0\<rparr>)], m_iNextTaskID := 1\<rparr>, kSuccess, 0)"
  using post_task_schedules [OF rtranclp.rtrancl_refl, of demo_task 5 False kSuccess]
  by (auto simp: sched_init_def CTaskSchedulerImpl_default_def demo_fields Let_def simp del: not_None_eq)

lemma run_collects_due_tasks_witness:
  "[5] = take 16 (map fst (filter (due 9) (m_mapTasks demo_posted)))"
  using run_collects_due_tasks [OF demo_reach_posted, of 9 demo_collected "[5]"] demo_collect by simp

end
