(* ===== verification/SchedulerRun.thy ===== *)
theory SchedulerRun
  imports SchedulerInv
begin

text \<open>
  The life cycle of the task scheduler and one whole call of \<open>Run\<close>, in
  \<open>base/sources/thread/task_scheduler_impl.cpp\<close>. A call of \<open>Run\<close> that nobody interrupts is a run of the
  step relation of \<open>TaskScheduler\<close>, so what is proved of the interleaved steps holds of it.
\<close>

section \<open>Life cycle\<close>

text \<open>
  The destructor stops the thread; the last result says whether that waits for it to end. The thread
  object is not given back to the manager.
\<close>

definition CTaskSchedulerImpl_destructor ::
  "('f, 'c) CTaskSchedulerImpl \<Rightarrow> last_error \<Rightarrow> (unit, unit) CThreadImpl option \<times> last_error \<times> bool" where
  "CTaskSchedulerImpl_destructor s e =
     (case Sched_Stop_request s e of (s, e, joins) \<Rightarrow> (m_pThread s, e, joins))"

text \<open>\<open>allocated\<close> is the answer of \<open>new (std::nothrow)\<close>.\<close>

definition ITaskScheduler_Create ::
  "bool \<Rightarrow> (unit, unit) CThreadImpl option \<Rightarrow> string option \<Rightarrow> uint32_t \<Rightarrow> last_error \<Rightarrow>
     ('f, 'c) CTaskSchedulerImpl option \<times> last_error" where
  "ITaskScheduler_Create allocated made pSchedulerName uPrecisionUs e =
     (if \<not> allocated then (None, SetLastError kOutOfMemory e)
      else case Sched_Init made pSchedulerName uPrecisionUs CTaskSchedulerImpl_default e of
          (s, e, r) \<Rightarrow>
            if r \<noteq> kSuccess
            then (case CTaskSchedulerImpl_destructor s e of (_, e, _) \<Rightarrow> (None, e))
            else (Some s, e))"

definition ITaskScheduler_Destroy ::
  "('f, 'c) CTaskSchedulerImpl option \<Rightarrow> last_error \<Rightarrow>
     (unit, unit) CThreadImpl option \<times> last_error \<times> bool" where
  "ITaskScheduler_Destroy pScheduler e =
     (case pScheduler of None \<Rightarrow> (None, e, False) | Some s \<Rightarrow> CTaskSchedulerImpl_destructor s e)"

definition Sched_GetStats ::
  "('j \<Rightarrow> 'j) \<Rightarrow> 'j option \<Rightarrow> last_error \<Rightarrow> 'j option \<times> last_error \<times> ErrorCode" where
  "Sched_GetStats clear pJson e =
     (case pJson of
        None \<Rightarrow> (None, SetLastError kInvalidParam e, kInvalidParam)
      | Some j \<Rightarrow> (Some (clear j), e, kSuccess))"

section \<open>A call of \<open>Run\<close>\<close>

text \<open>The two loops over the batch; \<open>now\<close> and \<open>throws\<close> give the time read and the fate of the insertion
  for each task of the batch.\<close>

fun exec_all ::
  "uint64_t list \<Rightarrow> ('f, 'c) CTaskSchedulerImpl \<Rightarrow>
     (('f, 'c) CTaskSchedulerImpl \<times> ('f, 'c) TaskEx list) option" where
  "exec_all [] s = Some (s, [])"
| "exec_all (k # ks) s =
     (case Run_exec k s of
        None \<Rightarrow> None
      | Some (s, x) \<Rightarrow> map_option (\<lambda>(s, xs). (s, x # xs)) (exec_all ks s))"

fun finish_all ::
  "(uint64_t \<Rightarrow> uint64_t) \<Rightarrow> (uint64_t \<Rightarrow> bool) \<Rightarrow> uint64_t list \<Rightarrow> ('f, 'c) CTaskSchedulerImpl \<Rightarrow>
     ('f, 'c) CTaskSchedulerImpl option" where
  "finish_all now throws [] s = Some s"
| "finish_all now throws (k # ks) s =
     (case Run_finish (now k) (throws k) k s of
        None \<Rightarrow> None
      | Some s \<Rightarrow> finish_all now throws ks s)"

text \<open>
  After the wait, which changes nothing: \<open>uCurrNano\<close> is the time of the round. The second result are the
  tasks that were executed, as they were then.
\<close>

definition CTaskSchedulerImpl_Run ::
  "uint64_t \<Rightarrow> (uint64_t \<Rightarrow> uint64_t) \<Rightarrow> (uint64_t \<Rightarrow> bool) \<Rightarrow> ('f, 'c) CTaskSchedulerImpl \<Rightarrow>
     (('f, 'c) CTaskSchedulerImpl \<times> ('f, 'c) TaskEx list) option" where
  "CTaskSchedulerImpl_Run uCurrNano now throws s =
     (case Run_collect uCurrNano s of
        (s, batch) \<Rightarrow>
          (case exec_all batch s of
             None \<Rightarrow> None
           | Some (s, xs) \<Rightarrow> map_option (\<lambda>s. (s, xs)) (finish_all now throws batch s)))"

definition Sched_RunWrapper ::
  "uint64_t \<Rightarrow> (uint64_t \<Rightarrow> uint64_t) \<Rightarrow> (uint64_t \<Rightarrow> bool) \<Rightarrow> ('f, 'c) CTaskSchedulerImpl \<Rightarrow>
     (('f, 'c) CTaskSchedulerImpl \<times> bool) option" where
  "Sched_RunWrapper uCurrNano now throws s =
     map_option (\<lambda>(s, _). (s, True)) (CTaskSchedulerImpl_Run uCurrNano now throws s)"

section \<open>It is a run of the steps\<close>

lemma exec_all_steps:
  assumes "sched_inv s" "pend s = ks"
  shows "\<exists>c xs. exec_all ks (sch s) = Some (c, xs) \<and> length xs = length ks \<and>
    length (m_mapTasks c) = length (m_mapTasks (sch s)) \<and>
    sched_step\<^sup>*\<^sup>* s (s\<lparr>sch := c, pend := [], execd := execd s @ ks, ran_ids := ran_ids s @ map iTaskID xs\<rparr>)"
  using assms
proof (induction ks arbitrary: s)
  case Nil
  then have "s\<lparr>sch := sch s, pend := [], execd := execd s @ [], ran_ids := ran_ids s @ map iTaskID []\<rparr> = s"
    by simp
  then show ?case
    by fastforce
next
  case (Cons k ks)
  obtain c x where r: "Run_exec k (sch s) = Some (c, x)"
    using exec_defined [OF Cons.prems(1), of k] Cons.prems(2) by auto
  let ?t = "s\<lparr>sch := c, pend := ks, execd := execd s @ [k], ran_ids := ran_ids s @ [iTaskID x]\<rparr>"
  have step: "sched_step s ?t"
    using sched_step.exec [OF Cons.prems(2) r] .
  have v: "om_valid (m_mapTasks (sch s))" "om_valid (m_mapTasks c)"
    using sched_invD(1) [OF Cons.prems(1)] sched_invD(1) [OF sched_inv_step [OF step Cons.prems(1)]] by simp_all
  obtain y where "om_find k (m_mapTasks (sch s)) = Some y" "m_mapTasks c = om_assign k (y\<lparr>uTaskExecCount := uTaskExecCount y + 1\<rparr>) (m_mapTasks (sch s))"
    using r by (auto simp: Run_exec_def split: option.splits)
  then have "fst ` set (m_mapTasks c) = fst ` set (m_mapTasks (sch s))"
    using om_find_set [OF v(1)] by (force simp: om_assign_set [OF v(1)])
  then have len: "length (m_mapTasks c) = length (m_mapTasks (sch s))"
    using om.card_keys [OF v(1)] om.card_keys [OF v(2)] by simp
  obtain d xs where d: "exec_all ks c = Some (d, xs)" "length xs = length ks"
      "length (m_mapTasks d) = length (m_mapTasks c)"
      "sched_step\<^sup>*\<^sup>* ?t (?t\<lparr>sch := d, pend := [], execd := execd ?t @ ks, ran_ids := ran_ids ?t @ map iTaskID xs\<rparr>)"
    using Cons.IH [OF sched_inv_step [OF step Cons.prems(1)]] by auto
  then have "sched_step\<^sup>*\<^sup>* s (s\<lparr>sch := d, pend := [], execd := execd s @ k # ks, ran_ids := ran_ids s @ map iTaskID (x # xs)\<rparr>)"
    using step by (auto intro: converse_rtranclp_into_rtranclp)
  then show ?case
    using r d(1-3) len by auto
qed

lemma finish_length:
  assumes v: "om_valid (m_mapTasks s)" and r: "Run_finish now throws k s = Some c"
  shows "length (m_mapTasks c) \<le> length (m_mapTasks s)"
proof -
  let ?m = "m_mapTasks s"
  obtain x where x: "om_find k ?m = Some x"
    using r by (auto simp: Run_finish_def split: option.splits)
  define m where "m = om_assign k (set_flags (\<lambda>f. f AND NOT kTaskRunning) x) ?m"
  have k: "k \<in> fst ` set ?m"
    using x om_find_set [OF v] by force
  have vm1: "om_valid m"
    unfolding m_def by (rule om_assign_valid [OF v])
  have "fst ` set m = insert k (fst ` (set ?m - {k} \<times> UNIV))"
    unfolding m_def om_assign_set [OF v] by auto
  then have vm2: "fst ` set m = fst ` set ?m"
    using k by force
  note vm = vm1 vm2
  obtain m' j where c: "m_mapTasks c = om_erase k m'" "om_valid m'" "fst ` set m' \<subseteq> insert j (fst ` set ?m)"
  proof (cases "m_mapTasks c = om_erase k m")
    case True
    then show thesis
      using that vm by blast
  next
    case False
    have "\<exists>j y. m_mapTasks c = om_erase k (om_assign j y m)"
      using r x False unfolding Run_finish_def Let_def m_def [symmetric]
      by (auto simp del: next_free.simps simp: m_def [symmetric] split: if_split_asm option.split_asm)
        (rule exI, rule exI, rule refl)+
    then obtain i y where e: "m_mapTasks c = om_erase k (om_assign i y m)"
      by blast
    have sub: "fst ` set (om_assign i y m) \<subseteq> insert i (fst ` set ?m)"
      unfolding om_assign_set [OF vm(1)] vm(2) [symmetric] by auto
    show thesis
      by (rule that [OF e om_assign_valid [OF vm(1)] sub])
  qed
  have "fst ` set (m_mapTasks c) \<subseteq> insert j (fst ` set ?m - {k})"
    using c(3) by (auto simp: c(1) om_erase_def)
  then have "card (fst ` set (m_mapTasks c)) \<le> card (insert j (fst ` set ?m - {k}))"
    by (intro card_mono) auto
  also have "\<dots> \<le> Suc (card (fst ` set ?m - {k}))"
    by (rule card_insert_le_m1) auto
  also have "\<dots> = card (fst ` set ?m)"
    by (rule card.remove [symmetric, OF _ k]) simp
  finally have "card (fst ` set (om_erase k m')) \<le> card (fst ` set ?m)"
    unfolding c(1) .
  then show ?thesis
    unfolding om.card_keys [OF v] om.card_keys [OF om_erase_valid [OF c(2)]] c(1) .
qed

lemma finish_all_steps:
  assumes "sched_inv s" "pend s = []" "execd s = ks" "length (m_mapTasks (sch s)) < 2 ^ 64"
  shows "\<exists>c. finish_all now throws ks (sch s) = Some c \<and> sched_step\<^sup>*\<^sup>* s (s\<lparr>sch := c, execd := []\<rparr>)"
  using assms
proof (induction ks arbitrary: s)
  case Nil
  then have "s\<lparr>sch := sch s, execd := []\<rparr> = s"
    by simp
  then show ?case
    by fastforce
next
  case (Cons k ks)
  obtain c where r: "Run_finish (now k) (throws k) k (sch s) = Some c"
    using finish_defined [OF Cons.prems(1,4), of k] Cons.prems(3) by auto
  let ?t = "s\<lparr>sch := c, execd := ks\<rparr>"
  have step: "sched_step s ?t"
    using sched_step.finish [OF Cons.prems(2,3) r] .
  have "length (m_mapTasks (sch ?t)) < 2 ^ 64"
    using finish_length [OF sched_invD(1) [OF Cons.prems(1)] r] Cons.prems(4) by simp
  then obtain d where "finish_all now throws ks c = Some d" "sched_step\<^sup>*\<^sup>* ?t (?t\<lparr>sch := d, execd := []\<rparr>)"
    using Cons.IH [OF sched_inv_step [OF step Cons.prems(1)]] Cons.prems(2) by auto
  then show ?case
    using r step by (auto intro: converse_rtranclp_into_rtranclp)
qed

section \<open>Properties\<close>

text \<open>
  C16: from every state the scheduler can reach between two rounds, with fewer than 2^64 tasks, a call of
  \<open>Run\<close> returns: each search for a free key ends and no reference of the batch dangles. It executes at
  most 16 tasks, those that the round collected, and is a sequence of steps of the interleaved model, so
  that whatever holds in all reachable states holds after it.
\<close>

theorem run_terminates:
  assumes reach: "sched_step\<^sup>*\<^sup>* sched_init s" and idle: "pend s = []" "execd s = []"
    and small: "length (m_mapTasks (sch s)) < 2 ^ 64"
  shows "\<exists>c xs. CTaskSchedulerImpl_Run uCurrNano now throws (sch s) = Some (c, xs) \<and>
    length xs = length (snd (Run_collect uCurrNano (sch s))) \<and> length xs \<le> 16 \<and>
    sched_step\<^sup>*\<^sup>* s (s\<lparr>sch := c, ran_ids := ran_ids s @ map iTaskID xs\<rparr>)"
proof -
  have inv: "sched_inv s"
    using sched_inv_reachable [OF reach sched_inv_init] .
  obtain c1 ks where col: "Run_collect uCurrNano (sch s) = (c1, ks)"
    by fastforce
  let ?s1 = "s\<lparr>sch := c1, pend := ks\<rparr>"
  have step: "sched_step s ?s1"
    using sched_step.collect [OF idle col] .
  note inv1 = sched_inv_step [OF step inv]
  obtain m where m: "collect_loop uCurrNano uBatchTask (m_mapTasks (sch s)) = (m, ks)" "m_mapTasks c1 = m"
    using col by (auto simp: Run_collect_def split: prod.splits)
  note spec = collect_loop_spec [OF m(1) sched_invD(1) [OF inv]]
  have "fst ` set m \<subseteq> fst ` set (m_mapTasks (sch s))"
    using spec by (intro flags_only_keys) simp
  then have "card (fst ` set m) \<le> card (fst ` set (m_mapTasks (sch s)))"
    by (intro card_mono) auto
  then have len: "length m \<le> length (m_mapTasks (sch s))"
    using om.card_keys [OF sched_invD(1) [OF inv]] om.card_keys [of m] spec by simp
  obtain c2 xs where ex: "exec_all ks c1 = Some (c2, xs)" "length xs = length ks"
      "length (m_mapTasks c2) = length m"
      "sched_step\<^sup>*\<^sup>* ?s1 (?s1\<lparr>sch := c2, pend := [], execd := ks, ran_ids := ran_ids s @ map iTaskID xs\<rparr>)"
    using exec_all_steps [OF inv1, of ks] m(2) idle(2) by auto
  let ?s2 = "s\<lparr>sch := c2, pend := [], execd := ks, ran_ids := ran_ids s @ map iTaskID xs\<rparr>"
  have to2: "sched_step\<^sup>*\<^sup>* ?s1 ?s2"
    using ex(4) by simp
  obtain c where fin: "finish_all now throws ks c2 = Some c" "sched_step\<^sup>*\<^sup>* ?s2 (?s2\<lparr>sch := c, execd := []\<rparr>)"
    using finish_all_steps [OF sched_inv_reachable [OF to2 inv1], of ks now throws] ex(3) len small by auto
  have "?s2\<lparr>sch := c, execd := []\<rparr> = s\<lparr>sch := c, ran_ids := ran_ids s @ map iTaskID xs\<rparr>"
    using idle by simp
  with fin(2) have "sched_step\<^sup>*\<^sup>* ?s2 (s\<lparr>sch := c, ran_ids := ran_ids s @ map iTaskID xs\<rparr>)"
    by (simp only:)
  from rtranclp_trans [OF rtranclp_trans [OF r_into_rtranclp [where r = sched_step, OF step] to2] this]
  have "sched_step\<^sup>*\<^sup>* s (s\<lparr>sch := c, ran_ids := ran_ids s @ map iTaskID xs\<rparr>)" .
  moreover have "length ks \<le> 16"
    using spec by (simp add: uBatchTask_def)
  ultimately show ?thesis
    using col ex(1,2) fin(1) by (simp add: CTaskSchedulerImpl_Run_def)
qed

lemma run_terminates_witness:
  "\<exists>c xs. CTaskSchedulerImpl_Run 9 (\<lambda>_. 9) (\<lambda>_. False) demo_posted = Some (c, xs) \<and> length xs = 1 \<and>
    sched_step\<^sup>*\<^sup>* (sched_init\<lparr>sch := demo_posted, quota := demo_quota\<rparr>)
      (sched_init\<lparr>sch := c, quota := demo_quota, ran_ids := map iTaskID xs\<rparr>)"
proof -
  let ?s = "sched_init\<lparr>sch := demo_posted, quota := demo_quota\<rparr>"
  have "pend ?s = []" "execd ?s = []" "length (m_mapTasks (sch ?s)) < 2 ^ 64"
    by (simp_all add: sched_init_def demo_posted_def)
  from run_terminates [OF demo_reach_posted this, of 9 "\<lambda>_. 9" "\<lambda>_. False"]
  obtain c xs where "CTaskSchedulerImpl_Run 9 (\<lambda>_. 9) (\<lambda>_. False) demo_posted = Some (c, xs)" "length xs = 1"
      "sched_step\<^sup>*\<^sup>* ?s (?s\<lparr>sch := c, ran_ids := ran_ids ?s @ map iTaskID xs\<rparr>)"
    by (auto simp: demo_collect)
  then show ?thesis
    by (fastforce simp: sched_init_def)
qed

text \<open>
  Fact: \<open>Destroy\<close> of a scheduler that \<open>Create\<close> made stops its thread and leaves the thread object behind:
  it is never given back to the thread manager.
\<close>

theorem scheduler_keeps_thread:
  assumes "ITaskScheduler_Create True made name us e = (Some s, e')"
  shows "\<exists>t. m_pThread s = Some t \<and> fst (ITaskScheduler_Destroy (Some s) e') = Some (fst (CThreadImpl_Stop_request t))"
  using assms by (auto simp: ITaskScheduler_Create_def Sched_Init_def ITaskScheduler_Destroy_def
      CTaskSchedulerImpl_destructor_def Sched_Stop_request_def Let_def split: option.splits prod.splits if_splits)

end
