(* ===== verification/ChannelFacade.thy ===== *)
theory ChannelFacade
  imports FixedQueue VariableQueue
begin

text \<open>
  What clients call: the members of \<open>IChannel\<close> that forward to the two implementations
  (\<open>base/sources/channel/spsc_fixed_bounded_channel.cpp\<close>, \<open>spsc_variable_bounded_channel.cpp\<close>), those of the
  variable-size channel that carry data being in the theory VariableChannel, and the life cycle of the typed
  wrapper (\<open>base/include/channel/channel_ex.h\<close>). Then the storage that a fixed-size channel asks for.
\<close>

section \<open>Forwarding\<close>

definition IChannelFixed_New :: "CSPSCFixedBoundedChannel \<Rightarrow> CSPSCFixedBoundedChannel \<times> pointer" where
  "IChannelFixed_New c = SPSCFixed_New c"

definition IChannelFixed_New_sized ::
  "uint32_t \<Rightarrow> CSPSCFixedBoundedChannel \<Rightarrow> last_error \<Rightarrow> CSPSCFixedBoundedChannel \<times> last_error \<times> pointer" where
  "IChannelFixed_New_sized uSize c e = SPSCFixed_New_sized uSize c e"

definition IChannelFixed_Post :: "pointer \<Rightarrow> CSPSCFixedBoundedChannel \<Rightarrow> CSPSCFixedBoundedChannel" where
  "IChannelFixed_Post pData c = SPSCFixed_Post pData c"

definition IChannelFixed_Get :: "CSPSCFixedBoundedChannel \<Rightarrow> CSPSCFixedBoundedChannel \<times> pointer" where
  "IChannelFixed_Get c = SPSCFixed_Get c"

definition IChannelFixed_Delete :: "pointer \<Rightarrow> CSPSCFixedBoundedChannel \<Rightarrow> CSPSCFixedBoundedChannel" where
  "IChannelFixed_Delete pData c = SPSCFixed_Delete pData c"

definition IChannelFixed_IsEmpty :: "CSPSCFixedBoundedChannel \<Rightarrow> bool" where
  "IChannelFixed_IsEmpty c = SPSCFixed_IsEmpty c"

definition IChannelFixed_GetSize :: "CSPSCFixedBoundedChannel \<Rightarrow> uint32_t" where
  "IChannelFixed_GetSize c = SPSCFixed_GetSize c"

definition IChannelFixed_GetStats ::
  "bool \<Rightarrow> (string \<Rightarrow> bool) \<Rightarrow> CSPSCFixedBoundedChannel \<Rightarrow> (string \<times> string \<times> uint32_t) list \<times> ErrorCode" where
  "IChannelFixed_GetStats present made c = SPSCFixed_GetStats present made c"

definition IChannelVar_New0 :: "var_chan \<Rightarrow> last_error \<Rightarrow> var_chan \<times> last_error \<times> pointer" where
  "IChannelVar_New0 s e =
     (case SPSCVar_New0 s e of (s, e, pEntry) \<Rightarrow> (s, e, map_option Entry_GetData pEntry))"

definition IChannelVar_IsEmpty :: "CSPSCVariableBoundedChannel \<Rightarrow> bool" where
  "IChannelVar_IsEmpty c = SPSCVar_IsEmpty c"

definition IChannelVar_GetSize :: "CSPSCVariableBoundedChannel \<Rightarrow> uint32_t" where
  "IChannelVar_GetSize c = SPSCVar_GetSize c"

definition IChannelVar_GetStats ::
  "bool \<Rightarrow> (string \<Rightarrow> bool) \<Rightarrow> CSPSCVariableBoundedChannel \<Rightarrow> (string \<times> string \<times> uint32_t) list \<times> ErrorCode" where
  "IChannelVar_GetStats present made c = SPSCVar_GetStats present made c"

section \<open>The typed wrapper\<close>

text \<open>
  \<open>Create\<close> stores the size of the element type into the configuration of the caller, which it takes as
  constant, and does not test it for null (\<open>None\<close>). The first result is the configuration afterwards.
\<close>

definition IChannelEx_Create ::
  "pointer \<Rightarrow> pointer \<Rightarrow> uint64_t \<Rightarrow> uint32_t \<Rightarrow> ChannelConfig option \<Rightarrow> heap \<Rightarrow> last_error \<Rightarrow>
     (ChannelConfig \<times> (uint64_t \<times> CSPSCFixedBoundedChannel) option \<times> heap \<times> last_error) option" where
  "IChannelEx_Create ans1 ans2 sizeof_channel sizeof_T pConfig h e =
     (case pConfig of
        None \<Rightarrow> None
      | Some cfg \<Rightarrow>
          let cfg = cfg\<lparr>uElementSize := sizeof_T\<rparr>
          in Some (cfg, SPSCFixed_Create ans1 ans2 sizeof_channel (Some cfg) h e))"

definition IChannelEx_Destroy :: "(uint64_t \<times> CSPSCFixedBoundedChannel) option \<Rightarrow> heap \<Rightarrow> heap" where
  "IChannelEx_Destroy pChannel h = SPSCFixed_Destroy pChannel h"

section \<open>The storage of a fixed-size channel\<close>

lemma Create_storage:
  "SPSCFixed_Create (Some p) (Some a) sz (Some cfg) h e =
    (if uElementSize cfg = 0 \<or> uMaxElementCount cfg = 0 then (nullptr, h(p := None), SetLastError kInvalidParam e)
     else (Some (p, SPSCFixed_default\<lparr>m_pDatap := Some a, m_pDatac := Some a,
         m_uElemSizep := ALIGN8 (ucast (uElementSize cfg)), m_uElemSizec := ALIGN8 (ucast (uElementSize cfg)),
         m_uSizep := Up2PowerOf2 (ucast (uMaxElementCount cfg)), m_uSizec := Up2PowerOf2 (ucast (uMaxElementCount cfg)),
         m_uTail := 0, m_uHead := 0, m_uTailRef := 0, m_uHeadRef := 0,
         m_Statsp := ChannelStats_Reset, m_Statsc := ChannelStats_Reset\<rparr>),
       h(p \<mapsto> sz, a \<mapsto> Up2PowerOf2 (ucast (uMaxElementCount cfg)) * ALIGN8 (ucast (uElementSize cfg))), e))"
proof -
  have nz: "ucast n = (0 :: uint64_t) \<longleftrightarrow> n = 0" for n :: uint32_t
    by (metis unat_ucast_32_64 unat_eq_zero)
  show ?thesis
    by (simp add: SPSCFixed_Create_def SPSCFixed_Init_def IAllocatorEx_New_def IAllocatorEx_Delete_def SPSCFixed_destructor_def
        CAllocatorImpl_Malloc_def CAllocatorImpl_Free_def Let_def nz SPSCFixed_default_def fun_upd_idem)
qed

lemma rounded_elem_max:
  "rounded_elem cfg \<le> 2 ^ 32" "rounded_elem cfg = 2 ^ 32 \<longleftrightarrow> 2 ^ 32 - 8 < unat (uElementSize cfg)"
  using unat_lt32 [of "uElementSize cfg"] unfolding rounded_elem_def by auto

lemma power_times_lt:
  assumes "k \<le> 32" "r \<le> 2 ^ 32" "\<not> (k = 32 \<and> r = 2 ^ 32)"
  shows "2 ^ k * r < (2 ^ 64 :: nat)"
proof (cases "k = 32")
  case True
  with assms show ?thesis
    by simp
next
  case False
  with assms(1) have "(2 :: nat) ^ k \<le> 2 ^ 31"
    by (intro power_increasing) simp_all
  then have "2 ^ k * r \<le> 2 ^ 31 * 2 ^ 32"
    using assms(2) by (intro mult_le_mono)
  then show ?thesis
    by simp
qed

lemma Up2_count:
  assumes "uMaxElementCount cfg \<noteq> 0"
  obtains k where "Up2PowerOf2 (ucast (uMaxElementCount cfg)) = 2 ^ k" "k \<le> 32"
    "k = 32 \<longleftrightarrow> 2 ^ 31 < unat (uMaxElementCount cfg)" "unat (uMaxElementCount cfg) \<le> 2 ^ k"
proof -
  let ?n = "ucast (uMaxElementCount cfg) :: uint64_t"
  have n: "unat ?n = unat (uMaxElementCount cfg)" "unat ?n < 2 ^ 32"
    using unat_lt32 [of "uMaxElementCount cfg"] by (simp_all add: unat_ucast_32_64)
  then have "?n \<noteq> 0"
    using assms by (metis unat_eq_zero)
  have "unat ?n \<le> 2 ^ 63"
    using n(2) by simp
  with \<open>?n \<noteq> 0\<close> obtain k where k: "k < 64" "Up2PowerOf2 ?n = 2 ^ k" "unat ?n \<le> 2 ^ k" "2 ^ k < 2 * unat ?n"
    by (rule Up2PowerOf2_power)
  then have "(2 :: nat) ^ k < 2 ^ 33"
    using n(2) by simp
  then have le: "k \<le> 32"
    by (simp only: power_strict_increasing_iff)
  moreover have "k = 32 \<longleftrightarrow> 2 ^ 31 < unat ?n"
  proof
    assume "2 ^ 31 < unat ?n"
    then have "(2 :: nat) ^ 31 < 2 ^ k"
      using k(3) by simp
    then have "31 < k"
      by (simp only: power_strict_increasing_iff)
    with le show "k = 32"
      by simp
  qed (use k(4) in simp)
  ultimately show thesis
    using that k(2,3) n(1) by simp
qed

section \<open>Properties\<close>

text \<open>
  C36: creating a fixed-size channel when both allocations are granted. It fails exactly for an element
  size or a count of zero. Otherwise it succeeds, its slots are at least as large and at least as many as asked for,
  and the block that it asks for has exactly the room of its slots, unless elements of more than 2^32 - 8
  bytes and more than 2^31 of them are asked for: then the product wraps to zero, and \<open>Create\<close> still returns
  a channel of 2^32 slots, over a block without any bytes.
\<close>

theorem fixed_storage_exact:
  "case SPSCFixed_Create (Some p) (Some a) sz (Some cfg) h e of
     (None, h', e') \<Rightarrow> (uElementSize cfg = 0 \<or> uMaxElementCount cfg = 0) \<and> e' = kInvalidParam
   | (Some (p', c), h', e') \<Rightarrow> uElementSize cfg \<noteq> 0 \<and> uMaxElementCount cfg \<noteq> 0 \<and> p' = p \<and>
       unat (uElementSize cfg) \<le> unat (m_uElemSizep c) \<and> unat (uMaxElementCount cfg) \<le> fixed_cap c \<and>
       (\<exists>bytes. h' = h(p \<mapsto> sz, a \<mapsto> bytes) \<and>
         (if 2 ^ 32 - 8 < unat (uElementSize cfg) \<and> 2 ^ 31 < unat (uMaxElementCount cfg)
          then bytes = 0 \<and> fixed_cap c = 2 ^ 32
          else unat bytes = fixed_cap c * unat (m_uElemSizep c)))"
proof (cases "uElementSize cfg = 0 \<or> uMaxElementCount cfg = 0")
  case True
  then show ?thesis
    by (simp add: Create_storage SetLastError_def)
next
  case False
  then obtain k where size: "Up2PowerOf2 (ucast (uMaxElementCount cfg)) = (2 ^ k :: uint64_t)"
      and k: "k \<le> 32" "k = 32 \<longleftrightarrow> 2 ^ 31 < unat (uMaxElementCount cfg)" "unat (uMaxElementCount cfg) \<le> 2 ^ k"
    using Up2_count by blast
  define bytes where "bytes = (2 ^ k * ALIGN8 (ucast (uElementSize cfg)) :: uint64_t)"
  have un: "unat bytes = 2 ^ k * rounded_elem cfg mod 2 ^ 64"
    using k(1) by (simp add: bytes_def unat_word_ariths unat_power_two unat_elem)
  have big: "unat (uElementSize cfg) \<le> rounded_elem cfg"
    by (simp add: rounded_elem_def)
  have "if 2 ^ 32 - 8 < unat (uElementSize cfg) \<and> 2 ^ 31 < unat (uMaxElementCount cfg)
      then bytes = 0 \<and> k = 32 else unat bytes = 2 ^ k * rounded_elem cfg"
  proof (cases "2 ^ 32 - 8 < unat (uElementSize cfg) \<and> 2 ^ 31 < unat (uMaxElementCount cfg)")
    case True
    then have "k = 32" "rounded_elem cfg = 2 ^ 32"
      using k(2) rounded_elem_max(2) by blast+
    then show ?thesis
      using True un by (simp add: unat_eq_0)
  next
    case False
    then have "2 ^ k * rounded_elem cfg < 2 ^ 64"
      using k(1,2) rounded_elem_max by (intro power_times_lt) auto
    then show ?thesis
      using False un by auto
  qed
  moreover obtain c where "SPSCFixed_Create (Some p) (Some a) sz (Some cfg) h e = (Some (p, c), h(p \<mapsto> sz, a \<mapsto> bytes), e)"
      and "m_uElemSizep c = ALIGN8 (ucast (uElementSize cfg))" "m_uSizep c = 2 ^ k"
    using False by (simp add: Create_storage size bytes_def)
  ultimately show ?thesis
    using False k(1,3) big
    by (simp add: fixed_cap_def unat_power_two unat_elem del: fun_upd_apply) (intro exI [of _ bytes], auto)
qed

text \<open>
  Fact: whatever element size the configuration has, each slot of a channel that the typed wrapper creates
  has room for the element type; the configuration of the caller has that size afterwards.
\<close>

theorem channel_ex_room:
  assumes "IChannelEx_Create ans1 ans2 sz sizeof_T (Some cfg) h e = Some (cfg', Some (p, c), h', e')"
  shows "uElementSize cfg' = sizeof_T \<and> unat sizeof_T \<le> unat (m_uElemSizep c) \<and> 0 < unat sizeof_T"
proof -
  from assms have c: "cfg' = cfg\<lparr>uElementSize := sizeof_T\<rparr>"
      "SPSCFixed_Create ans1 ans2 sz (Some cfg') h e = (Some (p, c), h', e')"
    by (auto simp: IChannelEx_Create_def Let_def)
  obtain e0 where I: "SPSCFixed_Init ans2 (ucast sizeof_T) (ucast (uMaxElementCount cfg))
      SPSCFixed_default (h(p \<mapsto> sz)) e0 = (c, h', e', kSuccess)"
    using Create_success(2) [OF c(2)] c(1) by auto
  then have "m_uElemSizep c = ALIGN8 (ucast sizeof_T)" "sizeof_T \<noteq> 0"
    by (auto simp: SPSCFixed_Init_def CAllocatorImpl_Malloc_def Let_def split: if_splits option.splits)
  then show ?thesis
    using ALIGN8_bounds(1) [of "ucast sizeof_T :: uint64_t"] unat_lt32 [of sizeof_T] c(1)
    by (simp add: unat_ucast_32_64 unat_gt_0)
qed

section \<open>Examples\<close>

text \<open>An ordinary configuration, and one for which the size of the block wraps.\<close>

definition example_huge :: ChannelConfig where
  "example_huge = \<lparr>uElementSize = - 1, uMaxElementCount = - 1, uTotalMemorySizeKB = 0\<rparr>"

theorem fixed_storage_exact_witness:
  "(\<exists>bytes. [64 \<mapsto> 320, 1024 \<mapsto> (32 :: uint64_t)] (1024 :: uint64_t) = Some bytes \<and> unat bytes = 4 * 8) \<and>
   (\<exists>c h' e'. SPSCFixed_Create (Some 64) (Some 1024) 320 (Some example_huge) Map.empty kSuccess = (Some (64, c), h', e') \<and>
      fixed_cap c = 2 ^ 32 \<and> h' 1024 = Some 0)"
proof
  show "\<exists>bytes. [64 \<mapsto> 320, 1024 \<mapsto> (32 :: uint64_t)] (1024 :: uint64_t) = Some bytes \<and> unat bytes = 4 * 8"
    using fixed_storage_exact [where p = 64 and a = 1024 and sz = 320 and cfg = example_cfg and h = Map.empty and e = kSuccess]
    by (simp add: example_Create example_cfg_def example_chan_def fixed_cap_def)
  have "unat (uElementSize example_huge) = 2 ^ 32 - 1" "unat (uMaxElementCount example_huge) = 2 ^ 32 - 1"
    "uElementSize example_huge \<noteq> 0"
    by (simp_all add: example_huge_def unsigned_minus_1_eq_mask mask_eq_exp_minus_1)
  then show "\<exists>c h' e'. SPSCFixed_Create (Some 64) (Some 1024) 320 (Some example_huge) Map.empty kSuccess = (Some (64, c), h', e') \<and>
      fixed_cap c = 2 ^ 32 \<and> h' 1024 = Some 0"
    using fixed_storage_exact [where p = 64 and a = 1024 and sz = 320 and cfg = example_huge and h = Map.empty and e = kSuccess]
    by (auto split: prod.splits option.splits)
qed

theorem channel_ex_room_witness:
  "unat (4 :: uint32_t) \<le> unat (m_uElemSizep example_chan)"
proof -
  have "IChannelEx_Create (Some 64) (Some 1024) 320 4 (Some example_cfg) Map.empty kSuccess =
      Some (example_cfg, Some (64, example_chan), [64 \<mapsto> 320, 1024 \<mapsto> 32], kSuccess)"
    using example_Create by (simp add: IChannelEx_Create_def example_cfg_def Let_def)
  from channel_ex_room [OF this] show ?thesis
    by simp
qed

end
