(* ===== verification/MessageImpl.thy ===== *)
theory MessageImpl
  imports Common
begin

text \<open>
  \<open>CMessageImpl\<close> of \<open>network/sources/message_impl.h\<close>: the reference count and the data of a message.
  \<open>m_pData\<close> is the block it points to; its constructor is not defined in the repository.
\<close>

record CMessageImpl =
  msg_pData :: "uint8_t list"
  msg_uSize :: uint32_t
  msg_uOffset :: uint32_t
  msg_uRefCount :: uint32_t
  msg_uCapacity :: uint32_t
  msg_pConnection :: uint64_t

definition CMessageImpl_GetDataLength :: "CMessageImpl \<Rightarrow> uint32_t" where
  "CMessageImpl_GetDataLength m = msg_uSize m"

definition CMessageImpl_GetConnection :: "CMessageImpl \<Rightarrow> uint64_t" where
  "CMessageImpl_GetConnection m = ClearPointerLastBit (msg_pConnection m)"

definition CMessageImpl_Acquire :: "CMessageImpl \<Rightarrow> CMessageImpl" where
  "CMessageImpl_Acquire m = m\<lparr>msg_uRefCount := msg_uRefCount m + 1\<rparr>"

text \<open>The second result says whether the message is given to \<open>DeleteMessage\<close> of its connection.\<close>

definition CMessageImpl_Release :: "CMessageImpl \<Rightarrow> CMessageImpl \<times> bool" where
  "CMessageImpl_Release m =
     (let m = m\<lparr>msg_uRefCount := msg_uRefCount m - 1\<rparr> in (m, msg_uRefCount m = 0))"

definition CMessageImpl_SetSize :: "uint32_t \<Rightarrow> CMessageImpl \<Rightarrow> CMessageImpl" where
  "CMessageImpl_SetSize n m = m\<lparr>msg_uSize := n\<rparr>"

text \<open>\<open>Append\<close> does not look at the capacity; a copy past the end of the block is undefined.\<close>

definition CMessageImpl_Append :: "uint8_t list \<Rightarrow> CMessageImpl \<Rightarrow> CMessageImpl option" where
  "CMessageImpl_Append xs m =
     (if unat (msg_uSize m) + length xs \<le> length (msg_pData m)
      then Some (m\<lparr>msg_pData := take (unat (msg_uSize m)) (msg_pData m) @ xs @
             drop (unat (msg_uSize m) + length xs) (msg_pData m),
           msg_uSize := msg_uSize m + word_of_nat (length xs)\<rparr>)
      else None)"

definition CMessageImpl_GetCapacity :: "CMessageImpl \<Rightarrow> uint32_t" where
  "CMessageImpl_GetCapacity m = msg_uCapacity m"

definition CMessageImpl_SetOffset :: "uint32_t \<Rightarrow> CMessageImpl \<Rightarrow> CMessageImpl" where
  "CMessageImpl_SetOffset n m = m\<lparr>msg_uOffset := n\<rparr>"

text \<open>The bytes of the message: \<open>GetDataLength\<close> many from \<open>GetData\<close> on.\<close>

definition message_bytes :: "CMessageImpl \<Rightarrow> uint8_t list" where
  "message_bytes m = take (unat (CMessageImpl_GetDataLength m)) (msg_pData m)"

lemma Append_bytes:
  assumes "CMessageImpl_Append xs m = Some m'" "length (msg_pData m) < 2 ^ 32"
  shows "message_bytes m' = message_bytes m @ xs"
proof -
  have fits: "unat (msg_uSize m) + length xs \<le> length (msg_pData m)"
    using assms(1) by (simp add: CMessageImpl_Append_def split: if_splits)
  have "length xs < 2 ^ LENGTH(32)"
    using fits assms(2) by simp
  then have "unat (word_of_nat (length xs) :: uint32_t) = length xs"
    unfolding unat_of_nat by simp
  then have "unat (msg_uSize m + word_of_nat (length xs)) = unat (msg_uSize m) + length xs"
    using fits assms(2) by (subst unat_plus_small) simp_all
  with assms(1) fits show ?thesis
    by (auto simp: CMessageImpl_Append_def message_bytes_def CMessageImpl_GetDataLength_def)
qed

lemma Release_Acquire: "CMessageImpl_Release (CMessageImpl_Acquire m) = (m, msg_uRefCount m = 0)"
  by (simp add: CMessageImpl_Release_def CMessageImpl_Acquire_def)

end
