(* ===== verification/NetCore.thy ===== *)
theory NetCore
  imports Main "HOL-Library.Word" Prelude
begin

text \<open>
  What the engine promises about its objects, as a small machine: the live connections and acceptors
  with their descriptors and identifiers, the open descriptors, the registrations of the event
  dispatcher, and the maps of the engine. The operations of the code refine its steps (theory NetInv);
  the invariants are proved here.
\<close>

section \<open>The abstract machine\<close>

record net_core =
  k_conns :: "uint64_t \<rightharpoonup> int \<times> uint64_t \<times> uint32_t"
  k_accs :: "uint64_t \<rightharpoonup> int \<times> uint64_t"
  k_opened :: "int set"
  k_regs :: "int \<rightharpoonup> uint64_t \<times> uint32_t"
  k_umapC :: "uint64_t \<rightharpoonup> uint64_t"
  k_nextC :: uint64_t
  k_umapA :: "uint64_t \<rightharpoonup> uint64_t"
  k_nextA :: uint64_t

definition k_close :: "int \<Rightarrow> net_core \<Rightarrow> net_core" where
  "k_close fd s = s\<lparr>k_opened := k_opened s - {fd}, k_regs := (k_regs s)(fd := None)\<rparr>"

lemma k_close_simps [simp]:
  "k_conns (k_close fd s) = k_conns s" "k_accs (k_close fd s) = k_accs s"
  "k_opened (k_close fd s) = k_opened s - {fd}" "k_regs (k_close fd s) = (k_regs s)(fd := None)"
  "k_umapC (k_close fd s) = k_umapC s" "k_nextC (k_close fd s) = k_nextC s"
  "k_umapA (k_close fd s) = k_umapA s" "k_nextA (k_close fd s) = k_nextA s"
  by (simp_all add: k_close_def)

text \<open>Closing the descriptor of an object that may have none.\<close>

definition k_close_own :: "int \<Rightarrow> net_core \<Rightarrow> net_core" where
  "k_close_own fd s = (if fd \<noteq> -1 then k_close fd s else s)"

text \<open>
  Connections have the identifier 0 when they were accepted, and a number of their own when the
  engine created them.
\<close>

inductive core_step :: "net_core \<Rightarrow> net_core \<Rightarrow> bool" where
  opened: "fd \<noteq> -1 \<Longrightarrow> fd \<notin> k_opened s \<Longrightarrow> core_step s (s\<lparr>k_opened := insert fd (k_opened s)\<rparr>)"
| closed: "core_step s (k_close_own fd s)"
| unregistered: "core_step s (s\<lparr>k_regs := (k_regs s)(fd := None)\<rparr>)"
| accepted: "k_conns s p = None \<Longrightarrow> core_step s (s\<lparr>k_conns := (k_conns s)(p \<mapsto> (fd, 0, 0))\<rparr>)"
| dropped: "k_conns s p = Some (fd, 0, i) \<Longrightarrow>
    core_step s (k_close_own fd (s\<lparr>k_conns := (k_conns s)(p := None)\<rparr>))"
| createdC: "k_conns s p = None \<Longrightarrow> k_nextC s + 1 \<noteq> 0 \<Longrightarrow>
    core_step s (s\<lparr>k_conns := (k_conns s)(p \<mapsto> (fd, k_nextC s, 0)),
      k_umapC := (k_umapC s)(k_nextC s \<mapsto> p), k_nextC := k_nextC s + 1\<rparr>)"
| destroyedC: "k_umapC s num = Some p \<Longrightarrow> k_conns s p = Some (fd, n, i) \<Longrightarrow>
    core_step s (k_close_own fd (s\<lparr>k_conns := (k_conns s)(p := None), k_umapC := (k_umapC s)(num := None)\<rparr>))"
| disconnected: "k_conns s p = Some (fd, n, i) \<Longrightarrow>
    core_step s (k_close_own fd (s\<lparr>k_conns := (k_conns s)(p \<mapsto> (-1, n, i))\<rparr>))"
| registeredC: "k_conns s p = Some (fd, n, i) \<Longrightarrow> fd \<in> k_opened s \<Longrightarrow>
    core_step s (s\<lparr>k_regs := (k_regs s)(fd \<mapsto> (p, ev))\<rparr>)"
| createdA: "k_accs s p = None \<Longrightarrow> k_nextA s + 1 \<noteq> 0 \<Longrightarrow>
    core_step s (s\<lparr>k_accs := (k_accs s)(p \<mapsto> (fd, k_nextA s)),
      k_umapA := (k_umapA s)(k_nextA s \<mapsto> p), k_nextA := k_nextA s + 1\<rparr>)"
| destroyedA: "k_umapA s num = Some p \<Longrightarrow> k_accs s p = Some (fd, n) \<Longrightarrow>
    core_step s (k_close_own fd (s\<lparr>k_accs := (k_accs s)(p := None), k_umapA := (k_umapA s)(num := None)\<rparr>))"
| registeredA: "k_accs s p = Some (fd, n) \<Longrightarrow> fd \<in> k_opened s \<Longrightarrow>
    core_step s (s\<lparr>k_regs := (k_regs s)(fd \<mapsto> (p, ev))\<rparr>)"

section \<open>Its invariants\<close>

text \<open>Every registration is that of a live object, under the descriptor that the object has.\<close>

definition owns :: "net_core \<Rightarrow> int \<Rightarrow> uint64_t \<Rightarrow> bool" where
  "owns s fd p \<longleftrightarrow> (\<exists>n i. k_conns s p = Some (fd, n, i)) \<or> (\<exists>n. k_accs s p = Some (fd, n))"

definition regs_live :: "net_core \<Rightarrow> bool" where
  "regs_live s \<longleftrightarrow> -1 \<notin> k_opened s \<and>
     (\<forall>fd p ev. k_regs s fd = Some (p, ev) \<longrightarrow> fd \<in> k_opened s \<and> owns s fd p)"

lemma regs_liveD:
  "regs_live s \<Longrightarrow> k_regs s fd = Some (p, ev) \<Longrightarrow> fd \<in> k_opened s \<and> fd \<noteq> -1 \<and> owns s fd p"
  by (auto simp: regs_live_def)

text \<open>The way each step keeps it: what is still registered is still owned.\<close>

lemma regs_live_close_own:
  assumes "regs_live s" "k_opened t = k_opened s" "k_regs t = k_regs s"
    "\<And>fd' p. owns s fd' p \<Longrightarrow> fd' \<noteq> fd \<Longrightarrow> owns t fd' p"
  shows "regs_live (k_close_own fd t)"
proof -
  have "fd' \<in> k_opened s \<and> fd' \<noteq> fd \<and> fd' \<noteq> -1 \<and> owns t fd' p"
    if "k_regs (k_close_own fd t) fd' = Some (p, ev)" for fd' p ev
    using that assms(3,4) regs_liveD [OF assms(1), of fd' p ev] by (auto simp: k_close_own_def split: if_splits)
  moreover have "owns (k_close_own fd t) = owns t"
    by (simp add: owns_def k_close_own_def fun_eq_iff)
  moreover have "k_opened (k_close_own fd t) = k_opened s - (if fd \<noteq> -1 then {fd} else {})" "-1 \<notin> k_opened s"
    using assms(1,2) by (simp_all add: k_close_own_def regs_live_def)
  ultimately show ?thesis
    unfolding regs_live_def by auto
qed

lemma regs_live_same:
  assumes "regs_live s" "k_opened s \<subseteq> k_opened t" "-1 \<notin> k_opened t" "k_regs t = k_regs s"
    "\<And>fd p. owns s fd p \<Longrightarrow> owns t fd p"
  shows "regs_live t"
  using assms unfolding regs_live_def by auto

lemma regs_live_register:
  assumes "regs_live s" "fd \<in> k_opened s" "owns s fd p"
  shows "regs_live (s\<lparr>k_regs := (k_regs s)(fd \<mapsto> (p, ev))\<rparr>)"
  using assms unfolding regs_live_def owns_def by (auto split: if_splits)

lemma regs_live_step: "core_step s t \<Longrightarrow> regs_live s \<Longrightarrow> regs_live t"
proof (induction rule: core_step.induct)
  case (opened fd s)
  then show ?case
    by (intro regs_live_same [OF opened(3)]) (auto simp: owns_def regs_live_def)
next
  case (closed s fd)
  then show ?case
    by (intro regs_live_close_own [OF closed]) auto
next
  case (unregistered s fd)
  then show ?case
    by (auto simp: regs_live_def owns_def split: if_splits)
next
  case (accepted s p fd)
  then show ?case
    by (intro regs_live_same [OF accepted(2)]) (auto simp: owns_def regs_live_def)
next
  case (dropped s p fd i)
  then show ?case
    by (intro regs_live_close_own [OF dropped(2)]) (auto simp: owns_def)
next
  case (createdC s p fd)
  then show ?case
    by (intro regs_live_same [OF createdC(3)]) (auto simp: owns_def regs_live_def)
next
  case (destroyedC s num p fd n i)
  then show ?case
    by (intro regs_live_close_own [OF destroyedC(3)]) (auto simp: owns_def)
next
  case (disconnected s p fd n i)
  then show ?case
    by (intro regs_live_close_own [OF disconnected(2)]) (auto simp: owns_def)
next
  case (registeredC s p fd n i ev)
  then show ?case
    by (intro regs_live_register) (auto simp: owns_def)
next
  case (createdA s p fd)
  then show ?case
    by (intro regs_live_same [OF createdA(3)]) (auto simp: owns_def regs_live_def)
next
  case (destroyedA s num p fd n)
  then show ?case
    by (intro regs_live_close_own [OF destroyedA(3)]) (auto simp: owns_def)
next
  case (registeredA s p fd n ev)
  then show ?case
    by (intro regs_live_register) (auto simp: owns_def)
qed

text \<open>
  The maps of the engine lead from the number of an object to the object, the numbers have been given
  out, and no connection has ever been assigned to an IO dispatcher.
\<close>

definition ids_ok :: "net_core \<Rightarrow> bool" where
  "ids_ok s \<longleftrightarrow> (\<forall>num p. k_umapC s num = Some p \<longrightarrow> (\<exists>fd i. k_conns s p = Some (fd, num, i)) \<and> 0 < num \<and> num < k_nextC s) \<and>
     (\<forall>num p. k_umapA s num = Some p \<longrightarrow> (\<exists>fd. k_accs s p = Some (fd, num)) \<and> 0 < num \<and> num < k_nextA s) \<and>
     (\<forall>p fd n i. k_conns s p = Some (fd, n, i) \<longrightarrow> i = 0 \<and> (n = 0 \<or> k_umapC s n = Some p)) \<and>
     0 < k_nextC s \<and> 0 < k_nextA s"


lemma ids_okD:
  assumes "ids_ok s"
  shows "k_umapC s num = Some p \<Longrightarrow> (\<exists>fd i. k_conns s p = Some (fd, num, i)) \<and> 0 < num \<and> num < k_nextC s"
    and "k_umapA s num = Some p \<Longrightarrow> (\<exists>fd. k_accs s p = Some (fd, num)) \<and> 0 < num \<and> num < k_nextA s"
    and "k_conns s p = Some (fd, n, i) \<Longrightarrow> i = 0 \<and> (n = 0 \<or> k_umapC s n = Some p)"
    and "0 < k_nextC s" and "0 < k_nextA s"
  using assms unfolding ids_ok_def by blast+

lemma word_lt_succ:
  fixes n :: "'a::len word"
  assumes "n + 1 \<noteq> 0"
  shows "n < n + 1" "0 < n + 1" "m < n \<Longrightarrow> m < n + 1"
proof -
  have "unat (n + 1) = unat n + 1"
    using assms by (simp add: unatSuc add.commute [of n 1])
  then show "n < n + 1" "0 < n + 1" "m < n \<Longrightarrow> m < n + 1"
    by (simp_all add: word_less_nat_alt)
qed

text \<open>The numbering is kept by every step that leaves the objects and the maps as they are.\<close>

lemma ids_ok_close_own: "ids_ok (k_close_own fd s) = ids_ok s"
  by (simp add: ids_ok_def k_close_own_def)

lemma ids_ok_step: "core_step s t \<Longrightarrow> ids_ok s \<Longrightarrow> ids_ok t"
proof (induction rule: core_step.induct)
  case (createdC s p fd)
  note D = ids_okD [OF createdC(3)] and W = word_lt_succ [OF createdC(2)]
  have "k_umapC s (k_nextC s) \<noteq> Some q" for q
    using D(1) by blast
  then show ?case
    unfolding ids_ok_def
    by (intro conjI allI impI)
      (use createdC(1) D(4,5) W in \<open>auto split: if_splits dest: D(1) D(2) D(3)\<close>)
next
  case (createdA s p fd)
  note D = ids_okD [OF createdA(3)] and W = word_lt_succ [OF createdA(2)]
  show ?case
    unfolding ids_ok_def
    by (intro conjI allI impI)
      (use createdA(1) D(4,5) W in \<open>auto split: if_splits dest: D(1) D(2) D(3)\<close>)
next
  case (destroyedC s num p fd n i)
  note D = ids_okD [OF destroyedC(3)]
  have n: "n = num"
    using D(1) [OF destroyedC(1)] destroyedC(2) by simp
  show ?case
    unfolding ids_ok_close_own unfolding ids_ok_def
    by (intro conjI allI impI)
      (use destroyedC(1,2) D(4,5) n in \<open>auto split: if_splits dest: D(1) D(2) D(3)\<close>)
next
  case (destroyedA s num p fd n)
  note D = ids_okD [OF destroyedA(3)]
  have n: "n = num"
    using D(2) [OF destroyedA(1)] destroyedA(2) by simp
  show ?case
    unfolding ids_ok_close_own unfolding ids_ok_def
    by (intro conjI allI impI)
      (use destroyedA(1,2) D(4,5) n in \<open>auto split: if_splits dest: D(1) D(2) D(3)\<close>)
next
  case (dropped s p fd i)
  note D = ids_okD [OF dropped(2)]
  show ?case
    unfolding ids_ok_close_own unfolding ids_ok_def
    by (intro conjI allI impI)
      (use dropped(1) D(4,5) in \<open>auto split: if_splits dest: D(1) D(2) D(3)\<close>)
next
  case (disconnected s p fd n i)
  note D = ids_okD [OF disconnected(2)]
  show ?case
    unfolding ids_ok_close_own unfolding ids_ok_def
    by (intro conjI allI impI)
      (use disconnected(1) D(4,5) in \<open>auto split: if_splits dest: D(1) D(2) D(3)\<close>)
next
  case (accepted s p fd)
  note D = ids_okD [OF accepted(2)]
  show ?case
    unfolding ids_ok_def
    by (intro conjI allI impI)
      (use accepted(1) D(4,5) in \<open>auto split: if_splits dest: D(1) D(2) D(3)\<close>)
qed (simp_all add: ids_ok_close_own, simp_all add: ids_ok_def)

end
