(* ===== verification/LogMacro.thy ===== *)
theory LogMacro
  imports Prelude
begin

text \<open>
  The levels of \<open>base/include/logger/logger.h\<close> and the logging macro \<open>LOG_BASE\<close> of
  \<open>base/include/logger/logger_ex.h\<close>. A logger is represented by its \<open>m_eLogLevel\<close>.
\<close>

section \<open>Levels\<close>

datatype LogLevel =
    kTrace_lvl | kDebug_lvl | kInfo_lvl | kWarn_lvl | kError_lvl | kFatal_lvl | kEvent_lvl

fun level_value :: "LogLevel \<Rightarrow> nat" where
  "level_value kTrace_lvl = 0"
| "level_value kDebug_lvl = 1"
| "level_value kInfo_lvl = 2"
| "level_value kWarn_lvl = 3"
| "level_value kError_lvl = 4"
| "level_value kFatal_lvl = 5"
| "level_value kEvent_lvl = 6"

lemma level_value_inj: "level_value a = level_value b \<longleftrightarrow> a = b"
  by (cases a; cases b) simp_all

instantiation LogLevel :: linorder
begin

definition less_eq_LogLevel :: "LogLevel \<Rightarrow> LogLevel \<Rightarrow> bool" where
  "less_eq_LogLevel a b \<longleftrightarrow> level_value a \<le> level_value b"

definition less_LogLevel :: "LogLevel \<Rightarrow> LogLevel \<Rightarrow> bool" where
  "less_LogLevel a b \<longleftrightarrow> level_value a < level_value b"

instance
  by standard (auto simp: less_eq_LogLevel_def less_LogLevel_def level_value_inj)

end

section \<open>The macros\<close>

text \<open>
  \<open>LOG_BASE\<close>: the new last error, and whether \<open>pLogger->Log\<close> is called.
\<close>

definition LOG_BASE :: "LogLevel option \<Rightarrow> LogLevel \<Rightarrow> ErrorCode \<Rightarrow> last_error \<Rightarrow> last_error \<times> bool" where
  "LOG_BASE pLogger eLevel iErrorNo e =
     (if eLevel > kInfo_lvl \<and> eLevel < kEvent_lvl then SetLastError iErrorNo e else e,
      case pLogger of None \<Rightarrow> False | Some m_eLogLevel \<Rightarrow> eLevel \<ge> m_eLogLevel)"

definition LOG_TRACE :: "LogLevel option \<Rightarrow> ErrorCode \<Rightarrow> last_error \<Rightarrow> last_error \<times> bool" where
  "LOG_TRACE pLogger iErrorNo = LOG_BASE pLogger kTrace_lvl iErrorNo"

definition LOG_DEBUG :: "LogLevel option \<Rightarrow> ErrorCode \<Rightarrow> last_error \<Rightarrow> last_error \<times> bool" where
  "LOG_DEBUG pLogger iErrorNo = LOG_BASE pLogger kDebug_lvl iErrorNo"

definition LOG_INFO :: "LogLevel option \<Rightarrow> ErrorCode \<Rightarrow> last_error \<Rightarrow> last_error \<times> bool" where
  "LOG_INFO pLogger iErrorNo = LOG_BASE pLogger kInfo_lvl iErrorNo"

definition LOG_WARN :: "LogLevel option \<Rightarrow> ErrorCode \<Rightarrow> last_error \<Rightarrow> last_error \<times> bool" where
  "LOG_WARN pLogger iErrorNo = LOG_BASE pLogger kWarn_lvl iErrorNo"

definition LOG_ERROR :: "LogLevel option \<Rightarrow> ErrorCode \<Rightarrow> last_error \<Rightarrow> last_error \<times> bool" where
  "LOG_ERROR pLogger iErrorNo = LOG_BASE pLogger kError_lvl iErrorNo"

definition LOG_FATAL :: "LogLevel option \<Rightarrow> ErrorCode \<Rightarrow> last_error \<Rightarrow> last_error \<times> bool" where
  "LOG_FATAL pLogger iErrorNo = LOG_BASE pLogger kFatal_lvl iErrorNo"

definition LOG_EVENT :: "LogLevel option \<Rightarrow> ErrorCode \<Rightarrow> last_error \<Rightarrow> last_error \<times> bool" where
  "LOG_EVENT pLogger iErrorNo = LOG_BASE pLogger kEvent_lvl iErrorNo"

text \<open>
  The macros of \<open>base/include/logger/logger_ex2.h\<close> decide in the same way and call \<open>LogFormat\<close>. The
  second result is the text that its format makes of the module, the formatted message and the place.
\<close>

definition LOG_BASE2 ::
  "LogLevel option \<Rightarrow> LogLevel \<Rightarrow> ErrorCode \<Rightarrow> string \<Rightarrow> string \<Rightarrow> string \<Rightarrow> string \<Rightarrow> last_error \<Rightarrow> last_error \<times> string option" where
  "LOG_BASE2 pLogger eLevel iErrorNo module msg file func e =
     (if eLevel > kInfo_lvl \<and> eLevel < kEvent_lvl then SetLastError iErrorNo e else e,
      case pLogger of
        None \<Rightarrow> None
      | Some m_eLogLevel \<Rightarrow>
          if eLevel \<ge> m_eLogLevel
          then Some (''['' @ module @ ''] '' @ msg @ ''('' @ file @ '','' @ func @ '')'') else None)"

definition LOG_TRACE2 :: "LogLevel option \<Rightarrow> ErrorCode \<Rightarrow> string \<Rightarrow> string \<Rightarrow> string \<Rightarrow> string \<Rightarrow> last_error \<Rightarrow> last_error \<times> string option" where
  "LOG_TRACE2 pLogger iErrorNo = LOG_BASE2 pLogger kTrace_lvl iErrorNo"

definition LOG_DEBUG2 :: "LogLevel option \<Rightarrow> ErrorCode \<Rightarrow> string \<Rightarrow> string \<Rightarrow> string \<Rightarrow> string \<Rightarrow> last_error \<Rightarrow> last_error \<times> string option" where
  "LOG_DEBUG2 pLogger iErrorNo = LOG_BASE2 pLogger kDebug_lvl iErrorNo"

definition LOG_INFO2 :: "LogLevel option \<Rightarrow> ErrorCode \<Rightarrow> string \<Rightarrow> string \<Rightarrow> string \<Rightarrow> string \<Rightarrow> last_error \<Rightarrow> last_error \<times> string option" where
  "LOG_INFO2 pLogger iErrorNo = LOG_BASE2 pLogger kInfo_lvl iErrorNo"

definition LOG_WARN2 :: "LogLevel option \<Rightarrow> ErrorCode \<Rightarrow> string \<Rightarrow> string \<Rightarrow> string \<Rightarrow> string \<Rightarrow> last_error \<Rightarrow> last_error \<times> string option" where
  "LOG_WARN2 pLogger iErrorNo = LOG_BASE2 pLogger kWarn_lvl iErrorNo"

definition LOG_ERROR2 :: "LogLevel option \<Rightarrow> ErrorCode \<Rightarrow> string \<Rightarrow> string \<Rightarrow> string \<Rightarrow> string \<Rightarrow> last_error \<Rightarrow> last_error \<times> string option" where
  "LOG_ERROR2 pLogger iErrorNo = LOG_BASE2 pLogger kError_lvl iErrorNo"

definition LOG_FATAL2 :: "LogLevel option \<Rightarrow> ErrorCode \<Rightarrow> string \<Rightarrow> string \<Rightarrow> string \<Rightarrow> string \<Rightarrow> last_error \<Rightarrow> last_error \<times> string option" where
  "LOG_FATAL2 pLogger iErrorNo = LOG_BASE2 pLogger kFatal_lvl iErrorNo"

definition LOG_EVENT2 :: "LogLevel option \<Rightarrow> ErrorCode \<Rightarrow> string \<Rightarrow> string \<Rightarrow> string \<Rightarrow> string \<Rightarrow> last_error \<Rightarrow> last_error \<times> string option" where
  "LOG_EVENT2 pLogger iErrorNo = LOG_BASE2 pLogger kEvent_lvl iErrorNo"

lemmas log_macros = LOG_TRACE_def LOG_DEBUG_def LOG_INFO_def LOG_WARN_def LOG_ERROR_def LOG_FATAL_def
  LOG_EVENT_def LOG_TRACE2_def LOG_DEBUG2_def LOG_INFO2_def LOG_WARN2_def LOG_ERROR2_def LOG_FATAL2_def LOG_EVENT2_def

lemma macro_last_error:
  "fst (LOG_TRACE l c e) = e" "fst (LOG_DEBUG l c e) = e" "fst (LOG_INFO l c e) = e"
  "fst (LOG_WARN l c e) = c" "fst (LOG_ERROR l c e) = c" "fst (LOG_FATAL l c e) = c" "fst (LOG_EVENT l c e) = e"
  by (simp_all add: log_macros LOG_BASE_def less_LogLevel_def)

text \<open>Both families set the last error alike and let the same entries through.\<close>

lemma LOG_BASE2_same:
  "fst (LOG_BASE2 l v c module msg file func e) = fst (LOG_BASE l v c e)"
  "(snd (LOG_BASE2 l v c module msg file func e) \<noteq> None) = snd (LOG_BASE l v c e)"
  by (simp_all add: LOG_BASE2_def LOG_BASE_def split: option.split)

end
