(* ===== verification/Dispatcher.thy ===== *)
theory Dispatcher
  imports Thread LogMacro Fifo Allocator
begin

text \<open>
  \<open>network/sources/dispatcher.h\<close> and \<open>network/sources/epoll_impl.h\<close>: the tasks that the dispatchers
  exchange, their queue, the wrapper of an epoll set, and the base class of the two dispatchers.
\<close>

section \<open>Tasks\<close>

datatype NetTaskType =
    kAddAcceptor | kRemoveAcceptor | kAddConnection | kRemoveConnection | kDoDisconnect
  | kConnected | kDisconnected | kAddRecv | kRemoveRecv | kAddSend | kRemoveSend

text \<open>
  The only callable that is ever stored in \<open>funcCallback\<close> is the lambda of \<open>DetachConnection2\<close>, which
  captures the connection and the function to call: \<open>CEventDispatcher::DetachCallback\<close>, or one of the
  client's.
\<close>

datatype detach_func = DetachCallback | ClientDetach nat

datatype CallbackFunc = DetachLambda uint64_t detach_func

record NetTask =
  eNetTaskType :: NetTaskType
  funcCallback :: "CallbackFunc option"
  pCtx :: uint64_t

section \<open>CTaskQueue\<close>

text \<open>Each operation holds \<open>m_mutex\<close>; \<open>throws\<close> says whether an exception is thrown.\<close>

definition TaskQueue_PostTask :: "bool \<Rightarrow> NetTask \<Rightarrow> NetTask list \<Rightarrow> NetTask list \<times> ErrorCode" where
  "TaskQueue_PostTask throws tk m_queueTasks =
     (if throws then (m_queueTasks, kThrowException) else (m_queueTasks @ [tk], kSuccess))"

definition TaskQueue_GetTask :: "bool \<Rightarrow> NetTask list \<Rightarrow> NetTask list \<times> NetTask option \<times> ErrorCode" where
  "TaskQueue_GetTask throws m_queueTasks =
     (if throws then (m_queueTasks, None, kThrowException)
      else (case m_queueTasks of
          [] \<Rightarrow> ([], None, kInvalidState)
        | tk # m_queueTasks \<Rightarrow> (m_queueTasks, Some tk, kSuccess)))"

text \<open>\<open>Clear\<close>: the callables that are called, each with \<open>false\<close>, front first.\<close>

fun TaskQueue_Clear :: "NetTask list \<Rightarrow> NetTask list \<times> CallbackFunc list" where
  "TaskQueue_Clear [] = ([], [])"
| "TaskQueue_Clear (tk # m_queueTasks) =
     (case TaskQueue_Clear m_queueTasks of (q, cbs) \<Rightarrow>
        (q, (case funcCallback tk of None \<Rightarrow> cbs | Some f \<Rightarrow> f # cbs)))"

definition TaskQueue_IsEmpty :: "NetTask list \<Rightarrow> bool" where
  "TaskQueue_IsEmpty m_queueTasks \<longleftrightarrow> m_queueTasks = []"

lemma TaskQueue_Clear_eq:
  "TaskQueue_Clear q = ([], List.map_filter funcCallback q)"
  by (induction q) (simp_all add: List.map_filter_simps split: option.splits)

text \<open>While nothing throws, the queue keeps the contract of a first-in-first-out queue.\<close>

definition task_push :: "NetTask \<Rightarrow> NetTask list \<Rightarrow> NetTask list \<times> bool" where
  "task_push tk q = (case TaskQueue_PostTask False tk q of (q, r) \<Rightarrow> (q, r = kSuccess))"

definition task_pop :: "NetTask list \<Rightarrow> NetTask list \<times> NetTask option" where
  "task_pop q = (case TaskQueue_GetTask False q of (q, tk, r) \<Rightarrow> (q, tk))"

interpretation taskq: fifo task_push task_pop "\<lambda>q. q" "\<lambda>_. True" "\<lambda>_. n" for n
  by unfold_locales
    (auto simp: task_push_def TaskQueue_PostTask_def task_pop_def TaskQueue_GetTask_def split: list.splits)

section \<open>CEpollImpl\<close>

text \<open>
  The object, with the registrations of its epoll set: the descriptor, and the pointer and events
  given for it. The kernel accepts a call only if \<open>accepts\<close> and the documented condition holds:
  \<open>ADD\<close> of an open descriptor that is not registered, \<open>MOD\<close> and \<open>DEL\<close> of one that is.
\<close>

record CEpollImpl =
  m_iEpollFd :: int
  registered :: "int \<rightharpoonup> uint64_t \<times> uint32_t"

definition Epoll_default :: CEpollImpl where
  "Epoll_default = \<lparr>m_iEpollFd = -1, registered = Map.empty\<rparr>"

definition EPOLLIN :: uint32_t where "EPOLLIN = 1"
definition EPOLLOUT :: uint32_t where "EPOLLOUT = 4"
definition EPOLLERR :: uint32_t where "EPOLLERR = 8"

definition Epoll_Init :: "int \<Rightarrow> CEpollImpl \<Rightarrow> CEpollImpl \<times> int" where
  "Epoll_Init created ep = (ep\<lparr>m_iEpollFd := created\<rparr>, if created = -1 then -1 else 0)"

definition Epoll_Add :: "bool \<Rightarrow> int set \<Rightarrow> int \<Rightarrow> uint64_t \<Rightarrow> uint32_t \<Rightarrow> CEpollImpl \<Rightarrow> CEpollImpl \<times> int" where
  "Epoll_Add accepts opened iFd p uEvents ep =
     (if accepts \<and> iFd \<in> opened \<and> registered ep iFd = None
      then (ep\<lparr>registered := (registered ep)(iFd \<mapsto> (p, uEvents))\<rparr>, 0) else (ep, -1))"

definition Epoll_Mod :: "bool \<Rightarrow> int \<Rightarrow> uint64_t \<Rightarrow> uint32_t \<Rightarrow> CEpollImpl \<Rightarrow> CEpollImpl \<times> int" where
  "Epoll_Mod accepts iFd p uEvents ep =
     (if accepts \<and> registered ep iFd \<noteq> None
      then (ep\<lparr>registered := (registered ep)(iFd \<mapsto> (p, uEvents))\<rparr>, 0) else (ep, -1))"

definition Epoll_Del :: "bool \<Rightarrow> int \<Rightarrow> CEpollImpl \<Rightarrow> CEpollImpl \<times> int" where
  "Epoll_Del accepts iFd ep =
     (if accepts \<and> registered ep iFd \<noteq> None
      then (ep\<lparr>registered := (registered ep)(iFd := None)\<rparr>, 0) else (ep, -1))"

text \<open>\<open>Wait\<close> returns -1, or at most \<open>iMaxEvents\<close> of the events that are pending.\<close>

datatype wait_ans = WaitFailed | WaitEvents "(uint64_t \<times> uint32_t) list"

definition Epoll_Wait :: "nat \<Rightarrow> wait_ans \<Rightarrow> (uint64_t \<times> uint32_t) list option" where
  "Epoll_Wait iMaxEvents ans =
     (case ans of WaitFailed \<Rightarrow> None | WaitEvents evs \<Rightarrow> Some (take iMaxEvents evs))"

text \<open>The destructor closes the set.\<close>

definition Epoll_destructor :: "CEpollImpl \<Rightarrow> CEpollImpl" where
  "Epoll_destructor ep = (if m_iEpollFd ep \<noteq> -1 then ep\<lparr>m_iEpollFd := -1, registered := Map.empty\<rparr> else ep)"

section \<open>IDispatcher\<close>

text \<open>The function that the thread of a dispatcher is bound to.\<close>

datatype net_func = EventRunWrapper | IORunWrapper

type_synonym net_thread = "(net_func, unit) CThreadImpl"

record IDispatcher =
  m_pThreadManager :: bool
  m_pThread :: "net_thread option"
  m_TaskQueue :: "NetTask list"
  m_EpollImpl :: CEpollImpl
  m_vecEpollEvents :: nat

definition IDispatcher_default :: IDispatcher where
  "IDispatcher_default = \<lparr>m_pThreadManager = False, m_pThread = nullptr, m_TaskQueue = [],
     m_EpollImpl = Epoll_default, m_vecEpollEvents = 0\<rparr>"

text \<open>
  \<open>Init\<close>: \<open>manager\<close>, \<open>created\<close>, \<open>epfd\<close> and \<open>resized\<close> say whether the thread manager exists, whether it
  could create a thread, what \<open>epoll_create1\<close> returned and whether the vector could grow.
\<close>

definition IDispatcher_Init ::
  "bool \<Rightarrow> bool \<Rightarrow> int \<Rightarrow> bool \<Rightarrow> nat \<Rightarrow> IDispatcher \<Rightarrow> last_error \<Rightarrow> IDispatcher \<times> last_error \<times> ErrorCode" where
  "IDispatcher_Init manager created epfd resized uEventSize d e =
     (let d = d\<lparr>m_pThreadManager := manager\<rparr> in
      if \<not> manager then (d, SetLastError kInvalidParam e, kInvalidParam)
      else
        let d = d\<lparr>m_pThread := (if created then Some (CThreadImpl_ctor '''' None ()) else nullptr)\<rparr> in
        if \<not> created then (d, SetLastError kInvalidParam e, kInvalidParam)
        else (case Epoll_Init epfd (m_EpollImpl d) of (ep, r) \<Rightarrow>
          let d = d\<lparr>m_EpollImpl := ep\<rparr> in
          if r \<noteq> error_code_value kSuccess then (d, e, kInvalidCall)
          else if \<not> resized then (d, e, kThrowException)
          else (d\<lparr>m_vecEpollEvents := uEventSize\<rparr>, e, kSuccess)))"

text \<open>\<open>None\<close> is the termination of the program that \<open>CThreadImpl::Start\<close> may cause.\<close>

definition IDispatcher_Start ::
  "bool \<Rightarrow> IDispatcher \<Rightarrow> last_error \<Rightarrow> (IDispatcher \<times> last_error \<times> ErrorCode) option" where
  "IDispatcher_Start spawned d e =
     (case m_pThread d of
        None \<Rightarrow> Some (d, SetLastError kInvalidParam e, kInvalidParam)
      | Some t \<Rightarrow> map_option (\<lambda>(t, e, r). (d\<lparr>m_pThread := Some t\<rparr>, e, r)) (CThreadImpl_Start spawned t e))"

text \<open>\<open>Stop\<close>, once the thread has been joined; the second result are the callables called with \<open>false\<close>.\<close>

definition IDispatcher_Stop :: "IDispatcher \<Rightarrow> IDispatcher \<times> CallbackFunc list" where
  "IDispatcher_Stop d =
     (case m_pThread d of
        None \<Rightarrow> (d, [])
      | Some t \<Rightarrow>
          (case CThreadImpl_Stop_request t of (t, joins) \<Rightarrow>
             (case TaskQueue_Clear (m_TaskQueue d) of (q, cbs) \<Rightarrow>
                (d\<lparr>m_pThread := Some (if joins then t\<lparr>m_bJoinable := False, m_eCurrState := kStopped\<rparr> else t),
                   m_TaskQueue := q\<rparr>, cbs))))"

definition IDispatcher_DoTask :: "NetTask \<Rightarrow> ErrorCode" where
  "IDispatcher_DoTask tk = kInvalidCall"

definition IDispatcher_PostTask :: "bool \<Rightarrow> NetTask \<Rightarrow> IDispatcher \<Rightarrow> IDispatcher \<times> ErrorCode" where
  "IDispatcher_PostTask throws tk d =
     (case TaskQueue_PostTask throws tk (m_TaskQueue d) of (q, r) \<Rightarrow> (d\<lparr>m_TaskQueue := q\<rparr>, r))"

definition IDispatcher_IsRunning :: "IDispatcher \<Rightarrow> bool" where
  "IDispatcher_IsRunning d \<longleftrightarrow>
     (case m_pThread d of
        None \<Rightarrow> False
      | Some t \<Rightarrow> CThreadImpl_GetThreadState t = kRunning \<or> CThreadImpl_GetThreadState t = kPaused)"

definition IDispatcher_IsEmpty :: "IDispatcher \<Rightarrow> bool" where
  "IDispatcher_IsEmpty d \<longleftrightarrow> TaskQueue_IsEmpty (m_TaskQueue d)"

text \<open>
  The destructor destroys the thread, if there is one; the result says whether it did. The members
  are destroyed after it.
\<close>

definition IDispatcher_destructor :: "IDispatcher \<Rightarrow> IDispatcher \<times> bool" where
  "IDispatcher_destructor d =
     (d\<lparr>m_pThread := nullptr, m_pThreadManager := False, m_EpollImpl := Epoll_destructor (m_EpollImpl d),
        m_TaskQueue := [], m_vecEpollEvents := 0\<rparr>, m_pThread d \<noteq> nullptr)"

section \<open>Every task leaves once\<close>

datatype task_op = TPost bool NetTask | TGet bool | TClear

text \<open>
  A run of the three operations: the queue, the tasks that were posted with success, the tasks that
  left, and the callables that \<open>Clear\<close> called.
\<close>

fun task_run ::
  "task_op list \<Rightarrow> NetTask list \<Rightarrow> NetTask list \<times> NetTask list \<times> NetTask list \<times> CallbackFunc list" where
  "task_run [] q = (q, [], [], [])"
| "task_run (TPost throws tk # ops) q =
     (case TaskQueue_PostTask throws tk q of (q, r) \<Rightarrow>
        (case task_run ops q of (q, ps, ls, cbs) \<Rightarrow> (q, if r = kSuccess then tk # ps else ps, ls, cbs)))"
| "task_run (TGet throws # ops) q =
     (case TaskQueue_GetTask throws q of (q, tk, r) \<Rightarrow>
        (case task_run ops q of (q, ps, ls, cbs) \<Rightarrow> (q, ps, if r = kSuccess then the tk # ls else ls, cbs)))"
| "task_run (TClear # ops) q =
     (case TaskQueue_Clear q of (q', cs) \<Rightarrow>
        (case task_run ops q' of (q', ps, ls, cbs) \<Rightarrow> (q', ps, q @ ls, cs @ cbs)))"

lemma task_run_split:
  "task_run ops q = (q', ps, ls, cbs) \<Longrightarrow> q @ ps = ls @ q'"
proof (induction ops arbitrary: q q' ps ls cbs)
  case (Cons op ops)
  show ?case
  proof (cases op)
    case (TPost throws tk)
    with Cons.prems Cons.IH show ?thesis
      by (cases throws) (force simp: TaskQueue_PostTask_def split: prod.splits)+
  next
    case (TGet throws)
    with Cons.prems Cons.IH show ?thesis
      by (cases throws; cases q) (force simp: TaskQueue_GetTask_def split: prod.splits)+
  next
    case TClear
    with Cons.prems Cons.IH [of "[]"] show ?thesis
      by (force simp: TaskQueue_Clear_eq split: prod.splits)
  qed
qed simp

text \<open>
  Fact: in every sequence of \<open>PostTask\<close>, \<open>GetTask\<close> and \<open>Clear\<close>, whatever of it throws, each task that was
  posted with success leaves the queue exactly once or is still there, in the order of posting. An
  operation that throws neither loses nor duplicates a task.
\<close>

theorem task_queue_accounting:
  assumes "task_run ops [] = (q, posted, left, cbs)"
  shows "posted = left @ q"
  using task_run_split [OF assms] by simp

definition demo_tasks :: "NetTask \<times> NetTask" where
  "demo_tasks = (\<lparr>eNetTaskType = kAddAcceptor, funcCallback = nullptr, pCtx = 8\<rparr>,
     \<lparr>eNetTaskType = kDoDisconnect, funcCallback = Some (DetachLambda 16 DetachCallback), pCtx = 16\<rparr>)"

lemma task_queue_accounting_witness:
  "\<exists>q posted left cbs. task_run [TPost False (fst demo_tasks), TPost True (fst demo_tasks),
       TPost False (snd demo_tasks), TGet False, TClear, TPost False (fst demo_tasks)] [] = (q, posted, left, cbs) \<and>
     posted = left @ q \<and> left = [fst demo_tasks, snd demo_tasks] \<and> cbs = [DetachLambda 16 DetachCallback]"
proof -
  have r: "task_run [TPost False (fst demo_tasks), TPost True (fst demo_tasks),
       TPost False (snd demo_tasks), TGet False, TClear, TPost False (fst demo_tasks)] [] =
     ([fst demo_tasks], [fst demo_tasks, snd demo_tasks, fst demo_tasks],
      [fst demo_tasks, snd demo_tasks], [DetachLambda 16 DetachCallback])"
    by (simp add: TaskQueue_PostTask_def TaskQueue_GetTask_def demo_tasks_def)
  from task_queue_accounting [OF this] r show ?thesis
    by simp
qed

end
