(* ===== verification/ReceiveBuffer.thy ===== *)
theory ReceiveBuffer
  imports Prelude
begin

text \<open>
  \<open>CReceiveBuffer\<close> of \<open>network/sources/receive_buffer.h\<close>. The block \<open>m_pData\<close> points to is a list of
  bytes; a copy or a \<open>recv\<close> that would go past its end is undefined behaviour, the result \<open>None\<close>. The
  allocator is an argument: a function from the number of bytes asked for to the new block.
\<close>

section \<open>State and operations\<close>

record CReceiveBuffer =
  rb_pData :: "uint8_t list option"
  rb_uSize :: uint32_t
  rb_uTail :: uint32_t
  rb_uHead :: uint32_t

type_synonym block_alloc = "nat \<Rightarrow> uint8_t list option"

definition rb_default :: CReceiveBuffer where
  "rb_default = \<lparr>rb_pData = nullptr, rb_uSize = 0, rb_uTail = 0, rb_uHead = 0\<rparr>"

text \<open>\<open>alloc = None\<close> is a null allocator.\<close>

definition rb_Init ::
  "block_alloc option \<Rightarrow> uint32_t \<Rightarrow> CReceiveBuffer \<Rightarrow> CReceiveBuffer \<times> ErrorCode" where
  "rb_Init alloc uSize b =
     (case alloc of
        None \<Rightarrow> (b, kInvalidParam)
      | Some malloc \<Rightarrow>
          (case malloc (unat uSize) of
             None \<Rightarrow> (b\<lparr>rb_pData := nullptr\<rparr>, kOutOfMemory)
           | Some p \<Rightarrow> (\<lparr>rb_pData = Some p, rb_uSize = uSize, rb_uTail = 0, rb_uHead = 0\<rparr>, kSuccess)))"

text \<open>\<open>memmove\<close> of \<open>n\<close> bytes from offset \<open>h\<close> to the start, inside one block.\<close>

definition move_down :: "nat \<Rightarrow> nat \<Rightarrow> uint8_t list \<Rightarrow> uint8_t list option" where
  "move_down h n xs = (if h + n \<le> length xs then Some (take n (drop h xs) @ drop n xs) else None)"

definition rb_Compact :: "CReceiveBuffer \<Rightarrow> CReceiveBuffer option" where
  "rb_Compact b =
     (if rb_uTail b \<noteq> rb_uHead b
      then (case move_down (unat (rb_uHead b)) (unat (rb_uTail b - rb_uHead b)) (the (rb_pData b)) of
          None \<Rightarrow> None
        | Some xs \<Rightarrow> Some (b\<lparr>rb_pData := Some xs, rb_uTail := rb_uTail b - rb_uHead b, rb_uHead := 0\<rparr>))
      else Some b)"

definition rb_Expand ::
  "block_alloc \<Rightarrow> uint32_t \<Rightarrow> CReceiveBuffer \<Rightarrow> (CReceiveBuffer \<times> ErrorCode) option" where
  "rb_Expand malloc uLength b =
     (case rb_Compact b of
        None \<Rightarrow> None
      | Some b \<Rightarrow>
          (case malloc (unat (rb_uSize b + uLength)) of
             None \<Rightarrow> Some (b, kOutOfMemory)
           | Some new \<Rightarrow>
               (if unat (rb_uSize b) \<le> length new \<and> unat (rb_uSize b) \<le> length (the (rb_pData b))
                then Some (b\<lparr>rb_pData := Some (take (unat (rb_uSize b)) (the (rb_pData b)) @
                         drop (unat (rb_uSize b)) new),
                       rb_uSize := rb_uSize b + uLength\<rparr>, kSuccess)
                else None)))"

text \<open>
  What \<open>recv\<close> answers: bytes (as many as asked for at most, none at the end of the stream), would
  block, or another error.
\<close>

datatype recv_ans = RData "uint8_t list" | RAgain | RError

text \<open>The results are the code, \<open>uRecvLength\<close> and \<open>bEOF\<close>.\<close>

definition rb_Recv ::
  "block_alloc \<Rightarrow> recv_ans \<Rightarrow> uint32_t \<Rightarrow> CReceiveBuffer \<Rightarrow>
     (CReceiveBuffer \<times> ErrorCode \<times> uint32_t \<times> bool) option" where
  "rb_Recv malloc ans uMaxRecvLength b =
     (case (if rb_uTail b + 1024 \<ge> rb_uSize b then rb_Expand malloc (rb_uSize b) b
            else Some (b, kSuccess)) of
        None \<Rightarrow> None
      | Some (b, code) \<Rightarrow>
          if code \<noteq> kSuccess then Some (b, kOutOfMemory, 0, False)
          else
            (case ans of
               RAgain \<Rightarrow> Some (b, kSuccess, 0, False)
             | RError \<Rightarrow> Some (b, kSystemError, 0, False)
             | RData stream \<Rightarrow>
                 let uWriteLength = min (rb_uSize b - rb_uTail b) uMaxRecvLength;
                     xs = take (unat uWriteLength) stream;
                     data = the (rb_pData b)
                 in if xs = [] then Some (b, kSuccess, 0, True)
                    else if unat (rb_uTail b) + length xs \<le> length data
                    then Some (b\<lparr>rb_pData := Some (take (unat (rb_uTail b)) data @ xs @
                             drop (unat (rb_uTail b) + length xs) data),
                           rb_uTail := rb_uTail b + word_of_nat (length xs)\<rparr>,
                         kSuccess, word_of_nat (length xs), False)
                    else None))"

definition rb_GetReadLength :: "CReceiveBuffer \<Rightarrow> uint32_t" where
  "rb_GetReadLength b = rb_uTail b - rb_uHead b"

text \<open>The bytes from \<open>GetReadBegin()\<close> on, \<open>GetReadLength()\<close> many.\<close>

definition rb_GetReadBegin :: "CReceiveBuffer \<Rightarrow> uint8_t list" where
  "rb_GetReadBegin b =
     take (unat (rb_GetReadLength b)) (drop (unat (rb_uHead b)) (the (rb_pData b)))"

definition rb_Consume :: "uint32_t \<Rightarrow> CReceiveBuffer \<Rightarrow> CReceiveBuffer" where
  "rb_Consume uLength b =
     (let head = rb_uHead b + uLength
      in if head = rb_uTail b then b\<lparr>rb_uHead := 0, rb_uTail := 0\<rparr> else b\<lparr>rb_uHead := head\<rparr>)"

section \<open>The invariant\<close>

text \<open>The positions are in order inside the block.\<close>

definition rb_inv :: "CReceiveBuffer \<Rightarrow> bool" where
  "rb_inv b \<longleftrightarrow> (\<exists>data. rb_pData b = Some data \<and> length data = unat (rb_uSize b)) \<and>
     rb_uHead b \<le> rb_uTail b \<and> rb_uTail b \<le> rb_uSize b"

text \<open>What is known of the allocator: a block has the size asked for.\<close>

definition malloc_ok :: "block_alloc \<Rightarrow> bool" where
  "malloc_ok malloc \<longleftrightarrow> (\<forall>n p. malloc n = Some p \<longrightarrow> length p = n)"

lemma malloc_okD: "malloc_ok malloc \<Longrightarrow> malloc n = Some p \<Longrightarrow> length p = n"
  by (simp add: malloc_ok_def)

text \<open>
  A \<open>Recv\<close> that has to grow a block of at least \<open>2^31\<close> bytes asks for the sum \<open>m_uSize + uLength\<close> in
  32 bits, which wraps; when that much smaller block is granted, the copy runs past its end.
\<close>

definition rb_overflows :: "block_alloc \<Rightarrow> CReceiveBuffer \<Rightarrow> bool" where
  "rb_overflows malloc b \<longleftrightarrow> rb_uTail b + 1024 \<ge> rb_uSize b \<and> 2 ^ 31 \<le> unat (rb_uSize b) \<and>
     malloc (unat (rb_uSize b + rb_uSize b)) \<noteq> None"

lemma rb_invD:
  assumes "rb_inv b"
  obtains data where "rb_pData b = Some data" "length data = unat (rb_uSize b)"
    "unat (rb_uHead b) \<le> unat (rb_uTail b)" "unat (rb_uTail b) \<le> unat (rb_uSize b)"
    "unat (rb_uSize b) < 2 ^ 32" "unat (rb_GetReadLength b) = unat (rb_uTail b) - unat (rb_uHead b)"
  using assms unat_lt32 [of "rb_uSize b"]
  by (auto simp: rb_inv_def word_le_nat_alt rb_GetReadLength_def unat_sub)

lemma rb_contents_length: "rb_inv b \<Longrightarrow> length (rb_GetReadBegin b) = unat (rb_GetReadLength b)"
  by (erule rb_invD) (simp add: rb_GetReadBegin_def)

lemma rb_Compact_ok:
  assumes "rb_inv b"
  obtains b' where "rb_Compact b = Some b'" "rb_inv b'" "rb_GetReadBegin b' = rb_GetReadBegin b"
    "rb_uSize b' = rb_uSize b"
proof (cases "rb_uTail b = rb_uHead b")
  case True
  then show thesis
    by (intro that [of b]) (simp_all add: rb_Compact_def assms)
next
  case False
  obtain data where d: "rb_pData b = Some data" "length data = unat (rb_uSize b)"
    "unat (rb_uHead b) \<le> unat (rb_uTail b)" "unat (rb_uTail b) \<le> unat (rb_uSize b)"
    "unat (rb_uSize b) < 2 ^ 32" "unat (rb_GetReadLength b) = unat (rb_uTail b) - unat (rb_uHead b)"
    using rb_invD [OF assms] .
  let ?n = "unat (rb_uTail b - rb_uHead b)"
  have n: "?n = unat (rb_uTail b) - unat (rb_uHead b)"
    using d(6) by (simp add: rb_GetReadLength_def)
  let ?b = "b\<lparr>rb_pData := Some (take ?n (drop (unat (rb_uHead b)) data) @ drop ?n data),
    rb_uTail := rb_uTail b - rb_uHead b, rb_uHead := 0\<rparr>"
  have c: "rb_Compact b = Some ?b"
    using False d n by (simp add: rb_Compact_def move_down_def)
  moreover have "rb_inv ?b"
    using d n by (simp add: rb_inv_def word_le_nat_alt)
  moreover have "rb_GetReadBegin ?b = rb_GetReadBegin b"
    using d n by (simp add: rb_GetReadBegin_def rb_GetReadLength_def)
  ultimately show thesis
    by (intro that [of ?b]) simp_all
qed

lemma nat_double_mod: "n < (z :: nat) \<Longrightarrow> z \<le> n + n \<Longrightarrow> (n + n) mod z = n + n - z"
  by (subst le_mod_geq) simp_all

lemma word_double:
  fixes s :: uint32_t
  shows "unat s < 2 ^ 31 \<Longrightarrow> unat (s + s) = unat s + unat s"
    and "2 ^ 31 \<le> unat s \<Longrightarrow> unat (s + s) = unat s + unat s - 2 ^ 32"
proof -
  have eq: "unat (s + s) = (unat s + unat s) mod 2 ^ 32"
    unfolding unat_word_ariths(1) by simp
  show "unat s < 2 ^ 31 \<Longrightarrow> unat (s + s) = unat s + unat s"
    unfolding eq by simp
  assume "2 ^ 31 \<le> unat s"
  then have "2 ^ 32 \<le> unat s + unat s"
    by simp
  with unat_lt32 [of s] show "unat (s + s) = unat s + unat s - 2 ^ 32"
    unfolding eq by (rule nat_double_mod)
qed

lemma rb_Expand_ok:
  assumes "rb_inv b" "malloc_ok malloc"
    and safe: "\<not> (2 ^ 31 \<le> unat (rb_uSize b) \<and> malloc (unat (rb_uSize b + rb_uSize b)) \<noteq> None)"
  obtains b' code where "rb_Expand malloc (rb_uSize b) b = Some (b', code)" "rb_inv b'"
    "rb_GetReadBegin b' = rb_GetReadBegin b"
    "rb_uSize b' = rb_uSize b \<or> malloc (unat (rb_uSize b')) \<noteq> None"
proof -
  obtain c where c: "rb_Compact b = Some c" "rb_inv c" "rb_GetReadBegin c = rb_GetReadBegin b"
    "rb_uSize c = rb_uSize b"
    using rb_Compact_ok [OF assms(1)] .
  obtain data where d: "rb_pData c = Some data" "length data = unat (rb_uSize c)"
    "unat (rb_uHead c) \<le> unat (rb_uTail c)" "unat (rb_uTail c) \<le> unat (rb_uSize c)"
    "unat (rb_uSize c) < 2 ^ 32" "unat (rb_GetReadLength c) = unat (rb_uTail c) - unat (rb_uHead c)"
    using rb_invD [OF c(2)] .
  show thesis
  proof (cases "malloc (unat (rb_uSize c + rb_uSize b))")
    case None
    then show thesis
      using c by (intro that [of c kOutOfMemory]) (simp_all add: rb_Expand_def)
  next
    case (Some new)
    with safe c(4) have small: "unat (rb_uSize b) < 2 ^ 31"
      by auto
    then have sum: "unat (rb_uSize c + rb_uSize b) = 2 * unat (rb_uSize b)"
      using word_double(1) [of "rb_uSize b"] by (simp add: c(4))
    note m = malloc_okD [OF assms(2) Some]
    let ?b = "c\<lparr>rb_pData := Some (take (unat (rb_uSize c)) data @ drop (unat (rb_uSize c)) new),
      rb_uSize := rb_uSize c + rb_uSize b\<rparr>"
    have "rb_Expand malloc (rb_uSize b) b = Some (?b, kSuccess)"
      using c(1) Some d m sum by (simp add: rb_Expand_def c(4))
    moreover have "rb_inv ?b"
      using d m sum c(4) by (simp add: rb_inv_def word_le_nat_alt)
    moreover have "rb_GetReadBegin ?b = rb_GetReadBegin b"
      using d c(3,4) by (simp add: rb_GetReadBegin_def rb_GetReadLength_def)
    ultimately show thesis
      using Some by (intro that [of ?b kSuccess]) simp_all
  qed
qed

lemma rb_Expand_overflows:
  assumes "rb_inv b" "malloc_ok malloc" "2 ^ 31 \<le> unat (rb_uSize b)"
    "malloc (unat (rb_uSize b + rb_uSize b)) = Some new"
  shows "rb_Expand malloc (rb_uSize b) b = None"
proof -
  obtain c where c: "rb_Compact b = Some c" "rb_inv c" "rb_uSize c = rb_uSize b"
    using rb_Compact_ok [OF assms(1)] .
  have "length new = unat (rb_uSize b) + unat (rb_uSize b) - 2 ^ 32"
    using malloc_okD [OF assms(2,4)] word_double(2) [OF assms(3)] by simp
  then have "length new < unat (rb_uSize b)"
    using assms(3) unat_lt32 [of "rb_uSize b"] by simp
  with c assms(4) show ?thesis
    by (simp add: rb_Expand_def)
qed

section \<open>What the operations do to the contents\<close>

lemma rb_append:
  assumes "rb_inv b" "length xs \<le> unat (rb_uSize b - rb_uTail b)"
  defines "c \<equiv> b\<lparr>rb_pData := Some (take (unat (rb_uTail b)) (the (rb_pData b)) @ xs @
      drop (unat (rb_uTail b) + length xs) (the (rb_pData b))),
    rb_uTail := rb_uTail b + word_of_nat (length xs)\<rparr>"
  shows "unat (rb_uTail b) + length xs \<le> length (the (rb_pData b))" "rb_inv c"
    "rb_GetReadBegin c = rb_GetReadBegin b @ xs" "unat (word_of_nat (length xs) :: uint32_t) = length xs"
proof -
  obtain data where d: "rb_pData b = Some data" "length data = unat (rb_uSize b)"
    "unat (rb_uHead b) \<le> unat (rb_uTail b)" "unat (rb_uTail b) \<le> unat (rb_uSize b)"
    "unat (rb_uSize b) < 2 ^ 32" "unat (rb_GetReadLength b) = unat (rb_uTail b) - unat (rb_uHead b)"
    using rb_invD [OF assms(1)] .
  have room: "unat (rb_uTail b) + length xs \<le> unat (rb_uSize b)"
    using assms(2) d(4) by (simp add: unat_sub word_le_nat_alt)
  then show "unat (rb_uTail b) + length xs \<le> length (the (rb_pData b))"
    using d by simp
  show len: "unat (word_of_nat (length xs) :: uint32_t) = length xs"
    using room d(5) unfolding unat_of_nat by simp
  have tail: "unat (rb_uTail b + word_of_nat (length xs)) = unat (rb_uTail b) + length xs"
    using room d(5) len by (subst unat_add_lem [THEN iffD1]) simp_all
  have c: "rb_pData c = Some (take (unat (rb_uTail b)) data @ xs @ drop (unat (rb_uTail b) + length xs) data)"
    "rb_uSize c = rb_uSize b" "rb_uHead c = rb_uHead b" "unat (rb_uTail c) = unat (rb_uTail b) + length xs"
    using tail d(1) by (simp_all add: c_def)
  show inv: "rb_inv c"
    using c d room by (simp add: rb_inv_def word_le_nat_alt)
  have "unat (rb_GetReadLength c) = unat (rb_uTail b) + length xs - unat (rb_uHead b)"
    using rb_invD [OF inv] c by metis
  then show "rb_GetReadBegin c = rb_GetReadBegin b @ xs"
    using c d by (simp add: rb_GetReadBegin_def drop_take)
qed

lemma rb_Recv_overflows:
  assumes "rb_inv b" "malloc_ok malloc" "rb_overflows malloc b"
  shows "rb_Recv malloc ans uMax b = None"
  using assms rb_Expand_overflows [OF assms(1,2)] by (auto simp: rb_overflows_def rb_Recv_def)

lemma rb_Recv_ok:
  assumes "rb_inv b" "malloc_ok malloc" "\<not> rb_overflows malloc b"
  obtains b' code n eof xs where "rb_Recv malloc ans uMax b = Some (b', code, n, eof)" "rb_inv b'"
    "rb_GetReadBegin b' = rb_GetReadBegin b @ xs" "unat n = length xs" "length xs \<le> unat uMax"
    "code \<noteq> kSuccess \<or> eof \<longrightarrow> xs = []" "\<forall>s. ans = RData s \<longrightarrow> xs = take (length xs) s"
    "(\<forall>s. ans \<noteq> RData s) \<longrightarrow> xs = [] \<and> \<not> eof"
    "rb_uSize b' = rb_uSize b \<or> malloc (unat (rb_uSize b')) \<noteq> None"
proof -
  let ?pre = "if rb_uTail b + 1024 \<ge> rb_uSize b then rb_Expand malloc (rb_uSize b) b else Some (b, kSuccess)"
  obtain c code where c: "?pre = Some (c, code)" "rb_inv c" "rb_GetReadBegin c = rb_GetReadBegin b"
    "rb_uSize c = rb_uSize b \<or> malloc (unat (rb_uSize c)) \<noteq> None"
  proof (cases "rb_uTail b + 1024 \<ge> rb_uSize b")
    case True
    with assms(3) have safe:
      "\<not> (2 ^ 31 \<le> unat (rb_uSize b) \<and> malloc (unat (rb_uSize b + rb_uSize b)) \<noteq> None)"
      by (auto simp: rb_overflows_def)
    show thesis
      by (rule rb_Expand_ok [OF assms(1,2) safe]) (use True that in simp)
  next
    case False
    then show thesis
      by (intro that [of b kSuccess]) (simp_all add: assms(1))
  qed
  show thesis
  proof (cases "code = kSuccess \<and> (\<exists>s. ans = RData s)")
    case False
    then consider "code \<noteq> kSuccess" | "code = kSuccess" "ans = RAgain" | "code = kSuccess" "ans = RError"
      by (cases ans) auto
    then show thesis
    proof cases
      case 1
      with c show thesis
        by (intro that [of c kOutOfMemory 0 False "[]"]) (simp_all add: rb_Recv_def)
    next
      case 2
      with c show thesis
        by (intro that [of c kSuccess 0 False "[]"]) (simp_all add: rb_Recv_def)
    next
      case 3
      with c show thesis
        by (intro that [of c kSystemError 0 False "[]"]) (simp_all add: rb_Recv_def)
    qed
  next
    case True
    then obtain s where s: "ans = RData s" "code = kSuccess"
      by blast
    define xs where "xs = take (unat (min (rb_uSize c - rb_uTail c) uMax)) s"
    have len: "length xs \<le> unat (rb_uSize c - rb_uTail c)" "length xs \<le> unat uMax"
      by (auto simp: xs_def min_def word_le_nat_alt)
    have prefix: "take (length xs) s = xs"
      by (cases "unat (min (rb_uSize c - rb_uTail c) uMax) \<le> length s") (simp_all add: xs_def)
    note app = rb_append [OF c(2) len(1)]
    show thesis
    proof (cases "xs = []")
      case True
      then show thesis
        using c s len by (intro that [of c kSuccess 0 True "[]"])
          (simp_all add: rb_Recv_def Let_def xs_def [symmetric] del: take_eq_Nil take_eq_Nil2)
    next
      case False
      then show thesis
        using c s len app prefix
        by (intro that [of "c\<lparr>rb_pData := Some (take (unat (rb_uTail c)) (the (rb_pData c)) @ xs @
              drop (unat (rb_uTail c) + length xs) (the (rb_pData c))),
            rb_uTail := rb_uTail c + word_of_nat (length xs)\<rparr>" kSuccess "word_of_nat (length xs)" False xs])
          (simp_all add: rb_Recv_def Let_def xs_def [symmetric] del: take_eq_Nil take_eq_Nil2)
    qed
  qed
qed

lemma rb_Consume_ok:
  assumes "rb_inv b" "n \<le> rb_GetReadLength b"
  shows "rb_inv (rb_Consume n b)" "rb_GetReadBegin (rb_Consume n b) = drop (unat n) (rb_GetReadBegin b)"
proof -
  obtain data where d: "rb_pData b = Some data" "length data = unat (rb_uSize b)"
    "unat (rb_uHead b) \<le> unat (rb_uTail b)" "unat (rb_uTail b) \<le> unat (rb_uSize b)"
    "unat (rb_uSize b) < 2 ^ 32" "unat (rb_GetReadLength b) = unat (rb_uTail b) - unat (rb_uHead b)"
    using rb_invD [OF assms(1)] .
  have n: "unat n \<le> unat (rb_uTail b) - unat (rb_uHead b)"
    using assms(2) d(6) by (simp add: word_le_nat_alt)
  then have head: "unat (rb_uHead b + n) = unat (rb_uHead b) + unat n"
    using d by (subst unat_add_lem [THEN iffD1]) simp_all
  have sub: "unat (rb_uTail b - (rb_uHead b + n)) = unat (rb_uTail b) - (unat (rb_uHead b) + unat n)"
    using head n d(3) by (simp add: unat_sub word_le_nat_alt)
  have all: "unat n = unat (rb_uTail b) - unat (rb_uHead b)" if "rb_uHead b + n = rb_uTail b"
    using head that by simp
  have le: "unat (rb_uHead b) + unat n \<le> unat (rb_uTail b)"
    using n d(3) by simp
  show "rb_inv (rb_Consume n b)"
    using d head le by (simp add: rb_Consume_def rb_inv_def Let_def word_le_nat_alt)
  show "rb_GetReadBegin (rb_Consume n b) = drop (unat n) (rb_GetReadBegin b)"
    using d n head sub all
    by (auto simp: rb_Consume_def rb_GetReadBegin_def rb_GetReadLength_def Let_def drop_take add.commute)
qed

lemma rb_Init_ok:
  assumes "malloc_ok malloc" "rb_Init (Some malloc) uSize b = (c, kSuccess)"
  shows "rb_inv c" "rb_GetReadBegin c = []"
  using assms malloc_okD [OF assms(1), of "unat uSize"]
  by (auto simp: rb_Init_def rb_inv_def rb_GetReadBegin_def rb_GetReadLength_def split: option.splits)

end
