(* ===== verification/Delivery.thy ===== *)
theory Delivery
  imports ReceiveBuffer
begin

text \<open>
  From bytes to messages: \<open>CConnectionImpl::DeliverMessage\<close> and the loop of \<open>CConnectionImpl::Recv\<close> of
  \<open>network/sources/connection_impl.cpp\<close>. \<open>len\<close> is the client's \<open>OnMessageLength\<close>; the messages given to
  \<open>OnMessage\<close> are a result.
\<close>

section \<open>Delivering the messages in the buffer\<close>

definition UINT32_MAX :: uint32_t where "UINT32_MAX = 0xFFFFFFFF"

lemma rb_Consume_shrinks:
  assumes "n \<noteq> 0" "n \<le> rb_GetReadLength b"
  shows "unat (rb_GetReadLength (rb_Consume n b)) < unat (rb_GetReadLength b)"
proof -
  have "unat (rb_GetReadLength b - n) = unat (rb_GetReadLength b) - unat n"
    using assms(2) by (simp add: unat_sub)
  moreover have "0 < unat n" "unat n \<le> unat (rb_GetReadLength b)"
    using assms by (simp_all add: word_le_nat_alt unat_gt_0)
  moreover have "rb_GetReadLength (rb_Consume n b) = rb_GetReadLength b - n \<or>
      rb_GetReadLength (rb_Consume n b) = 0"
    by (simp add: rb_Consume_def rb_GetReadLength_def Let_def)
  ultimately show ?thesis
    by auto
qed

function DeliverMessage ::
  "(uint8_t list \<Rightarrow> uint32_t) \<Rightarrow> CReceiveBuffer \<Rightarrow> CReceiveBuffer \<times> uint8_t list list \<times> ErrorCode" where
  "DeliverMessage len b =
     (let pData = rb_GetReadBegin b; uAvailableLength = rb_GetReadLength b;
          uMessageLength = len pData
      in if uMessageLength = 0 then (b, [], kSuccess)
         else if uMessageLength = UINT32_MAX then (b, [], kInvalidState)
         else if uMessageLength \<le> uAvailableLength then
           let msg = take (unat uMessageLength) pData; b = rb_Consume uMessageLength b
           in if uMessageLength = uAvailableLength then (b, [msg], kSuccess)
              else (case DeliverMessage len b of (b, ms, code) \<Rightarrow> (b, msg # ms, code))
         else (b, [], kSuccess))"
  by pat_completeness auto
termination
  by (relation "measure (\<lambda>(len, b). unat (rb_GetReadLength b))") (simp_all add: rb_Consume_shrinks)

declare DeliverMessage.simps [simp del]

section \<open>Reading from the socket\<close>

text \<open>
  What the kernel decides at one \<open>recv\<close>: how many bytes of the stream it has ready (none, for a
  stream that has ended, is the end of file), that it would block, or an error.
\<close>

datatype cut = CData nat | CAgain | CFail

fun cut_ans :: "cut \<Rightarrow> uint8_t list \<Rightarrow> recv_ans" where
  "cut_ans (CData k) stream = RData (take k stream)"
| "cut_ans CAgain stream = RAgain"
| "cut_ans CFail stream = RError"

text \<open>How the loop ends: the error of \<open>recv\<close> or of the delivery, the end of file, or normally.\<close>

datatype recv_out = RDone | REof uint32_t | RRecvFailed ErrorCode | RDeliverFailed ErrorCode

lemma rb_Recv_bound:
  assumes "rb_Recv malloc ans uMax b = Some (b', code, n, eof)"
  shows "n \<le> uMax"
proof -
  have "(word_of_nat (length (take (unat (min k uMax)) s)) :: uint32_t) \<le> uMax" for k and s :: "uint8_t list"
  proof -
    have "length (take (unat (min k uMax)) s) \<le> unat uMax"
      by (auto simp: min_def word_le_nat_alt)
    then show ?thesis
      unfolding word_le_nat_alt unat_of_nat by (meson le_trans mod_less_eq_dividend)
  qed
  with assms show ?thesis
    by (auto simp: rb_Recv_def Let_def split: option.splits prod.splits if_splits recv_ans.splits)
qed

lemma word_remaining_less:
  fixes t u n :: uint32_t
  assumes "n \<le> u - t" "t < u" "n \<noteq> 0"
  shows "unat u - unat (t + n) < unat u - unat t"
proof -
  have n: "unat n \<le> unat u - unat t"
    using assms(1,2) by (simp add: word_le_nat_alt unat_sub word_less_nat_alt)
  have u: "unat u < 2 ^ LENGTH(32)"
    by (rule unsigned_less)
  have "unat (t + n) = unat t + unat n"
    using n assms(2) u by (subst unat_add_lem [THEN iffD1]) (simp_all add: word_less_nat_alt)
  moreover have "0 < unat n" "unat t < unat u"
    using assms(2,3) by (simp_all add: unat_gt_0 word_less_nat_alt)
  ultimately show ?thesis
    using n by simp
qed

text \<open>
  The loop of \<open>Recv(uSize)\<close>: \<open>sock i\<close> is the allocator and the kernel's decision at the \<open>i\<close>-th call, and
  \<open>stream\<close> what the peer has sent and is not yet read. The results are the buffer, the messages
  delivered, the rest of the stream and how the loop ended.
\<close>

function Recv_loop ::
  "(uint8_t list \<Rightarrow> uint32_t) \<Rightarrow> (nat \<Rightarrow> block_alloc \<times> cut) \<Rightarrow> uint32_t \<Rightarrow> nat \<Rightarrow> uint32_t \<Rightarrow>
     uint8_t list \<Rightarrow> CReceiveBuffer \<Rightarrow>
     (CReceiveBuffer \<times> uint8_t list list \<times> uint8_t list \<times> recv_out) option" where
  "Recv_loop len sock uSize i uTotalRecv stream b =
     (if uTotalRecv < uSize then
        case rb_Recv (fst (sock i)) (cut_ans (snd (sock i)) stream) (uSize - uTotalRecv) b of
          None \<Rightarrow> None
        | Some (b, code, uRecvLength, bEOF) \<Rightarrow>
            let stream = drop (unat uRecvLength) stream in
            if code \<noteq> kSuccess then Some (b, [], stream, RRecvFailed code)
            else
              (case DeliverMessage len b of (b, ms, dcode) \<Rightarrow>
                 if dcode \<noteq> kSuccess then Some (b, ms, stream, RDeliverFailed dcode)
                 else if bEOF then Some (b, ms, stream, REof uTotalRecv)
                 else if uRecvLength = 0 then Some (b, ms, stream, RDone)
                 else map_option (\<lambda>(b, ms', rest, out). (b, ms @ ms', rest, out))
                     (Recv_loop len sock uSize (i + 1) (uTotalRecv + uRecvLength) stream b))
      else Some (b, [], stream, RDone))"
  by pat_completeness auto
termination
  by (relation "measure (\<lambda>(len, sock, uSize, i, uTotalRecv, stream, b). unat uSize - unat uTotalRecv)")
    (auto dest!: rb_Recv_bound intro: word_remaining_less)

declare Recv_loop.simps [simp del]

section \<open>The reference parser\<close>

function parse :: "(uint8_t list \<Rightarrow> uint32_t) \<Rightarrow> uint8_t list \<Rightarrow> uint8_t list list \<times> uint8_t list \<times> bool" where
  "parse len xs =
     (if len xs = 0 \<or> (len xs \<noteq> UINT32_MAX \<and> length xs < unat (len xs)) then ([], xs, True)
      else if len xs = UINT32_MAX then ([], xs, False)
      else if unat (len xs) = length xs then ([xs], [], True)
      else (case parse len (drop (unat (len xs)) xs) of (ms, r, ok) \<Rightarrow> (take (unat (len xs)) xs # ms, r, ok)))"
  by pat_completeness auto
termination
proof (relation "measure (\<lambda>(len, xs). length xs)", goal_cases)
  case (2 len xs)
  then have "0 < unat (len xs)" "unat (len xs) \<le> length xs"
    by (auto simp: unat_gt_0)
  then show ?case
    by simp
qed simp

declare parse.simps [simp del]

section \<open>The code is the parser\<close>

lemma DeliverMessage_parse:
  "rb_inv b \<Longrightarrow> DeliverMessage len b = (b', ms, code) \<Longrightarrow>
     rb_inv b' \<and> parse len (rb_GetReadBegin b) = (ms, rb_GetReadBegin b', code = kSuccess)"
proof (induction len b arbitrary: b' ms code rule: DeliverMessage.induct)
  case (1 len b)
  let ?xs = "rb_GetReadBegin b" and ?n = "len (rb_GetReadBegin b)"
  note inv = 1(2) and result = 1(3) [unfolded DeliverMessage.simps [of len b] Let_def]
  have length: "length ?xs = unat (rb_GetReadLength b)"
    by (rule rb_contents_length [OF inv])
  consider (zero) "?n = 0" | (bad) "?n = UINT32_MAX" "?n \<noteq> 0"
    | (short) "?n \<noteq> 0" "?n \<noteq> UINT32_MAX" "\<not> ?n \<le> rb_GetReadLength b"
    | (all) "?n \<noteq> 0" "?n \<noteq> UINT32_MAX" "?n = rb_GetReadLength b"
    | (more) "?n \<noteq> 0" "?n \<noteq> UINT32_MAX" "?n \<le> rb_GetReadLength b" "?n \<noteq> rb_GetReadLength b"
    by blast
  then show ?case
  proof cases
    case zero
    with inv result show ?thesis
      by (simp add: parse.simps [of len ?xs] parse.simps [of len "rb_GetReadBegin b'"])
  next
    case bad
    with inv result show ?thesis
      by (auto simp: parse.simps [of len ?xs] parse.simps [of len "rb_GetReadBegin b'"])
  next
    case short
    then have "length ?xs < unat ?n"
      by (simp add: length word_le_nat_alt)
    with short inv result show ?thesis
      by (simp add: parse.simps [of len ?xs] parse.simps [of len "rb_GetReadBegin b'"])
  next
    case all
    have "rb_GetReadBegin (rb_Consume (rb_GetReadLength b) b) = []"
      using rb_Consume_ok(2) [OF inv, of "rb_GetReadLength b"] length by simp
    moreover have "rb_inv (rb_Consume (rb_GetReadLength b) b)"
      by (rule rb_Consume_ok [OF inv]) simp
    moreover have "b' = rb_Consume (rb_GetReadLength b) b \<and> ms = [take (unat (rb_GetReadLength b)) ?xs] \<and> code = kSuccess"
      using all result by auto
    ultimately show ?thesis
      using all length by (simp add: parse.simps [of len ?xs])
  next
    case more
    note consume = rb_Consume_ok [OF inv more(3)]
    obtain ms' where r: "DeliverMessage len (rb_Consume ?n b) = (b', ms', code)"
      and ms: "ms = take (unat ?n) ?xs # ms'"
      using more result by (auto split: prod.splits)
    have lt: "unat ?n \<noteq> length ?xs" "unat ?n \<le> length ?xs"
      using more(3,4) by (simp_all add: length word_le_nat_alt word_unat_eq_iff)
    have "rb_inv b' \<and> parse len (rb_GetReadBegin (rb_Consume ?n b)) = (ms', rb_GetReadBegin b', code = kSuccess)"
      using 1(1) [OF refl refl refl more(1,2,3) refl refl more(4) consume(1) r] .
    with more lt ms consume(2) show ?thesis
      by (simp add: parse.simps [of len ?xs])
  qed
qed

text \<open>
  What \<open>OnMessageLength\<close> promises: once it knows the length of the message at the start of the data,
  more data does not change its answer.
\<close>

definition prefix_stable :: "(uint8_t list \<Rightarrow> uint32_t) \<Rightarrow> bool" where
  "prefix_stable len \<longleftrightarrow> (\<forall>xs ys. len xs \<noteq> 0 \<longrightarrow> len (xs @ ys) = len xs)"

lemma prefix_stableD: "prefix_stable len \<Longrightarrow> len xs \<noteq> 0 \<Longrightarrow> len (xs @ ys) = len xs"
  by (simp add: prefix_stable_def)

text \<open>Nothing can be delivered from what is left after a parse.\<close>

lemma parse_rest:
  "prefix_stable len \<Longrightarrow> parse len xs = (ms, r, True) \<Longrightarrow> parse len r = ([], r, True)"
proof (induction len xs arbitrary: ms rule: parse.induct)
  case (1 len xs)
  consider (stop) "len xs = 0 \<or> (len xs \<noteq> UINT32_MAX \<and> length xs < unat (len xs))"
    | (bad) "len xs = UINT32_MAX" "len xs \<noteq> 0"
    | (all) "len xs \<noteq> 0" "len xs \<noteq> UINT32_MAX" "unat (len xs) = length xs"
    | (more) "len xs \<noteq> 0" "len xs \<noteq> UINT32_MAX" "unat (len xs) < length xs"
    by linarith
  then show ?case
  proof cases
    case stop
    with 1(3) have "r = xs"
      by (simp add: parse.simps [of len xs])
    with stop show ?thesis
      by (simp add: parse.simps [of len xs])
  next
    case bad
    with 1(3) show ?thesis
      by (simp add: parse.simps [of len xs])
  next
    case all
    with 1(3) have r: "r = []"
      by (simp add: parse.simps [of len xs])
    have "len [] \<noteq> UINT32_MAX"
      using prefix_stableD [OF 1(2), of "[]" xs] all(2) by (auto simp: UINT32_MAX_def)
    moreover have "len [] = 0 \<or> 0 < unat (len [])"
      by (auto simp: unat_gt_0)
    ultimately show ?thesis
      by (auto simp: r parse.simps [of len "[]"])
  next
    case more
    obtain ms' where "parse len (drop (unat (len xs)) xs) = (ms', r, True)"
      using more 1(3) by (auto simp: parse.simps [of len xs] split: prod.splits)
    then show ?thesis
      using 1(1) [OF _ _ _ 1(2)] more by auto
  qed
qed

lemma parse_append:
  "prefix_stable len \<Longrightarrow> parse len xs = (ms, r, True) \<Longrightarrow>
     parse len (xs @ ys) = (case parse len (r @ ys) of (ms', r', ok) \<Rightarrow> (ms @ ms', r', ok))"
proof (induction len xs arbitrary: ms rule: parse.induct)
  case (1 len xs)
  consider (stop) "len xs = 0 \<or> (len xs \<noteq> UINT32_MAX \<and> length xs < unat (len xs))"
    | (bad) "len xs = UINT32_MAX" "len xs \<noteq> 0"
    | (all) "len xs \<noteq> 0" "len xs \<noteq> UINT32_MAX" "unat (len xs) = length xs"
    | (more) "len xs \<noteq> 0" "len xs \<noteq> UINT32_MAX" "unat (len xs) < length xs"
    by linarith
  then show ?case
  proof cases
    case stop
    with 1(3) have "r = xs" "ms = []"
      by (simp_all add: parse.simps [of len xs])
    then show ?thesis
      by simp
  next
    case bad
    with 1(3) show ?thesis
      by (simp add: parse.simps [of len xs])
  next
    case all
    then have r: "r = []" "ms = [xs]"
      using 1(3) by (simp_all add: parse.simps [of len xs])
    show ?thesis
    proof (cases "ys = []")
      case True
      with r parse_rest [OF 1(2,3)] 1(3) show ?thesis
        by simp
    next
      case False
      then show ?thesis
        using all prefix_stableD [OF 1(2), of xs ys]
        by (simp add: parse.simps [of len "xs @ ys"] r)
    qed
  next
    case more
    obtain ms' where p: "parse len (drop (unat (len xs)) xs) = (ms', r, True)"
      and ms: "ms = take (unat (len xs)) xs # ms'"
      using more 1(3) by (auto simp: parse.simps [of len xs] split: prod.splits)
    have "parse len (drop (unat (len xs)) xs @ ys) = (case parse len (r @ ys) of (ms'', r', ok) \<Rightarrow> (ms' @ ms'', r', ok))"
      using 1(1) [OF _ _ _ 1(2) p] more by auto
    then show ?thesis
      using more prefix_stableD [OF 1(2), of xs ys] ms
      by (simp add: parse.simps [of len "xs @ ys"] split: prod.splits)
  qed
qed

lemma cut_ans_data: "cut_ans c stream = RData s \<Longrightarrow> \<exists>k. s = take k stream"
  by (cases c) auto

lemma prefix_split: "\<exists>k. xs = take k s \<Longrightarrow> s = xs @ drop (length xs) s"
  by (auto simp: min_def)

text \<open>What a \<open>recv\<close> took is the start of the stream.\<close>

lemma cut_ans_split:
  assumes data: "\<forall>s. cut_ans c stream = RData s \<longrightarrow> xs = take (length xs) s"
    and nodata: "(\<forall>s. cut_ans c stream \<noteq> RData s) \<longrightarrow> xs = [] \<and> \<not> eof"
  shows "stream = xs @ drop (length xs) stream"
proof (rule prefix_split, cases "\<exists>s. cut_ans c stream = RData s")
  case True
  then obtain s k where s: "cut_ans c stream = RData s" "s = take k stream"
    using cut_ans_data by blast
  with data have "xs = take (length xs) (take k stream)"
    by simp
  then have "xs = take (min (length xs) k) stream"
    by (simp only: take_take)
  then show "\<exists>k. xs = take k stream" ..
next
  case False
  with nodata have "xs = take 0 stream"
    by simp
  then show "\<exists>k. xs = take k stream" ..
qed

text \<open>
  The result of the loop, for a buffer of \<open>z\<close> bytes and the allocators \<open>sock\<close>: it is undefined only
  when a block of at least \<open>2^31\<close> bytes has to grow, the one at the start or one granted since.
\<close>

definition big_block :: "(nat \<Rightarrow> block_alloc \<times> cut) \<Rightarrow> nat \<Rightarrow> bool" where
  "big_block sock z \<longleftrightarrow> 2 ^ 31 \<le> z \<or> (\<exists>i n. 2 ^ 31 \<le> n \<and> fst (sock i) n \<noteq> None)"

definition loop_parses ::
  "(uint8_t list \<Rightarrow> uint32_t) \<Rightarrow> (nat \<Rightarrow> block_alloc \<times> cut) \<Rightarrow> uint8_t list \<Rightarrow> CReceiveBuffer \<Rightarrow>
     (CReceiveBuffer \<times> uint8_t list list \<times> uint8_t list \<times> recv_out) option \<Rightarrow> bool" where
  "loop_parses len sock stream b res \<longleftrightarrow>
     (case res of
        None \<Rightarrow> big_block sock (unat (rb_uSize b))
      | Some (b', ms, rest, out) \<Rightarrow> rb_inv b' \<and> (\<exists>bytes. stream = bytes @ rest \<and>
          parse len (rb_GetReadBegin b @ bytes) = (ms, rb_GetReadBegin b', \<forall>c. out \<noteq> RDeliverFailed c)))"

text \<open>One more \<open>recv\<close> in front, whose bytes \<open>xs\<close> were parsed without a complete message left.\<close>

lemma loop_parses_step:
  assumes stable: "prefix_stable len"
    and first: "parse len (rb_GetReadBegin b @ xs) = (ms, rb_GetReadBegin d, True)"
    and stream: "stream = xs @ rest"
    and size: "rb_uSize d = rb_uSize b \<or> fst (sock i) (unat (rb_uSize d)) \<noteq> None"
    and rest: "loop_parses len sock rest d res"
  shows "loop_parses len sock stream b
    (map_option (\<lambda>(b, ms', rest, out). (b, ms @ ms', rest, out)) res)"
proof (cases res)
  case None
  with rest have "big_block sock (unat (rb_uSize d))"
    by (simp add: loop_parses_def)
  with size have "big_block sock (unat (rb_uSize b))"
    by (auto simp: big_block_def)
  with None show ?thesis
    by (simp add: loop_parses_def)
next
  case (Some r)
  obtain b' ms' rest' out where r: "r = (b', ms', rest', out)"
    by (cases r)
  obtain bytes where "rb_inv b'" "rest = bytes @ rest'"
    "parse len (rb_GetReadBegin d @ bytes) = (ms', rb_GetReadBegin b', \<forall>c. out \<noteq> RDeliverFailed c)"
    using rest by (auto simp: loop_parses_def Some r)
  then have "rb_inv b'" "stream = (xs @ bytes) @ rest'"
    "parse len (rb_GetReadBegin b @ xs @ bytes) = (ms @ ms', rb_GetReadBegin b', \<forall>c. out \<noteq> RDeliverFailed c)"
    using parse_append [OF stable first, of bytes] stream by simp_all
  then show ?thesis
    unfolding loop_parses_def Some r by auto
qed

lemma DeliverMessage_size: "DeliverMessage len b = (b', ms, code) \<Longrightarrow> rb_uSize b' = rb_uSize b"
proof (induction len b arbitrary: b' ms code rule: DeliverMessage.induct)
  case (1 len b)
  have "rb_uSize (rb_Consume n b) = rb_uSize b" for n
    by (simp add: rb_Consume_def Let_def)
  note size = this
  let ?n = "len (rb_GetReadBegin b)"
  note result = 1(2) [unfolded DeliverMessage.simps [of len b] Let_def]
  show ?case
  proof (cases "?n \<noteq> 0 \<and> ?n \<noteq> UINT32_MAX \<and> ?n \<le> rb_GetReadLength b \<and> ?n \<noteq> rb_GetReadLength b")
    case True
    then obtain ms' where "DeliverMessage len (rb_Consume ?n b) = (b', ms', code)"
      using result by (auto split: prod.splits)
    with 1(1) [OF refl refl refl _ _ _ refl refl _ this] True size [of ?n] show ?thesis
      by simp
  next
    case False
    with result size show ?thesis
      by (auto split: if_splits)
  qed
qed

lemma Recv_loop_parse:
  "prefix_stable len \<Longrightarrow> (\<And>i. malloc_ok (fst (sock i))) \<Longrightarrow> rb_inv b \<Longrightarrow>
     parse len (rb_GetReadBegin b) = ([], rb_GetReadBegin b, True) \<Longrightarrow>
     loop_parses len sock stream b (Recv_loop len sock uSize i tot stream b)"
proof (induction len sock uSize i tot stream b rule: Recv_loop.induct)
  case (1 len sock uSize i tot stream b)
  note stable = 1(2) and malloc = 1(3) and inv = 1(4)
  note unfold = Recv_loop.simps [of len sock uSize i tot stream b]
  show ?case
  proof (cases "tot < uSize \<and> \<not> rb_overflows (fst (sock i)) b")
    case False
    have "big_block sock (unat (rb_uSize b))" if "rb_overflows (fst (sock i)) b"
      using that by (auto simp: big_block_def rb_overflows_def)
    with False inv 1(5) rb_Recv_overflows [OF inv malloc [of i]] show ?thesis
      by (auto simp: unfold loop_parses_def)
  next
    case go: True
    obtain c code n eof xs where r: "rb_Recv (fst (sock i)) (cut_ans (snd (sock i)) stream) (uSize - tot) b =
        Some (c, code, n, eof)" "rb_inv c" "rb_GetReadBegin c = rb_GetReadBegin b @ xs" "unat n = length xs"
      and fail: "code \<noteq> kSuccess \<or> eof \<longrightarrow> xs = []"
      and data: "\<forall>s. cut_ans (snd (sock i)) stream = RData s \<longrightarrow> xs = take (length xs) s"
      and nodata: "(\<forall>s. cut_ans (snd (sock i)) stream \<noteq> RData s) \<longrightarrow> xs = [] \<and> \<not> eof"
      and size: "rb_uSize c = rb_uSize b \<or> fst (sock i) (unat (rb_uSize c)) \<noteq> None"
      by (rule rb_Recv_ok [OF inv malloc [of i] conjunct2 [OF go], of "cut_ans (snd (sock i)) stream" "uSize - tot"])
    note split = cut_ans_split [OF data nodata]
    show ?thesis
    proof (cases "code = kSuccess")
      case False
      then have "xs = []"
        using fail by simp
      with False go r 1(5) show ?thesis
        by (auto simp: unfold loop_parses_def)
    next
      case ok: True
      obtain d ms dcode where del: "DeliverMessage len c = (d, ms, dcode)"
        by (metis prod_cases3)
      note p = DeliverMessage_parse [OF r(2) del]
      show ?thesis
      proof (cases "dcode = kSuccess \<and> \<not> eof \<and> n \<noteq> 0")
        case False
        then have "\<exists>out. Recv_loop len sock uSize i tot stream b = Some (d, ms, drop (length xs) stream, out) \<and>
            (dcode = kSuccess \<longleftrightarrow> (\<forall>c. out \<noteq> RDeliverFailed c))"
          using go r ok del by (auto simp: unfold Let_def)
        then obtain out where "Recv_loop len sock uSize i tot stream b = Some (d, ms, drop (length xs) stream, out)"
          "dcode = kSuccess \<longleftrightarrow> (\<forall>c. out \<noteq> RDeliverFailed c)"
          by blast
        then show ?thesis
          using p split r(3) by (auto simp: loop_parses_def)
      next
        case more: True
        have first: "parse len (rb_GetReadBegin b @ xs) = (ms, rb_GetReadBegin d, True)"
          using p more r(3) by simp
        have "loop_parses len sock (drop (unat n) stream) d
            (Recv_loop len sock uSize (i + 1) (tot + n) (drop (unat n) stream) d)"
          using p parse_rest [OF stable first] stable malloc r(1) del ok more go
          by (intro 1(1) [OF conjunct1 [OF go] r(1) refl refl refl refl _ del [symmetric] refl]) auto
        moreover have "rb_uSize d = rb_uSize b \<or> fst (sock i) (unat (rb_uSize d)) \<noteq> None"
          using size DeliverMessage_size [OF del] by simp
        ultimately show ?thesis
          using loop_parses_step [OF stable first, of stream "drop (unat n) stream" sock i] split go r(1,4) ok del more
          by (simp add: unfold Let_def)
      qed
    qed
  qed
qed

section \<open>Properties\<close>

text \<open>
  C12: the receive buffer is a queue of bytes. For an allocator whose blocks have the size asked for,
  a \<open>Recv\<close> appends to the readable bytes exactly what it took from the stream, at most what it was
  asked for, also when it has to compact and to grow the buffer, and writes and copies only inside
  its blocks; with the one exception that is exactly stated: it is undefined when it has to grow a
  block of \<open>2^31\<close> bytes or more and the allocator grants the size that the 32-bit sum wraps to.
  \<open>Consume\<close> of at most the readable length drops that many bytes from the front.
\<close>

theorem receive_buffer_refines:
  assumes "rb_inv b" "malloc_ok malloc"
  shows "(case rb_Recv malloc (cut_ans piece stream) uMax b of
      None \<Rightarrow> rb_overflows malloc b
    | Some (b', code, n, eof) \<Rightarrow> \<not> rb_overflows malloc b \<and> rb_inv b' \<and> n \<le> uMax \<and>
        (\<exists>bytes. rb_GetReadBegin b' = rb_GetReadBegin b @ bytes \<and> unat n = length bytes \<and>
           stream = bytes @ drop (unat n) stream \<and> (code \<noteq> kSuccess \<or> eof \<longrightarrow> bytes = []))) \<and>
    (\<forall>n. n \<le> rb_GetReadLength b \<longrightarrow> rb_inv (rb_Consume n b) \<and>
      rb_GetReadBegin (rb_Consume n b) = drop (unat n) (rb_GetReadBegin b))"
proof (cases "rb_overflows malloc b")
  case True
  with rb_Recv_overflows [OF assms True] rb_Consume_ok [OF assms(1)] show ?thesis
    by simp
next
  case False
  obtain b' code n eof xs where r: "rb_Recv malloc (cut_ans piece stream) uMax b = Some (b', code, n, eof)" "rb_inv b'"
    "rb_GetReadBegin b' = rb_GetReadBegin b @ xs" "unat n = length xs" "length xs \<le> unat uMax"
    "code \<noteq> kSuccess \<or> eof \<longrightarrow> xs = []" "\<forall>s. cut_ans piece stream = RData s \<longrightarrow> xs = take (length xs) s"
    "(\<forall>s. cut_ans piece stream \<noteq> RData s) \<longrightarrow> xs = [] \<and> \<not> eof"
    by (rule rb_Recv_ok [OF assms False])
  have "stream = xs @ drop (length xs) stream"
    by (rule cut_ans_split [OF r(7,8)])
  then show ?thesis
    using False r rb_Recv_bound [OF r(1)] rb_Consume_ok [OF assms(1)] by auto
qed

text \<open>
  C6: reading a connection is parsing its byte stream. Whatever pieces \<open>recv\<close> cuts the stream into and
  however the buffer grows, the messages that one \<open>Recv\<close> of a connection gives to \<open>OnMessage\<close> are
  those of the reference parser on the bytes that were pending and the bytes that were read, what
  it leaves in the buffer is the parser's rest, and the connection is failed for its data exactly
  when the parser rejects them. It holds for a client whose message lengths do not change with more
  data, for a pending rest without a complete message, and for any allocator whose blocks have the
  size asked for; the loop is undefined only if the buffer has \<open>2^31\<close> bytes or an allocation of at
  least as many succeeds.
\<close>

theorem delivery_is_parsing:
  assumes "prefix_stable len" "\<forall>i. malloc_ok (fst (sock i))" "rb_inv b"
    and "parse len (rb_GetReadBegin b) = ([], rb_GetReadBegin b, True)"
  shows "case Recv_loop len sock uSize 0 0 stream b of
      None \<Rightarrow> 2 ^ 31 \<le> unat (rb_uSize b) \<or> (\<exists>i n. 2 ^ 31 \<le> n \<and> fst (sock i) n \<noteq> None)
    | Some (b', ms, rest, out) \<Rightarrow> rb_inv b' \<and> (\<exists>bytes. stream = bytes @ rest \<and>
        parse len (rb_GetReadBegin b @ bytes) = (ms, rb_GetReadBegin b', \<forall>c. out \<noteq> RDeliverFailed c))"
  by (rule Recv_loop_parse [OF assms(1) assms(2) [rule_format] assms(3,4),
        unfolded loop_parses_def big_block_def])

text \<open>With \<open>uSize = 0\<close> nothing is read.\<close>

lemma Recv_loop_zero: "Recv_loop len sock 0 i 0 stream b = Some (b, [], stream, RDone)"
  by (simp add: Recv_loop.simps)

section \<open>A concrete connection\<close>

text \<open>Messages whose first byte is the number of the bytes that follow.\<close>

definition demo_len :: "uint8_t list \<Rightarrow> uint32_t" where
  "demo_len xs = (case xs of [] \<Rightarrow> 0 | x # _ \<Rightarrow> ucast x + 1)"

definition demo_malloc :: block_alloc where
  "demo_malloc n = Some (replicate n 0)"

text \<open>An allocator that runs out of memory.\<close>

definition small_malloc :: block_alloc where
  "small_malloc n = (if n < 2 ^ 31 then Some (replicate n 0) else None)"

definition demo_buffer :: CReceiveBuffer where
  "demo_buffer = \<lparr>rb_pData = Some (replicate 4096 0), rb_uSize = 4096, rb_uTail = 0, rb_uHead = 0\<rparr>"

lemma demo_facts:
  "prefix_stable demo_len" "malloc_ok demo_malloc" "malloc_ok small_malloc" "rb_inv demo_buffer" "rb_GetReadBegin demo_buffer = []"
  by (auto simp: prefix_stable_def demo_len_def malloc_ok_def demo_malloc_def small_malloc_def rb_inv_def demo_buffer_def
      rb_GetReadBegin_def rb_GetReadLength_def split: list.split if_splits)

lemma demo_runs:
  "\<exists>b' code n eof. rb_Recv demo_malloc (cut_ans (CData 3) [1, 7, 2, 5]) 10 demo_buffer = Some (b', code, n, eof)"
  by (simp add: rb_Recv_def demo_buffer_def Let_def) (rule exI [of _ False], simp)

text \<open>A block of \<open>2^31\<close> bytes that is full, and an allocator that grants the empty block.\<close>

definition demo_full :: CReceiveBuffer where
  "demo_full = \<lparr>rb_pData = Some (replicate (2 ^ 31) 0), rb_uSize = 2 ^ 31, rb_uTail = 2 ^ 31, rb_uHead = 0\<rparr>"

lemma demo_full_facts: "rb_inv demo_full" "rb_overflows demo_malloc demo_full"
proof -
  have "rb_pData demo_full = Some (replicate (2 ^ 31) 0)" "unat (rb_uSize demo_full) = 2 ^ 31"
    by (simp_all add: demo_full_def)
  then show "rb_inv demo_full"
    by (simp add: rb_inv_def demo_full_def)
  show "rb_overflows demo_malloc demo_full"
    unfolding rb_overflows_def demo_malloc_def by (simp add: demo_full_def)
qed

lemma receive_buffer_refines_witness:
  "(\<exists>b' code n eof bytes. rb_Recv demo_malloc (cut_ans (CData 3) [1, 7, 2, 5]) 10 demo_buffer = Some (b', code, n, eof) \<and>
     rb_GetReadBegin b' = bytes \<and> unat n = length bytes) \<and>
   rb_Recv demo_malloc (cut_ans (CData 3) [1, 7, 2, 5]) 10 demo_full = None"
  using receive_buffer_refines [OF demo_facts(4,2),
      where piece = "CData 3" and stream = "[1, 7, 2, 5]" and uMax = 10]
    demo_runs demo_facts(5)
    receive_buffer_refines [OF demo_full_facts(1) demo_facts(2),
      where piece = "CData 3" and stream = "[1, 7, 2, 5]" and uMax = 10]
    demo_full_facts(2)
  by (auto split: option.splits)

lemma delivery_is_parsing_witness:
  "\<exists>b' ms rest out bytes. Recv_loop demo_len (\<lambda>_. (small_malloc, CData 3)) 10 0 0 [1, 7, 2, 5] demo_buffer =
     Some (b', ms, rest, out) \<and> [1, 7, 2, 5] = bytes @ rest \<and>
     parse demo_len bytes = (ms, rb_GetReadBegin b', \<forall>c. out \<noteq> RDeliverFailed c)"
proof -
  have p: "parse demo_len [] = ([], [], True)"
    by (simp add: parse.simps demo_len_def)
  have none: "\<not> (2 ^ 31 \<le> unat (rb_uSize demo_buffer) \<or>
      (\<exists>i n. 2 ^ 31 \<le> n \<and> fst ((\<lambda>_ :: nat. (small_malloc, CData 3)) i) n \<noteq> None))"
    by (auto simp: demo_buffer_def small_malloc_def)
  show ?thesis
    using delivery_is_parsing [where len = demo_len and sock = "\<lambda>_. (small_malloc, CData 3)"
        and b = demo_buffer and uSize = 10 and stream = "[1, 7, 2, 5]"] demo_facts p none
    by (auto split: option.splits)
qed

end
