(* ===== verification/SendBuffer.thy ===== *)
theory SendBuffer
  imports FixedQueue Spin
begin

text \<open>
  \<open>CSendBuffer\<close> of \<open>network/sources/send_buffer.h\<close>: two fixed-size channels of message pointers behind
  one spin lock. Each channel has its own storage, a function from slot addresses to messages.
\<close>

section \<open>State and operations\<close>

record 'm CSendBuffer =
  m_pSpinLockSend :: "(uint64_t \<times> CSpinLockImpl) option"
  m_pChannelSend :: "(uint64_t \<times> CSPSCFixedBoundedChannel) option"
  m_pChannelPrioritySend :: "(uint64_t \<times> CSPSCFixedBoundedChannel) option"
  memSend :: "uint64_t \<Rightarrow> 'm"
  memPriority :: "uint64_t \<Rightarrow> 'm"

definition SendBuffer_default :: "(uint64_t \<Rightarrow> 'm) \<Rightarrow> (uint64_t \<Rightarrow> 'm) \<Rightarrow> 'm CSendBuffer" where
  "SendBuffer_default m1 m2 = \<lparr>m_pSpinLockSend = nullptr, m_pChannelSend = nullptr,
     m_pChannelPrioritySend = nullptr, memSend = m1, memPriority = m2\<rparr>"

text \<open>The configuration of the channels; \<open>uTotalMemorySizeKB\<close> is not set.\<close>

definition send_config :: "uint32_t \<Rightarrow> ChannelConfig" where
  "send_config junk = \<lparr>uElementSize = 8, uMaxElementCount = 1024, uTotalMemorySizeKB = junk\<rparr>"

text \<open>\<open>lk\<close>, \<open>c1\<close>, \<open>s1\<close>, \<open>c2\<close>, \<open>s2\<close> are the answers of the allocator, \<open>szl\<close> and \<open>szc\<close> the sizes of the classes.\<close>

definition SendBuffer_Init ::
  "pointer \<Rightarrow> pointer \<times> pointer \<Rightarrow> pointer \<times> pointer \<Rightarrow> uint64_t \<Rightarrow> uint64_t \<Rightarrow> uint32_t \<Rightarrow>
     'm CSendBuffer \<Rightarrow> heap \<Rightarrow> last_error \<Rightarrow> 'm CSendBuffer \<times> heap \<times> last_error \<times> ErrorCode" where
  "SendBuffer_Init lk a1 a2 szl szc junk sb h e =
     (case SpinLock_Create lk szl h of
        (None, h) \<Rightarrow> (sb\<lparr>m_pSpinLockSend := nullptr\<rparr>, h, e, kOutOfMemory)
      | (Some l, h) \<Rightarrow>
          (case SPSCFixed_Create (fst a1) (snd a1) szc (Some (send_config junk)) h e of
             (ch1, h, e) \<Rightarrow>
               (case SPSCFixed_Create (fst a2) (snd a2) szc (Some (send_config junk)) h e of
                  (ch2, h, e) \<Rightarrow>
                    (sb\<lparr>m_pSpinLockSend := Some l, m_pChannelSend := ch1, m_pChannelPrioritySend := ch2\<rparr>,
                     h, e, if ch1 = nullptr \<or> ch2 = nullptr then kOutOfMemory else kSuccess))))"

definition SendBuffer_destructor :: "'m CSendBuffer \<Rightarrow> heap \<Rightarrow> heap" where
  "SendBuffer_destructor sb h =
     (let h = (case m_pSpinLockSend sb of None \<Rightarrow> h | Some (p, l) \<Rightarrow> SpinLock_Destroy (Some p) h);
          h = (if m_pChannelSend sb \<noteq> nullptr then SPSCFixed_Destroy (m_pChannelSend sb) h else h)
      in if m_pChannelPrioritySend sb \<noteq> nullptr then SPSCFixed_Destroy (m_pChannelPrioritySend sb) h else h)"

text \<open>What happens under the lock.\<close>

definition send_locked ::
  "'m \<Rightarrow> CSPSCFixedBoundedChannel \<Rightarrow> (uint64_t \<Rightarrow> 'm) \<Rightarrow>
     CSPSCFixedBoundedChannel \<times> (uint64_t \<Rightarrow> 'm) \<times> ErrorCode" where
  "send_locked pMessage channel mem =
     (case SPSCFixed_New channel of
        (channel, Some pData) \<Rightarrow> (SPSCFixed_Post (Some pData) channel, mem(pData := pMessage), kSuccess)
      | (channel, None) \<Rightarrow> (channel, mem, kOutOfMemory))"

text \<open>
  \<open>Send\<close>: \<open>None\<close> is a null channel, or a lock that somebody else holds, on which the call spins.
\<close>

definition SendBuffer_Send ::
  "'m \<Rightarrow> bool \<Rightarrow> 'm CSendBuffer \<Rightarrow> ('m CSendBuffer \<times> ErrorCode) option" where
  "SendBuffer_Send pMessage bPriority sb =
     (case m_pSpinLockSend sb of
        None \<Rightarrow> None
      | Some (p, l) \<Rightarrow>
          (case CSpinLockImpl_Lock_round l of
             (l, False) \<Rightarrow> None
           | (l, True) \<Rightarrow>
               if bPriority then
                 (case m_pChannelPrioritySend sb of
                    None \<Rightarrow> None
                  | Some (a, channel) \<Rightarrow>
                      (case send_locked pMessage channel (memPriority sb) of (channel, mem, r) \<Rightarrow>
                         Some (sb\<lparr>m_pSpinLockSend := Some (p, CSpinLockImpl_Unlock l),
                           m_pChannelPrioritySend := Some (a, channel), memPriority := mem\<rparr>, r)))
               else
                 (case m_pChannelSend sb of
                    None \<Rightarrow> None
                  | Some (a, channel) \<Rightarrow>
                      (case send_locked pMessage channel (memSend sb) of (channel, mem, r) \<Rightarrow>
                         Some (sb\<lparr>m_pSpinLockSend := Some (p, CSpinLockImpl_Unlock l),
                           m_pChannelSend := Some (a, channel), memSend := mem\<rparr>, r)))))"

text \<open>Calls one after the other.\<close>

fun send_all ::
  "('m \<times> bool) list \<Rightarrow> 'm CSendBuffer \<Rightarrow> ('m CSendBuffer \<times> ErrorCode list) option" where
  "send_all [] sb = Some (sb, [])"
| "send_all ((x, prio) # xs) sb =
     (case SendBuffer_Send x prio sb of
        None \<Rightarrow> None
      | Some (sb, r) \<Rightarrow> map_option (\<lambda>(sb, rs). (sb, r # rs)) (send_all xs sb))"

section \<open>The two lanes\<close>

definition lane :: "bool \<Rightarrow> 'm CSendBuffer \<Rightarrow> CSPSCFixedBoundedChannel \<times> (uint64_t \<Rightarrow> 'm)" where
  "lane prio sb = (if prio then (snd (the (m_pChannelPrioritySend sb)), memPriority sb)
     else (snd (the (m_pChannelSend sb)), memSend sb))"

definition lane_ok :: "bool \<Rightarrow> nat \<Rightarrow> 'm CSendBuffer \<Rightarrow> bool" where
  "lane_ok prio n sb \<longleftrightarrow> (if prio then m_pChannelPrioritySend sb else m_pChannelSend sb) \<noteq> nullptr \<and>
     fixed_inv (fst (lane prio sb)) \<and> fixed_cap (fst (lane prio sb)) = 1024 \<and> n \<le> fixed_budget (lane prio sb)"

definition send_inv :: "nat \<Rightarrow> 'm CSendBuffer \<Rightarrow> bool" where
  "send_inv n sb \<longleftrightarrow> (\<exists>p l. m_pSpinLockSend sb = Some (p, l) \<and> \<not> m_bLocked l) \<and>
     lane_ok False n sb \<and> lane_ok True n sb"

text \<open>The codes of the calls when so many messages are in each lane: success until the lane has 1024.\<close>

fun send_codes :: "(bool \<Rightarrow> nat) \<Rightarrow> bool list \<Rightarrow> ErrorCode list" where
  "send_codes n [] = []"
| "send_codes n (prio # ps) =
     (if n prio < 1024 then kSuccess # send_codes (n(prio := Suc (n prio))) ps else kOutOfMemory # send_codes n ps)"

lemma send_locked_push:
  "send_locked x c mem = (c', mem', r) \<longleftrightarrow> fixed_push x (c, mem) = ((c', mem'), r = kSuccess) \<and>
     (r = kSuccess \<or> r = kOutOfMemory)"
  by (auto simp: send_locked_def fixed_push_def IChannelEx_Push_def split: prod.splits option.splits)

lemma Send_lanes:
  assumes "send_inv (Suc n) sb"
  obtains sb' r where "SendBuffer_Send x prio sb = Some (sb', r)" "send_inv n sb'"
    "lane (\<not> prio) sb' = lane (\<not> prio) sb"
    "fixed_push x (lane prio sb) = (lane prio sb', r = kSuccess)"
    "r = kSuccess \<or> r = kOutOfMemory"
proof -
  obtain p l where l: "m_pSpinLockSend sb = Some (p, l)" "\<not> m_bLocked l"
    using assms by (auto simp: send_inv_def)
  obtain c mem where c: "lane prio sb = (c, mem)"
    by fastforce
  obtain c' mem' r where s: "send_locked x c mem = (c', mem', r)"
    by (metis prod_cases3)
  note push = send_locked_push [THEN iffD1, OF s]
  have ok: "lane_ok False (Suc n) sb" "lane_ok True (Suc n) sb"
    using assms by (simp_all add: send_inv_def)
  then have lp: "lane_ok prio (Suc n) sb"
    by (cases prio) simp_all
  then have inv: "fixed_inv (fst (lane prio sb))" "0 < fixed_budget (lane prio sb)"
    "fixed_cap (fst (lane prio sb)) = 1024" "Suc n \<le> fixed_budget (lane prio sb)"
    by (simp_all add: lane_ok_def)
  have p: "fixed_push x (lane prio sb) = ((c', mem'), r = kSuccess)"
    using push c by simp
  have after: "fixed_inv c'" "fixed_cap c' = 1024" "n \<le> fixed_budget (c', mem')"
    using fixed.push_inv [OF inv(1,2) p] fixed.push_cap [OF inv(1,2) p]
      fixed.push_budget [OF inv(1,2) p] inv(3,4) by simp_all
  have "\<exists>sb'. SendBuffer_Send x prio sb = Some (sb', r) \<and> send_inv n sb' \<and>
      lane (\<not> prio) sb' = lane (\<not> prio) sb \<and> lane prio sb' = (c', mem')"
  proof (cases prio)
    case True
    then obtain a where a: "m_pChannelPrioritySend sb = Some (a, c)"
      using lp c by (auto simp: lane_ok_def lane_def)
    with True l s c ok after show ?thesis
      by (auto simp: SendBuffer_Send_def CSpinLockImpl_Lock_round_def CSpinLockImpl_Unlock_def
          send_inv_def lane_ok_def lane_def)
  next
    case False
    then obtain a where a: "m_pChannelSend sb = Some (a, c)"
      using lp c by (auto simp: lane_ok_def lane_def)
    with False l s c ok after show ?thesis
      by (auto simp: SendBuffer_Send_def CSpinLockImpl_Lock_round_def CSpinLockImpl_Unlock_def
          send_inv_def lane_ok_def lane_def)
  qed
  then show thesis
    using that p push by metis
qed

lemma send_all_lanes:
  "send_inv (length xs) sb \<Longrightarrow> length (fixed_contents (lane False sb)) \<le> 1024 \<Longrightarrow>
     length (fixed_contents (lane True sb)) \<le> 1024 \<Longrightarrow>
     \<exists>sb' rs. send_all xs sb = Some (sb', rs) \<and> send_inv 0 sb' \<and>
       (\<forall>prio. fixed_contents (lane prio sb') =
          take 1024 (fixed_contents (lane prio sb) @ map fst (filter (\<lambda>x. snd x = prio) xs))) \<and>
       rs = send_codes (\<lambda>prio. length (fixed_contents (lane prio sb))) (map snd xs)"
proof (induction xs arbitrary: sb)
  case (Cons m xs)
  obtain x prio where m: "m = (x, prio)" by fastforce
  have "send_inv (Suc (length xs)) sb"
    using Cons.prems(1) by simp
  then obtain sb1 r where s: "SendBuffer_Send x prio sb = Some (sb1, r)" "send_inv (length xs) sb1"
    "lane (\<not> prio) sb1 = lane (\<not> prio) sb" "fixed_push x (lane prio sb) = (lane prio sb1, r = kSuccess)"
    "r = kSuccess \<or> r = kOutOfMemory"
    by (rule Send_lanes)
  have inv: "fixed_inv (fst (lane prio sb))" "0 < fixed_budget (lane prio sb)" "fixed_cap (fst (lane prio sb)) = 1024"
    using Cons.prems(1) by (cases prio; simp add: send_inv_def lane_ok_def)+
  have len: "length (fixed_contents (lane prio sb)) \<le> 1024"
    using Cons.prems(2,3) by (cases prio) simp_all
  have this_lane: "fixed_contents (lane prio sb1) = take 1024 (fixed_contents (lane prio sb) @ [x])"
    using fixed.push_abs [OF inv(1,2) s(4)] fixed.push_ok_iff [OF inv(1,2) s(4)] inv(3) len by auto
  have "length (fixed_contents (lane False sb1)) \<le> 1024" "length (fixed_contents (lane True sb1)) \<le> 1024"
    using this_lane s(3) Cons.prems(2,3) by (cases prio; simp)+
  from Cons.IH [OF s(2) this] obtain sb' rs where r: "send_all xs sb1 = Some (sb', rs)" "send_inv 0 sb'"
    "\<And>p. fixed_contents (lane p sb') = take 1024 (fixed_contents (lane p sb1) @ map fst (filter (\<lambda>x. snd x = p) xs))"
    and rs: "rs = send_codes (\<lambda>p. length (fixed_contents (lane p sb1))) (map snd xs)"
    by blast
  let ?n = "\<lambda>p. length (fixed_contents (lane p sb))"
  have other: "lane p sb1 = lane p sb" if "p \<noteq> prio" for p
    using s(3) that by (cases p; cases prio) simp_all
  have code: "r = kSuccess \<longleftrightarrow> ?n prio < 1024"
    using fixed.push_ok_iff [OF inv(1,2) s(4)] inv(3) by simp
  have "(\<lambda>p. length (fixed_contents (lane p sb1))) = (if r = kSuccess then ?n(prio := Suc (?n prio)) else ?n)"
  proof
    fix p
    show "length (fixed_contents (lane p sb1)) = (if r = kSuccess then ?n(prio := Suc (?n prio)) else ?n) p"
      using this_lane other code len by (cases "p = prio") auto
  qed
  then have codes: "r # rs = send_codes ?n (map snd (m # xs))"
    using rs code s(5) by (auto simp: m)
  have "fixed_contents (lane p sb') =
      take 1024 (fixed_contents (lane p sb) @ map fst (filter (\<lambda>x. snd x = p) (m # xs)))" for p
  proof (cases "p = prio")
    case True
    have "take 1024 (take 1024 (fixed_contents (lane prio sb) @ [x]) @ ys) =
        take 1024 (fixed_contents (lane prio sb) @ x # ys)" for ys
      using len by (cases "length (fixed_contents (lane prio sb)) = 1024") simp_all
    with True r(3) [of p] this_lane show ?thesis
      by (simp add: m)
  next
    case False
    with other False r(3) [of p] show ?thesis
      by (simp add: m)
  qed
  with r s(1) codes show ?case
    by (simp add: m)
qed (simp add: all_bool_eq)

lemma Up2_1024: "Up2PowerOf2 1024 = 1024"
  by (simp add: Up2PowerOf2_def)

lemma send_config_cap:
  "unat (Up2PowerOf2 (ucast (uMaxElementCount (send_config junk)))) * rounded_elem (send_config junk) = 8192"
  "unat (Up2PowerOf2 (ucast (uMaxElementCount (send_config junk)))) = 1024"
  by (simp_all add: send_config_def rounded_elem_def Up2_1024)

lemma send_channel_ok:
  assumes "SPSCFixed_Create ans1 ans2 sz (Some (send_config junk)) h e = (Some (p, c), h', e')"
    and "\<forall>a. ans2 = Some a \<longrightarrow> block_fits a 8192"
  shows "fixed_inv c \<and> fixed_cap c = 1024 \<and> fixed_contents (c, mem) = [] \<and> fixed_budget (c, mem) = 2 ^ 64 - 1"
proof -
  obtain e0 where I: "SPSCFixed_Init ans2 (ucast (uElementSize (send_config junk)))
      (ucast (uMaxElementCount (send_config junk))) SPSCFixed_default (h(p \<mapsto> sz)) e0 = (c, h', e', kSuccess)"
    using Create_success [OF assms(1)] by blast
  have fits: "\<And>a. ans2 = Some a \<Longrightarrow> block_fits a
      (unat (Up2PowerOf2 (ucast (uMaxElementCount (send_config junk)))) * rounded_elem (send_config junk))"
    using assms(2) unfolding send_config_cap(1) by blast
  have "m_uTail c = 0"
    using I by (auto simp: SPSCFixed_Init_def Let_def split: if_splits prod.splits option.splits)
  with Init_success [OF I fits] send_config_cap(2) show ?thesis
    by (simp add: fixed_budget_def)
qed

text \<open>
  C37: a send buffer keeps its two lanes. After a successful \<open>Init\<close>, every sequence of fewer than 2^64
  \<open>Send\<close> calls returns and releases the lock each time, and each lane then holds the first 1024 of the
  messages that were sent to it, in order: ordinary and priority messages never mix. A call returns
  success when fewer than 1024 messages are in its lane, and the message is the next one there; otherwise it
  returns out-of-memory, and the message is in no lane.
\<close>

theorem send_buffer_lanes:
  assumes "SendBuffer_Init lk a1 a2 szl szc junk (SendBuffer_default m1 m2) h e = (sb, h', e', kSuccess)"
    and "\<forall>a. snd a1 = Some a \<or> snd a2 = Some a \<longrightarrow> block_fits a 8192"
    and "length xs < 2 ^ 64"
  shows "\<exists>sb' rs. send_all xs sb = Some (sb', rs) \<and>
    (\<exists>p. m_pSpinLockSend sb' = Some (p, \<lparr>m_bLocked = False\<rparr>)) \<and>
    (\<forall>prio. fixed_contents (lane prio sb') = take 1024 (map fst (filter (\<lambda>x. snd x = prio) xs))) \<and>
    rs = send_codes (\<lambda>prio. 0) (map snd xs)"
proof -
  obtain l h1 where l: "SpinLock_Create lk szl h = (Some l, h1)"
    using assms(1) by (auto simp: SendBuffer_Init_def split: option.splits prod.splits)
  obtain p1 c1 h2 e2 p2 c2 where
    c1: "SPSCFixed_Create (fst a1) (snd a1) szc (Some (send_config junk)) h1 e = (Some (p1, c1), h2, e2)" and
    c2: "SPSCFixed_Create (fst a2) (snd a2) szc (Some (send_config junk)) h2 e2 = (Some (p2, c2), h', e')" and
    sb: "sb = (SendBuffer_default m1 m2)\<lparr>m_pSpinLockSend := Some l, m_pChannelSend := Some (p1, c1),
      m_pChannelPrioritySend := Some (p2, c2)\<rparr>"
    using assms(1) l by (auto simp: SendBuffer_Init_def split: prod.splits if_splits)
  obtain p where lock: "l = (p, \<lparr>m_bLocked = False\<rparr>)"
    using l by (auto simp: SpinLock_Create_def IAllocatorEx_New_def split: prod.splits option.splits)
  note ok1 = send_channel_ok [OF c1, of m1] and ok2 = send_channel_ok [OF c2, of m2]
  have lanes: "lane False sb = (c1, m1)" "lane True sb = (c2, m2)"
    by (simp_all add: sb lane_def SendBuffer_default_def)
  have "send_inv (length xs) sb"
    using ok1 ok2 assms(2,3) lock
    by (simp add: send_inv_def lane_ok_def lanes) (simp add: sb SendBuffer_default_def)
  from send_all_lanes [OF this] obtain sb' rs where r: "send_all xs sb = Some (sb', rs)" "send_inv 0 sb'"
    "\<And>prio. fixed_contents (lane prio sb') =
      take 1024 (fixed_contents (lane prio sb) @ map fst (filter (\<lambda>x. snd x = prio) xs))"
    "rs = send_codes (\<lambda>prio. length (fixed_contents (lane prio sb))) (map snd xs)"
    using ok1 ok2 assms(2) by (auto simp: lanes)
  have empty: "fixed_contents (lane prio sb) = []" for prio
    using ok1 ok2 assms(2) lanes by (cases prio) simp_all
  obtain q k where q: "m_pSpinLockSend sb' = Some (q, k)" "\<not> m_bLocked k"
    using r(2) by (auto simp: send_inv_def)
  then have "k = \<lparr>m_bLocked = False\<rparr>"
    by (cases k) simp
  with r q empty show ?thesis
    by simp
qed

definition demo_send :: "nat CSendBuffer" where
  "demo_send = fst (SendBuffer_Init (Some 8) (Some 64, Some 65536) (Some 128, Some 131072) 1 320 0
     (SendBuffer_default (\<lambda>_. 0) (\<lambda>_. 0)) Map.empty kSuccess)"

lemma demo_send_Init:
  "\<exists>h. SendBuffer_Init (Some 8) (Some 64, Some 65536) (Some 128, Some 131072) 1 320 0
     (SendBuffer_default (\<lambda>_. 0) (\<lambda>_. 0)) Map.empty kSuccess = (demo_send, h, kSuccess, kSuccess)"
  by (simp add: demo_send_def SendBuffer_Init_def SpinLock_Create_def IAllocatorEx_New_def CAllocatorImpl_Malloc_def
      SPSCFixed_Create_def SPSCFixed_Init_def Let_def send_config_def Up2_1024 ALIGN8_def ALIGNN_def)

lemma send_buffer_lanes_witness:
  "\<exists>sb'. send_all [(1, False), (2, True), (3, False)] demo_send = Some (sb', [kSuccess, kSuccess, kSuccess]) \<and>
     fixed_contents (lane False sb') = [1, 3] \<and> fixed_contents (lane True sb') = [2]"
proof -
  obtain h where "SendBuffer_Init (Some 8) (Some 64, Some 65536) (Some 128, Some 131072) 1 320 0
     (SendBuffer_default (\<lambda>_. 0) (\<lambda>_. 0)) Map.empty kSuccess = (demo_send, h, kSuccess, kSuccess)"
    using demo_send_Init by blast
  from send_buffer_lanes [OF this, of "[(1, False), (2, True), (3, False)]"] show ?thesis
    by (auto simp: block_fits_def all_bool_eq)
qed

end
