(* ===== verification/NetWorld.thy ===== *)
theory NetWorld
  imports Dispatcher Delivery SendBuffer
begin

text \<open>
  The state of the network library: the connection and acceptor objects, the engine
  (\<open>network/sources/engine_impl.h\<close>) with its event dispatcher (\<open>network/sources/event_dispatcher.h\<close>) and
  its IO dispatchers, the allocator's heap, the open descriptors, and the calls the client has got.
  On it the engine's \<open>AttachConnection\<close>, \<open>DetachConnection\<close>, \<open>DetachConnection2\<close> and
  \<open>CConnectionImpl::Close\<close>, which the other operations share.

  An operation is a function on this state. It takes what the system answers as arguments and yields
  \<open>None\<close> where the code has undefined behaviour: an access to an object that is not there, an index
  out of range. Arguments of a log call count as accesses whether or not the logger takes the entry.
  \<open>LOG_EVENT\<close>, \<open>LOG_INFO\<close> and \<open>LOG_DEBUG\<close> do not change the state (\<open>macro_last_error\<close>) and are left out.
\<close>

section \<open>Objects\<close>

text \<open>
  \<open>m_pDispatcher\<close>, \<open>m_pAllocatorEx\<close> and \<open>m_pLogger\<close> are those of the one engine, and \<open>m_pMessagePool\<close> is
  \<open>nullptr\<close> for ever, as no function sets it to anything else.
\<close>

record CConnectionImpl =
  m_uID :: uint64_t
  m_uIOThreadIndex :: uint32_t
  m_iFd :: int
  m_ReceiveBuffer :: CReceiveBuffer
  m_pCallback :: "nat option"
  m_ulastRecvTimeNs :: uint64_t
  m_SendBuffer :: "uint64_t CSendBuffer"
  m_strConnectionName :: string
  m_bIsSyncConnect :: bool
  m_uConnectTimeoutMs :: uint32_t
  m_strRemoteIP :: string
  m_strLocalIP :: string
  m_uRemotePort :: uint16_t
  m_uLocalPort :: uint16_t
  m_uSocketSendBufferSize :: uint32_t
  m_uSocketRecvBufferSize :: uint32_t
  m_uHeartbeatIntervalMs :: uint32_t
  m_uHeartbeatTimeoutMs :: uint32_t

definition CConnectionImpl_default :: CConnectionImpl where
  "CConnectionImpl_default = \<lparr>m_uID = 0, m_uIOThreadIndex = 0, m_iFd = -1, m_ReceiveBuffer = rb_default,
     m_pCallback = nullptr, m_ulastRecvTimeNs = 0, m_SendBuffer = SendBuffer_default (\<lambda>_. 0) (\<lambda>_. 0),
     m_strConnectionName = '''', m_bIsSyncConnect = False, m_uConnectTimeoutMs = 30000, m_strRemoteIP = '''',
     m_strLocalIP = '''', m_uRemotePort = 0, m_uLocalPort = 0, m_uSocketSendBufferSize = 0,
     m_uSocketRecvBufferSize = 0, m_uHeartbeatIntervalMs = 0, m_uHeartbeatTimeoutMs = 0\<rparr>"

definition CConnectionImpl_ctor :: "uint64_t \<Rightarrow> nat option \<Rightarrow> CConnectionImpl" where
  "CConnectionImpl_ctor uID pCallback = CConnectionImpl_default\<lparr>m_uID := uID, m_pCallback := pCallback\<rparr>"

record CAcceptorImpl =
  acc_iFd :: int
  acc_uID :: uint64_t
  acc_pCallback :: "nat option"
  m_strAcceptorName :: string
  m_strAcceptorIP :: string
  m_uAcceptorPort :: uint16_t
  acc_uSocketSendBufferSize :: uint32_t
  acc_uSocketRecvBufferSize :: uint32_t
  acc_uHeartbeatIntervalMs :: uint32_t
  acc_uHeartbeatTimeoutMs :: uint32_t

definition CAcceptorImpl_ctor :: "uint64_t \<Rightarrow> nat option \<Rightarrow> CAcceptorImpl" where
  "CAcceptorImpl_ctor uID pCallback = \<lparr>acc_iFd = -1, acc_uID = uID, acc_pCallback = pCallback,
     m_strAcceptorName = '''', m_strAcceptorIP = '''', m_uAcceptorPort = 0, acc_uSocketSendBufferSize = 0,
     acc_uSocketRecvBufferSize = 0, acc_uHeartbeatIntervalMs = 0, acc_uHeartbeatTimeoutMs = 0\<rparr>"

section \<open>The engine and its surroundings\<close>

text \<open>The calls of \<open>ICallback\<close>, by the address of the object, and of a client's detach function.\<close>

datatype client_event =
    OnConnected uint64_t | OnDisconnected uint64_t | OnError uint64_t | OnAccept uint64_t
  | OnMessage uint64_t "uint8_t list" | OnDetach nat uint64_t

record NetWorld =
  w_tls :: last_error
  w_logger :: "LogLevel option"
  w_heap :: heap
  w_opened :: "int set"
  w_conns :: "uint64_t \<rightharpoonup> CConnectionImpl"
  w_accs :: "uint64_t \<rightharpoonup> CAcceptorImpl"
  w_calls :: "client_event list"
  m_strEngineName :: string
  m_EventDispatcher :: IDispatcher
  m_setAcceptor :: "uint64_t set"
  m_setConnection :: "uint64_t set"
  m_uNextIODispatcherIndex :: uint32_t
  m_vecIODispatchers :: "IDispatcher option list"
  m_uNextAcceptorID :: uint64_t
  m_umapAcceptor :: "uint64_t \<rightharpoonup> uint64_t"
  m_uNextConnectionID :: uint64_t
  m_umapConnection :: "uint64_t \<rightharpoonup> uint64_t"

definition CEngineImpl_ctor :: "LogLevel option \<Rightarrow> NetWorld" where
  "CEngineImpl_ctor pLogger = \<lparr>w_tls = kSuccess, w_logger = pLogger, w_heap = Map.empty, w_opened = {},
     w_conns = Map.empty, w_accs = Map.empty, w_calls = [], m_strEngineName = '''',
     m_EventDispatcher = IDispatcher_default, m_setAcceptor = {}, m_setConnection = {},
     m_uNextIODispatcherIndex = 0, m_vecIODispatchers = [], m_uNextAcceptorID = 1,
     m_umapAcceptor = Map.empty, m_uNextConnectionID = 1, m_umapConnection = Map.empty\<rparr>"

definition net_error :: "ErrorCode \<Rightarrow> NetWorld \<Rightarrow> NetWorld" where
  "net_error c w = w\<lparr>w_tls := fst (LOG_ERROR (w_logger w) c (w_tls w))\<rparr>"

lemma net_error_eq [net_ops]: "net_error c w = w\<lparr>w_tls := c\<rparr>"
  by (simp add: net_error_def macro_last_error)

definition client_call :: "client_event \<Rightarrow> NetWorld \<Rightarrow> NetWorld" where
  "client_call ev w = w\<lparr>w_calls := w_calls w @ [ev]\<rparr>"

text \<open>The registrations of the event dispatcher.\<close>

abbreviation regs :: "NetWorld \<Rightarrow> int \<rightharpoonup> uint64_t \<times> uint32_t" where
  "regs w \<equiv> registered (m_EpollImpl (m_EventDispatcher w))"

text \<open>\<open>close\<close>: the kernel also takes a closed descriptor out of the epoll set.\<close>

definition sys_close :: "int \<Rightarrow> NetWorld \<Rightarrow> NetWorld" where
  "sys_close fd w = w\<lparr>w_opened := w_opened w - {fd},
     m_EventDispatcher := (m_EventDispatcher w)\<lparr>m_EpollImpl :=
       (m_EpollImpl (m_EventDispatcher w))\<lparr>registered := (regs w)(fd := None)\<rparr>\<rparr>\<rparr>"

text \<open>The destructors, with the memory of the object.\<close>

definition CConnectionImpl_delete :: "uint64_t \<Rightarrow> NetWorld \<Rightarrow> NetWorld option" where
  "CConnectionImpl_delete p w =
     (case w_conns w p of
        None \<Rightarrow> None
      | Some c \<Rightarrow>
          let w = (if m_iFd c \<noteq> -1 then sys_close (m_iFd c) w else w)
          in Some (w\<lparr>w_conns := (w_conns w)(p := None),
               w_heap := IAllocatorEx_Delete (Some p) (SendBuffer_destructor (m_SendBuffer c)) (w_heap w)\<rparr>))"

definition CAcceptorImpl_delete :: "uint64_t \<Rightarrow> NetWorld \<Rightarrow> NetWorld option" where
  "CAcceptorImpl_delete p w =
     (case w_accs w p of
        None \<Rightarrow> None
      | Some a \<Rightarrow>
          let w = (if acc_iFd a \<noteq> -1 then sys_close (acc_iFd a) w else w)
          in Some (w\<lparr>w_accs := (w_accs w)(p := None), w_heap := IAllocatorEx_Delete (Some p) id (w_heap w)\<rparr>))"

text \<open>What may fail in the surroundings of one operation.\<close>

record faults =
  event_throws :: bool
  io_throws :: bool
  insert_throws :: bool
  ctl_accepts :: bool

definition no_faults :: faults where
  "no_faults = \<lparr>event_throws = False, io_throws = False, insert_throws = False, ctl_accepts = True\<rparr>"

section \<open>Posting tasks\<close>

definition post_event :: "faults \<Rightarrow> NetTask \<Rightarrow> NetWorld \<Rightarrow> NetWorld \<times> ErrorCode" where
  "post_event f tk w =
     (case IDispatcher_PostTask (event_throws f) tk (m_EventDispatcher w) of
        (d, r) \<Rightarrow> (w\<lparr>m_EventDispatcher := d\<rparr>, r))"

text \<open>Indexing \<open>m_vecIODispatchers\<close> and following the pointer there.\<close>

definition post_io :: "faults \<Rightarrow> nat \<Rightarrow> NetTask \<Rightarrow> NetWorld \<Rightarrow> (NetWorld \<times> ErrorCode) option" where
  "post_io f i tk w =
     (if i < length (m_vecIODispatchers w) then
        (case m_vecIODispatchers w ! i of
           None \<Rightarrow> None
         | Some d \<Rightarrow>
             (case IDispatcher_PostTask (io_throws f) tk d of
                (d, r) \<Rightarrow> Some (w\<lparr>m_vecIODispatchers := (m_vecIODispatchers w)[i := Some d]\<rparr>, r)))
      else None)"

text \<open>The common end of the three operations: the log entry names the connection.\<close>

definition posted :: "uint64_t \<Rightarrow> (NetWorld \<times> ErrorCode) option \<Rightarrow> (NetWorld \<times> ErrorCode) option" where
  "posted p res =
     (case res of
        None \<Rightarrow> None
      | Some (w, r) \<Rightarrow>
          if r \<noteq> kSuccess then
            (if w_conns w p = None then None else Some (net_error kInvalidCall w, kInvalidCall))
          else Some (w, kSuccess))"

definition AttachConnection :: "faults \<Rightarrow> pointer \<Rightarrow> NetWorld \<Rightarrow> (NetWorld \<times> ErrorCode) option" where
  "AttachConnection f pConnection w =
     (case pConnection of
        None \<Rightarrow> Some (net_error kInvalidParam w, kInvalidParam)
      | Some p \<Rightarrow>
          let n = length (m_vecIODispatchers w);
              uIOThreadIndex = unat (m_uNextIODispatcherIndex w) mod n;
              w = w\<lparr>m_uNextIODispatcherIndex := m_uNextIODispatcherIndex w + 1\<rparr>
          in if n = 0 then None
             else posted p (post_io f uIOThreadIndex
                    \<lparr>eNetTaskType = kAddConnection, funcCallback = nullptr, pCtx = p\<rparr> w))"

definition DetachConnection :: "faults \<Rightarrow> pointer \<Rightarrow> NetWorld \<Rightarrow> (NetWorld \<times> ErrorCode) option" where
  "DetachConnection f pConnection w =
     (case pConnection of
        None \<Rightarrow> Some (net_error kInvalidParam w, kInvalidParam)
      | Some p \<Rightarrow>
          (case w_conns w p of
             None \<Rightarrow> None
           | Some c \<Rightarrow>
               posted p (post_io f (unat (m_uIOThreadIndex c))
                 \<lparr>eNetTaskType = kRemoveConnection, funcCallback = nullptr, pCtx = p\<rparr> w)))"

definition DetachConnection2 ::
  "faults \<Rightarrow> pointer \<Rightarrow> detach_func option \<Rightarrow> NetWorld \<Rightarrow> (NetWorld \<times> ErrorCode) option" where
  "DetachConnection2 f pConnection pCallback w =
     (case (pConnection, pCallback) of
        (Some p, Some cb) \<Rightarrow>
          (case w_conns w p of
             None \<Rightarrow> None
           | Some c \<Rightarrow>
               posted p (post_io f (unat (m_uIOThreadIndex c))
                 \<lparr>eNetTaskType = kDoDisconnect, funcCallback = Some (DetachLambda p cb), pCtx = p\<rparr> w))
      | _ \<Rightarrow> Some (net_error kInvalidParam w, kInvalidParam))"

text \<open>\<open>CEventDispatcher::ProcessTask<TaskType::kDoDisconnect>\<close>, and \<open>DoTask\<close> for such a task without callback.\<close>

definition ProcessDoDisconnect :: "faults \<Rightarrow> NetTask \<Rightarrow> NetWorld \<Rightarrow> (NetWorld \<times> bool) option" where
  "ProcessDoDisconnect f tk w =
     (case w_conns w (pCtx tk) of
        None \<Rightarrow> None
      | Some c \<Rightarrow>
          (case DetachConnection2 f (Some (pCtx tk)) (Some DetachCallback) w of
             None \<Rightarrow> None
           | Some (w, r) \<Rightarrow>
               if r \<noteq> kSuccess then Some (net_error kInvalidState w, False) else Some (w, True)))"

definition DoTask_disconnect :: "faults \<Rightarrow> NetTask \<Rightarrow> NetWorld \<Rightarrow> (NetWorld \<times> ErrorCode) option" where
  "DoTask_disconnect f tk w =
     map_option (\<lambda>(w, ok). (w, if ok then kSuccess else kInvalidCall)) (ProcessDoDisconnect f tk w)"

section \<open>Closing a connection\<close>

definition CConnectionImpl_Close :: "faults \<Rightarrow> uint64_t \<Rightarrow> NetWorld \<Rightarrow> NetWorld option" where
  "CConnectionImpl_Close f p w =
     (case w_conns w p of
        None \<Rightarrow> None
      | Some c \<Rightarrow>
          if m_iFd c = -1 then Some w
          else
            let tk = \<lparr>eNetTaskType = kDoDisconnect, funcCallback = nullptr, pCtx = p\<rparr> in
            if \<not> m_bIsSyncConnect c then
              (case post_event f tk w of
                 (w, r) \<Rightarrow> if r \<noteq> kSuccess then Some (net_error kSystemError w) else Some w)
            else
              (case DoTask_disconnect f tk w of
                 None \<Rightarrow> None
               | Some (w, r) \<Rightarrow> if r \<noteq> kInvalidCall then Some (net_error kSystemError w) else Some w))"

lemmas net_post_defs = post_event_def post_io_def posted_def IDispatcher_PostTask_def TaskQueue_PostTask_def

end
