(* ===== verification/Connection.thy ===== *)
theory Connection
  imports NetWorld
begin

text \<open>
  \<open>CConnectionImpl\<close> of \<open>network/sources/connection_impl.cpp\<close>: initialisation, connecting, sending and
  receiving, and the calls of the client. \<open>Close\<close> is in the theory NetWorld.
\<close>

section \<open>Configuration\<close>

text \<open>
  \<open>IJson\<close> as the network library uses it: lookups with a default. The names and default values are
  those of \<open>network/include/engine.h\<close>.
\<close>

record NetworkConfig =
  GetString :: "string \<Rightarrow> string \<Rightarrow> string"
  GetBool :: "string \<Rightarrow> bool \<Rightarrow> bool"
  GetUint32 :: "string \<Rightarrow> uint32_t \<Rightarrow> uint32_t"

text \<open>The configuration in which nothing is set.\<close>

definition empty_config :: NetworkConfig where
  "empty_config = \<lparr>GetString = (\<lambda>_ d. d), GetBool = (\<lambda>_ d. d), GetUint32 = (\<lambda>_ d. d)\<rparr>"

text \<open>The assignments of \<open>Init\<close> in order; \<open>uint16_t\<close> fields take the low 16 bits.\<close>

definition connection_settings :: "NetworkConfig \<Rightarrow> (CConnectionImpl \<Rightarrow> CConnectionImpl) list" where
  "connection_settings cfg =
     [\<lambda>c. c\<lparr>m_strConnectionName := GetString cfg ''connection_name'' ''''\<rparr>,
      \<lambda>c. c\<lparr>m_bIsSyncConnect := GetBool cfg ''is_sync_connect'' False\<rparr>,
      \<lambda>c. c\<lparr>m_uConnectTimeoutMs := GetUint32 cfg ''connect_timeout_ms'' 30000\<rparr>,
      \<lambda>c. c\<lparr>m_strRemoteIP := GetString cfg ''connection_remote_ip'' ''127.0.0.1''\<rparr>,
      \<lambda>c. c\<lparr>m_uRemotePort := ucast (GetUint32 cfg ''connection_remote_port'' 8080)\<rparr>,
      \<lambda>c. c\<lparr>m_uSocketSendBufferSize := GetUint32 cfg ''socket_send_buffer_bytes'' 0\<rparr>,
      \<lambda>c. c\<lparr>m_uSocketRecvBufferSize := GetUint32 cfg ''socket_recv_buffer_bytes'' 0\<rparr>,
      \<lambda>c. c\<lparr>m_uHeartbeatIntervalMs := GetUint32 cfg ''heartbeat_interval_ms'' 1000\<rparr>,
      \<lambda>c. c\<lparr>m_uHeartbeatTimeoutMs := GetUint32 cfg ''heartbeat_timeout_ms'' 30000\<rparr>]"

text \<open>The first \<open>n\<close> of them; an exception may be thrown by any.\<close>

definition apply_settings :: "nat \<Rightarrow> ('c \<Rightarrow> 'c) list \<Rightarrow> 'c \<Rightarrow> 'c" where
  "apply_settings n fs c = fold (\<lambda>f c. f c) (take n fs) c"

section \<open>Initialisation\<close>

text \<open>The answers of the allocator for the two buffers.\<close>

record buffer_env =
  be_alloc :: "block_alloc option"
  be_lock :: pointer
  be_send :: "pointer \<times> pointer"
  be_priority :: "pointer \<times> pointer"
  be_junk :: uint32_t

definition sizeof_lock :: uint64_t where "sizeof_lock = 16"
definition sizeof_channel :: uint64_t where "sizeof_channel = 320"

definition CConnectionImpl_InitBuffer ::
  "buffer_env \<Rightarrow> CConnectionImpl \<Rightarrow> NetWorld \<Rightarrow> CConnectionImpl \<times> NetWorld \<times> ErrorCode" where
  "CConnectionImpl_InitBuffer env c w =
     (case rb_Init (be_alloc env) 4096 (m_ReceiveBuffer c) of (rb, r) \<Rightarrow>
        let c = c\<lparr>m_ReceiveBuffer := rb\<rparr> in
        if r \<noteq> kSuccess then (c, net_error kSystemError w, kSystemError)
        else
          (case SendBuffer_Init (be_lock env) (be_send env) (be_priority env) sizeof_lock sizeof_channel
             (be_junk env) (m_SendBuffer c) (w_heap w) (w_tls w) of (sb, h, e, r) \<Rightarrow>
             let c = c\<lparr>m_SendBuffer := sb\<rparr>; w = w\<lparr>w_heap := h, w_tls := e\<rparr> in
             if r \<noteq> kSuccess then (c, net_error kSystemError w, kSystemError) else (c, w, kSuccess)))"

text \<open>
  \<open>Init\<close>: \<open>assigned\<close> is the number of settings made before an exception, \<open>fd\<close> what \<open>socket\<close> returned,
  \<open>snd_ok\<close> and \<open>rcv_ok\<close> whether the two \<open>setsockopt\<close> succeed.
\<close>

definition CConnectionImpl_Init ::
  "NetworkConfig option \<Rightarrow> nat \<Rightarrow> buffer_env \<Rightarrow> int \<Rightarrow> bool \<Rightarrow> bool \<Rightarrow> CConnectionImpl \<Rightarrow> NetWorld \<Rightarrow>
     CConnectionImpl \<times> NetWorld \<times> ErrorCode" where
  "CConnectionImpl_Init pConfig assigned env fd snd_ok rcv_ok c w =
     (case pConfig of
        None \<Rightarrow> (c, net_error kInvalidParam w, kInvalidParam)
      | Some cfg \<Rightarrow>
          let fs = connection_settings cfg; c = apply_settings assigned fs c in
          if assigned < length fs then (c, net_error kThrowException w, kThrowException)
          else (case CConnectionImpl_InitBuffer env c w of (c, w, r) \<Rightarrow>
            if r \<noteq> kSuccess then (c, net_error kSystemError w, kSystemError)
            else
              let c = c\<lparr>m_iFd := fd\<rparr> in
              if fd = -1 then (c, net_error kSystemError w, kSystemError)
              else
                let w = w\<lparr>w_opened := insert fd (w_opened w)\<rparr> in
                if m_uSocketSendBufferSize c \<noteq> 0 \<and> (\<not> snd_ok \<or> \<not> rcv_ok)
                then (c, net_error kSystemError w, kSystemError)
                else (c, w, kSuccess)))"

section \<open>Connecting\<close>

datatype connect_ans = ConnectDone | ConnectInProgress | ConnectFailed

text \<open>\<open>sc_poll\<close> is the result of \<open>poll\<close>, \<open>sc_status\<close> the error status of the socket, or none if \<open>getsockopt\<close> fails.\<close>

record connect_env =
  sc_throws :: bool
  sc_connect :: connect_ans
  sc_poll :: int
  sc_status :: "int option"
  sc_faults :: faults

definition CConnectionImpl_Connect ::
  "connect_env \<Rightarrow> string option \<Rightarrow> uint16_t \<Rightarrow> uint64_t \<Rightarrow> NetWorld \<Rightarrow> (NetWorld \<times> ErrorCode) option" where
  "CConnectionImpl_Connect env pRemoteIP uRemotePort p w =
     (case w_conns w p of
        None \<Rightarrow> None
      | Some c \<Rightarrow>
          if pRemoteIP = None \<or> uRemotePort = 0 then Some (net_error kInvalidParam w, kInvalidParam)
          else if sc_throws env then Some (net_error kThrowException w, kThrowException)
          else
            let c = c\<lparr>m_strRemoteIP := the pRemoteIP, m_uRemotePort := uRemotePort\<rparr>;
                w = w\<lparr>w_conns := (w_conns w)(p \<mapsto> c)\<rparr>;
                close_then = (\<lambda>w. map_option (\<lambda>w. (net_error kSystemError w, kSystemError))
                  (CConnectionImpl_Close (sc_faults env) p w))
            in if sc_connect env = ConnectFailed then Some (net_error kSystemError w, kSystemError)
               else if \<not> m_bIsSyncConnect c then
                 (case post_event (sc_faults env)
                     \<lparr>eNetTaskType = (if sc_connect env = ConnectDone then kConnected else kAddConnection),
                      funcCallback = nullptr, pCtx = p\<rparr> w of
                    (w, r) \<Rightarrow> if r \<noteq> kSuccess then close_then w else Some (w, kSuccess))
               else if sc_poll env = -1 then Some (net_error kSystemError w, kSystemError)
               else if sc_poll env = 0 then close_then w
               else (case sc_status env of
                   None \<Rightarrow> close_then w
                 | Some iStatus \<Rightarrow> if iStatus \<noteq> 0 then close_then w else Some (w, kSuccess)))"

section \<open>Sending\<close>

text \<open>The outer option is undefined behaviour or a lock that is held (see \<open>SendBuffer_Send\<close>).\<close>

definition CConnectionImpl_Send ::
  "pointer \<Rightarrow> bool \<Rightarrow> uint64_t \<Rightarrow> NetWorld \<Rightarrow> (NetWorld \<times> ErrorCode) option" where
  "CConnectionImpl_Send pMessage bPriority p w =
     (case w_conns w p of
        None \<Rightarrow> None
      | Some c \<Rightarrow>
          if pMessage = nullptr \<or> m_uIOThreadIndex c = UINT32_MAX
          then Some (net_error kInvalidCall w, kInvalidCall)
          else map_option (\<lambda>(sb, r). (w\<lparr>w_conns := (w_conns w)(p \<mapsto> c\<lparr>m_SendBuffer := sb\<rparr>)\<rparr>, r))
              (SendBuffer_Send (the pMessage) bPriority (m_SendBuffer c)))"

text \<open>
  \<open>NewMessage\<close> calls a member of \<open>m_pMessagePool\<close>, which is \<open>nullptr\<close>, so sending raw data is undefined
  as soon as its arguments are accepted.
\<close>

definition CConnectionImpl_NewMessage :: "uint32_t \<Rightarrow> CConnectionImpl \<Rightarrow> pointer option" where
  "CConnectionImpl_NewMessage n c = None"

definition CConnectionImpl_Send_data ::
  "pointer \<Rightarrow> uint32_t \<Rightarrow> bool \<Rightarrow> uint64_t \<Rightarrow> NetWorld \<Rightarrow> (NetWorld \<times> ErrorCode) option" where
  "CConnectionImpl_Send_data pData n bPriority p w =
     (case w_conns w p of
        None \<Rightarrow> None
      | Some c \<Rightarrow>
          if pData = nullptr \<or> n = 0 \<or> m_uIOThreadIndex c = UINT32_MAX
          then Some (net_error kInvalidCall w, kInvalidCall)
          else (case CConnectionImpl_NewMessage n c of
              None \<Rightarrow> None
            | Some nullptr \<Rightarrow> Some (net_error kOutOfMemory w, kOutOfMemory)
            | Some (Some m) \<Rightarrow>
                (case CConnectionImpl_Send (Some m) bPriority p w of
                   None \<Rightarrow> None
                 | Some (w, r) \<Rightarrow> Some (w, if r = kSuccess then kSuccess else kOutOfMemory))))"

definition CConnectionImpl_Recv_message :: ErrorCode where "CConnectionImpl_Recv_message = kInvalidCall"
definition CConnectionImpl_Recv_data :: ErrorCode where "CConnectionImpl_Recv_data = kInvalidCall"
definition CConnectionImpl_Call_message :: ErrorCode where "CConnectionImpl_Call_message = kInvalidCall"
definition CConnectionImpl_Call_data :: ErrorCode where "CConnectionImpl_Call_data = kInvalidCall"

section \<open>Events\<close>

text \<open>\<open>answer\<close> is what the client returns.\<close>

definition CConnectionImpl_OnConnected :: "ErrorCode \<Rightarrow> uint64_t \<Rightarrow> NetWorld \<Rightarrow> (NetWorld \<times> ErrorCode) option" where
  "CConnectionImpl_OnConnected answer p w =
     (case w_conns w p of
        None \<Rightarrow> None
      | Some c \<Rightarrow>
          if m_pCallback c \<noteq> nullptr then Some (client_call (OnConnected p) w, answer) else Some (w, kSuccess))"

definition CConnectionImpl_OnDisconnected :: "uint64_t \<Rightarrow> NetWorld \<Rightarrow> NetWorld option" where
  "CConnectionImpl_OnDisconnected p w =
     (case w_conns w p of
        None \<Rightarrow> None
      | Some c \<Rightarrow>
          let w = (if m_iFd c \<noteq> -1
                   then (sys_close (m_iFd c) w)\<lparr>w_conns := (w_conns w)(p \<mapsto> c\<lparr>m_iFd := -1\<rparr>)\<rparr> else w)
          in Some (if m_pCallback c \<noteq> nullptr then client_call (OnDisconnected p) w else w))"

definition CConnectionImpl_OnError :: "uint64_t \<Rightarrow> NetWorld \<Rightarrow> NetWorld option" where
  "CConnectionImpl_OnError p w =
     (case w_conns w p of
        None \<Rightarrow> None
      | Some c \<Rightarrow> Some (if m_pCallback c \<noteq> nullptr then client_call (OnError p) w else w))"

definition deliver_calls :: "uint64_t \<Rightarrow> uint8_t list list \<Rightarrow> NetWorld \<Rightarrow> NetWorld" where
  "deliver_calls p ms w = w\<lparr>w_calls := w_calls w @ map (OnMessage p) ms\<rparr>"

text \<open>
  \<open>Recv(uSize)\<close> around the loop \<open>Recv_loop\<close> of the theory Delivery. The result is the return value,
  which is a number of bytes at the end of the stream and an error code otherwise. A connection
  without callback gets no further than its first successful \<open>recv\<close>.
\<close>

definition CConnectionImpl_Recv ::
  "(uint8_t list \<Rightarrow> uint32_t) \<Rightarrow> (nat \<Rightarrow> block_alloc \<times> cut) \<Rightarrow> faults \<Rightarrow> uint32_t \<Rightarrow> uint8_t list \<Rightarrow>
     uint64_t \<Rightarrow> NetWorld \<Rightarrow> (NetWorld \<times> uint8_t list \<times> int) option" where
  "CConnectionImpl_Recv len sock f uSize stream p w =
     (case w_conns w p of
        None \<Rightarrow> None
      | Some c \<Rightarrow>
          if m_iFd c = -1 then Some (net_error kInvalidState w, stream, error_code_value kInvalidState)
          else if 0 < uSize \<and> m_pCallback c = nullptr \<and>
              (case rb_Recv (fst (sock 0)) (cut_ans (snd (sock 0)) stream) uSize (m_ReceiveBuffer c) of
                 None \<Rightarrow> True | Some (b, code, n, eof) \<Rightarrow> code = kSuccess) then None
          else
            (case Recv_loop len sock uSize 0 0 stream (m_ReceiveBuffer c) of
               None \<Rightarrow> None
             | Some (rb, ms, rest, out) \<Rightarrow>
                 let w = deliver_calls p ms (w\<lparr>w_conns := (w_conns w)(p \<mapsto> c\<lparr>m_ReceiveBuffer := rb\<rparr>)\<rparr>);
                     fail = (\<lambda>code. map_option (\<lambda>w. (w, rest, error_code_value code))
                       (Option.bind (CConnectionImpl_OnError p (net_error kSystemError w)) (CConnectionImpl_Close f p)))
                 in (case out of
                       RDone \<Rightarrow> Some (w, rest, error_code_value kSuccess)
                     | REof n \<Rightarrow> map_option (\<lambda>w. (w, rest, sint n)) (CConnectionImpl_Close f p w)
                     | RRecvFailed code \<Rightarrow> fail code
                     | RDeliverFailed code \<Rightarrow> fail code)))"

definition CConnectionImpl_IsConnected :: "CConnectionImpl \<Rightarrow> bool" where
  "CConnectionImpl_IsConnected c \<longleftrightarrow> m_iFd c \<noteq> -1"

definition CConnectionImpl_GetID :: "CConnectionImpl \<Rightarrow> uint64_t" where
  "CConnectionImpl_GetID c = m_uID c"

definition CConnectionImpl_GetIOThreadIndex :: "CConnectionImpl \<Rightarrow> uint32_t" where
  "CConnectionImpl_GetIOThreadIndex c = m_uIOThreadIndex c"

text \<open>The two setters have no caller in the repository.\<close>

definition CConnectionImpl_SetID :: "uint64_t \<Rightarrow> CConnectionImpl \<Rightarrow> CConnectionImpl" where
  "CConnectionImpl_SetID uID c = c\<lparr>m_uID := uID\<rparr>"

definition CConnectionImpl_SetIOThreadIndex :: "uint32_t \<Rightarrow> CConnectionImpl \<Rightarrow> CConnectionImpl" where
  "CConnectionImpl_SetIOThreadIndex uIOThreadIndex c = c\<lparr>m_uIOThreadIndex := uIOThreadIndex\<rparr>"

end
