(* ===== verification/Acceptor.thy ===== *)
theory Acceptor
  imports Connection
begin

text \<open>
  \<open>CAcceptorImpl\<close> of \<open>network/sources/accpetor_impl.cpp\<close>: initialisation and \<open>Accept\<close>. \<open>Start\<close> and \<open>Stop\<close>
  hand a task to the event dispatcher at once and are in the theory EventDispatcher.
\<close>

section \<open>Initialisation\<close>

definition acceptor_settings :: "NetworkConfig \<Rightarrow> (CAcceptorImpl \<Rightarrow> CAcceptorImpl) list" where
  "acceptor_settings cfg =
     [\<lambda>a. a\<lparr>m_strAcceptorName := GetString cfg ''acceptor_name'' ''''\<rparr>,
      \<lambda>a. a\<lparr>m_strAcceptorIP := GetString cfg ''acceptor_ip'' ''0.0.0.0''\<rparr>,
      \<lambda>a. a\<lparr>m_uAcceptorPort := ucast (GetUint32 cfg ''acceptor_port'' 8080)\<rparr>,
      \<lambda>a. a\<lparr>acc_uSocketSendBufferSize := GetUint32 cfg ''socket_send_buffer_bytes'' 0\<rparr>,
      \<lambda>a. a\<lparr>acc_uSocketRecvBufferSize := GetUint32 cfg ''socket_recv_buffer_bytes'' 0\<rparr>,
      \<lambda>a. a\<lparr>acc_uHeartbeatIntervalMs := GetUint32 cfg ''heartbeat_interval_ms'' 1000\<rparr>,
      \<lambda>a. a\<lparr>acc_uHeartbeatTimeoutMs := GetUint32 cfg ''heartbeat_timeout_ms'' 30000\<rparr>]"

text \<open>
  \<open>assigned\<close> is the number of settings made before an exception, \<open>fd\<close> what \<open>socket\<close> returned, \<open>bound\<close>
  whether \<open>bind\<close> succeeds. \<open>Init\<close> does not call \<open>listen\<close>.
\<close>

definition CAcceptorImpl_Init ::
  "NetworkConfig option \<Rightarrow> nat \<Rightarrow> int \<Rightarrow> bool \<Rightarrow> CAcceptorImpl \<Rightarrow> NetWorld \<Rightarrow>
     CAcceptorImpl \<times> NetWorld \<times> ErrorCode" where
  "CAcceptorImpl_Init pConfig assigned fd bound a w =
     (case pConfig of
        None \<Rightarrow> (a, net_error kInvalidParam w, kInvalidParam)
      | Some cfg \<Rightarrow>
          let fs = acceptor_settings cfg; a = apply_settings assigned fs a in
          if assigned < length fs then (a, net_error kThrowException w, kThrowException)
          else
            let a = a\<lparr>acc_iFd := fd\<rparr> in
            if fd = -1 then (a, net_error kSystemError w, kSystemError)
            else
              let w = w\<lparr>w_opened := insert fd (w_opened w)\<rparr> in
              if \<not> bound then (a, net_error kSystemError w, kSystemError) else (a, w, kSuccess))"

section \<open>Accepting a connection\<close>

text \<open>What \<open>accept4\<close> answers: a new descriptor with the address of the peer, would block, another error.\<close>

datatype accept_ans = AcceptFd int string uint16_t | AcceptAgain | AcceptFailed

record accept_env =
  ae_accept :: accept_ans
  ae_new :: pointer
  ae_throws :: bool
  ae_now :: uint64_t
  ae_buffers :: buffer_env
  ae_snd_ok :: bool
  ae_rcv_ok :: bool
  ae_answer :: ErrorCode

text \<open>The size of the object is the business of the compiler; it is only recorded in the heap.\<close>

definition sizeof_CConnectionImpl :: uint64_t where "sizeof_CConnectionImpl = 400"

text \<open>The fields that \<open>Accept\<close> sets in the new object.\<close>

definition accepted_connection ::
  "CAcceptorImpl \<Rightarrow> int \<Rightarrow> string \<Rightarrow> uint16_t \<Rightarrow> uint64_t \<Rightarrow> CConnectionImpl \<Rightarrow> CConnectionImpl" where
  "accepted_connection a fd ip port now c =
     c\<lparr>m_iFd := fd, m_pCallback := acc_pCallback a, m_ulastRecvTimeNs := now, m_strRemoteIP := ip,
       m_uRemotePort := port, m_strLocalIP := m_strAcceptorIP a, m_uLocalPort := m_uAcceptorPort a,
       m_uSocketSendBufferSize := acc_uSocketSendBufferSize a,
       m_uSocketRecvBufferSize := acc_uSocketRecvBufferSize a,
       m_uHeartbeatIntervalMs := acc_uHeartbeatIntervalMs a,
       m_uHeartbeatTimeoutMs := acc_uHeartbeatTimeoutMs a\<rparr>"

text \<open>Returning \<open>nullptr\<close> once \<open>upConnection\<close> owns the object: its destructor runs.\<close>

definition accept_reject :: "ErrorCode \<Rightarrow> uint64_t \<Rightarrow> NetWorld \<Rightarrow> (NetWorld \<times> pointer) option" where
  "accept_reject code p w = map_option (\<lambda>w. (w, nullptr)) (CConnectionImpl_delete p (net_error code w))"

text \<open>
  An exception can only come from the copies of the strings, after the descriptor has been stored
  and before the buffers are made.
\<close>

definition CAcceptorImpl_Accept ::
  "accept_env \<Rightarrow> uint64_t \<Rightarrow> NetWorld \<Rightarrow> (NetWorld \<times> pointer) option" where
  "CAcceptorImpl_Accept env pa w =
     (case w_accs w pa of
        None \<Rightarrow> None
      | Some a \<Rightarrow>
          if acc_iFd a = -1 then Some (net_error kInvalidState w, nullptr)
          else (case ae_accept env of
              AcceptAgain \<Rightarrow> Some (w, nullptr)
            | AcceptFailed \<Rightarrow> Some (net_error kSystemError w, nullptr)
            | AcceptFd fd ip port \<Rightarrow>
                let w = w\<lparr>w_opened := insert fd (w_opened w)\<rparr> in
                (case IAllocatorEx_New (ae_new env) sizeof_CConnectionImpl (Some CConnectionImpl_default) (w_heap w) of
                   (None, h) \<Rightarrow> Some (net_error kOutOfMemory (w\<lparr>w_heap := h\<rparr>), nullptr)
                 | (Some (p, c), h) \<Rightarrow>
                     let c = accepted_connection a fd ip port (ae_now env) c;
                         w = w\<lparr>w_heap := h, w_conns := (w_conns w)(p \<mapsto> c)\<rparr> in
                     if ae_throws env then accept_reject kThrowException p w
                     else (case CConnectionImpl_InitBuffer (ae_buffers env) c w of (c, w, r) \<Rightarrow>
                       let w = w\<lparr>w_conns := (w_conns w)(p \<mapsto> c)\<rparr> in
                       if r \<noteq> kSuccess then accept_reject kSystemError p w
                       else if acc_uSocketSendBufferSize a \<noteq> 0 \<and> (\<not> ae_snd_ok env \<or> \<not> ae_rcv_ok env)
                       then accept_reject kSystemError p w
                       else if acc_pCallback a = nullptr then None
                       else
                         let w = client_call (OnAccept p) w in
                         if ae_answer env \<noteq> kSuccess then accept_reject kSystemError p w
                         else Some (w, Some p)))))"

section \<open>Properties of Accept\<close>

text \<open>What \<open>InitBuffer\<close> leaves alone.\<close>

lemma InitBuffer_frame:
  assumes "CConnectionImpl_InitBuffer env c w = (c', w', r)"
  shows "m_iFd c' = m_iFd c" "m_uID c' = m_uID c" "m_uIOThreadIndex c' = m_uIOThreadIndex c"
    "m_pCallback c' = m_pCallback c"
    "w_opened w' = w_opened w" "w_conns w' = w_conns w" "w_accs w' = w_accs w" "w_calls w' = w_calls w"
    "m_EventDispatcher w' = m_EventDispatcher w" "m_setAcceptor w' = m_setAcceptor w"
    "m_setConnection w' = m_setConnection w" "m_umapConnection w' = m_umapConnection w"
    "m_uNextConnectionID w' = m_uNextConnectionID w" "m_umapAcceptor w' = m_umapAcceptor w"
    "m_uNextAcceptorID w' = m_uNextAcceptorID w" "m_vecIODispatchers w' = m_vecIODispatchers w"
  using assms
  by (auto simp: CConnectionImpl_InitBuffer_def net_ops Let_def split: prod.splits if_splits)

end
