(* ===== verification/EventDispatcher.thy ===== *)
theory EventDispatcher
  imports Acceptor
begin

text \<open>
  \<open>CEventDispatcher\<close> of \<open>network/sources/event_dispatcher.cpp\<close>, with the two calls of \<open>CAcceptorImpl\<close> that go
  straight to it, and \<open>CIODispatcher::Init\<close> and \<open>Run\<close> of \<open>network/sources/io_dispatcher.cpp\<close>.
\<close>

section \<open>Initialisation\<close>

text \<open>The name of a thread: \<open>snprintf\<close> into 16 bytes.\<close>

definition thread_name :: "string \<Rightarrow> string \<Rightarrow> string" where
  "thread_name sPrefix name = take 15 (sPrefix @ name)"

text \<open>\<open>sys\<close> are the answers for \<open>IDispatcher::Init\<close>; the engine's name is \<open>None\<close> for a null engine.\<close>

definition dispatcher_Init ::
  "net_func \<Rightarrow> string \<Rightarrow> nat \<Rightarrow> bool \<times> bool \<times> int \<times> bool \<Rightarrow> string option \<Rightarrow> IDispatcher \<Rightarrow> last_error \<Rightarrow>
     IDispatcher \<times> last_error \<times> ErrorCode" where
  "dispatcher_Init func sPrefix uEventSize sys pEngine d e =
     (case pEngine of
        None \<Rightarrow> (d, fst (LOG_ERROR None kInvalidParam e), kInvalidParam)
      | Some name \<Rightarrow>
          (case sys of (manager, created, epfd, resized) \<Rightarrow>
             (case IDispatcher_Init manager created epfd resized uEventSize d e of (d, e, iErrorNo) \<Rightarrow>
                if iErrorNo \<noteq> kSuccess then (d, fst (LOG_ERROR None kInvalidCall e), iErrorNo)
                else
                  (case CThreadImpl_Bind (Some (thread_name sPrefix name)) (Some func) () (the (m_pThread d)) e of
                     (t, e, r) \<Rightarrow>
                       let d = d\<lparr>m_pThread := Some t\<rparr> in
                       if r \<noteq> kSuccess then (d, fst (LOG_ERROR None kSysCallFailed e), kSysCallFailed)
                       else (d, e, kSuccess)))))"

definition CEventDispatcher_Init ::
  "bool \<times> bool \<times> int \<times> bool \<Rightarrow> string option \<Rightarrow> IDispatcher \<Rightarrow> last_error \<Rightarrow> IDispatcher \<times> last_error \<times> ErrorCode" where
  "CEventDispatcher_Init = dispatcher_Init EventRunWrapper ''env_disp_'' 16"

definition CIODispatcher_Init ::
  "bool \<times> bool \<times> int \<times> bool \<Rightarrow> string option \<Rightarrow> IDispatcher \<Rightarrow> last_error \<Rightarrow> IDispatcher \<times> last_error \<times> ErrorCode" where
  "CIODispatcher_Init = dispatcher_Init IORunWrapper ''io_disp_'' 64"

section \<open>Tasks\<close>

text \<open>Calls on the epoll set of the event dispatcher.\<close>

definition event_epoll :: "(CEpollImpl \<Rightarrow> CEpollImpl \<times> int) \<Rightarrow> NetWorld \<Rightarrow> NetWorld \<times> int" where
  "event_epoll g w =
     (case g (m_EpollImpl (m_EventDispatcher w)) of (ep, r) \<Rightarrow>
        (w\<lparr>m_EventDispatcher := (m_EventDispatcher w)\<lparr>m_EpollImpl := ep\<rparr>\<rparr>, r))"

definition ProcessAddAcceptor :: "faults \<Rightarrow> NetTask \<Rightarrow> NetWorld \<Rightarrow> (NetWorld \<times> bool) option" where
  "ProcessAddAcceptor f tk w =
     (let p = pCtx tk in
      case w_accs w p of
        None \<Rightarrow> None
      | Some a \<Rightarrow>
          if p \<in> m_setAcceptor w then Some (net_error kInvalidState w, False)
          else if insert_throws f then Some (net_error kThrowException w, False)
          else
            let w = w\<lparr>m_setAcceptor := insert p (m_setAcceptor w)\<rparr> in
            (case event_epoll (Epoll_Add (ctl_accepts f) (w_opened w) (acc_iFd a) p EPOLLIN) w of
               (w, r) \<Rightarrow>
                 if r \<noteq> 0 then Some (net_error kSysCallFailed (w\<lparr>m_setAcceptor := m_setAcceptor w - {p}\<rparr>), False)
                 else Some (w, True)))"

definition ProcessRemoveAcceptor :: "faults \<Rightarrow> NetTask \<Rightarrow> NetWorld \<Rightarrow> (NetWorld \<times> bool) option" where
  "ProcessRemoveAcceptor f tk w =
     (let p = pCtx tk in
      case w_accs w p of
        None \<Rightarrow> None
      | Some a \<Rightarrow>
          if p \<notin> m_setAcceptor w then Some (net_error kInvalidState w, False)
          else (case event_epoll (Epoll_Del (ctl_accepts f) (acc_iFd a)) w of
              (w, r) \<Rightarrow>
                if r \<noteq> 0 then Some (net_error kSysCallFailed w, False)
                else Some (w\<lparr>m_setAcceptor := m_setAcceptor w - {p}\<rparr>, True)))"

definition ProcessAddConnection :: "faults \<Rightarrow> NetTask \<Rightarrow> NetWorld \<Rightarrow> (NetWorld \<times> bool) option" where
  "ProcessAddConnection f tk w =
     (let p = pCtx tk in
      case w_conns w p of
        None \<Rightarrow> None
      | Some c \<Rightarrow>
          if p \<in> m_setConnection w then Some (net_error kInvalidState w, False)
          else if insert_throws f then Some (net_error kThrowException w, False)
          else
            let w = w\<lparr>m_setConnection := insert p (m_setConnection w)\<rparr> in
            (case event_epoll (Epoll_Add (ctl_accepts f) (w_opened w) (m_iFd c) p EPOLLIN) w of
               (w, r) \<Rightarrow>
                 if r \<noteq> 0 then Some (net_error kSysCallFailed (w\<lparr>m_setConnection := m_setConnection w - {p}\<rparr>), False)
                 else Some (w, True)))"

definition ProcessRemoveConnection :: "faults \<Rightarrow> NetTask \<Rightarrow> NetWorld \<Rightarrow> (NetWorld \<times> bool) option" where
  "ProcessRemoveConnection f tk w =
     (let p = pCtx tk in
      case w_conns w p of
        None \<Rightarrow> None
      | Some c \<Rightarrow>
          if p \<notin> m_setConnection w then Some (net_error kInvalidState w, False)
          else (case event_epoll (Epoll_Del (ctl_accepts f) (m_iFd c)) w of
              (w, r) \<Rightarrow>
                if r \<noteq> 0 then Some (net_error kSysCallFailed w, False)
                else Some (w\<lparr>m_setConnection := m_setConnection w - {p}\<rparr>, True)))"

definition ProcessConnected :: "ErrorCode \<Rightarrow> faults \<Rightarrow> NetTask \<Rightarrow> NetWorld \<Rightarrow> (NetWorld \<times> bool) option" where
  "ProcessConnected answer f tk w =
     (let p = pCtx tk; fail = (\<lambda>w. map_option (\<lambda>w. (w, False)) (CConnectionImpl_Close f p (net_error kInvalidState w))) in
      case CConnectionImpl_OnConnected answer p w of
        None \<Rightarrow> None
      | Some (w, r) \<Rightarrow>
          if r \<noteq> kSuccess then fail w
          else (case AttachConnection f (Some p) w of
              None \<Rightarrow> None
            | Some (w, r) \<Rightarrow> if r \<noteq> kSuccess then fail w else Some (w, True)))"

definition ProcessDisconnected :: "NetTask \<Rightarrow> NetWorld \<Rightarrow> (NetWorld \<times> bool) option" where
  "ProcessDisconnected tk w = map_option (\<lambda>w. (w, True)) (CConnectionImpl_OnDisconnected (pCtx tk) w)"

text \<open>\<open>DetachCallback\<close>: \<open>DoTask\<close> of a \<open>kDisconnected\<close> task, which has no callback.\<close>

definition CEventDispatcher_DetachCallback :: "uint64_t \<Rightarrow> NetWorld \<Rightarrow> NetWorld option" where
  "CEventDispatcher_DetachCallback p w =
     map_option (\<lambda>(w, ok). if ok then w else net_error kSystemError w)
       (ProcessDisconnected \<lparr>eNetTaskType = kDisconnected, funcCallback = nullptr, pCtx = p\<rparr> w)"

text \<open>The lambda of \<open>DetachConnection2\<close>.\<close>

definition run_callback :: "bool \<Rightarrow> CallbackFunc \<Rightarrow> NetWorld \<Rightarrow> NetWorld option" where
  "run_callback bResult cb w =
     (case cb of DetachLambda p func \<Rightarrow>
        if bResult then
          (case func of
             DetachCallback \<Rightarrow> CEventDispatcher_DetachCallback p w
           | ClientDetach k \<Rightarrow> Some (client_call (OnDetach k p) w))
        else if w_conns w p = None then None else Some (net_error kInvalidState w))"

definition ProcessTask_switch :: "ErrorCode \<Rightarrow> faults \<Rightarrow> NetTask \<Rightarrow> NetWorld \<Rightarrow> (NetWorld \<times> bool) option" where
  "ProcessTask_switch answer f tk w =
     (case eNetTaskType tk of
        kAddAcceptor \<Rightarrow> ProcessAddAcceptor f tk w
      | kRemoveAcceptor \<Rightarrow> ProcessRemoveAcceptor f tk w
      | kAddConnection \<Rightarrow> ProcessAddConnection f tk w
      | kRemoveConnection \<Rightarrow> ProcessRemoveConnection f tk w
      | kDoDisconnect \<Rightarrow> ProcessDoDisconnect f tk w
      | kConnected \<Rightarrow> ProcessConnected answer f tk w
      | kDisconnected \<Rightarrow> ProcessDisconnected tk w
      | _ \<Rightarrow> Some (net_error kInvalidState w, False))"

definition CEventDispatcher_ProcessTask ::
  "ErrorCode \<Rightarrow> faults \<Rightarrow> NetTask \<Rightarrow> NetWorld \<Rightarrow> (NetWorld \<times> bool) option" where
  "CEventDispatcher_ProcessTask answer f tk w =
     (case ProcessTask_switch answer f tk w of
        None \<Rightarrow> None
      | Some (w, bResult) \<Rightarrow>
          (case funcCallback tk of
             None \<Rightarrow> Some (w, bResult)
           | Some cb \<Rightarrow> map_option (\<lambda>w. (w, bResult)) (run_callback bResult cb w)))"

definition CEventDispatcher_DoTask ::
  "ErrorCode \<Rightarrow> faults \<Rightarrow> NetTask \<Rightarrow> NetWorld \<Rightarrow> (NetWorld \<times> ErrorCode) option" where
  "CEventDispatcher_DoTask answer f tk w =
     map_option (\<lambda>(w, ok). (w, if ok then kSuccess else kInvalidCall)) (CEventDispatcher_ProcessTask answer f tk w)"

text \<open>\<open>Close\<close> of a synchronous connection calls exactly this \<open>DoTask\<close>.\<close>

lemma DoTask_disconnect_eq:
  assumes "eNetTaskType tk = kDoDisconnect" "funcCallback tk = nullptr"
  shows "CEventDispatcher_DoTask answer f tk w = DoTask_disconnect f tk w"
  using assms
  by (simp add: CEventDispatcher_DoTask_def CEventDispatcher_ProcessTask_def ProcessTask_switch_def
      DoTask_disconnect_def split: option.splits)

section \<open>Starting and stopping an acceptor\<close>

definition acceptor_task :: "NetTaskType \<Rightarrow> faults \<Rightarrow> uint64_t \<Rightarrow> NetWorld \<Rightarrow> (NetWorld \<times> ErrorCode) option" where
  "acceptor_task ty f pa w =
     CEventDispatcher_DoTask kSuccess f \<lparr>eNetTaskType = ty, funcCallback = nullptr, pCtx = pa\<rparr> w"

definition CAcceptorImpl_Start :: "faults \<Rightarrow> uint64_t \<Rightarrow> NetWorld \<Rightarrow> (NetWorld \<times> ErrorCode) option" where
  "CAcceptorImpl_Start f pa w =
     (case w_accs w pa of
        None \<Rightarrow> None
      | Some a \<Rightarrow>
          if acc_iFd a = -1 then Some (net_error kInvalidState w, kInvalidState)
          else (case acceptor_task kAddAcceptor f pa w of
              None \<Rightarrow> None
            | Some (w, r) \<Rightarrow> if r \<noteq> kSuccess then Some (net_error kSystemError w, kSystemError) else Some (w, kSuccess)))"

definition CAcceptorImpl_Stop :: "faults \<Rightarrow> uint64_t \<Rightarrow> NetWorld \<Rightarrow> NetWorld option" where
  "CAcceptorImpl_Stop f pa w =
     (case w_accs w pa of
        None \<Rightarrow> None
      | Some a \<Rightarrow>
          if acc_iFd a = -1 then Some w
          else (case acceptor_task kRemoveAcceptor f pa w of
              None \<Rightarrow> None
            | Some (w, r) \<Rightarrow> Some (if r \<noteq> kSuccess then net_error kSystemError w else w)))"

section \<open>Events\<close>

text \<open>
  An event is the \<open>data\<close> union and the event bits. \<open>data.ptr\<close> is the pointer that was registered;
  \<open>data.fd\<close> is the same storage read as a 32-bit integer.
\<close>

definition data_fd :: "uint64_t \<Rightarrow> int" where
  "data_fd ptr = sint (ucast ptr :: uint32_t)"

text \<open>
  The surroundings of one event: the connections that are pending, the status that \<open>getsockopt\<close> gives
  (none if it fails), the answer of \<open>OnConnected\<close>.
\<close>

record event_env =
  ee_pending :: "(accept_env \<times> faults) list"
  ee_status :: "int option"
  ee_answer :: ErrorCode
  ee_faults :: faults

definition accept_again :: accept_env where
  "accept_again = \<lparr>ae_accept = AcceptAgain, ae_new = nullptr, ae_throws = False, ae_now = 0,
     ae_buffers = \<lparr>be_alloc = None, be_lock = nullptr, be_send = (nullptr, nullptr),
       be_priority = (nullptr, nullptr), be_junk = 0\<rparr>,
     ae_snd_ok = False, ae_rcv_ok = False, ae_answer = kSuccess\<rparr>"

text \<open>
  One round of the loop of \<open>ProcessAcceptorEvent\<close>; the second result says whether it goes on. After the
  pending connections \<open>accept4\<close> would block.
\<close>

definition accept_round :: "accept_env \<Rightarrow> faults \<Rightarrow> uint64_t \<Rightarrow> NetWorld \<Rightarrow> (NetWorld \<times> bool) option" where
  "accept_round env f pa w =
     (case CAcceptorImpl_Accept env pa w of
        None \<Rightarrow> None
      | Some (w, None) \<Rightarrow> Some (w, False)
      | Some (w, Some p) \<Rightarrow>
          (case CEventDispatcher_DoTask kSuccess f
              \<lparr>eNetTaskType = kAddConnection, funcCallback = nullptr, pCtx = p\<rparr> w of
             None \<Rightarrow> None
           | Some (w, r) \<Rightarrow>
               if r \<noteq> kSuccess then
                 map_option (\<lambda>w. (w, True)) (CConnectionImpl_delete p (net_error kSystemError w))
               else Some (w, True)))"

fun accept_loop :: "(accept_env \<times> faults) list \<Rightarrow> uint64_t \<Rightarrow> NetWorld \<Rightarrow> NetWorld option" where
  "accept_loop [] pa w = map_option fst (accept_round accept_again no_faults pa w)"
| "accept_loop ((env, f) # pending) pa w =
     (case accept_round env f pa w of
        None \<Rightarrow> None
      | Some (w, go_on) \<Rightarrow> if go_on then accept_loop pending pa w else Some w)"

definition ProcessAcceptorEvent :: "event_env \<Rightarrow> uint64_t \<Rightarrow> uint32_t \<Rightarrow> NetWorld \<Rightarrow> NetWorld option" where
  "ProcessAcceptorEvent env ptr evs w =
     (if evs AND EPOLLIN \<noteq> 0 then accept_loop (ee_pending env) ptr w
      else if w_accs w ptr = None then None else Some (net_error kSysCallFailed w))"

definition ProcessConnectionEvent :: "event_env \<Rightarrow> uint64_t \<Rightarrow> uint32_t \<Rightarrow> NetWorld \<Rightarrow> NetWorld option" where
  "ProcessConnectionEvent env ptr evs w =
     (let close = (\<lambda>code w. CConnectionImpl_Close (ee_faults env) ptr (net_error code w)) in
      if w_conns w ptr = None then None
      else if \<not> (evs AND EPOLLIN \<noteq> 0 \<or> evs AND EPOLLERR \<noteq> 0) then Some (net_error kSysCallFailed w)
      else (case ee_status env of
          None \<Rightarrow> close kSystemError w
        | Some iStatus \<Rightarrow>
            if iStatus \<noteq> 0 then close kSystemError w
            else (case CConnectionImpl_OnConnected (ee_answer env) ptr w of
                None \<Rightarrow> None
              | Some (w, r) \<Rightarrow> if r \<noteq> kSuccess then close kInvalidState w else Some w)))"

definition CEventDispatcher_ProcessEvent :: "event_env \<Rightarrow> uint64_t \<times> uint32_t \<Rightarrow> NetWorld \<Rightarrow> NetWorld option" where
  "CEventDispatcher_ProcessEvent env ev w =
     (case ev of (ptr, evs) \<Rightarrow>
        let del = (\<lambda>w. fst (event_epoll (Epoll_Del (ctl_accepts (ee_faults env)) (data_fd ptr)) w)) in
        if ptr \<in> m_setAcceptor w then ProcessAcceptorEvent env ptr evs w
        else if ptr \<in> m_setConnection w then
          map_option (\<lambda>w. let w = del w in w\<lparr>m_setConnection := m_setConnection w - {ptr}\<rparr>)
            (ProcessConnectionEvent env ptr evs w)
        else Some (del (net_error kInvalidState w)))"

section \<open>One round of the event dispatcher\<close>

fun process_events :: "(event_env \<times> uint64_t \<times> uint32_t) list \<Rightarrow> NetWorld \<Rightarrow> NetWorld option" where
  "process_events [] w = Some w"
| "process_events ((env, ev) # evs) w =
     (case CEventDispatcher_ProcessEvent env ev w of None \<Rightarrow> None | Some w \<Rightarrow> process_events evs w)"

text \<open>The loop over at most \<open>n\<close> tasks; \<open>task_env i\<close> is what happens around the \<open>i\<close>-th.\<close>

fun process_tasks :: "nat \<Rightarrow> (nat \<Rightarrow> bool \<times> ErrorCode \<times> faults) \<Rightarrow> NetWorld \<Rightarrow> NetWorld option" where
  "process_tasks 0 task_env w = Some w"
| "process_tasks (Suc n) task_env w =
     (case task_env n of (throws, answer, f) \<Rightarrow>
        (case TaskQueue_GetTask throws (m_TaskQueue (m_EventDispatcher w)) of (q, tk, r) \<Rightarrow>
           if r \<noteq> kSuccess then Some w
           else (case CEventDispatcher_ProcessTask answer f (the tk)
                   (w\<lparr>m_EventDispatcher := (m_EventDispatcher w)\<lparr>m_TaskQueue := q\<rparr>\<rparr>) of
               None \<Rightarrow> None
             | Some (w, ok) \<Rightarrow> process_tasks n task_env w)))"

definition kBatchTaskSize :: nat where "kBatchTaskSize = 16"

text \<open>\<open>envs i\<close> are the surroundings of the \<open>i\<close>-th event.\<close>

definition CEventDispatcher_Run ::
  "wait_ans \<Rightarrow> (nat \<Rightarrow> event_env) \<Rightarrow> (nat \<Rightarrow> bool \<times> ErrorCode \<times> faults) \<Rightarrow> NetWorld \<Rightarrow> NetWorld option" where
  "CEventDispatcher_Run ans envs task_env w =
     Option.bind
       (case Epoll_Wait (m_vecEpollEvents (m_EventDispatcher w)) ans of
          None \<Rightarrow> Some (net_error kSysCallFailed w)
        | Some evs \<Rightarrow> process_events (map (\<lambda>(i, ev). (envs i, ev)) (enumerate 0 evs)) w)
       (process_tasks kBatchTaskSize task_env)"

definition CEventDispatcher_RunWrapper ::
  "wait_ans \<Rightarrow> (nat \<Rightarrow> event_env) \<Rightarrow> (nat \<Rightarrow> bool \<times> ErrorCode \<times> faults) \<Rightarrow> NetWorld \<Rightarrow>
     (NetWorld \<times> bool) option" where
  "CEventDispatcher_RunWrapper ans envs task_env w =
     map_option (\<lambda>w. (w, True)) (CEventDispatcher_Run ans envs task_env w)"

section \<open>The IO dispatcher\<close>

definition CIODispatcher_DoTask :: "NetTask \<Rightarrow> ErrorCode" where
  "CIODispatcher_DoTask tk = IDispatcher_DoTask tk"

text \<open>\<open>m_uBatchSendRecvSize\<close> keeps its initial value: no function writes it.\<close>

definition m_uBatchSendRecvSize :: uint32_t where "m_uBatchSendRecvSize = 0"

text \<open>
  One event. \<open>send\<close> stands for \<open>CConnectionImpl::Send(uint32_t)\<close>, which is declared and not defined;
  \<open>len\<close>, \<open>sock\<close> and \<open>stream\<close> are the client's framing and the socket, as for \<open>CConnectionImpl_Recv\<close>.
\<close>

definition io_event ::
  "(uint32_t \<Rightarrow> uint64_t \<Rightarrow> NetWorld \<Rightarrow> NetWorld option) \<Rightarrow> (uint8_t list \<Rightarrow> uint32_t) \<Rightarrow>
     (nat \<Rightarrow> block_alloc \<times> cut) \<Rightarrow> faults \<Rightarrow> uint8_t list \<Rightarrow> uint64_t \<times> uint32_t \<Rightarrow> NetWorld \<Rightarrow> NetWorld option" where
  "io_event send len sock f stream ev w =
     (case ev of (ptr, evs) \<Rightarrow>
        Option.bind
          (if evs AND EPOLLIN \<noteq> 0 then map_option fst (CConnectionImpl_Recv len sock f m_uBatchSendRecvSize stream ptr w)
           else Some w)
          (\<lambda>w. Option.bind
            (if evs AND EPOLLOUT \<noteq> 0 then send m_uBatchSendRecvSize ptr w else Some w)
            (\<lambda>w. if evs AND EPOLLERR \<noteq> 0
                 then (if w_conns w ptr = None then None else CConnectionImpl_Close f ptr (net_error kSysCallFailed w))
                 else Some w)))"

text \<open>
  The loop over at most \<open>n\<close> tasks of the dispatcher with the index \<open>i\<close>. \<open>process\<close> stands for
  \<open>CIODispatcher::ProcessTask\<close>, which is declared and not defined.
\<close>

fun io_tasks ::
  "(NetTask \<Rightarrow> NetWorld \<Rightarrow> NetWorld option) \<Rightarrow> (nat \<Rightarrow> bool) \<Rightarrow> nat \<Rightarrow> nat \<Rightarrow> NetWorld \<Rightarrow> NetWorld option" where
  "io_tasks process throws i 0 w = Some w"
| "io_tasks process throws i (Suc n) w =
     (case m_vecIODispatchers w ! i of
        None \<Rightarrow> None
      | Some d \<Rightarrow>
          (case TaskQueue_GetTask (throws n) (m_TaskQueue d) of (q, tk, r) \<Rightarrow>
             if r = kSuccess then
               Option.bind (process (the tk)
                 (w\<lparr>m_vecIODispatchers := (m_vecIODispatchers w)[i := Some (d\<lparr>m_TaskQueue := q\<rparr>)]\<rparr>))
                 (io_tasks process throws i n)
             else Some w))"

definition CIODispatcher_Run ::
  "(NetTask \<Rightarrow> NetWorld \<Rightarrow> NetWorld option) \<Rightarrow> (uint64_t \<times> uint32_t \<Rightarrow> NetWorld \<Rightarrow> NetWorld option) \<Rightarrow>
     (nat \<Rightarrow> bool) \<Rightarrow> wait_ans \<Rightarrow> nat \<Rightarrow> NetWorld \<Rightarrow> NetWorld option" where
  "CIODispatcher_Run process event throws ans i w =
     (if i < length (m_vecIODispatchers w) then
        (case m_vecIODispatchers w ! i of
           None \<Rightarrow> None
         | Some d \<Rightarrow>
             Option.bind
               (case Epoll_Wait (m_vecEpollEvents d) ans of
                  None \<Rightarrow> Some (net_error kSysCallFailed w)
                | Some evs \<Rightarrow> fold (\<lambda>ev w. Option.bind w (event ev)) evs (Some w))
               (\<lambda>w. case m_vecIODispatchers w ! i of
                  None \<Rightarrow> None
                | Some d \<Rightarrow> if IDispatcher_IsEmpty d then Some w else io_tasks process throws i kBatchTaskSize w))
      else None)"

definition CIODispatcher_RunWrapper ::
  "(NetTask \<Rightarrow> NetWorld \<Rightarrow> NetWorld option) \<Rightarrow> (uint64_t \<times> uint32_t \<Rightarrow> NetWorld \<Rightarrow> NetWorld option) \<Rightarrow>
     (nat \<Rightarrow> bool) \<Rightarrow> wait_ans \<Rightarrow> nat \<Rightarrow> NetWorld \<Rightarrow> (NetWorld \<times> bool) option" where
  "CIODispatcher_RunWrapper process event throws ans i w =
     map_option (\<lambda>w. (w, True)) (CIODispatcher_Run process event throws ans i w)"

end
