(* ===== verification/Engine.thy ===== *)
theory Engine
  imports EventDispatcher
begin

text \<open>
  \<open>CEngineImpl\<close> of \<open>network/sources/engine_impl.cpp\<close>: the life of the engine and of the objects it owns.
  \<open>AttachConnection\<close> and the two ways to detach are in the theory NetWorld. \<open>Init\<close> is modelled for an
  engine that has not been initialised before.
\<close>

section \<open>The engine\<close>

type_synonym dispatcher_sys = "bool \<times> bool \<times> int \<times> bool"

definition sizeof_CIODispatcher :: uint64_t where "sizeof_CIODispatcher = 200"

text \<open>The loop of \<open>Init\<close> over \<open>m_vecIODispatchers\<close>; \<open>io i\<close> is what the allocator and the system answer.\<close>

fun init_io_dispatchers ::
  "(nat \<Rightarrow> pointer \<times> dispatcher_sys) \<Rightarrow> nat list \<Rightarrow> NetWorld \<Rightarrow> NetWorld \<times> ErrorCode" where
  "init_io_dispatchers io [] w = (w, kSuccess)"
| "init_io_dispatchers io (i # is) w =
     (case IAllocatorEx_New (fst (io i)) sizeof_CIODispatcher (Some IDispatcher_default) (w_heap w) of
        (None, h) \<Rightarrow>
          (net_error kOutOfMemory (w\<lparr>w_heap := h, m_vecIODispatchers := (m_vecIODispatchers w)[i := None]\<rparr>), kOutOfMemory)
      | (Some (p, d), h) \<Rightarrow>
          (case CIODispatcher_Init (snd (io i)) (Some (m_strEngineName w)) d (w_tls w) of (d, e, iErrorNo) \<Rightarrow>
             let w = w\<lparr>w_heap := h, w_tls := e, m_vecIODispatchers := (m_vecIODispatchers w)[i := Some d]\<rparr> in
             if iErrorNo \<noteq> kSuccess then (net_error kInvalidCall w, iErrorNo)
             else init_io_dispatchers io is w))"

text \<open>\<open>named\<close> and \<open>resized\<close> say whether the name could be stored and the vector could grow.\<close>

definition CEngineImpl_Init ::
  "NetworkConfig option \<Rightarrow> bool \<Rightarrow> bool \<Rightarrow> dispatcher_sys \<Rightarrow> (nat \<Rightarrow> pointer \<times> dispatcher_sys) \<Rightarrow> NetWorld \<Rightarrow>
     NetWorld \<times> ErrorCode" where
  "CEngineImpl_Init pConfig named resized sys io w =
     (case pConfig of
        None \<Rightarrow> (net_error kInvalidParam w, kInvalidParam)
      | Some cfg \<Rightarrow>
          if \<not> named then (net_error kThrowException w, kThrowException)
          else
            let w = w\<lparr>m_strEngineName := GetString cfg ''engine_name'' ''''\<rparr>;
                uIOThreadCount = unat (max (GetUint32 cfg ''io_thread_count'' 1) 1)
            in if \<not> resized then (net_error kThrowException w, kThrowException)
               else
                 let w = w\<lparr>m_vecIODispatchers := replicate uIOThreadCount nullptr\<rparr> in
                 (case CEventDispatcher_Init sys (Some (m_strEngineName w)) (m_EventDispatcher w) (w_tls w) of
                    (d, e, iErrorNo) \<Rightarrow>
                      let w = w\<lparr>m_EventDispatcher := d, w_tls := e\<rparr> in
                      if iErrorNo \<noteq> kSuccess then (net_error kInvalidCall w, iErrorNo)
                      else init_io_dispatchers io [0..<uIOThreadCount] w))"

text \<open>Starting the IO dispatchers; following a null pointer is undefined.\<close>

fun start_io_dispatchers :: "(nat \<Rightarrow> bool) \<Rightarrow> nat list \<Rightarrow> NetWorld \<Rightarrow> (NetWorld \<times> ErrorCode) option" where
  "start_io_dispatchers spawned [] w = Some (w, kSuccess)"
| "start_io_dispatchers spawned (i # is) w =
     (case m_vecIODispatchers w ! i of
        None \<Rightarrow> None
      | Some d \<Rightarrow>
          (case IDispatcher_Start (spawned i) d (w_tls w) of
             None \<Rightarrow> None
           | Some (d, e, iErrorNo) \<Rightarrow>
               let w = w\<lparr>w_tls := e, m_vecIODispatchers := (m_vecIODispatchers w)[i := Some d]\<rparr> in
               if iErrorNo \<noteq> kSuccess then Some (net_error kInvalidCall w, iErrorNo)
               else start_io_dispatchers spawned is w))"

definition CEngineImpl_Start :: "bool \<Rightarrow> (nat \<Rightarrow> bool) \<Rightarrow> NetWorld \<Rightarrow> (NetWorld \<times> ErrorCode) option" where
  "CEngineImpl_Start spawned io_spawned w =
     (case IDispatcher_Start spawned (m_EventDispatcher w) (w_tls w) of
        None \<Rightarrow> None
      | Some (d, e, iErrorNo) \<Rightarrow>
          let w = w\<lparr>m_EventDispatcher := d, w_tls := e\<rparr> in
          if iErrorNo \<noteq> kSuccess then Some (net_error kInvalidCall w, iErrorNo)
          else start_io_dispatchers io_spawned [0..<length (m_vecIODispatchers w)] w)"

text \<open>\<open>Stop\<close> clears the queues, which calls the callbacks of the tasks with \<open>false\<close>.\<close>

fun run_callbacks :: "CallbackFunc list \<Rightarrow> NetWorld \<Rightarrow> NetWorld option" where
  "run_callbacks [] w = Some w"
| "run_callbacks (cb # cbs) w = Option.bind (run_callback False cb w) (run_callbacks cbs)"

fun stop_io_dispatchers :: "nat list \<Rightarrow> NetWorld \<Rightarrow> NetWorld option" where
  "stop_io_dispatchers [] w = Some w"
| "stop_io_dispatchers (i # is) w =
     (case m_vecIODispatchers w ! i of
        None \<Rightarrow> None
      | Some d \<Rightarrow>
          (case IDispatcher_Stop d of (d, cbs) \<Rightarrow>
             Option.bind (run_callbacks cbs (w\<lparr>m_vecIODispatchers := (m_vecIODispatchers w)[i := Some d]\<rparr>))
               (stop_io_dispatchers is)))"

definition CEngineImpl_Stop :: "NetWorld \<Rightarrow> NetWorld option" where
  "CEngineImpl_Stop w =
     (case IDispatcher_Stop (m_EventDispatcher w) of (d, cbs) \<Rightarrow>
        Option.bind (run_callbacks cbs (w\<lparr>m_EventDispatcher := d\<rparr>))
          (\<lambda>w. stop_io_dispatchers [0..<length (m_vecIODispatchers w)] w))"

text \<open>
  \<open>Exit\<close>: \<open>as\<close> and \<open>cs\<close> are the identifiers in the order in which the hash maps destroy their objects.
\<close>

fun delete_all :: "(uint64_t \<Rightarrow> NetWorld \<Rightarrow> NetWorld option) \<Rightarrow> uint64_t list \<Rightarrow> NetWorld \<Rightarrow> NetWorld option" where
  "delete_all del [] w = Some w"
| "delete_all del (p # ps) w = Option.bind (del p w) (delete_all del ps)"

definition CEngineImpl_Exit :: "uint64_t list \<Rightarrow> uint64_t list \<Rightarrow> NetWorld \<Rightarrow> NetWorld option" where
  "CEngineImpl_Exit as cs w =
     (let w = w\<lparr>m_vecIODispatchers := []\<rparr> in
      Option.bind (delete_all CAcceptorImpl_delete (map (\<lambda>i. the (m_umapAcceptor w i)) as) w) (\<lambda>w.
        Option.bind (delete_all CConnectionImpl_delete (map (\<lambda>i. the (m_umapConnection w i)) cs)
            (w\<lparr>m_umapAcceptor := Map.empty\<rparr>)) (\<lambda>w.
          Some (w\<lparr>m_umapConnection := Map.empty, w_logger := nullptr, m_strEngineName := ''''\<rparr>))))"

section \<open>Acceptors and connections\<close>

text \<open>
  The objects of the engine are made by \<open>IAllocatorEx::New\<close>, whose answer is \<open>ans\<close>. After the object
  has been moved into the map, the arguments of \<open>LOG_EVENT\<close> go through the moved-from pointer, which is
  null: undefined behaviour whenever the entry is logged, which is whenever there is a logger.
\<close>

definition sizeof_CAcceptorImpl :: uint64_t where "sizeof_CAcceptorImpl = 200"

record create_env =
  cr_new :: pointer
  cr_assigned :: nat
  cr_fd :: int
  cr_ok :: bool
  cr_rcv_ok :: bool
  cr_buffers :: buffer_env
  cr_insert_throws :: bool

definition CEngineImpl_CreateAcceptor ::
  "create_env \<Rightarrow> NetworkConfig option \<Rightarrow> nat option \<Rightarrow> NetWorld \<Rightarrow> (NetWorld \<times> ErrorCode) option" where
  "CEngineImpl_CreateAcceptor env pConfig pCallback w =
     (if pConfig = None \<or> pCallback = None then Some (net_error kInvalidParam w, kInvalidParam)
      else (case IAllocatorEx_New (cr_new env) sizeof_CAcceptorImpl
             (Some (CAcceptorImpl_ctor (m_uNextAcceptorID w) pCallback)) (w_heap w) of
          (None, h) \<Rightarrow> Some (net_error kOutOfMemory (w\<lparr>w_heap := h\<rparr>), kOutOfMemory)
        | (Some (p, a), h) \<Rightarrow>
            (case CAcceptorImpl_Init pConfig (cr_assigned env) (cr_fd env) (cr_ok env) a (w\<lparr>w_heap := h\<rparr>) of
               (a, w, r) \<Rightarrow>
                 let w = w\<lparr>w_accs := (w_accs w)(p \<mapsto> a)\<rparr> in
                 if r \<noteq> kSuccess then
                   map_option (\<lambda>w. (w, kOutOfMemory)) (CAcceptorImpl_delete p (net_error kOutOfMemory w))
                 else if cr_insert_throws env then
                   map_option (\<lambda>w. (net_error kThrowException w, kThrowException)) (CAcceptorImpl_delete p w)
                 else
                   let w = w\<lparr>m_umapAcceptor := (m_umapAcceptor w)(m_uNextAcceptorID w \<mapsto> p)\<rparr> in
                   if snd (LOG_EVENT (w_logger w) kEvent (w_tls w)) then None
                   else Some (w\<lparr>m_uNextAcceptorID := m_uNextAcceptorID w + 1\<rparr>, kSuccess))))"

definition CEngineImpl_DestroyAcceptor :: "pointer \<Rightarrow> NetWorld \<Rightarrow> NetWorld option" where
  "CEngineImpl_DestroyAcceptor pAcceptor w =
     (case pAcceptor of
        None \<Rightarrow> Some (net_error kInvalidParam w)
      | Some p \<Rightarrow>
          (case w_accs w p of
             None \<Rightarrow> None
           | Some a \<Rightarrow>
               (case m_umapAcceptor w (acc_uID a) of
                  None \<Rightarrow> Some (net_error kInvalidParam w)
                | Some q \<Rightarrow> map_option (\<lambda>w. w\<lparr>m_umapAcceptor := (m_umapAcceptor w)(acc_uID a := None)\<rparr>)
                    (CAcceptorImpl_delete q w))))"

definition CEngineImpl_CreateConnection ::
  "create_env \<Rightarrow> NetworkConfig option \<Rightarrow> nat option \<Rightarrow> NetWorld \<Rightarrow> (NetWorld \<times> ErrorCode) option" where
  "CEngineImpl_CreateConnection env pConfig pCallback w =
     (if pConfig = None \<or> pCallback = None then Some (net_error kInvalidParam w, kInvalidParam)
      else (case IAllocatorEx_New (cr_new env) sizeof_CConnectionImpl
             (Some (CConnectionImpl_ctor (m_uNextConnectionID w) pCallback)) (w_heap w) of
          (None, h) \<Rightarrow> Some (net_error kOutOfMemory (w\<lparr>w_heap := h\<rparr>), kOutOfMemory)
        | (Some (p, c), h) \<Rightarrow>
            (case CConnectionImpl_Init pConfig (cr_assigned env) (cr_buffers env) (cr_fd env) (cr_ok env)
               (cr_rcv_ok env) c (w\<lparr>w_heap := h\<rparr>) of
               (c, w, r) \<Rightarrow>
                 let w = w\<lparr>w_conns := (w_conns w)(p \<mapsto> c)\<rparr> in
                 if r \<noteq> kSuccess then
                   map_option (\<lambda>w. (w, kOutOfMemory)) (CConnectionImpl_delete p (net_error kOutOfMemory w))
                 else if cr_insert_throws env then
                   map_option (\<lambda>w. (net_error kThrowException w, kThrowException)) (CConnectionImpl_delete p w)
                 else
                   let w = w\<lparr>m_umapConnection := (m_umapConnection w)(m_uNextConnectionID w \<mapsto> p)\<rparr> in
                   if snd (LOG_EVENT (w_logger w) kEvent (w_tls w)) then None
                   else Some (w\<lparr>m_uNextConnectionID := m_uNextConnectionID w + 1\<rparr>, kSuccess))))"

definition CEngineImpl_DestroyConnection :: "pointer \<Rightarrow> NetWorld \<Rightarrow> NetWorld option" where
  "CEngineImpl_DestroyConnection pConnection w =
     (case pConnection of
        None \<Rightarrow> Some (net_error kInvalidParam w)
      | Some p \<Rightarrow>
          (case w_conns w p of
             None \<Rightarrow> None
           | Some c \<Rightarrow>
               (case m_umapConnection w (m_uID c) of
                  None \<Rightarrow> Some (net_error kInvalidParam w)
                | Some q \<Rightarrow> map_option (\<lambda>w. w\<lparr>m_umapConnection := (m_umapConnection w)(m_uID c := None)\<rparr>)
                    (CConnectionImpl_delete q w))))"

definition CEngineImpl_GetName :: "NetWorld \<Rightarrow> string" where
  "CEngineImpl_GetName w = m_strEngineName w"

text \<open>
  \<open>GetStats\<close> asks every acceptor and every connection of the engine, in the order \<open>as\<close> and \<open>cs\<close> in which
  the two maps are run through; what those add to the statistics is declared and not defined in the
  repository.
\<close>

definition CEngineImpl_GetStats ::
  "(uint64_t \<Rightarrow> 'j \<Rightarrow> 'j) \<Rightarrow> (uint64_t \<Rightarrow> 'j \<Rightarrow> 'j) \<Rightarrow> uint64_t list \<Rightarrow> uint64_t list \<Rightarrow> 'j option \<Rightarrow> NetWorld \<Rightarrow>
     'j option \<times> NetWorld \<times> ErrorCode" where
  "CEngineImpl_GetStats acceptor_stats connection_stats as cs pStats w =
     (case pStats of
        None \<Rightarrow> (nullptr, net_error kInvalidParam w, kInvalidParam)
      | Some j \<Rightarrow>
          let j = fold (\<lambda>i. acceptor_stats (the (m_umapAcceptor w i))) as j;
              j = fold (\<lambda>i. connection_stats (the (m_umapConnection w i))) cs j
          in (Some j, w, kSuccess))"

end
