(* ===== verification/NetInv.thy ===== *)
theory NetInv
  imports NetCore Engine
begin

text \<open>
  The operations of the network library refine the abstract machine of NetCore, in every order in
  which the client, the event dispatcher and the IO dispatchers may call them. From the invariants of
  the machine follow the properties of the library.
\<close>

section \<open>The abstraction\<close>

definition conn_key :: "CConnectionImpl \<Rightarrow> int \<times> uint64_t \<times> uint32_t" where
  "conn_key c = (m_iFd c, m_uID c, m_uIOThreadIndex c)"

definition acc_key :: "CAcceptorImpl \<Rightarrow> int \<times> uint64_t" where
  "acc_key a = (acc_iFd a, acc_uID a)"

definition core :: "NetWorld \<Rightarrow> net_core" where
  "core w = \<lparr>k_conns = map_option conn_key \<circ> w_conns w, k_accs = map_option acc_key \<circ> w_accs w,
     k_opened = w_opened w, k_regs = regs w, k_umapC = m_umapConnection w, k_nextC = m_uNextConnectionID w,
     k_umapA = m_umapAcceptor w, k_nextA = m_uNextAcceptorID w\<rparr>"

lemma core_simps [simp]:
  "k_conns (core w) p = map_option conn_key (w_conns w p)" "k_accs (core w) p = map_option acc_key (w_accs w p)"
  "k_opened (core w) = w_opened w" "k_regs (core w) = regs w" "k_umapC (core w) = m_umapConnection w"
  "k_nextC (core w) = m_uNextConnectionID w" "k_umapA (core w) = m_umapAcceptor w"
  "k_nextA (core w) = m_uNextAcceptorID w"
  by (simp_all add: core_def)

text \<open>What the abstraction does not see.\<close>

lemma core_same [simp]:
  "core (w\<lparr>w_tls := e\<rparr>) = core w" "core (w\<lparr>w_heap := h\<rparr>) = core w" "core (w\<lparr>w_calls := cs\<rparr>) = core w"
  "core (w\<lparr>w_logger := l\<rparr>) = core w" "core (w\<lparr>m_strEngineName := nm\<rparr>) = core w"
  "core (w\<lparr>m_setAcceptor := sa\<rparr>) = core w" "core (w\<lparr>m_setConnection := sc\<rparr>) = core w"
  "core (w\<lparr>m_uNextIODispatcherIndex := n\<rparr>) = core w" "core (w\<lparr>m_vecIODispatchers := ds\<rparr>) = core w"
  "m_EpollImpl d = m_EpollImpl (m_EventDispatcher w) \<Longrightarrow> core (w\<lparr>m_EventDispatcher := d\<rparr>) = core w"
  by (simp_all add: core_def)

lemma core_net_error [simp]: "core (net_error c w) = core w"
  by (simp add: net_ops)

lemma core_client_call [simp]: "core (client_call ev w) = core w"
  by (simp add: client_call_def)

lemma core_deliver [simp]: "core (deliver_calls p ms w) = core w"
  by (simp add: deliver_calls_def)

lemma core_upd_conn [simp]:
  "w_conns w p = Some c \<Longrightarrow> conn_key c' = conn_key c \<Longrightarrow> core (w\<lparr>w_conns := (w_conns w)(p \<mapsto> c')\<rparr>) = core w"
  by (auto simp: core_def fun_eq_iff)

lemma core_sys_close: "core (sys_close fd w) = k_close fd (core w)"
  by (simp add: core_def sys_close_def k_close_def)

section \<open>Operations that leave the objects alone\<close>

lemma post_event_core: "post_event f tk w = (w', r) \<Longrightarrow> core w' = core w \<and> w_conns w' = w_conns w"
  by (auto simp: net_post_defs split: if_splits)

lemma posted_io_core: "posted p (post_io f i tk w) = Some (w', r) \<Longrightarrow> core w' = core w"
  by (auto simp: net_post_defs split: if_splits option.splits)

lemma AttachConnection_core: "AttachConnection f p w = Some (w', r) \<Longrightarrow> core w' = core w"
  by (auto simp: AttachConnection_def Let_def dest!: posted_io_core split: option.splits if_splits)

lemma DetachConnection_core: "DetachConnection f p w = Some (w', r) \<Longrightarrow> core w' = core w"
  by (auto simp: DetachConnection_def dest!: posted_io_core split: option.splits)

lemma DetachConnection2_core: "DetachConnection2 f p cb w = Some (w', r) \<Longrightarrow> core w' = core w"
  by (auto simp: DetachConnection2_def dest!: posted_io_core split: option.splits)

lemma DoDisconnect_core: "ProcessDoDisconnect f tk w = Some (w', r) \<Longrightarrow> core w' = core w"
  by (auto simp: ProcessDoDisconnect_def dest!: DetachConnection2_core split: option.splits if_splits)

lemma Close_core: "CConnectionImpl_Close f p w = Some w' \<Longrightarrow> core w' = core w"
  by (auto simp: CConnectionImpl_Close_def DoTask_disconnect_def Let_def
      dest!: DoDisconnect_core post_event_core split: option.splits if_splits prod.splits)

lemma OnConnected_core: "CConnectionImpl_OnConnected a p w = Some (w', r) \<Longrightarrow> core w' = core w"
  by (auto simp: CConnectionImpl_OnConnected_def split: option.splits if_splits)

lemma OnError_core: "CConnectionImpl_OnError p w = Some w' \<Longrightarrow> core w' = core w"
  by (auto simp: CConnectionImpl_OnError_def split: option.splits if_splits)

lemma Connect_core: "CConnectionImpl_Connect env ip port p w = Some (w', r) \<Longrightarrow> core w' = core w"
  by (auto simp: CConnectionImpl_Connect_def conn_key_def Let_def dest!: Close_core post_event_core
      split: option.splits if_splits prod.splits)

lemma Send_core: "CConnectionImpl_Send m prio p w = Some (w', r) \<Longrightarrow> core w' = core w"
  by (auto simp: CConnectionImpl_Send_def conn_key_def split: option.splits if_splits)

lemma Send_data_core: "CConnectionImpl_Send_data d n prio p w = Some (w', r) \<Longrightarrow> core w' = core w"
  by (auto simp: CConnectionImpl_Send_data_def CConnectionImpl_NewMessage_def split: option.splits if_splits)

lemma Recv_core: "CConnectionImpl_Recv len sock f n stream p w = Some (w', rest, r) \<Longrightarrow> core w' = core w"
  by (auto simp: CConnectionImpl_Recv_def conn_key_def Let_def dest!: Close_core OnError_core
      split: option.splits if_splits prod.splits recv_out.splits bind_splits)

section \<open>Operations that change the objects\<close>

lemma core_eqI:
  "k_conns s = k_conns t \<Longrightarrow> k_accs s = k_accs t \<Longrightarrow> k_opened s = k_opened t \<Longrightarrow> k_regs s = k_regs t \<Longrightarrow>
     k_umapC s = k_umapC t \<Longrightarrow> k_nextC s = k_nextC t \<Longrightarrow> k_umapA s = k_umapA t \<Longrightarrow> k_nextA s = k_nextA t \<Longrightarrow>
     s = (t :: net_core)"
  by simp

lemma core_conns: "k_conns (core w) = map_option conn_key \<circ> w_conns w"
  by (simp add: core_def)

lemma core_accs: "k_accs (core w) = map_option acc_key \<circ> w_accs w"
  by (simp add: core_def)

lemma delete_core:
  assumes "CConnectionImpl_delete p w = Some w'"
  obtains c where "w_conns w p = Some c"
    "core w' = k_close_own (m_iFd c) (core w\<lparr>k_conns := (k_conns (core w))(p := None)\<rparr>)"
    "m_umapConnection w' = m_umapConnection w"
proof -
  obtain c where c: "w_conns w p = Some c"
    using assms by (auto simp: CConnectionImpl_delete_def split: option.splits)
  with assms have "core w' = k_close_own (m_iFd c) (core w\<lparr>k_conns := (k_conns (core w))(p := None)\<rparr>)"
    "m_umapConnection w' = m_umapConnection w"
    by (auto simp: CConnectionImpl_delete_def core_def sys_close_def k_close_own_def k_close_def Let_def fun_eq_iff)
  with c show thesis
    using that by blast
qed

lemma acceptor_delete_core:
  assumes "CAcceptorImpl_delete p w = Some w'"
  obtains a where "w_accs w p = Some a"
    "core w' = k_close_own (acc_iFd a) (core w\<lparr>k_accs := (k_accs (core w))(p := None)\<rparr>)"
    "m_umapAcceptor w' = m_umapAcceptor w"
proof -
  obtain a where a: "w_accs w p = Some a"
    using assms by (auto simp: CAcceptorImpl_delete_def split: option.splits)
  with assms have "core w' = k_close_own (acc_iFd a) (core w\<lparr>k_accs := (k_accs (core w))(p := None)\<rparr>)"
    "m_umapAcceptor w' = m_umapAcceptor w"
    by (auto simp: CAcceptorImpl_delete_def core_def sys_close_def k_close_own_def k_close_def Let_def fun_eq_iff)
  with a show thesis
    using that by blast
qed

text \<open>A connection with the identifier 0 may be deleted.\<close>

lemma delete_dropped:
  assumes "CConnectionImpl_delete p w = Some w'" "\<And>c. w_conns w p = Some c \<Longrightarrow> m_uID c = 0"
  shows "core_step (core w) (core w')"
proof -
  obtain c where c: "w_conns w p = Some c"
    "core w' = k_close_own (m_iFd c) (core w\<lparr>k_conns := (k_conns (core w))(p := None)\<rparr>)"
    by (rule delete_core [OF assms(1)])
  with assms(2) show ?thesis
    by (metis (mono_tags) dropped conn_key_def core_simps(1) option.map(2))
qed

lemma OnDisconnected_core:
  assumes "CConnectionImpl_OnDisconnected p w = Some w'"
  shows "core_step (core w) (core w')"
proof -
  obtain c where c: "w_conns w p = Some c"
    using assms by (auto simp: CConnectionImpl_OnDisconnected_def split: option.splits)
  have "core w' = k_close_own (m_iFd c) (core w\<lparr>k_conns := (k_conns (core w))(p \<mapsto> (-1, m_uID c, m_uIOThreadIndex c))\<rparr>)"
    using assms c
    by (auto simp: CConnectionImpl_OnDisconnected_def k_close_own_def k_close_def sys_close_def Let_def
        core_def client_call_def conn_key_def fun_eq_iff split: if_splits)
  with c show ?thesis
    by (metis (mono_tags) disconnected conn_key_def core_simps(1) option.map(2))
qed

lemma Add_core:
  assumes "event_epoll (Epoll_Add acc os fd p ev) w = (w', r)"
  shows "core w' = core w \<or> (fd \<in> os \<and> core w' = (core w)\<lparr>k_regs := (k_regs (core w))(fd \<mapsto> (p, ev))\<rparr>)"
  using assms by (auto simp: event_epoll_def Epoll_Add_def core_def split: prod.splits if_splits)

lemma Del_core:
  assumes "event_epoll (Epoll_Del acc fd) w = (w', r)"
  shows "core w' = core w \<or> core w' = (core w)\<lparr>k_regs := (k_regs (core w))(fd := None)\<rparr>"
  using assms by (auto simp: event_epoll_def Epoll_Del_def core_def split: prod.splits if_splits)

abbreviation core_steps :: "net_core \<Rightarrow> net_core \<Rightarrow> bool" where
  "core_steps \<equiv> core_step\<^sup>*\<^sup>*"

lemma Del_steps: "event_epoll (Epoll_Del acc fd) w = (w', r) \<Longrightarrow> core_steps (core w) (core w')"
  by (metis Del_core unregistered r_into_rtranclp rtranclp.rtrancl_refl)

lemma AddConnection_core:
  assumes "ProcessAddConnection f tk w = Some (w', r)"
  shows "core_steps (core w) (core w')"
proof -
  obtain c where c: "w_conns w (pCtx tk) = Some c"
    using assms by (auto simp: ProcessAddConnection_def Let_def split: option.splits)
  have "core w' = core w \<or> (m_iFd c \<in> k_opened (core w) \<and>
      core w' = (core w)\<lparr>k_regs := (k_regs (core w))(m_iFd c \<mapsto> (pCtx tk, EPOLLIN))\<rparr>)"
    using assms c
    by (auto simp: ProcessAddConnection_def Let_def dest!: Add_core split: if_splits prod.splits)
  with c show ?thesis
    by (metis (mono_tags) registeredC conn_key_def core_simps(1) option.map(2) r_into_rtranclp rtranclp.rtrancl_refl)
qed

lemma AddAcceptor_core:
  assumes "ProcessAddAcceptor f tk w = Some (w', r)"
  shows "core_steps (core w) (core w')"
proof -
  obtain a where a: "w_accs w (pCtx tk) = Some a"
    using assms by (auto simp: ProcessAddAcceptor_def Let_def split: option.splits)
  have "core w' = core w \<or> (acc_iFd a \<in> k_opened (core w) \<and>
      core w' = (core w)\<lparr>k_regs := (k_regs (core w))(acc_iFd a \<mapsto> (pCtx tk, EPOLLIN))\<rparr>)"
    using assms a
    by (auto simp: ProcessAddAcceptor_def Let_def dest!: Add_core split: if_splits prod.splits)
  with a show ?thesis
    by (metis (mono_tags) registeredA acc_key_def core_simps(2) option.map(2) r_into_rtranclp rtranclp.rtrancl_refl)
qed

lemma RemoveConnection_core: "ProcessRemoveConnection f tk w = Some (w', r) \<Longrightarrow> core_steps (core w) (core w')"
  by (auto simp: ProcessRemoveConnection_def Let_def dest!: Del_steps split: option.splits if_splits prod.splits)

lemma RemoveAcceptor_core: "ProcessRemoveAcceptor f tk w = Some (w', r) \<Longrightarrow> core_steps (core w) (core w')"
  by (auto simp: ProcessRemoveAcceptor_def Let_def dest!: Del_steps split: option.splits if_splits prod.splits)

lemma Connected_core: "ProcessConnected a f tk w = Some (w', r) \<Longrightarrow> core w' = core w"
  by (auto simp: ProcessConnected_def Let_def dest!: OnConnected_core AttachConnection_core Close_core
      split: option.splits if_splits)

lemma Disconnected_core: "ProcessDisconnected tk w = Some (w', r) \<Longrightarrow> core_steps (core w) (core w')"
  by (auto simp: ProcessDisconnected_def dest!: OnDisconnected_core)

lemma run_callback_core: "run_callback b cb w = Some w' \<Longrightarrow> core_steps (core w) (core w')"
  by (auto simp: run_callback_def CEventDispatcher_DetachCallback_def dest!: Disconnected_core
      split: CallbackFunc.splits detach_func.splits if_splits)

lemma switch_core: "ProcessTask_switch a f tk w = Some (w', r) \<Longrightarrow> core_steps (core w) (core w')"
  by (auto simp: ProcessTask_switch_def
      dest: AddAcceptor_core RemoveAcceptor_core AddConnection_core RemoveConnection_core DoDisconnect_core
        Connected_core Disconnected_core
      split: NetTaskType.splits)

lemma ProcessTask_core: "CEventDispatcher_ProcessTask a f tk w = Some (w', r) \<Longrightarrow> core_steps (core w) (core w')"
  by (auto simp: CEventDispatcher_ProcessTask_def dest!: switch_core run_callback_core split: option.splits)

lemma DoTask_core: "CEventDispatcher_DoTask a f tk w = Some (w', r) \<Longrightarrow> core_steps (core w) (core w')"
  by (auto simp: CEventDispatcher_DoTask_def dest!: ProcessTask_core)

lemma acceptor_Start_core: "CAcceptorImpl_Start f p w = Some (w', r) \<Longrightarrow> core_steps (core w) (core w')"
  by (auto simp: CAcceptorImpl_Start_def acceptor_task_def dest!: DoTask_core split: option.splits if_splits)

lemma acceptor_Stop_core: "CAcceptorImpl_Stop f p w = Some w' \<Longrightarrow> core_steps (core w) (core w')"
  by (auto simp: CAcceptorImpl_Stop_def acceptor_task_def dest!: DoTask_core split: option.splits if_splits)

section \<open>Accepting\<close>

text \<open>What the kernel and the allocator promise: descriptors that are not open, addresses not in use.\<close>

definition accept_fresh :: "accept_env \<Rightarrow> NetWorld \<Rightarrow> bool" where
  "accept_fresh env w \<longleftrightarrow>
     (case ae_accept env of AcceptFd fd ip port \<Rightarrow> fd \<noteq> -1 \<and> fd \<notin> w_opened w | _ \<Rightarrow> True) \<and>
     (case ae_new env of None \<Rightarrow> True | Some p \<Rightarrow> w_conns w p = None)"

lemma reject_core:
  assumes "accept_reject code p w = Some (w', r)" "\<And>c. w_conns w p = Some c \<Longrightarrow> m_uID c = 0"
  shows "core_steps (core w) (core w')"
  using assms delete_dropped [of p "net_error code w"]
  by (auto simp: accept_reject_def net_ops)

lemma Accept_core:
  assumes "CAcceptorImpl_Accept env pa w = Some (w', r)" "accept_fresh env w"
  shows "core_steps (core w) (core w') \<and> (\<forall>p c. r = Some p \<longrightarrow> w_conns w' p = Some c \<longrightarrow> m_uID c = 0)"
proof -
  obtain a where a: "w_accs w pa = Some a"
    using assms(1) by (auto simp: CAcceptorImpl_Accept_def split: option.splits)
  show ?thesis
  proof (cases "acc_iFd a \<noteq> -1 \<and> (\<exists>fd ip port. ae_accept env = AcceptFd fd ip port)")
    case False
    with assms(1) a show ?thesis
      by (auto simp: CAcceptorImpl_Accept_def split: accept_ans.splits if_splits)
  next
    case True
    then obtain fd ip port where fd: "ae_accept env = AcceptFd fd ip port" by blast
    let ?w1 = "w\<lparr>w_opened := insert fd (w_opened w)\<rparr>"
    have new: "fd \<noteq> -1" "fd \<notin> w_opened w" "\<And>p. ae_new env = Some p \<Longrightarrow> w_conns w p = None"
      using assms(2) fd by (auto simp: accept_fresh_def)
    have s1: "core_step (core w) (core ?w1)"
      using opened [of fd "core w"] new by (simp add: core_def)
    show ?thesis
    proof (cases "ae_new env")
      case None
      with assms(1) a fd True have "core w' = core ?w1" "r = None"
        by (auto simp: CAcceptorImpl_Accept_def IAllocatorEx_New_def CAllocatorImpl_Malloc_def)
      with s1 show ?thesis
        by auto
    next
      case (Some p)
      let ?c = "accepted_connection a fd ip port (ae_now env) CConnectionImpl_default"
      let ?w2 = "?w1\<lparr>w_heap := (w_heap w)(p \<mapsto> sizeof_CConnectionImpl), w_conns := (w_conns w)(p \<mapsto> ?c)\<rparr>"
      have "core ?w2 = (core ?w1)\<lparr>k_conns := (k_conns (core ?w1))(p \<mapsto> (fd, 0, 0))\<rparr>"
        by (auto simp: core_def conn_key_def accepted_connection_def CConnectionImpl_default_def fun_eq_iff)
      with new Some have "core_step (core ?w1) (core ?w2)"
        using accepted [of "core ?w1" p fd] by simp
      with s1 have s2: "core_steps (core w) (core ?w2)"
        by auto
      obtain c w3 r' where ib: "CConnectionImpl_InitBuffer (ae_buffers env) ?c ?w2 = (c, w3, r')"
        by (metis prod_cases3)
      note frame = InitBuffer_frame [OF ib]
      let ?w3 = "w3\<lparr>w_conns := (w_conns w3)(p \<mapsto> c)\<rparr>"
      have id: "m_uID c = 0" "m_uID ?c = 0"
        using frame(2) by (simp_all add: accepted_connection_def CConnectionImpl_default_def)
      have "core ?w3 = core ?w2"
        using frame by (auto simp: core_def conn_key_def fun_eq_iff)
      with s2 have s3: "core_steps (core w) (core ?w3)"
        by simp
      have "accept_reject kThrowException p ?w2 = Some (w', r) \<or> accept_reject kSystemError p ?w3 = Some (w', r) \<or>
          accept_reject kSystemError p (client_call (OnAccept p) ?w3) = Some (w', r) \<or>
          (w' = client_call (OnAccept p) ?w3 \<and> r = Some p)"
        using assms(1) a fd True Some ib
        by (simp add: CAcceptorImpl_Accept_def IAllocatorEx_New_def CAllocatorImpl_Malloc_def Let_def
            split: if_splits)
      moreover have "core_steps (core ?w2) (core w')" if "accept_reject kThrowException p ?w2 = Some (w', r)"
        using reject_core [OF that] id by simp
      moreover have "core_steps (core ?w3) (core w')" if "accept_reject kSystemError p ?w3 = Some (w', r)"
        using reject_core [OF that] id by simp
      moreover have "core_steps (core ?w3) (core w')"
        if "accept_reject kSystemError p (client_call (OnAccept p) ?w3) = Some (w', r)"
        using reject_core [OF that] id by (simp add: client_call_def)
      moreover have "r = None" if "accept_reject code p w4 = Some (w', r)" for code w4
        using that by (auto simp: accept_reject_def)
      ultimately show ?thesis
        using s2 s3 id by (elim disjE) (auto intro: rtranclp_trans simp: client_call_def)
    qed
  qed
qed

text \<open>Every iteration of the accept loop gets descriptors and addresses that are free at that time.\<close>

fun pending_fresh :: "(accept_env \<times> faults) list \<Rightarrow> uint64_t \<Rightarrow> NetWorld \<Rightarrow> bool" where
  "pending_fresh [] pa w \<longleftrightarrow> True"
| "pending_fresh ((env, f) # pending) pa w \<longleftrightarrow> accept_fresh env w \<and>
     (\<forall>w'. accept_round env f pa w = Some (w', True) \<longrightarrow> pending_fresh pending pa w')"

text \<open>A task that adds a connection leaves the identifiers of the connections alone.\<close>

lemma DoTask_add_conns:
  assumes "CEventDispatcher_DoTask a f \<lparr>eNetTaskType = kAddConnection, funcCallback = nullptr, pCtx = p\<rparr> w = Some (w', r)"
  shows "w_conns w' = w_conns w"
  using assms
  by (auto simp: CEventDispatcher_DoTask_def CEventDispatcher_ProcessTask_def ProcessTask_switch_def
      ProcessAddConnection_def event_epoll_def Epoll_Add_def net_ops Let_def split: option.splits if_splits prod.splits)

lemma accept_round_core:
  assumes "accept_round env f pa w = Some (w', go_on)" "accept_fresh env w"
  shows "core_steps (core w) (core w')"
proof -
  obtain w1 r where w1: "CAcceptorImpl_Accept env pa w = Some (w1, r)"
    using assms(1) by (auto simp: accept_round_def split: option.splits)
  note acc = Accept_core [OF w1 assms(2)]
  show ?thesis
  proof (cases r)
    case None
    with assms(1) w1 acc show ?thesis
      by (auto simp: accept_round_def)
  next
    case (Some p)
    obtain w2 r2 where w2: "CEventDispatcher_DoTask kSuccess f
        \<lparr>eNetTaskType = kAddConnection, funcCallback = nullptr, pCtx = p\<rparr> w1 = Some (w2, r2)"
      using assms(1) w1 Some by (auto simp: accept_round_def split: option.splits)
    have s: "core_steps (core w) (core w2)"
      using acc DoTask_core [OF w2] by (meson rtranclp_trans)
    have id: "m_uID c = 0" if "w_conns w2 p = Some c" for c
      using that acc Some DoTask_add_conns [OF w2] by auto
    have "w' = w2 \<or> CConnectionImpl_delete p (net_error kSystemError w2) = Some w'"
      using assms(1) w1 w2 Some by (auto simp: accept_round_def split: if_splits)
    with s id show ?thesis
      using delete_dropped [of p "net_error kSystemError w2" w'] by (auto simp: net_ops)
  qed
qed

lemma accept_loop_core:
  "accept_loop pending pa w = Some w' \<Longrightarrow> pending_fresh pending pa w \<Longrightarrow> core_steps (core w) (core w')"
proof (induction pending arbitrary: w)
  case Nil
  then obtain g where "accept_round accept_again no_faults pa w = Some (w', g)"
    by auto
  then show ?case
    by (rule accept_round_core) (simp add: accept_fresh_def accept_again_def)
next
  case (Cons x pending)
  obtain env f where x: "x = (env, f)" by fastforce
  obtain w1 g where w1: "accept_round env f pa w = Some (w1, g)"
    using Cons.prems(1) x by (auto split: option.splits)
  have "core_steps (core w) (core w1)"
    using accept_round_core [OF w1] Cons.prems(2) x by simp
  moreover have "core_steps (core w1) (core w')"
    using Cons.IH [of w1] Cons.prems w1 x by (cases g) auto
  ultimately show ?case
    by (rule rtranclp_trans)
qed

section \<open>Events\<close>

definition event_fresh :: "event_env \<Rightarrow> uint64_t \<times> uint32_t \<Rightarrow> NetWorld \<Rightarrow> bool" where
  "event_fresh env ev w \<longleftrightarrow> pending_fresh (ee_pending env) (fst ev) w"

lemma ProcessConnectionEvent_core:
  "ProcessConnectionEvent env p evs w = Some w' \<Longrightarrow> core w' = core w"
  by (auto simp: ProcessConnectionEvent_def Let_def dest!: Close_core OnConnected_core
      split: option.splits if_splits)

lemma fst_event_epoll: "core_steps (core w) (core (fst (event_epoll (Epoll_Del acc fd) w)))"
  by (cases "event_epoll (Epoll_Del acc fd) w") (auto dest: Del_steps)

lemma ProcessEvent_core:
  assumes "CEventDispatcher_ProcessEvent env ev w = Some w'" "event_fresh env ev w"
  shows "core_steps (core w) (core w')"
proof -
  obtain p evs where ev: "ev = (p, evs)" by fastforce
  consider (acc) "p \<in> m_setAcceptor w" | (conn) "p \<notin> m_setAcceptor w" "p \<in> m_setConnection w"
    | (unknown) "p \<notin> m_setAcceptor w" "p \<notin> m_setConnection w" by blast
  then show ?thesis
  proof cases
    case acc
    with assms ev show ?thesis
      by (auto simp: CEventDispatcher_ProcessEvent_def ProcessAcceptorEvent_def event_fresh_def Let_def
          dest: accept_loop_core split: if_splits)
  next
    case conn
    with assms(1) ev show ?thesis
      by (auto simp: CEventDispatcher_ProcessEvent_def Let_def fst_event_epoll dest!: ProcessConnectionEvent_core)
        (metis fst_event_epoll)
  next
    case unknown
    with assms(1) ev fst_event_epoll [of "net_error kInvalidState w"] show ?thesis
      by (auto simp: CEventDispatcher_ProcessEvent_def Let_def)
  qed
qed

section \<open>Creating and destroying\<close>

definition create_fresh :: "create_env \<Rightarrow> NetWorld \<Rightarrow> bool" where
  "create_fresh env w \<longleftrightarrow> cr_fd env \<notin> w_opened w \<and>
     (case cr_new env of None \<Rightarrow> True | Some p \<Rightarrow> w_conns w p = None \<and> w_accs w p = None)"

lemma apply_settings_key:
  assumes "\<And>f c. f \<in> set fs \<Longrightarrow> key (f c) = key c"
  shows "key (apply_settings n fs c) = key c"
proof -
  have "(\<And>f. f \<in> set gs \<Longrightarrow> f \<in> set fs) \<Longrightarrow> key (fold (\<lambda>f c. f c) gs c) = key c" for gs
    using assms by (induction gs arbitrary: c) simp_all
  then show ?thesis
    unfolding apply_settings_def by (meson in_set_takeD)
qed

lemma connection_settings_key: "conn_key (apply_settings n (connection_settings cfg) c) = conn_key c"
  by (rule apply_settings_key) (auto simp: connection_settings_def conn_key_def)

lemma acceptor_settings_key: "acc_key (apply_settings n (acceptor_settings cfg) a) = acc_key a"
  by (rule apply_settings_key) (auto simp: acceptor_settings_def acc_key_def)

text \<open>What \<open>Init\<close> of a new object does: it opens a descriptor, or none and the object has none.\<close>

definition opened_for :: "int \<Rightarrow> int \<Rightarrow> net_core \<Rightarrow> net_core \<Rightarrow> bool" where
  "opened_for fd own s t \<longleftrightarrow> (own = -1 \<and> t = s) \<or>
     (own = fd \<and> fd \<noteq> -1 \<and> t = s\<lparr>k_opened := insert fd (k_opened s)\<rparr>)"

lemma InitBuffer_core:
  assumes "CConnectionImpl_InitBuffer env c w = (c', w', r)"
  shows "core w' = core w" "conn_key c' = conn_key c"
  using InitBuffer_frame [OF assms] by (simp_all add: core_def conn_key_def)

lemma Connection_Init_core:
  assumes "CConnectionImpl_Init cfg assigned env fd ok1 ok2 c w = (c', w', r)" "m_iFd c = -1"
  shows "m_uID c' = m_uID c" "m_uIOThreadIndex c' = m_uIOThreadIndex c"
    "opened_for fd (m_iFd c') (core w) (core w')" "w_conns w' = w_conns w"
proof -
  have key: "m_iFd (apply_settings n (connection_settings g) c) = -1"
    "m_uID (apply_settings n (connection_settings g) c) = m_uID c"
    "m_uIOThreadIndex (apply_settings n (connection_settings g) c) = m_uIOThreadIndex c" for n g
    using connection_settings_key [of n g c] assms(2) by (simp_all add: conn_key_def)
  have "m_uID c' = m_uID c \<and> m_uIOThreadIndex c' = m_uIOThreadIndex c \<and>
      opened_for fd (m_iFd c') (core w) (core w') \<and> w_conns w' = w_conns w"
  proof (cases cfg)
    case None
    with assms show ?thesis
      by (auto simp: CConnectionImpl_Init_def opened_for_def net_ops)
  next
    case (Some g)
    show ?thesis
    proof (cases "assigned < length (connection_settings g)")
      case True
      with assms(1) Some key show ?thesis
        by (auto simp: CConnectionImpl_Init_def opened_for_def net_ops Let_def)
    next
      case False
      obtain c1 w1 r1 where ib: "CConnectionImpl_InitBuffer env (apply_settings assigned (connection_settings g) c) w = (c1, w1, r1)"
        by (metis prod_cases3)
      note frame = InitBuffer_frame(1-4,6) [OF ib] InitBuffer_core(1) [OF ib]
      have "core (w1\<lparr>w_opened := insert fd (w_opened w1)\<rparr>) = (core w1)\<lparr>k_opened := insert fd (k_opened (core w1))\<rparr>"
        by (simp add: core_def)
      with assms(1) Some False ib frame key show ?thesis
        by (auto simp: CConnectionImpl_Init_def opened_for_def net_ops Let_def split: if_splits)
    qed
  qed
  then show "m_uID c' = m_uID c" "m_uIOThreadIndex c' = m_uIOThreadIndex c"
    "opened_for fd (m_iFd c') (core w) (core w')" "w_conns w' = w_conns w"
    by blast+
qed

lemma Acceptor_Init_core:
  assumes "CAcceptorImpl_Init cfg assigned fd ok a w = (a', w', r)" "acc_iFd a = -1"
  shows "acc_uID a' = acc_uID a" "opened_for fd (acc_iFd a') (core w) (core w')" "w_accs w' = w_accs w"
proof -
  have key: "acc_iFd (apply_settings n (acceptor_settings g) a) = -1"
    "acc_uID (apply_settings n (acceptor_settings g) a) = acc_uID a" for n g
    using acceptor_settings_key [of n g a] assms(2) by (simp_all add: acc_key_def)
  have "core (w\<lparr>w_opened := insert fd (w_opened w)\<rparr>) = (core w)\<lparr>k_opened := insert fd (k_opened (core w))\<rparr>"
    by (simp add: core_def)
  with assms key show "acc_uID a' = acc_uID a" "opened_for fd (acc_iFd a') (core w) (core w')" "w_accs w' = w_accs w"
    by (auto simp: CAcceptorImpl_Init_def opened_for_def net_ops Let_def split: option.splits if_splits)
qed

lemma opened_for_steps:
  assumes "opened_for fd own s t" "fd \<notin> k_opened s"
  shows "core_steps s t" "core_steps s (k_close_own own t)"
proof -
  show st: "core_steps s t"
    using assms opened [of fd s] by (auto simp: opened_for_def)
  show "core_steps s (k_close_own own t)"
    using st closed by (meson rtranclp.rtrancl_into_rtrancl)
qed

lemma core_new_conn: "core (w\<lparr>w_conns := (w_conns w)(p \<mapsto> c)\<rparr>) = (core w)\<lparr>k_conns := (k_conns (core w))(p \<mapsto> conn_key c)\<rparr>"
  by (auto simp: core_def fun_eq_iff)

lemma core_new_acc: "core (w\<lparr>w_accs := (w_accs w)(p \<mapsto> a)\<rparr>) = (core w)\<lparr>k_accs := (k_accs (core w))(p \<mapsto> acc_key a)\<rparr>"
  by (auto simp: core_def fun_eq_iff)

text \<open>Deleting an object that was just put at a free address.\<close>

lemma delete_new_core:
  assumes "CConnectionImpl_delete p (net_error code (w\<lparr>w_conns := (w_conns w)(p \<mapsto> c)\<rparr>)) = Some w' \<or>
      CConnectionImpl_delete p (w\<lparr>w_conns := (w_conns w)(p \<mapsto> c)\<rparr>) = Some w'" "w_conns w p = None"
  shows "core w' = k_close_own (m_iFd c) (core w)"
proof -
  have "(k_conns (core w))(p := None) = k_conns (core w)"
    using assms(2) by (simp add: core_def fun_eq_iff)
  then have "(core w)\<lparr>k_conns := (k_conns (core w))(p := None)\<rparr> = core w"
    by simp
  moreover have "core w' = k_close_own (m_iFd c) ((core w)\<lparr>k_conns := (k_conns (core w))(p := None)\<rparr>)"
    using assms(1) by (auto elim!: delete_core simp: net_ops core_new_conn)
  ultimately show ?thesis
    by simp
qed

lemma delete_new_acc_core:
  assumes "CAcceptorImpl_delete p (net_error code (w\<lparr>w_accs := (w_accs w)(p \<mapsto> a)\<rparr>)) = Some w' \<or>
      CAcceptorImpl_delete p (w\<lparr>w_accs := (w_accs w)(p \<mapsto> a)\<rparr>) = Some w'" "w_accs w p = None"
  shows "core w' = k_close_own (acc_iFd a) (core w)"
proof -
  have "(k_accs (core w))(p := None) = k_accs (core w)"
    using assms(2) by (simp add: core_def fun_eq_iff)
  then have "(core w)\<lparr>k_accs := (k_accs (core w))(p := None)\<rparr> = core w"
    by simp
  moreover have "core w' = k_close_own (acc_iFd a) ((core w)\<lparr>k_accs := (k_accs (core w))(p := None)\<rparr>)"
    using assms(1) by (auto elim!: acceptor_delete_core simp: net_ops core_new_acc)
  ultimately show ?thesis
    by simp
qed

lemma CreateConnection_core:
  assumes "CEngineImpl_CreateConnection env cfg cb w = Some (w', r)" "create_fresh env w"
    "m_uNextConnectionID w + 1 \<noteq> 0"
  shows "core_steps (core w) (core w')"
proof (cases "cfg = None \<or> cb = None \<or> cr_new env = None")
  case True
  with assms(1) show ?thesis
    by (auto simp: CEngineImpl_CreateConnection_def IAllocatorEx_New_def CAllocatorImpl_Malloc_def split: if_splits)
next
  case False
  then obtain p where p: "cr_new env = Some p" by auto
  let ?c = "CConnectionImpl_ctor (m_uNextConnectionID w) cb"
  let ?h = "(w_heap w)(p \<mapsto> sizeof_CConnectionImpl)"
  have fresh: "w_conns w p = None" "cr_fd env \<notin> k_opened (core w)"
    using assms(2) p by (simp_all add: create_fresh_def)
  obtain c w1 r1 where i: "CConnectionImpl_Init cfg (cr_assigned env) (cr_buffers env) (cr_fd env) (cr_ok env)
      (cr_rcv_ok env) ?c (w\<lparr>w_heap := ?h\<rparr>) = (c, w1, r1)"
    by (metis prod_cases3)
  have ctor: "m_iFd ?c = -1" "m_uID ?c = m_uNextConnectionID w" "m_uIOThreadIndex ?c = 0"
    by (simp_all add: CConnectionImpl_ctor_def CConnectionImpl_default_def)
  note init = Connection_Init_core [OF i ctor(1)]
  have o: "opened_for (cr_fd env) (m_iFd c) (core w) (core w1)" and free: "w_conns w1 p = None"
    using init(3,4) fresh(1) by simp_all
  note steps = opened_for_steps [OF o fresh(2)]
  have key: "conn_key c = (m_iFd c, m_uNextConnectionID w, 0)"
    using init(1,2) ctor by (simp add: conn_key_def)
  have next_id: "m_uNextConnectionID w1 = m_uNextConnectionID w"
    using o by (auto simp: opened_for_def core_def)
  let ?w2 = "w1\<lparr>w_conns := (w_conns w1)(p \<mapsto> c)\<rparr>"
  have "(\<exists>x. (CConnectionImpl_delete p (net_error kOutOfMemory ?w2) = Some x \<or> CConnectionImpl_delete p ?w2 = Some x) \<and>
      core w' = core x) \<or>
    w' = ?w2\<lparr>m_umapConnection := (m_umapConnection ?w2)(m_uNextConnectionID ?w2 \<mapsto> p),
      m_uNextConnectionID := m_uNextConnectionID ?w2 + 1\<rparr>"
    using assms(1) False p i
    by (auto simp: CEngineImpl_CreateConnection_def IAllocatorEx_New_def CAllocatorImpl_Malloc_def Let_def
        split: if_splits)
  then show ?thesis
  proof (elim disjE exE conjE)
    fix x
    assume "CConnectionImpl_delete p (net_error kOutOfMemory ?w2) = Some x" "core w' = core x"
    then show ?thesis
      using delete_new_core [of p kOutOfMemory w1 c x] free steps(2) by simp
  next
    fix x
    assume "CConnectionImpl_delete p ?w2 = Some x" "core w' = core x"
    then show ?thesis
      using delete_new_core [of p kOutOfMemory w1 c x] free steps(2) by simp
  next
    assume w': "w' = ?w2\<lparr>m_umapConnection := (m_umapConnection ?w2)(m_uNextConnectionID ?w2 \<mapsto> p),
      m_uNextConnectionID := m_uNextConnectionID ?w2 + 1\<rparr>"
    have "core_step (core w1) (core w')"
      using createdC [of "core w1" p "m_iFd c"] free assms(3) next_id key
      by (simp add: w' core_def fun_upd_def comp_def if_distrib cong: if_cong)
    with steps(1) show ?thesis
      by (rule rtranclp.rtrancl_into_rtrancl)
  qed
qed

lemma CreateAcceptor_core:
  assumes "CEngineImpl_CreateAcceptor env cfg cb w = Some (w', r)" "create_fresh env w"
    "m_uNextAcceptorID w + 1 \<noteq> 0"
  shows "core_steps (core w) (core w')"
proof (cases "cfg = None \<or> cb = None \<or> cr_new env = None")
  case True
  with assms(1) show ?thesis
    by (auto simp: CEngineImpl_CreateAcceptor_def IAllocatorEx_New_def CAllocatorImpl_Malloc_def split: if_splits)
next
  case False
  then obtain p where p: "cr_new env = Some p" by auto
  let ?a = "CAcceptorImpl_ctor (m_uNextAcceptorID w) cb"
  let ?h = "(w_heap w)(p \<mapsto> sizeof_CAcceptorImpl)"
  have fresh: "w_accs w p = None" "cr_fd env \<notin> k_opened (core w)"
    using assms(2) p by (simp_all add: create_fresh_def)
  obtain a w1 r1 where i: "CAcceptorImpl_Init cfg (cr_assigned env) (cr_fd env) (cr_ok env) ?a
      (w\<lparr>w_heap := ?h\<rparr>) = (a, w1, r1)"
    by (metis prod_cases3)
  have ctor: "acc_iFd ?a = -1" "acc_uID ?a = m_uNextAcceptorID w"
    by (simp_all add: CAcceptorImpl_ctor_def)
  note init = Acceptor_Init_core [OF i ctor(1)]
  have o: "opened_for (cr_fd env) (acc_iFd a) (core w) (core w1)" and free: "w_accs w1 p = None"
    using init(2,3) fresh(1) by simp_all
  note steps = opened_for_steps [OF o fresh(2)]
  have key: "acc_key a = (acc_iFd a, m_uNextAcceptorID w)"
    using init(1) ctor by (simp add: acc_key_def)
  have next_id: "m_uNextAcceptorID w1 = m_uNextAcceptorID w"
    using o by (auto simp: opened_for_def core_def)
  let ?w2 = "w1\<lparr>w_accs := (w_accs w1)(p \<mapsto> a)\<rparr>"
  have "(\<exists>x. (CAcceptorImpl_delete p (net_error kOutOfMemory ?w2) = Some x \<or> CAcceptorImpl_delete p ?w2 = Some x) \<and>
      core w' = core x) \<or>
    w' = ?w2\<lparr>m_umapAcceptor := (m_umapAcceptor ?w2)(m_uNextAcceptorID ?w2 \<mapsto> p),
      m_uNextAcceptorID := m_uNextAcceptorID ?w2 + 1\<rparr>"
    using assms(1) False p i
    by (auto simp: CEngineImpl_CreateAcceptor_def IAllocatorEx_New_def CAllocatorImpl_Malloc_def Let_def
        split: if_splits)
  then show ?thesis
  proof (elim disjE exE conjE)
    fix x
    assume "CAcceptorImpl_delete p (net_error kOutOfMemory ?w2) = Some x" "core w' = core x"
    then show ?thesis
      using delete_new_acc_core [of p kOutOfMemory w1 a x] free steps(2) by simp
  next
    fix x
    assume "CAcceptorImpl_delete p ?w2 = Some x" "core w' = core x"
    then show ?thesis
      using delete_new_acc_core [of p kOutOfMemory w1 a x] free steps(2) by simp
  next
    assume w': "w' = ?w2\<lparr>m_umapAcceptor := (m_umapAcceptor ?w2)(m_uNextAcceptorID ?w2 \<mapsto> p),
      m_uNextAcceptorID := m_uNextAcceptorID ?w2 + 1\<rparr>"
    have "core_step (core w1) (core w')"
      using createdA [of "core w1" p "acc_iFd a"] free assms(3) next_id key
      by (simp add: w' core_def fun_upd_def comp_def if_distrib cong: if_cong)
    with steps(1) show ?thesis
      by (rule rtranclp.rtrancl_into_rtrancl)
  qed
qed

lemma DestroyConnection_core:
  assumes "CEngineImpl_DestroyConnection p w = Some w'"
  shows "core_steps (core w) (core w')"
proof (cases "core w' = core w")
  case False
  then obtain a c q x where c: "p = Some a" "w_conns w a = Some c" "m_umapConnection w (m_uID c) = Some q"
    "CConnectionImpl_delete q w = Some x" "w' = x\<lparr>m_umapConnection := (m_umapConnection x)(m_uID c := None)\<rparr>"
    using assms by (auto simp: CEngineImpl_DestroyConnection_def split: option.splits)
  obtain d where d: "w_conns w q = Some d" "core x = k_close_own (m_iFd d) (core w\<lparr>k_conns := (k_conns (core w))(q := None)\<rparr>)"
    "m_umapConnection x = m_umapConnection w"
    by (rule delete_core [OF c(4)])
  have "core w' = (core x)\<lparr>k_umapC := (k_umapC (core w))(m_uID c := None)\<rparr>"
    using c(5) d(3) by (simp add: core_def)
  also have "\<dots> = k_close_own (m_iFd d) (core w\<lparr>k_conns := (k_conns (core w))(q := None),
      k_umapC := (k_umapC (core w))(m_uID c := None)\<rparr>)"
    by (simp add: d(2) k_close_own_def k_close_def)
  finally have "core_step (core w) (core w')"
    using destroyedC [of "core w" "m_uID c" q "m_iFd d" "m_uID d" "m_uIOThreadIndex d"] c(3) d(1)
    by (simp add: conn_key_def)
  then show ?thesis ..
qed simp

lemma DestroyAcceptor_core:
  assumes "CEngineImpl_DestroyAcceptor p w = Some w'"
  shows "core_steps (core w) (core w')"
proof (cases "core w' = core w")
  case False
  then obtain pa a q x where c: "p = Some pa" "w_accs w pa = Some a" "m_umapAcceptor w (acc_uID a) = Some q"
    "CAcceptorImpl_delete q w = Some x" "w' = x\<lparr>m_umapAcceptor := (m_umapAcceptor x)(acc_uID a := None)\<rparr>"
    using assms by (auto simp: CEngineImpl_DestroyAcceptor_def split: option.splits)
  obtain d where d: "w_accs w q = Some d" "core x = k_close_own (acc_iFd d) (core w\<lparr>k_accs := (k_accs (core w))(q := None)\<rparr>)"
    "m_umapAcceptor x = m_umapAcceptor w"
    by (rule acceptor_delete_core [OF c(4)])
  have "core w' = (core x)\<lparr>k_umapA := (k_umapA (core w))(acc_uID a := None)\<rparr>"
    using c(5) d(3) by (simp add: core_def)
  also have "\<dots> = k_close_own (acc_iFd d) (core w\<lparr>k_accs := (k_accs (core w))(q := None),
      k_umapA := (k_umapA (core w))(acc_uID a := None)\<rparr>)"
    by (simp add: d(2) k_close_own_def k_close_def)
  finally have "core_step (core w) (core w')"
    using destroyedA [of "core w" "acc_uID a" q "acc_iFd d" "acc_uID d"] c(3) d(1)
    by (simp add: acc_key_def)
  then show ?thesis ..
qed simp

section \<open>The life of the engine\<close>

lemma core_dispatcher:
  "registered (m_EpollImpl d) = regs w \<Longrightarrow> core (w\<lparr>m_EventDispatcher := d\<rparr>) = core w"
  by (simp add: core_def)

lemma dispatcher_Init_regs:
  "dispatcher_Init func sPrefix n sys nm d e = (d', e', r) \<Longrightarrow> registered (m_EpollImpl d') = registered (m_EpollImpl d)"
  by (auto simp: dispatcher_Init_def IDispatcher_Init_def Epoll_Init_def Let_def
      split: option.splits prod.splits if_splits)

lemma init_io_core: "init_io_dispatchers io is w = (w', r) \<Longrightarrow> core w' = core w"
proof (induction "is" arbitrary: w)
  case (Cons i "is")
  show ?case
  proof (cases "fst (IAllocatorEx_New (fst (io i)) sizeof_CIODispatcher (Some IDispatcher_default) (w_heap w))")
    case None
    with Cons.prems show ?thesis
      by (auto split: prod.splits)
  next
    case (Some x)
    with Cons show ?thesis
      by (auto simp: Let_def split: prod.splits if_splits)
  qed
qed simp

lemma Engine_Init_core: "CEngineImpl_Init cfg ok1 ok2 sys io w = (w', r) \<Longrightarrow> core w' = core w"
  by (auto simp: CEngineImpl_Init_def CEventDispatcher_Init_def core_dispatcher Let_def
      dest!: init_io_core dispatcher_Init_regs split: option.splits if_splits prod.splits)

lemma IDispatcher_Start_epoll: "IDispatcher_Start b d e = Some (d', e', r) \<Longrightarrow> m_EpollImpl d' = m_EpollImpl d"
  by (auto simp: IDispatcher_Start_def split: option.splits)

lemma start_io_core: "start_io_dispatchers f is w = Some (w', r) \<Longrightarrow> core w' = core w"
  by (induction "is" arbitrary: w) (auto simp: Let_def split: option.splits prod.splits if_splits)

lemma Engine_Start_core: "CEngineImpl_Start b f w = Some (w', r) \<Longrightarrow> core w' = core w"
  by (auto simp: CEngineImpl_Start_def core_dispatcher Let_def dest!: start_io_core IDispatcher_Start_epoll
      split: option.splits if_splits)

lemma IDispatcher_Stop_epoll: "IDispatcher_Stop d = (d', cbs) \<Longrightarrow> m_EpollImpl d' = m_EpollImpl d"
  by (auto simp: IDispatcher_Stop_def split: option.splits prod.splits)

lemma run_callbacks_core: "run_callbacks cbs w = Some w' \<Longrightarrow> core w' = core w"
  by (induction cbs arbitrary: w)
    (auto simp: run_callback_def split: bind_splits CallbackFunc.splits if_splits)

lemma stop_io_core: "stop_io_dispatchers is w = Some w' \<Longrightarrow> core w' = core w"
  by (induction "is" arbitrary: w)
    (auto dest!: run_callbacks_core split: option.splits prod.splits bind_splits)

lemma Engine_Stop_core: "CEngineImpl_Stop w = Some w' \<Longrightarrow> core w' = core w"
  by (auto simp: CEngineImpl_Stop_def core_dispatcher dest!: run_callbacks_core stop_io_core IDispatcher_Stop_epoll
      split: prod.splits bind_splits)

lemma process_tasks_core: "process_tasks n env w = Some w' \<Longrightarrow> core_steps (core w) (core w')"
proof (induction n arbitrary: w)
  case (Suc n)
  obtain throws a f where env: "env n = (throws, a, f)"
    by (metis prod_cases3)
  obtain q tk r where g: "TaskQueue_GetTask throws (m_TaskQueue (m_EventDispatcher w)) = (q, tk, r)"
    by (metis prod_cases3)
  let ?w = "w\<lparr>m_EventDispatcher := (m_EventDispatcher w)\<lparr>m_TaskQueue := q\<rparr>\<rparr>"
  show ?case
  proof (cases "r = kSuccess")
    case False
    with Suc.prems env g show ?thesis by simp
  next
    case True
    then obtain w1 ok where w1: "CEventDispatcher_ProcessTask a f (the tk) ?w = Some (w1, ok)"
      "process_tasks n env w1 = Some w'"
      using Suc.prems env g by (auto split: option.splits)
    have "core ?w = core w" by simp
    with ProcessTask_core [OF w1(1)] Suc.IH [OF w1(2)] show ?thesis
      by (metis rtranclp_trans)
  qed
qed simp

section \<open>All of it together\<close>

text \<open>
  One call of the client, one round of a dispatcher over its events or its tasks. The conditions are
  what the kernel and the allocator promise, and that the 64-bit numbers do not run out.
\<close>

inductive net_step :: "NetWorld \<Rightarrow> NetWorld \<Rightarrow> bool" where
  init: "CEngineImpl_Init cfg ok1 ok2 sys io w = (w', r) \<Longrightarrow> net_step w w'"
| start: "CEngineImpl_Start b f w = Some (w', r) \<Longrightarrow> net_step w w'"
| stop: "CEngineImpl_Stop w = Some w' \<Longrightarrow> net_step w w'"
| create_acceptor: "CEngineImpl_CreateAcceptor env cfg cb w = Some (w', r) \<Longrightarrow> create_fresh env w \<Longrightarrow>
    m_uNextAcceptorID w + 1 \<noteq> 0 \<Longrightarrow> net_step w w'"
| destroy_acceptor: "CEngineImpl_DestroyAcceptor pa w = Some w' \<Longrightarrow> net_step w w'"
| create_connection: "CEngineImpl_CreateConnection cenv cfg cb w = Some (w', r) \<Longrightarrow> create_fresh cenv w \<Longrightarrow>
    m_uNextConnectionID w + 1 \<noteq> 0 \<Longrightarrow> net_step w w'"
| destroy_connection: "CEngineImpl_DestroyConnection pp w = Some w' \<Longrightarrow> net_step w w'"
| acceptor_start: "CAcceptorImpl_Start fl p w = Some (w', r) \<Longrightarrow> net_step w w'"
| acceptor_stop: "CAcceptorImpl_Stop fl p w = Some w' \<Longrightarrow> net_step w w'"
| connect: "CConnectionImpl_Connect nenv ip port p w = Some (w', r) \<Longrightarrow> net_step w w'"
| close: "CConnectionImpl_Close fl p w = Some w' \<Longrightarrow> net_step w w'"
| send: "CConnectionImpl_Send m prio p w = Some (w', r) \<Longrightarrow> net_step w w'"
| recv: "CConnectionImpl_Recv len sock fl n stream p w = Some (w', rest, k) \<Longrightarrow> net_step w w'"
| attach: "AttachConnection fl pp w = Some (w', r) \<Longrightarrow> net_step w w'"
| detach: "DetachConnection fl pp w = Some (w', r) \<Longrightarrow> net_step w w'"
| detach2: "DetachConnection2 fl pp df w = Some (w', r) \<Longrightarrow> net_step w w'"
| detached: "run_callback ok lam w = Some w' \<Longrightarrow> net_step w w'"
| event: "CEventDispatcher_ProcessEvent eenv ev w = Some w' \<Longrightarrow> event_fresh eenv ev w \<Longrightarrow> net_step w w'"
| tasks: "process_tasks k tenv w = Some w' \<Longrightarrow> net_step w w'"

inductive_cases net_stepE: "net_step w w'"

lemma net_step_core: "net_step w w' \<Longrightarrow> core_steps (core w) (core w')"
proof (induction rule: net_step.induct)
  case init
  then show ?case using Engine_Init_core by fastforce
next
  case start
  then show ?case using Engine_Start_core by fastforce
next
  case stop
  then show ?case using Engine_Stop_core by fastforce
next
  case create_acceptor
  then show ?case by (rule CreateAcceptor_core)
next
  case destroy_acceptor
  then show ?case by (rule DestroyAcceptor_core)
next
  case create_connection
  then show ?case by (rule CreateConnection_core)
next
  case destroy_connection
  then show ?case by (rule DestroyConnection_core)
next
  case acceptor_start
  then show ?case by (rule acceptor_Start_core)
next
  case acceptor_stop
  then show ?case by (rule acceptor_Stop_core)
next
  case connect
  then show ?case using Connect_core by fastforce
next
  case close
  then show ?case using Close_core by fastforce
next
  case send
  then show ?case using Send_core by fastforce
next
  case recv
  then show ?case using Recv_core by fastforce
next
  case attach
  then show ?case using AttachConnection_core by fastforce
next
  case detach
  then show ?case using DetachConnection_core by fastforce
next
  case detach2
  then show ?case using DetachConnection2_core by fastforce
next
  case detached
  then show ?case by (rule run_callback_core)
next
  case event
  then show ?case by (rule ProcessEvent_core)
next
  case tasks
  then show ?case by (rule process_tasks_core)
qed

lemma core_steps_inv:
  "core_steps s t \<Longrightarrow> regs_live s \<and> ids_ok s \<Longrightarrow> regs_live t \<and> ids_ok t"
  by (induction rule: rtranclp_induct) (blast intro: regs_live_step ids_ok_step)+

lemma reach_inv:
  assumes "net_step\<^sup>*\<^sup>* (CEngineImpl_ctor l) w"
  shows "regs_live (core w)" "ids_ok (core w)"
proof -
  have "core_steps (core (CEngineImpl_ctor l)) (core w)"
    using assms by (induction rule: rtranclp_induct) (auto dest: net_step_core rtranclp_trans)
  moreover have "regs_live (core (CEngineImpl_ctor l)) \<and> ids_ok (core (CEngineImpl_ctor l))"
    by (simp add: regs_live_def ids_ok_def core_def CEngineImpl_ctor_def IDispatcher_default_def Epoll_default_def)
  ultimately show "regs_live (core w)" "ids_ok (core w)"
    using core_steps_inv by blast+
qed

end
