(* ===== verification/NetProps.thy ===== *)
theory NetProps
  imports NetInv
begin

text \<open>
  The properties of the network library: what holds in every state that the engine can reach
  (\<open>net_step\<close>), and how the single operations behave.
\<close>

section \<open>In every reachable state\<close>

text \<open>
  C2: in every state that the engine can reach, through any order of client calls, events, tasks and
  failures, each registration of the event dispatcher's epoll set is that of a live connection or
  acceptor, under an open descriptor that this object has. The kernel therefore never hands
  \<open>ProcessEvent\<close> a dangling pointer.
\<close>

theorem registrations_live:
  assumes "net_step\<^sup>*\<^sup>* (CEngineImpl_ctor l) w" and "regs w fd = Some (p, ev)"
  shows "fd \<in> w_opened w \<and>
    ((\<exists>c. w_conns w p = Some c \<and> m_iFd c = fd) \<or> (\<exists>a. w_accs w p = Some a \<and> acc_iFd a = fd))"
  using regs_liveD [of "core w" fd p ev] reach_inv(1) [OF assms(1)] assms(2)
  by (auto simp: owns_def conn_key_def acc_key_def)

text \<open>
  C13: in every reachable state the engine can destroy exactly the connections it created. For these
  \<open>DestroyConnection\<close> deletes the object it is given and no other, and takes it out of the map. For a
  connection that an acceptor made it deletes nothing: its identifier is 0, which is in no map.
\<close>

theorem destroy_connection_exact:
  assumes "net_step\<^sup>*\<^sup>* (CEngineImpl_ctor l) w" and "w_conns w p = Some c"
  shows "if m_uID c = 0 then CEngineImpl_DestroyConnection (Some p) w = Some (w\<lparr>w_tls := kInvalidParam\<rparr>)
    else m_umapConnection w (m_uID c) = Some p \<and>
      (\<exists>w'. CEngineImpl_DestroyConnection (Some p) w = Some w' \<and> w_conns w' = (w_conns w)(p := None) \<and>
        m_umapConnection w' = (m_umapConnection w)(m_uID c := None))"
proof -
  note D = ids_okD [OF reach_inv(2) [OF assms(1)]]
  have none: "m_umapConnection w 0 = None"
    using D(1) [of 0] by (cases "m_umapConnection w 0") auto
  have "m_uID c \<noteq> 0 \<Longrightarrow> m_umapConnection w (m_uID c) = Some p"
    using D(3) [of p "m_iFd c" "m_uID c" "m_uIOThreadIndex c"] assms(2) by (auto simp: conn_key_def)
  with none assms(2) show ?thesis
    by (auto simp: CEngineImpl_DestroyConnection_def CConnectionImpl_delete_def sys_close_def net_ops Let_def)
qed

text \<open>
  Fact: no operation ever assigns a connection to an IO dispatcher, so that in every reachable state
  \<open>DetachConnection\<close> and \<open>DetachConnection2\<close> post their task to the first IO dispatcher, whichever one
  \<open>AttachConnection\<close> has given the connection to.
\<close>

theorem detach_goes_to_first:
  assumes "net_step\<^sup>*\<^sup>* (CEngineImpl_ctor l) w" and "w_conns w p = Some c"
    and "m_vecIODispatchers w = Some d # ds" and "\<not> io_throws f"
  shows "m_uIOThreadIndex c = 0 \<and>
    DetachConnection f (Some p) w = Some (w\<lparr>m_vecIODispatchers := Some (d\<lparr>m_TaskQueue := m_TaskQueue d @
      [\<lparr>eNetTaskType = kRemoveConnection, funcCallback = nullptr, pCtx = p\<rparr>]\<rparr>) # ds\<rparr>, kSuccess) \<and>
    DetachConnection2 f (Some p) (Some cb) w = Some (w\<lparr>m_vecIODispatchers := Some (d\<lparr>m_TaskQueue := m_TaskQueue d @
      [\<lparr>eNetTaskType = kDoDisconnect, funcCallback = Some (DetachLambda p cb), pCtx = p\<rparr>]\<rparr>) # ds\<rparr>, kSuccess)"
proof -
  have "m_uIOThreadIndex c = 0"
    using ids_okD(3) [OF reach_inv(2) [OF assms(1)], of p "m_iFd c" "m_uID c" "m_uIOThreadIndex c"] assms(2)
    by (simp add: conn_key_def)
  with assms(2-4) show ?thesis
    by (simp add: DetachConnection_def DetachConnection2_def net_post_defs)
qed

section \<open>Attaching\<close>

text \<open>Calls of \<open>AttachConnection\<close> one after the other, none of which throws.\<close>

fun attach_all :: "uint64_t list \<Rightarrow> NetWorld \<Rightarrow> NetWorld option" where
  "attach_all [] w = Some w"
| "attach_all (p # ps) w = Option.bind (AttachConnection no_faults (Some p) w) (\<lambda>(w, r). attach_all ps w)"

text \<open>The queue of the IO dispatcher \<open>i\<close>, as the connections that its tasks are about.\<close>

definition io_load :: "NetWorld \<Rightarrow> nat \<Rightarrow> uint64_t list" where
  "io_load w i = (case m_vecIODispatchers w ! i of None \<Rightarrow> [] | Some d \<Rightarrow> map pCtx (m_TaskQueue d))"

lemma AttachConnection_ok:
  assumes "i = unat (m_uNextIODispatcherIndex w) mod length (m_vecIODispatchers w)"
    "m_vecIODispatchers w ! i = Some d" "m_vecIODispatchers w \<noteq> []"
  shows "AttachConnection no_faults (Some p) w = Some (w\<lparr>m_uNextIODispatcherIndex := m_uNextIODispatcherIndex w + 1,
     m_vecIODispatchers := (m_vecIODispatchers w)[i := Some (d\<lparr>m_TaskQueue := m_TaskQueue d @
       [\<lparr>eNetTaskType = kAddConnection, funcCallback = nullptr, pCtx = p\<rparr>]\<rparr>)]\<rparr>, kSuccess)"
  using assms by (simp add: AttachConnection_def net_post_defs no_faults_def Let_def)

lemma attach_all_load:
  assumes "\<forall>d \<in> set (m_vecIODispatchers w). d \<noteq> nullptr" "m_vecIODispatchers w \<noteq> []"
    "unat (m_uNextIODispatcherIndex w) + length ps < 2 ^ 32"
  shows "\<exists>w'. attach_all ps w = Some w' \<and> length (m_vecIODispatchers w') = length (m_vecIODispatchers w) \<and>
     (\<forall>i < length (m_vecIODispatchers w). io_load w' i = io_load w i @
        map (\<lambda>k. ps ! k) (filter (\<lambda>k. (unat (m_uNextIODispatcherIndex w) + k) mod length (m_vecIODispatchers w) = i)
          [0..<length ps]))"
  using assms
proof (induction ps arbitrary: w)
  case (Cons p ps)
  let ?n = "length (m_vecIODispatchers w)" and ?x = "m_uNextIODispatcherIndex w"
  let ?i = "unat ?x mod ?n"
  have n: "0 < ?n" "?i < ?n"
    using Cons.prems(2) by simp_all
  then obtain d where d: "m_vecIODispatchers w ! ?i = Some d"
    using Cons.prems(1) nth_mem by fastforce
  let ?d = "d\<lparr>m_TaskQueue := m_TaskQueue d @ [\<lparr>eNetTaskType = kAddConnection, funcCallback = nullptr, pCtx = p\<rparr>]\<rparr>"
  let ?w = "w\<lparr>m_uNextIODispatcherIndex := ?x + 1, m_vecIODispatchers := (m_vecIODispatchers w)[?i := Some ?d]\<rparr>"
  have a: "AttachConnection no_faults (Some p) w = Some (?w, kSuccess)"
    by (rule AttachConnection_ok [OF refl d Cons.prems(2)])
  have x: "unat (?x + 1) = unat ?x + 1"
    using Cons.prems(3) by (subst unat_Suc_word) simp_all
  have "\<forall>d \<in> set (m_vecIODispatchers ?w). d \<noteq> nullptr"
    using Cons.prems(1) set_update_subset_insert [of "m_vecIODispatchers w" ?i "Some ?d"] by auto
  then obtain w' where w': "attach_all ps ?w = Some w'" "length (m_vecIODispatchers w') = ?n"
    "\<And>i. i < ?n \<Longrightarrow> io_load w' i = io_load ?w i @
        map (\<lambda>k. ps ! k) (filter (\<lambda>k. (unat ?x + 1 + k) mod ?n = i) [0..<length ps])"
    using Cons.IH [of ?w] Cons.prems(2,3) x by auto
  have "io_load w' i = io_load w i @
      map (\<lambda>k. (p # ps) ! k) (filter (\<lambda>k. (unat ?x + k) mod ?n = i) [0..<length (p # ps)])" if i: "i < ?n" for i
  proof -
    have "[0..<length (p # ps)] = 0 # map Suc [0..<length ps]"
      by (simp add: upt_conv_Cons map_Suc_upt del: upt_Suc)
    moreover have "io_load ?w i = io_load w i @ (if ?i = i then [p] else [])"
    proof (cases "?i = i")
      case True
      with d have "m_vecIODispatchers w ! i = Some d" by simp
      with True i show ?thesis by (simp add: io_load_def)
    qed (simp add: io_load_def)
    ultimately show ?thesis
      using w'(3) [OF i] by (simp add: filter_map comp_def del: upt_Suc)
  qed
  with a w' show ?case
    by auto
qed simp

text \<open>
  Fact: connections are spread over the IO dispatchers in turn: as long as the 32-bit counter does not
  wrap, the connection of the \<open>k\<close>-th call of \<open>AttachConnection\<close> goes to the end of the queue of the
  dispatcher \<open>(start + k) mod n\<close>, in the order of the calls, and all calls succeed.
\<close>

theorem attach_round_robin:
  assumes "\<forall>d \<in> set (m_vecIODispatchers w). d \<noteq> nullptr" and "m_vecIODispatchers w \<noteq> []"
    and "unat (m_uNextIODispatcherIndex w) + length ps < 2 ^ 32"
  shows "\<exists>w'. attach_all ps w = Some w' \<and>
     (\<forall>i < length (m_vecIODispatchers w). io_load w' i = io_load w i @
        map (\<lambda>k. ps ! k) (filter (\<lambda>k. (unat (m_uNextIODispatcherIndex w) + k) mod length (m_vecIODispatchers w) = i)
          [0..<length ps]))"
  using attach_all_load [OF assms] by blast

section \<open>Accepting\<close>

lemma opened_delete:
  assumes "CConnectionImpl_delete p w = Some w'" "w_conns w p = Some c" "m_iFd c = fd" "fd \<noteq> -1"
  shows "w_opened w' = w_opened w - {fd}"
  using assms by (auto simp: CConnectionImpl_delete_def sys_close_def Let_def)

text \<open>
  C33: \<open>Accept\<close> does not lose descriptors, with one exception. When the kernel gives it a new descriptor,
  it either returns a connection that has this descriptor, with the callback and the settings of the
  acceptor, or closes the descriptor again, on every error path; only when the object cannot be
  allocated the descriptor stays open and belongs to nobody.
\<close>

theorem accept_keeps_descriptors:
  assumes "CAcceptorImpl_Accept env pa w = Some (w', r)" and "accept_fresh env w"
    and "ae_accept env = AcceptFd fd ip port" and "w_accs w pa = Some a" and "acc_iFd a \<noteq> -1"
  shows "case r of
      Some p \<Rightarrow> w_opened w' = insert fd (w_opened w) \<and> (\<exists>c. w_conns w' p = Some c \<and> m_iFd c = fd \<and>
        m_pCallback c = acc_pCallback a \<and> m_uID c = 0)
    | None \<Rightarrow> w_opened w' = (if ae_new env = nullptr then insert fd (w_opened w) else w_opened w)"
proof -
  have fd: "fd \<noteq> -1" "fd \<notin> w_opened w"
    using assms(2,3) by (auto simp: accept_fresh_def)
  show ?thesis
  proof (cases "ae_new env")
    case None
    with assms(1,3-5) show ?thesis
      by (auto simp: CAcceptorImpl_Accept_def IAllocatorEx_New_def CAllocatorImpl_Malloc_def net_ops)
  next
    case (Some p)
    let ?w1 = "w\<lparr>w_opened := insert fd (w_opened w)\<rparr>"
    let ?c = "accepted_connection a fd ip port (ae_now env) CConnectionImpl_default"
    let ?w2 = "?w1\<lparr>w_heap := (w_heap w)(p \<mapsto> sizeof_CConnectionImpl), w_conns := (w_conns w)(p \<mapsto> ?c)\<rparr>"
    obtain c w3 r' where ib: "CConnectionImpl_InitBuffer (ae_buffers env) ?c ?w2 = (c, w3, r')"
      by (metis prod_cases3)
    note frame = InitBuffer_frame [OF ib]
    let ?w3 = "w3\<lparr>w_conns := (w_conns w3)(p \<mapsto> c)\<rparr>"
    have c: "m_iFd c = fd" "m_iFd ?c = fd" "m_pCallback c = acc_pCallback a" "m_uID c = 0"
      using frame(1,2,4) by (simp_all add: accepted_connection_def CConnectionImpl_default_def)
    have cases: "accept_reject kThrowException p ?w2 = Some (w', r) \<or> accept_reject kSystemError p ?w3 = Some (w', r) \<or>
        accept_reject kSystemError p (client_call (OnAccept p) ?w3) = Some (w', r) \<or>
        (w' = client_call (OnAccept p) ?w3 \<and> r = Some p)"
      using assms(1,3-5) Some ib
      by (simp add: CAcceptorImpl_Accept_def IAllocatorEx_New_def CAllocatorImpl_Malloc_def Let_def
          split: if_splits)
    have rej: "r = None \<and> w_opened w' = w_opened w"
      if x: "accept_reject code p x = Some (w', r)" "w_opened x = insert fd (w_opened w)"
        "w_conns x p = Some d" "m_iFd d = fd" for code x d
    proof -
      have "CConnectionImpl_delete p (net_error code x) = Some w'" "r = None"
        using x(1) by (auto simp: accept_reject_def)
      with opened_delete [of p "net_error code x" w' d fd] x(2-4) fd show ?thesis
        by (auto simp: net_ops)
    qed
    have "accept_reject kThrowException p ?w2 = Some (w', r) \<Longrightarrow> r = None \<and> w_opened w' = w_opened w"
      "accept_reject kSystemError p ?w3 = Some (w', r) \<Longrightarrow> r = None \<and> w_opened w' = w_opened w"
      "accept_reject kSystemError p (client_call (OnAccept p) ?w3) = Some (w', r) \<Longrightarrow>
        r = None \<and> w_opened w' = w_opened w"
      using rej [of _ ?w2 ?c] rej [of _ ?w3 c] rej [of _ "client_call (OnAccept p) ?w3" c] c frame(5)
      by (simp_all add: client_call_def)
    with cases frame(5) c Some show ?thesis
      by (elim disjE) (auto simp: client_call_def)
  qed
qed

section \<open>Closing, and the end of connecting\<close>

text \<open>
  Fact: closing. For an asynchronous connection \<open>Close\<close> posts exactly one disconnect task to the event
  dispatcher and touches nothing else. For a synchronous one it hands the task to the first IO
  dispatcher, and the test of the result is the wrong way round: the call that succeeds reports
  \<open>kSystemError\<close>.
\<close>

theorem close_posts_once:
  assumes "w_conns w p = Some c" and "m_iFd c \<noteq> -1" and "\<not> event_throws f" and "\<not> io_throws f"
    and "m_uIOThreadIndex c = 0" and "m_vecIODispatchers w = Some d # ds"
  shows "CConnectionImpl_Close f p w = Some (if m_bIsSyncConnect c
    then w\<lparr>m_vecIODispatchers := Some (d\<lparr>m_TaskQueue := m_TaskQueue d @
        [\<lparr>eNetTaskType = kDoDisconnect, funcCallback = Some (DetachLambda p DetachCallback), pCtx = p\<rparr>]\<rparr>) # ds,
      w_tls := kSystemError\<rparr>
    else w\<lparr>m_EventDispatcher := (m_EventDispatcher w)\<lparr>m_TaskQueue := m_TaskQueue (m_EventDispatcher w) @
      [\<lparr>eNetTaskType = kDoDisconnect, funcCallback = nullptr, pCtx = p\<rparr>]\<rparr>\<rparr>)"
  using assms
  by (simp add: CConnectionImpl_Close_def DoTask_disconnect_def ProcessDoDisconnect_def DetachConnection2_def
      net_post_defs net_ops Let_def)

lemma sets_simps [simp]:
  "m_setAcceptor (net_error c w) = m_setAcceptor w" "m_setAcceptor (client_call ev w) = m_setAcceptor w"
  by (simp_all add: net_ops client_call_def)

lemma posted_sets: "posted p (post_io f i tk w) = Some (w', r) \<Longrightarrow> m_setAcceptor w' = m_setAcceptor w"
  by (auto simp: net_post_defs del: equalityI split: if_splits option.splits)

lemma Detach2_sets: "DetachConnection2 f p cb w = Some (w', r) \<Longrightarrow> m_setAcceptor w' = m_setAcceptor w"
  by (auto simp: DetachConnection2_def dest!: posted_sets del: equalityI split: option.splits)

lemma DoDisconnect_sets: "ProcessDoDisconnect f tk w = Some (w', r) \<Longrightarrow> m_setAcceptor w' = m_setAcceptor w"
  by (auto simp: ProcessDoDisconnect_def dest!: Detach2_sets del: equalityI split: option.splits if_splits)

lemma post_event_sets: "post_event f tk w = (w', r) \<Longrightarrow> m_setAcceptor w' = m_setAcceptor w"
  by (auto simp: net_post_defs del: equalityI split: if_splits)

lemma Close_sets: "CConnectionImpl_Close f p w = Some w' \<Longrightarrow> m_setAcceptor w' = m_setAcceptor w"
  by (auto simp: CConnectionImpl_Close_def DoTask_disconnect_def Let_def
      dest!: DoDisconnect_sets post_event_sets del: equalityI split: option.splits if_splits prod.splits)

lemma OnConnected_sets: "CConnectionImpl_OnConnected a p w = Some (w', r) \<Longrightarrow> m_setAcceptor w' = m_setAcceptor w"
  by (auto simp: CConnectionImpl_OnConnected_def del: equalityI split: option.splits if_splits)

lemma ProcessConnectionEvent_sets:
  "ProcessConnectionEvent env p evs w = Some w' \<Longrightarrow> m_setAcceptor w' = m_setAcceptor w"
  by (auto simp: ProcessConnectionEvent_def Let_def dest!: Close_sets OnConnected_sets
      del: equalityI split: option.splits if_splits)

text \<open>
  Fact: the end of an asynchronous connect strands its registration. \<open>ProcessEvent\<close> reads \<open>data.fd\<close> where
  \<open>data.ptr\<close> was stored; unless the low half of the object's address happens to be its descriptor, the
  object leaves \<open>m_setConnection\<close> and its registration stays. Every later event of this descriptor is
  then answered by the error \<open>kInvalidState\<close> and changes nothing.
\<close>

theorem connection_event_strands:
  assumes "regs w fd = Some (p, ev)" and "data_fd p \<noteq> fd"
    and "p \<in> m_setConnection w" and "p \<notin> m_setAcceptor w"
    and "CEventDispatcher_ProcessEvent env (p, evs) w = Some w'"
  shows "p \<notin> m_setConnection w' \<and> regs w' fd = Some (p, ev) \<and>
    (\<exists>w''. CEventDispatcher_ProcessEvent env' (p, evs') w' = Some w'' \<and> w_tls w'' = kInvalidState \<and>
      regs w'' fd = Some (p, ev) \<and> w_calls w'' = w_calls w')"
proof -
  have del: "regs (fst (event_epoll (Epoll_Del b (data_fd p)) x)) fd = regs x fd"
    "m_setConnection (fst (event_epoll (Epoll_Del b k) x)) = m_setConnection x"
    "m_setAcceptor (fst (event_epoll (Epoll_Del b k) x)) = m_setAcceptor x"
    "w_tls (fst (event_epoll (Epoll_Del b k) x)) = w_tls x"
    "w_calls (fst (event_epoll (Epoll_Del b k) x)) = w_calls x" for b k x
    using assms(2) by (simp_all add: event_epoll_def Epoll_Del_def)
  obtain x where x: "ProcessConnectionEvent env p evs w = Some x"
    "w' = (let y = fst (event_epoll (Epoll_Del (ctl_accepts (ee_faults env)) (data_fd p)) x)
           in y\<lparr>m_setConnection := m_setConnection y - {p}\<rparr>)"
    using assms(3-5) by (auto simp: CEventDispatcher_ProcessEvent_def Let_def)
  have "core x = core w"
    using x(1) by (rule ProcessConnectionEvent_core)
  then have "regs x = regs w"
    by (metis core_simps(4))
  moreover have "m_setAcceptor x = m_setAcceptor w"
    using x(1) by (rule ProcessConnectionEvent_sets)
  ultimately have w': "regs w' fd = Some (p, ev)" "p \<notin> m_setConnection w'" "p \<notin> m_setAcceptor w'"
    using assms(1,4) x(2) del by (simp_all add: Let_def)
  then show ?thesis
    using del by (simp add: CEventDispatcher_ProcessEvent_def Let_def net_ops)
qed

section \<open>Errors\<close>

text \<open>
  Fact: destroying a connection does not withdraw the tasks that are about it: when one of them is the
  next in the queue, the event dispatcher uses the deleted object.
\<close>

theorem destroy_with_pending_task:
  assumes "w_conns w p = Some c" and "m_umapConnection w (m_uID c) = Some p"
    and "CEngineImpl_DestroyConnection (Some p) w = Some w'"
    and "m_TaskQueue (m_EventDispatcher w) = tk # q" and "pCtx tk = p"
    and "eNetTaskType tk \<in> {kAddConnection, kRemoveConnection, kDoDisconnect, kConnected, kDisconnected}"
    and "\<not> fst (env n)"
  shows "process_tasks (Suc n) env w' = None"
proof -
  have w': "w_conns w' p = None" "m_TaskQueue (m_EventDispatcher w') = tk # q"
    using assms(1-4)
    by (auto simp: CEngineImpl_DestroyConnection_def CConnectionImpl_delete_def sys_close_def Let_def)
  obtain a f where env: "env n = (False, a, f)"
    using assms(7) by (metis (full_types) prod.collapse)
  let ?w = "w'\<lparr>m_EventDispatcher := (m_EventDispatcher w')\<lparr>m_TaskQueue := q\<rparr>\<rparr>"
  have "ProcessTask_switch a f tk ?w = None"
    using assms(5,6) w'(1)
    by (auto simp: ProcessTask_switch_def ProcessAddConnection_def ProcessRemoveConnection_def
        ProcessDoDisconnect_def ProcessConnected_def ProcessDisconnected_def CConnectionImpl_OnConnected_def
        CConnectionImpl_OnDisconnected_def)
  with env w'(2) show ?thesis
    by (simp add: TaskQueue_GetTask_def CEventDispatcher_ProcessTask_def)
qed

text \<open>
  Fact: an engine with a logger can create neither a connection nor an acceptor: the entry that reports
  the success reads the pointer that has just been moved away, so neither function ever returns
  \<open>kSuccess\<close>, whatever the level of the logger.
\<close>

theorem create_needs_null_logger:
  assumes "w_logger w = Some level"
  shows "CEngineImpl_CreateConnection env cfg cb w \<noteq> Some (w', kSuccess) \<and>
    CEngineImpl_CreateAcceptor env cfg cb w \<noteq> Some (w', kSuccess)"
proof -
  have logged: "snd (LOG_EVENT (Some l) kEvent e)" for l e
    by (cases l) (simp_all add: LOG_EVENT_def LOG_BASE_def less_eq_LogLevel_def)
  have c: "w_logger x = w_logger y" if "CConnectionImpl_Init g n b fd k1 k2 c y = (c', x, r)" for g n b fd k1 k2 c c' x y r
    using that
    by (auto simp: CConnectionImpl_Init_def CConnectionImpl_InitBuffer_def net_ops Let_def
        split: option.splits if_splits prod.splits)
  have a: "w_logger x = w_logger y" if "CAcceptorImpl_Init g n fd k a y = (a', x, r)" for g n fd k a a' x y r
    using that by (auto simp: CAcceptorImpl_Init_def net_ops Let_def split: option.splits if_splits)
  show ?thesis
    using assms logged
    by (auto simp: CEngineImpl_CreateConnection_def CEngineImpl_CreateAcceptor_def Let_def dest!: a c
        split: option.splits if_splits prod.splits)
qed

section \<open>Receiving\<close>

text \<open>What a receive returns, and the calls of the client, for the end \<open>out\<close> of its loop.\<close>

fun recv_answer :: "recv_out \<Rightarrow> int" where
  "recv_answer RDone = error_code_value kSuccess"
| "recv_answer (REof n) = sint n"
| "recv_answer (RRecvFailed e) = error_code_value e"
| "recv_answer (RDeliverFailed e) = error_code_value e"

fun recv_errors :: "uint64_t \<Rightarrow> recv_out \<Rightarrow> client_event list" where
  "recv_errors p (RRecvFailed e) = [OnError p]"
| "recv_errors p (RDeliverFailed e) = [OnError p]"
| "recv_errors p out = []"

text \<open>
  The queue of the event dispatcher and the IO dispatchers after the request to close the connection
  \<open>c\<close> at \<open>p\<close>: an asynchronous one is posted to the event dispatcher, a synchronous one to the IO
  dispatcher of its index, which has to exist. A \<open>PostTask\<close> that throws loses the request.
\<close>

definition close_request ::
  "faults \<Rightarrow> uint64_t \<Rightarrow> CConnectionImpl \<Rightarrow> NetWorld \<Rightarrow> (NetTask list \<times> IDispatcher option list) option" where
  "close_request f p c w =
     (let q = m_TaskQueue (m_EventDispatcher w); io = m_vecIODispatchers w; i = unat (m_uIOThreadIndex c) in
      if \<not> m_bIsSyncConnect c then
        Some (q @ (if event_throws f then []
            else [\<lparr>eNetTaskType = kDoDisconnect, funcCallback = nullptr, pCtx = p\<rparr>]), io)
      else if i < length io then
        (case io ! i of
           None \<Rightarrow> None
         | Some d \<Rightarrow> Some (q, io[i := Some (d\<lparr>m_TaskQueue := m_TaskQueue d @ (if io_throws f then []
             else [\<lparr>eNetTaskType = kDoDisconnect, funcCallback = Some (DetachLambda p DetachCallback), pCtx = p\<rparr>])\<rparr>)]))
      else None)"

lemma Close_request:
  assumes "w_conns w p = Some c" "m_iFd c \<noteq> -1"
  shows "case close_request f p c w of
      None \<Rightarrow> CConnectionImpl_Close f p w = None
    | Some (q, io) \<Rightarrow> \<exists>w'. CConnectionImpl_Close f p w = Some w' \<and> w_calls w' = w_calls w \<and>
        w_conns w' = w_conns w \<and> m_TaskQueue (m_EventDispatcher w') = q \<and> m_vecIODispatchers w' = io"
  using assms
  by (simp add: close_request_def CConnectionImpl_Close_def DoTask_disconnect_def ProcessDoDisconnect_def
      DetachConnection2_def net_post_defs net_ops Let_def split: option.split)

text \<open>
  C34: how a receive on an open connection with a callback ends, for every outcome of its loop, for
  asynchronous and synchronous connections, and whether or not posting a task throws. The messages
  that the bytes complete are handed to the client in order and the buffer is the one the loop left;
  then an error of the socket or an invalid message calls \<open>OnError\<close> once and requests the close, the
  end of the stream requests it without \<open>OnError\<close>, and otherwise there is neither. The request is
  one disconnect task, for an asynchronous connection to the event dispatcher, for a synchronous one
  to the IO dispatcher of its index; if \<open>PostTask\<close> throws there is none, and if that IO dispatcher
  does not exist the call is undefined. The call returns the error, the number of bytes received
  before the end of the stream, or success. It is undefined, too, if the loop is.
\<close>

theorem recv_outcome:
  assumes "w_conns w p = Some c" and "m_iFd c \<noteq> -1" and "m_pCallback c = Some k"
  shows "case Recv_loop len sock uSize 0 0 stream (m_ReceiveBuffer c) of
      None \<Rightarrow> CConnectionImpl_Recv len sock f uSize stream p w = None
    | Some (rb, ms, rest, out) \<Rightarrow>
        (case (if out = RDone then Some (m_TaskQueue (m_EventDispatcher w), m_vecIODispatchers w)
               else close_request f p c w) of
           None \<Rightarrow> CConnectionImpl_Recv len sock f uSize stream p w = None
         | Some (q, io) \<Rightarrow> \<exists>w'. CConnectionImpl_Recv len sock f uSize stream p w = Some (w', rest, recv_answer out) \<and>
             w_calls w' = w_calls w @ map (OnMessage p) ms @ recv_errors p out \<and>
             m_TaskQueue (m_EventDispatcher w') = q \<and> m_vecIODispatchers w' = io \<and>
             w_conns w' = (w_conns w)(p \<mapsto> c\<lparr>m_ReceiveBuffer := rb\<rparr>))"
proof (cases "Recv_loop len sock uSize 0 0 stream (m_ReceiveBuffer c)")
  case None
  with assms show ?thesis
    by (simp add: CConnectionImpl_Recv_def)
next
  case (Some res)
  obtain rb ms rest out where res: "res = (rb, ms, rest, out)"
    by (cases res)
  let ?c = "c\<lparr>m_ReceiveBuffer := rb\<rparr>"
  let ?w = "deliver_calls p ms (w\<lparr>w_conns := (w_conns w)(p \<mapsto> ?c)\<rparr>)"
  let ?e = "client_call (OnError p) (net_error kSystemError ?w)"
  have w: "w_conns ?w p = Some ?c" "m_iFd ?c \<noteq> -1" "w_conns ?e p = Some ?c"
    using assms by (simp_all add: deliver_calls_def client_call_def net_ops)
  have same: "close_request f p ?c ?w = close_request f p c w" "close_request f p ?c ?e = close_request f p c w"
    by (simp_all add: close_request_def deliver_calls_def client_call_def net_ops Let_def)
  have err: "CConnectionImpl_OnError p (net_error kSystemError ?w) = Some ?e"
    using assms by (simp add: CConnectionImpl_OnError_def deliver_calls_def net_ops)
  have frame: "w_calls ?w = w_calls w @ map (OnMessage p) ms" "w_calls ?e = w_calls w @ map (OnMessage p) ms @ [OnError p]"
    "w_conns ?w = (w_conns w)(p \<mapsto> ?c)" "w_conns ?e = (w_conns w)(p \<mapsto> ?c)"
    "m_EventDispatcher ?w = m_EventDispatcher w" "m_vecIODispatchers ?w = m_vecIODispatchers w"
    by (simp_all add: deliver_calls_def client_call_def net_ops)
  have R: "CConnectionImpl_Recv len sock f uSize stream p w =
    (case out of
       RDone \<Rightarrow> Some (?w, rest, recv_answer out)
     | REof n \<Rightarrow> map_option (\<lambda>w. (w, rest, recv_answer out)) (CConnectionImpl_Close f p ?w)
     | RRecvFailed e \<Rightarrow> map_option (\<lambda>w. (w, rest, recv_answer out)) (CConnectionImpl_Close f p ?e)
     | RDeliverFailed e \<Rightarrow> map_option (\<lambda>w. (w, rest, recv_answer out)) (CConnectionImpl_Close f p ?e))"
    using assms Some err by (simp add: CConnectionImpl_Recv_def res Let_def split: recv_out.split)
  note cw = Close_request [OF w(1,2), of f] and ce = Close_request [OF w(3,2), of f]
  show ?thesis
    unfolding Some res prod.case option.case R
    using cw ce unfolding same frame
    by (cases out) (auto simp: frame split: option.splits)
qed

text \<open>
  Fact: an IO dispatcher reads nothing. Its batch size is 0 and never changes, and \<open>Recv\<close> takes it for the
  number of bytes to read: when the epoll set reports that an open connection has data, the state stays
  as it is, whatever the socket holds.
\<close>

theorem io_dispatcher_reads_nothing:
  assumes "w_conns w p = Some c" and "m_iFd c \<noteq> -1"
  shows "io_event send len sock f stream (p, EPOLLIN) w = Some w"
proof -
  have "CConnectionImpl_Recv len sock f 0 stream p w = Some (w, stream, 0)"
    using assms by (simp add: CConnectionImpl_Recv_def Recv_loop_zero deliver_calls_def fun_upd_idem)
  moreover have "(EPOLLIN AND EPOLLIN) \<noteq> 0" "(EPOLLIN AND EPOLLOUT) = 0" "(EPOLLIN AND EPOLLERR) = 0"
    by (simp_all add: EPOLLIN_def EPOLLOUT_def EPOLLERR_def)
  ultimately show ?thesis
    by (simp add: io_event_def m_uBatchSendRecvSize_def)
qed

section \<open>Witnesses\<close>

text \<open>
  An engine without logger that is initialised, has a connection at address 64 with descriptor 7 and an
  acceptor at address 2048 with descriptor 8, which is then started.
\<close>

definition demo_block :: "nat \<Rightarrow> uint8_t list" where
  "demo_block n = replicate n 0"

definition demo_create :: "uint64_t \<Rightarrow> int \<Rightarrow> create_env" where
  "demo_create p fd = \<lparr>cr_new = Some p, cr_assigned = 9, cr_fd = fd, cr_ok = True, cr_rcv_ok = True,
     cr_buffers = \<lparr>be_alloc = Some (\<lambda>n. Some (demo_block n)), be_lock = Some 8, be_send = (Some 512, Some 65536),
       be_priority = (Some 1024, Some 131072), be_junk = 0\<rparr>, cr_insert_throws = False\<rparr>"

definition demo_sys :: dispatcher_sys where
  "demo_sys = (True, True, 5, True)"

definition demo_engine1 :: NetWorld where
  "demo_engine1 = fst (CEngineImpl_Init (Some empty_config) True True demo_sys (\<lambda>_. (Some 32, demo_sys)) (CEngineImpl_ctor None))"

definition demo_engine2 :: NetWorld where
  "demo_engine2 = fst (the (CEngineImpl_CreateConnection (demo_create 64 7) (Some empty_config) (Some 0) demo_engine1))"

definition demo_engine3 :: NetWorld where
  "demo_engine3 = fst (the (CEngineImpl_CreateAcceptor (demo_create 2048 8) (Some empty_config) (Some 0) demo_engine2))"

definition demo_engine4 :: NetWorld where
  "demo_engine4 = fst (the (CAcceptorImpl_Start no_faults 2048 demo_engine3))"

lemmas demo_defs = demo_create_def demo_sys_def empty_config_def CEngineImpl_ctor_def net_ops
  IAllocatorEx_New_def CAllocatorImpl_Malloc_def LOG_EVENT_def LOG_BASE_def

lemma demo1:
  "\<exists>r. CEngineImpl_Init (Some empty_config) True True demo_sys (\<lambda>_. (Some 32, demo_sys)) (CEngineImpl_ctor None) = (demo_engine1, r)"
  unfolding demo_engine1_def by (metis prod.collapse)

lemma demo1_fields:
  "w_conns demo_engine1 = Map.empty" "w_accs demo_engine1 = Map.empty" "w_opened demo_engine1 = {}"
  "w_logger demo_engine1 = None" "m_uNextConnectionID demo_engine1 = 1" "m_uNextAcceptorID demo_engine1 = 1"
  "m_setAcceptor demo_engine1 = {}" "regs demo_engine1 = Map.empty"
  "\<exists>d. m_vecIODispatchers demo_engine1 = [Some d]"
  by (simp_all add: demo_engine1_def demo_defs CEngineImpl_Init_def CEventDispatcher_Init_def CIODispatcher_Init_def
      dispatcher_Init_def IDispatcher_Init_def IDispatcher_default_def Epoll_Init_def Epoll_default_def
      CThreadImpl_Bind_def CThreadImpl_ctor_def Let_def)

lemma demo2:
  "CEngineImpl_CreateConnection (demo_create 64 7) (Some empty_config) (Some 0) demo_engine1 = Some (demo_engine2, kSuccess)"
  "create_fresh (demo_create 64 7) demo_engine1"
  using demo1_fields
  by (simp_all add: demo_engine2_def CEngineImpl_CreateConnection_def CConnectionImpl_Init_def demo_defs
      CConnectionImpl_ctor_def CConnectionImpl_default_def connection_settings_def apply_settings_def
      CConnectionImpl_InitBuffer_def rb_Init_def rb_default_def SendBuffer_Init_def SendBuffer_default_def SpinLock_Create_def
      SPSCFixed_Create_def SPSCFixed_Init_def send_config_def Up2_1024 ALIGN8_def ALIGNN_def create_fresh_def Let_def)

lemma demo2_fields:
  "\<exists>c. w_conns demo_engine2 64 = Some c \<and> m_uID c = 1" "p \<noteq> 64 \<Longrightarrow> w_conns demo_engine2 p = None" "w_accs demo_engine2 = Map.empty" "w_opened demo_engine2 = {7}"
  "w_logger demo_engine2 = None" "m_uNextAcceptorID demo_engine2 = 1"
  "m_setAcceptor demo_engine2 = {}" "regs demo_engine2 = Map.empty" "m_umapConnection demo_engine2 1 = Some 64"
  "m_vecIODispatchers demo_engine2 = m_vecIODispatchers demo_engine1"
  using demo1_fields
  by (simp_all add: demo_engine2_def CEngineImpl_CreateConnection_def CConnectionImpl_Init_def demo_defs
      CConnectionImpl_ctor_def CConnectionImpl_default_def connection_settings_def apply_settings_def
      CConnectionImpl_InitBuffer_def rb_Init_def rb_default_def SendBuffer_Init_def SendBuffer_default_def SpinLock_Create_def
      SPSCFixed_Create_def SPSCFixed_Init_def send_config_def Up2_1024 ALIGN8_def ALIGNN_def Let_def)

lemma demo3:
  "CEngineImpl_CreateAcceptor (demo_create 2048 8) (Some empty_config) (Some 0) demo_engine2 = Some (demo_engine3, kSuccess)"
  "create_fresh (demo_create 2048 8) demo_engine2"
  "\<exists>a. w_accs demo_engine3 = [2048 \<mapsto> a] \<and> acc_iFd a = 8" "w_opened demo_engine3 = {7, 8}" "m_setAcceptor demo_engine3 = {}"
  "regs demo_engine3 = Map.empty" "w_conns demo_engine3 = w_conns demo_engine2"
  using demo2_fields
  by (auto simp: demo_engine3_def CEngineImpl_CreateAcceptor_def CAcceptorImpl_Init_def demo_defs
      CAcceptorImpl_ctor_def acceptor_settings_def apply_settings_def create_fresh_def Let_def)

lemma demo4:
  "CAcceptorImpl_Start no_faults 2048 demo_engine3 = Some (demo_engine4, kSuccess)" "regs demo_engine4 8 = Some (2048, EPOLLIN)"
  "w_accs demo_engine4 = w_accs demo_engine3" "w_conns demo_engine4 = w_conns demo_engine2" "w_opened demo_engine4 = {7, 8}"
  using demo3(3-7)
  by (auto simp: demo_engine4_def CAcceptorImpl_Start_def acceptor_task_def CEventDispatcher_DoTask_def
      CEventDispatcher_ProcessTask_def ProcessTask_switch_def ProcessAddAcceptor_def event_epoll_def Epoll_Add_def
      no_faults_def Let_def)

lemma demo_reach:
  "net_step\<^sup>*\<^sup>* (CEngineImpl_ctor None) demo_engine2" "net_step\<^sup>*\<^sup>* (CEngineImpl_ctor None) demo_engine4"
proof -
  have "net_step (CEngineImpl_ctor None) demo_engine1"
    using demo1 by (auto intro: init)
  moreover have "net_step demo_engine1 demo_engine2"
    using create_connection [OF demo2] demo1_fields by simp
  ultimately show r: "net_step\<^sup>*\<^sup>* (CEngineImpl_ctor None) demo_engine2"
    by simp
  have "net_step demo_engine2 demo_engine3"
    using create_acceptor [OF demo3(1,2)] demo2_fields by simp
  moreover have "net_step demo_engine3 demo_engine4"
    using acceptor_start [OF demo4(1)] .
  ultimately show "net_step\<^sup>*\<^sup>* (CEngineImpl_ctor None) demo_engine4"
    using r by simp
qed

lemma registrations_live_witness:
  "(8 :: int) \<in> w_opened demo_engine4 \<and> ((\<exists>c. w_conns demo_engine4 2048 = Some c \<and> m_iFd c = 8) \<or>
     (\<exists>a. w_accs demo_engine4 2048 = Some a \<and> acc_iFd a = 8))"
  by (rule registrations_live [OF demo_reach(2) demo4(2)])

lemma destroy_connection_exact_witness:
  "\<exists>w'. CEngineImpl_DestroyConnection (Some 64) demo_engine2 = Some w' \<and> w_conns w' = (w_conns demo_engine2)(64 := None)"
proof -
  obtain c where c: "w_conns demo_engine2 64 = Some c" "m_uID c = 1"
    using demo2_fields(1) by auto
  from destroy_connection_exact [OF demo_reach(1) c(1)] c(2) show ?thesis
    by auto
qed

lemma detach_goes_to_first_witness:
  "\<exists>w'. DetachConnection no_faults (Some 64) demo_engine2 = Some (w', kSuccess)"
proof -
  obtain c where c: "w_conns demo_engine2 64 = Some c"
    using demo2_fields(1) by auto
  obtain d where d: "m_vecIODispatchers demo_engine2 = Some d # []"
    using demo1_fields(9) demo2_fields(10) by auto
  have "\<not> io_throws no_faults"
    by (simp add: no_faults_def)
  from detach_goes_to_first [OF demo_reach(1) c d this] show ?thesis
    by blast
qed

text \<open>Single states for the other properties.\<close>

definition demo_world :: "CConnectionImpl \<Rightarrow> NetWorld" where
  "demo_world c = (CEngineImpl_ctor None)\<lparr>w_opened := {7}, w_conns := [64 \<mapsto> c], m_umapConnection := [1 \<mapsto> 64],
     m_vecIODispatchers := [Some IDispatcher_default, Some IDispatcher_default]\<rparr>"

definition demo_conn :: CConnectionImpl where
  "demo_conn = (CConnectionImpl_ctor 1 (Some 0))\<lparr>m_iFd := 7\<rparr>"

lemmas demo_world_defs = demo_world_def demo_conn_def CEngineImpl_ctor_def CConnectionImpl_ctor_def
  CConnectionImpl_default_def IDispatcher_default_def no_faults_def

lemma attach_round_robin_witness:
  "\<exists>w'. attach_all [8, 16, 24] (demo_world demo_conn) = Some w' \<and> io_load w' 0 = [8, 24] \<and> io_load w' 1 = [16]"
proof -
  let ?w = "demo_world demo_conn"
  have w: "m_vecIODispatchers ?w = [Some IDispatcher_default, Some IDispatcher_default]" "m_uNextIODispatcherIndex ?w = 0"
    by (simp_all add: demo_world_def CEngineImpl_ctor_def)
  have "\<exists>w'. attach_all [8, 16, 24] ?w = Some w' \<and> (\<forall>i < length (m_vecIODispatchers ?w). io_load w' i = io_load ?w i @
      map (\<lambda>k. [8, 16, 24] ! k) (filter (\<lambda>k. (unat (m_uNextIODispatcherIndex ?w) + k) mod length (m_vecIODispatchers ?w) = i)
        [0..<length [8, 16, 24 :: uint64_t]]))"
    by (rule attach_round_robin) (simp_all add: w)
  then obtain w' where w': "attach_all [8, 16, 24] ?w = Some w'"
    and load: "\<forall>i < length (m_vecIODispatchers ?w). io_load w' i = io_load ?w i @
      map (\<lambda>k. [8, 16, 24] ! k) (filter (\<lambda>k. (unat (m_uNextIODispatcherIndex ?w) + k) mod length (m_vecIODispatchers ?w) = i)
        [0..<length [8, 16, 24 :: uint64_t]])"
    by blast
  have "io_load ?w 0 = []" "io_load ?w 1 = []"
    using w by (simp_all add: io_load_def IDispatcher_default_def)
  then have "io_load w' 0 = [8, 24]" "io_load w' 1 = [16]"
    using load [rule_format, of 0] load [rule_format, of 1] w by simp_all
  with w' show ?thesis
    by blast
qed

definition demo_accept :: accept_env where
  "demo_accept = accept_again\<lparr>ae_accept := AcceptFd 9 ''10.0.0.1'' 4000, ae_new := Some 128, ae_throws := True\<rparr>"

lemma accept_keeps_descriptors_witness:
  "\<exists>w'. CAcceptorImpl_Accept demo_accept 2048 demo_engine4 = Some (w', nullptr) \<and> w_opened w' = w_opened demo_engine4"
proof -
  obtain a where a: "w_accs demo_engine3 = [2048 \<mapsto> a]" "acc_iFd a = 8"
    using demo3(3) by blast
  have four: "w_accs demo_engine4 2048 = Some a" "w_conns demo_engine4 128 = None" "w_opened demo_engine4 = {7, 8}"
    using demo4(3-5) a demo2_fields(2) by simp_all
  have fresh: "accept_fresh demo_accept demo_engine4"
    using four by (simp add: accept_fresh_def demo_accept_def accept_again_def)
  have fd: "ae_accept demo_accept = AcceptFd 9 ''10.0.0.1'' 4000" "ae_new demo_accept = Some 128"
    by (simp_all add: demo_accept_def)
  obtain w' where w': "CAcceptorImpl_Accept demo_accept 2048 demo_engine4 = Some (w', nullptr)"
    using four a(2)
    by (auto simp: CAcceptorImpl_Accept_def demo_accept_def accept_again_def IAllocatorEx_New_def CAllocatorImpl_Malloc_def
        accept_reject_def CConnectionImpl_delete_def net_ops Let_def)
  from accept_keeps_descriptors [OF w' fresh fd(1) four(1)] a(2) fd(2) w' show ?thesis
    by simp
qed

lemma close_posts_once_witness:
  "\<exists>w'. CConnectionImpl_Close no_faults 64 (demo_world demo_conn) = Some w' \<and>
     map pCtx (m_TaskQueue (m_EventDispatcher w')) = [64]"
proof -
  have "CConnectionImpl_Close no_faults 64 (demo_world demo_conn) = Some
    ((demo_world demo_conn)\<lparr>m_EventDispatcher := (m_EventDispatcher (demo_world demo_conn))\<lparr>m_TaskQueue :=
      m_TaskQueue (m_EventDispatcher (demo_world demo_conn)) @
      [\<lparr>eNetTaskType = kDoDisconnect, funcCallback = nullptr, pCtx = 64\<rparr>]\<rparr>\<rparr>)"
    by (subst close_posts_once [where c = demo_conn and d = IDispatcher_default and ds = "[Some IDispatcher_default]"])
      (simp_all add: demo_world_defs)
  then show ?thesis
    by (simp add: demo_world_defs)
qed

definition demo_registered :: NetWorld where
  "demo_registered = (let w = demo_world demo_conn in w\<lparr>m_setConnection := {64},
     m_EventDispatcher := IDispatcher_default\<lparr>m_EpollImpl := \<lparr>m_iEpollFd = 5, registered = [7 \<mapsto> (64, EPOLLIN)]\<rparr>\<rparr>\<rparr>)"

definition demo_event :: event_env where
  "demo_event = \<lparr>ee_pending = [], ee_status = Some 0, ee_answer = kSuccess, ee_faults = no_faults\<rparr>"

lemma connection_event_strands_witness:
  "\<exists>w'. CEventDispatcher_ProcessEvent demo_event (64, EPOLLIN) demo_registered = Some w' \<and>
     64 \<notin> m_setConnection w' \<and> regs w' 7 = Some (64, EPOLLIN)"
proof -
  have r: "regs demo_registered 7 = Some (64, EPOLLIN)" "data_fd 64 \<noteq> 7" "64 \<in> m_setConnection demo_registered"
    "64 \<notin> m_setAcceptor demo_registered"
    by (simp_all add: demo_registered_def demo_world_defs data_fd_def Let_def)
  obtain w' where w': "CEventDispatcher_ProcessEvent demo_event (64, EPOLLIN) demo_registered = Some w'"
    by (simp add: CEventDispatcher_ProcessEvent_def ProcessConnectionEvent_def CConnectionImpl_OnConnected_def
        demo_event_def demo_registered_def demo_world_defs EPOLLIN_def Let_def)
  from connection_event_strands [OF r w', of demo_event EPOLLIN] w' show ?thesis
    by blast
qed

definition demo_pending :: NetWorld where
  "demo_pending = (demo_world demo_conn)\<lparr>m_EventDispatcher := IDispatcher_default\<lparr>m_TaskQueue :=
     [\<lparr>eNetTaskType = kAddConnection, funcCallback = nullptr, pCtx = 64\<rparr>]\<rparr>\<rparr>"

lemma destroy_with_pending_task_witness:
  "\<exists>w'. CEngineImpl_DestroyConnection (Some 64) demo_pending = Some w' \<and>
     process_tasks 16 (\<lambda>_. (False, kSuccess, no_faults)) w' = None"
proof -
  have p: "w_conns demo_pending 64 = Some demo_conn" "m_umapConnection demo_pending (m_uID demo_conn) = Some 64"
    "m_TaskQueue (m_EventDispatcher demo_pending) = [\<lparr>eNetTaskType = kAddConnection, funcCallback = nullptr, pCtx = 64\<rparr>]"
    by (simp_all add: demo_pending_def demo_world_defs)
  then obtain w' where w': "CEngineImpl_DestroyConnection (Some 64) demo_pending = Some w'"
    by (auto simp: CEngineImpl_DestroyConnection_def CConnectionImpl_delete_def Let_def)
  have "process_tasks (Suc 15) (\<lambda>_. (False, kSuccess, no_faults)) w' = None"
    by (rule destroy_with_pending_task [OF p(1,2) w' p(3)]) simp_all
  with w' show ?thesis
    by (simp add: numeral_eq_Suc)
qed

lemma create_needs_null_logger_witness:
  "\<forall>w'. CEngineImpl_CreateConnection (demo_create 64 7) (Some empty_config) (Some 0) (CEngineImpl_ctor (Some kFatal_lvl)) \<noteq>
     Some (w', kSuccess)"
  using create_needs_null_logger [of "CEngineImpl_ctor (Some kFatal_lvl)" kFatal_lvl] by (simp add: CEngineImpl_ctor_def)

lemma recv_outcome_witness:
  "(\<exists>w' r. CConnectionImpl_Recv (\<lambda>_. 0) (\<lambda>_. (demo_malloc, CFail)) no_faults 10 [] 64
       (demo_world (demo_conn\<lparr>m_ReceiveBuffer := demo_buffer\<rparr>)) = Some (w', [], r) \<and> w_calls w' = [OnError 64]) \<and>
   CConnectionImpl_Recv (\<lambda>_. 0) (\<lambda>_. (demo_malloc, CFail)) no_faults 10 [] 64
       (demo_world (demo_conn\<lparr>m_ReceiveBuffer := demo_buffer, m_bIsSyncConnect := True, m_uIOThreadIndex := 7\<rparr>)) = None"
proof -
  let ?c = "demo_conn\<lparr>m_ReceiveBuffer := demo_buffer\<rparr>"
  let ?d = "?c\<lparr>m_bIsSyncConnect := True, m_uIOThreadIndex := 7\<rparr>"
  have r: "Recv_loop (\<lambda>_. 0) (\<lambda>_. (demo_malloc, CFail)) 10 0 0 [] demo_buffer =
      Some (demo_buffer, [], [], RRecvFailed kSystemError)"
    by (simp add: Recv_loop.simps rb_Recv_def demo_buffer_def)
  have c: "w_conns (demo_world ?c) 64 = Some ?c" "m_iFd ?c \<noteq> -1" "m_pCallback ?c = Some 0"
    "\<not> m_bIsSyncConnect ?c" "w_calls (demo_world ?c) = []"
    by (simp_all add: demo_world_defs)
  have d: "w_conns (demo_world ?d) 64 = Some ?d" "m_iFd ?d \<noteq> -1" "m_pCallback ?d = Some 0"
    "close_request no_faults 64 ?d (demo_world ?d) = None"
    by (simp_all add: demo_world_defs close_request_def Let_def)
  from recv_outcome [OF c(1-3), where len = "\<lambda>_. 0" and sock = "\<lambda>_. (demo_malloc, CFail)" and uSize = 10
      and stream = "[]" and f = no_faults]
    recv_outcome [OF d(1-3), where len = "\<lambda>_. 0" and sock = "\<lambda>_. (demo_malloc, CFail)" and uSize = 10
      and stream = "[]" and f = no_faults] c(4,5) d(4) r
  show ?thesis
    by (auto simp: close_request_def Let_def)
qed

lemma io_dispatcher_reads_nothing_witness:
  "io_event (\<lambda>_ _. Some) demo_len (\<lambda>_. (demo_malloc, CData 3)) no_faults [1, 7, 2, 5] (64, EPOLLIN) (demo_world demo_conn) =
     Some (demo_world demo_conn)"
  by (rule io_dispatcher_reads_nothing [of _ _ demo_conn]) (simp_all add: demo_world_defs)

end
