(* ===== verification/Printf.thy ===== *)
theory Printf
  imports Prelude "HOL-Library.Char_ord"
begin

text \<open>
  What the logger uses of \<open>printf\<close>: decimal numbers and \<open>snprintf\<close> into a buffer.
\<close>

section \<open>Decimal numbers\<close>

definition digit_char :: "nat \<Rightarrow> char" where
  "digit_char d = char_of (48 + d)"

fun decimal :: "nat \<Rightarrow> string" where
  "decimal n = (if n < 10 then [digit_char n] else decimal (n div 10) @ [digit_char (n mod 10)])"

declare decimal.simps [simp del]

text \<open>\<open>%d\<close>, and \<open>%0kd\<close>.\<close>

definition decimal_int :: "int \<Rightarrow> string" where
  "decimal_int i = (if i < 0 then CHR ''-'' # decimal (nat (- i)) else decimal (nat i))"

definition decimal_pad :: "nat \<Rightarrow> int \<Rightarrow> string" where
  "decimal_pad k i =
     (if i < 0 then CHR ''-'' # replicate (k - 1 - length (decimal (nat (- i)))) CHR ''0'' @ decimal (nat (- i))
      else replicate (k - length (decimal (nat i))) CHR ''0'' @ decimal (nat i))"

text \<open>Reading a number back.\<close>

definition char_digit :: "char \<Rightarrow> nat" where
  "char_digit c = of_char c - 48"

fun read_decimal :: "nat \<Rightarrow> string \<Rightarrow> nat" where
  "read_decimal acc [] = acc"
| "read_decimal acc (c # cs) = read_decimal (10 * acc + char_digit c) cs"

fun read_int :: "string \<Rightarrow> int" where
  "read_int [] = 0"
| "read_int (c # cs) = (if c = CHR ''-'' then - int (read_decimal 0 cs) else int (read_decimal 0 (c # cs)))"

lemma char_digit_digit: "d < 10 \<Longrightarrow> char_digit (digit_char d) = d"
  by (simp add: char_digit_def digit_char_def of_char_of)

lemma digit_not_minus: "d < 10 \<Longrightarrow> digit_char d \<noteq> CHR ''-''"
  using char_digit_digit [of d] by (auto simp: digit_char_def dest!: arg_cong [where f = "of_char :: char \<Rightarrow> nat"])

lemma read_decimal_append: "read_decimal acc (xs @ ys) = read_decimal (read_decimal acc xs) ys"
  by (induction xs arbitrary: acc) simp_all

lemma read_decimal_decimal: "read_decimal 0 (decimal n) = n"
proof (induction n rule: decimal.induct)
  case (1 n)
  show ?case
  proof (cases "n < 10")
    case True
    then show ?thesis
      by (simp add: decimal.simps [of n] char_digit_digit)
  next
    case False
    then show ?thesis
      using 1 by (simp add: decimal.simps [of n] read_decimal_append char_digit_digit)
  qed
qed

lemma decimal_nonempty: "decimal n \<noteq> []"
  by (simp add: decimal.simps [of n])

lemma decimal_hd: "hd (decimal n) \<noteq> CHR ''-''"
proof (induction n rule: decimal.induct)
  case (1 n)
  then show ?case
    by (cases "n < 10") (simp_all add: decimal.simps [of n] digit_not_minus decimal_nonempty)
qed

lemma read_int_decimal: "read_int (decimal_int i) = i"
proof -
  have "read_int (decimal n) = int n" for n
    using read_decimal_decimal [of n] decimal_hd [of n] decimal_nonempty [of n]
    by (cases "decimal n") simp_all
  then show ?thesis
    by (simp add: decimal_int_def read_decimal_decimal)
qed

text \<open>The number of digits.\<close>

lemma decimal_length: "n < 10 ^ k \<Longrightarrow> 0 < k \<Longrightarrow> length (decimal n) \<le> k"
proof (induction n arbitrary: k rule: decimal.induct)
  case (1 n)
  show ?case
  proof (cases "n < 10")
    case True
    with 1(3) show ?thesis
      by (simp add: decimal.simps [of n])
  next
    case False
    then obtain j where j: "k = Suc j" "0 < j"
      using 1(2,3) by (cases k; cases "k - 1") simp_all
    then have "n div 10 < 10 ^ j"
      using 1(2) by (simp add: less_mult_imp_div_less)
    with 1(1) False j show ?thesis
      by (simp add: decimal.simps [of n])
  qed
qed

lemma decimal_pad_length:
  assumes "0 \<le> i" "i < 10 ^ k" "0 < k"
  shows "length (decimal_pad k i) = k"
proof -
  have "nat i < 10 ^ k"
    using assms(1,2) by (simp add: nat_less_iff)
  then show ?thesis
    using decimal_length [of "nat i" k] assms by (simp add: decimal_pad_def)
qed

section \<open>snprintf\<close>

text \<open>
  A buffer of \<open>cap\<close> bytes; writing past its end is undefined behaviour. \<open>put_string\<close> stores the characters
  from position \<open>i\<close> on.
\<close>

fun put_string :: "nat \<Rightarrow> nat \<Rightarrow> string \<Rightarrow> (nat \<Rightarrow> char) \<Rightarrow> (nat \<Rightarrow> char) option" where
  "put_string cap i [] buf = Some buf"
| "put_string cap i (c # cs) buf = (if i < cap then put_string cap (Suc i) cs (buf(i := c)) else None)"

text \<open>
  \<open>snprintf (buf + i, n, \<dots>)\<close> for the text \<open>s\<close>: at most \<open>n - 1\<close> characters and the terminating zero. It
  returns the length of \<open>s\<close>, or a negative number when that is not an \<open>int\<close>. \<open>buf + i\<close> may point one past
  the end of the buffer and no further.
\<close>

definition snprintf_at :: "nat \<Rightarrow> nat \<Rightarrow> nat \<Rightarrow> string \<Rightarrow> (nat \<Rightarrow> char) \<Rightarrow> ((nat \<Rightarrow> char) \<times> int) option" where
  "snprintf_at cap i n s buf =
     (if cap < i then None
      else map_option (\<lambda>b. (b, if length s < 2 ^ 31 then int (length s) else -1))
        (if n = 0 then Some buf else put_string cap i (take (n - 1) s @ [CHR 0x00]) buf))"

definition text_of :: "(nat \<Rightarrow> char) \<Rightarrow> nat \<Rightarrow> string" where
  "text_of buf n = map buf [0..<n]"

lemma put_string_ok:
  "i + length s \<le> cap \<Longrightarrow> \<exists>buf'. put_string cap i s buf = Some buf' \<and> text_of buf' (i + length s) = text_of buf i @ s"
proof (induction s arbitrary: i buf)
  case (Cons c s)
  then have i: "i < cap" by simp
  have "Suc i + length s \<le> cap"
    using Cons.prems by simp
  from Cons.IH [OF this] obtain buf' where b: "put_string cap (Suc i) s (buf(i := c)) = Some buf'"
    "text_of buf' (Suc i + length s) = text_of (buf(i := c)) (Suc i) @ s"
    by blast
  have "text_of (buf(i := c)) (Suc i) = text_of buf i @ [c]"
    by (simp add: text_of_def)
  with b i show ?case
    by simp
qed (simp add: text_of_def)

lemma text_of_shorter: "text_of buf n = xs \<Longrightarrow> m \<le> n \<Longrightarrow> text_of buf m = take m xs"
  by (auto simp: text_of_def take_map)

lemma snprintf_ok:
  assumes "i + length s < cap" "n = cap - i" "length s < 2 ^ 31"
  shows "\<exists>buf'. snprintf_at cap i n s buf = Some (buf', int (length s)) \<and> text_of buf' (i + length s) = text_of buf i @ s \<and>
    buf' (i + length s) = CHR 0x00"
proof -
  have n: "take (n - 1) s = s" "n \<noteq> 0" "\<not> cap < i"
    using assms by simp_all
  obtain buf' where b: "put_string cap i (s @ [CHR 0x00]) buf = Some buf'"
    "text_of buf' (i + length (s @ [CHR 0x00])) = text_of buf i @ s @ [CHR 0x00]"
    using put_string_ok [of i "s @ [CHR 0x00]" cap buf] assms(1) by auto
  have "text_of buf' (i + length s) = text_of buf i @ s" "buf' (i + length s) = CHR 0x00"
    using b(2) by (simp_all add: text_of_def)
  with b n assms(3) show ?thesis
    by (simp add: snprintf_at_def)
qed

text \<open>With \<open>n\<close> the room that is left, it never writes past the end, cutting the text off.\<close>

lemma snprintf_truncates:
  assumes "i \<le> cap" "n = cap - i" "length s < 2 ^ 31"
  shows "\<exists>buf'. snprintf_at cap i n s buf = Some (buf', int (length s))"
proof (cases "n = 0")
  case False
  then have "i + length (take (n - 1) s @ [CHR 0x00]) \<le> cap"
    using assms(1,2) by simp
  from put_string_ok [OF this, of buf] show ?thesis
    using False assms by (auto simp: snprintf_at_def)
qed (use assms in \<open>simp add: snprintf_at_def\<close>)

section \<open>Lengths of numbers, and C strings\<close>

lemma decimal_int_nat: "decimal_int (int n) = decimal n"
  by (simp add: decimal_int_def)

lemma decimal_int_length:
  assumes "- (10 ^ k) < i" "i < 10 ^ k" "0 < k"
  shows "length (decimal_int i) \<le> Suc k"
proof -
  have "nat (- i) < 10 ^ k" "nat i < 10 ^ k"
    using assms(1,2) by (simp_all add: nat_less_iff)
  then show ?thesis
    using decimal_length [of "nat (- i)" k] decimal_length [of "nat i" k] assms(3) by (auto simp: decimal_int_def)
qed

lemma decimal_word_length:
  assumes "2 ^ LENGTH('a) \<le> (10 :: nat) ^ k" "0 < k"
  shows "length (decimal (unat (w :: 'a::len word))) \<le> k"
proof (rule decimal_length)
  have "unat w < 2 ^ LENGTH('a)"
    by (rule unsigned_less)
  with assms(1) show "unat w < 10 ^ k"
    by linarith
qed (rule assms(2))

lemma decimal_signed_length:
  assumes "2 ^ (LENGTH('a) - Suc 0) < (10 :: int) ^ k" "0 < k"
  shows "length (decimal_int (sint (w :: 'a::len word))) \<le> Suc k"
proof (rule decimal_int_length)
  show "- (10 ^ k) < sint w" "sint w < 10 ^ k"
    using assms(1) sint_greater_eq [of w] sint_less [of w] by simp_all
qed (rule assms(2))

lemma digit_char_not_nul: "d < 10 \<Longrightarrow> digit_char d \<noteq> CHR 0x00"
  by (auto simp: digit_char_def dest!: arg_cong [where f = "of_char :: char \<Rightarrow> nat"])

lemma decimal_no_nul: "CHR 0x00 \<notin> set (decimal n)"
proof (induction n rule: decimal.induct)
  case (1 n)
  then show ?case
    by (cases "n < 10") (auto simp: decimal.simps [of n] digit_char_not_nul digit_char_not_nul [symmetric])
qed

text \<open>A C string in a buffer.\<close>

lemma c_string_of:
  assumes "text_of b n = s" "CHR 0x00 \<notin> set s" "b n = CHR 0x00" "n < k"
  shows "takeWhile (\<lambda>c. c \<noteq> CHR 0x00) (text_of b k) = s"
proof -
  have "[0..<k] = [0..<n] @ n # [Suc n..<k]"
    using assms(4) by (metis upt_add_eq_append upt_conv_Cons less_imp_le_nat le0 le_add_diff_inverse)
  then have "text_of b k = s @ CHR 0x00 # map b [Suc n..<k]"
    using assms(1,3) by (simp add: text_of_def)
  moreover have "\<forall>c \<in> set s. c \<noteq> CHR 0x00"
    using assms(2) by auto
  ultimately show ?thesis
    by (simp add: takeWhile_append2)
qed

end
