(* ===== verification/WrapParam.thy ===== *)
theory WrapParam
  imports Printf
begin

text \<open>
  The \<open>Wrap\<close> helpers of \<open>base/include/logger/logger_ex.h\<close>, which turn a parameter of a log line into a
  string: what \<open>snprintf\<close> prints for each type, with \<open>%f\<close> on IEEE 754 values, and the buffer that holds it.
\<close>

section \<open>Floating-point values\<close>

text \<open>
  A finite value is its sign, and the number \<open>n * 2 ^ k\<close>. \<open>fp_of_bits\<close> reads the bits of a type with \<open>eb\<close>
  bits of exponent and \<open>mb\<close> of fraction.
\<close>

datatype fp = FpFinite bool nat int | FpInf bool | FpNan bool

definition fp_of_bits :: "nat \<Rightarrow> nat \<Rightarrow> 'w::len word \<Rightarrow> fp" where
  "fp_of_bits eb mb w =
     (let s = bit w (eb + mb);
          f = unat (take_bit mb w);
          e = unat (take_bit eb (drop_bit mb w));
          bias = 2 ^ (eb - 1) - 1
      in if e = 2 ^ eb - 1 then (if f = 0 then FpInf s else FpNan s)
         else if e = 0 then FpFinite s f (1 - bias - int mb)
         else FpFinite s (2 ^ mb + f) (int e - bias - int mb))"

text \<open>\<open>n * 2 ^ k\<close> in millionths, rounded to the nearest one and to the even one of two.\<close>

definition round_half_even :: "nat \<Rightarrow> nat \<Rightarrow> nat" where
  "round_half_even a d =
     (let q = a div d; r = a mod d in if 2 * r < d \<or> 2 * r = d \<and> even q then q else q + 1)"

definition millionths :: "nat \<Rightarrow> int \<Rightarrow> nat" where
  "millionths n k = round_half_even (n * 10 ^ 6 * 2 ^ nat k) (2 ^ nat (- k))"

text \<open>The text of \<open>%f\<close>.\<close>

definition minus_sign :: "bool \<Rightarrow> string" where
  "minus_sign s = (if s then ''-'' else '''')"

definition print_millionths :: "nat \<Rightarrow> string" where
  "print_millionths m = decimal (m div 10 ^ 6) @ CHR ''.'' # decimal_pad 6 (int (m mod 10 ^ 6))"

fun print_fp :: "fp \<Rightarrow> string" where
  "print_fp (FpFinite s n k) = minus_sign s @ print_millionths (millionths n k)"
| "print_fp (FpInf s) = minus_sign s @ ''inf''"
| "print_fp (FpNan s) = minus_sign s @ ''nan''"

section \<open>Wrap\<close>

text \<open>
  A value of one of the types that \<open>FormatHelper\<close> and \<open>SizeHelper\<close> are specialised for. A \<open>float\<close> is passed
  as the \<open>double\<close> of the same value.
\<close>

datatype wrap_arg =
    WrapU8 uint8_t | WrapU16 uint16_t | WrapU32 uint32_t | WrapU64 uint64_t
  | WrapI8 uint8_t | WrapI16 uint16_t | WrapI32 uint32_t | WrapI64 uint64_t
  | WrapF uint32_t | WrapD uint64_t | WrapB bool

text \<open>The floating-point value of a parameter, when it has one.\<close>

fun wrap_fp :: "wrap_arg \<Rightarrow> fp option" where
  "wrap_fp (WrapF w) = Some (fp_of_bits 8 23 w)"
| "wrap_fp (WrapD w) = Some (fp_of_bits 11 52 w)"
| "wrap_fp _ = None"

text \<open>The text that \<open>FormatValue\<close> prints with the format of \<open>FormatHelper\<close>.\<close>

fun FormatHelper :: "wrap_arg \<Rightarrow> string" where
  "FormatHelper (WrapU8 v) = decimal (unat v)"
| "FormatHelper (WrapU16 v) = decimal (unat v)"
| "FormatHelper (WrapU32 v) = decimal (unat v)"
| "FormatHelper (WrapU64 v) = decimal (unat v)"
| "FormatHelper (WrapI8 v) = decimal_int (sint v)"
| "FormatHelper (WrapI16 v) = decimal_int (sint v)"
| "FormatHelper (WrapI32 v) = decimal_int (sint v)"
| "FormatHelper (WrapI64 v) = decimal_int (sint v)"
| "FormatHelper (WrapF v) = print_fp (fp_of_bits 8 23 v)"
| "FormatHelper (WrapD v) = print_fp (fp_of_bits 11 52 v)"
| "FormatHelper (WrapB b) = (if b then ''true'' else ''false'')"

fun SizeHelper :: "wrap_arg \<Rightarrow> nat" where
  "SizeHelper (WrapU8 v) = 8"
| "SizeHelper (WrapU16 v) = 8"
| "SizeHelper (WrapU32 v) = 16"
| "SizeHelper (WrapU64 v) = 32"
| "SizeHelper (WrapI8 v) = 8"
| "SizeHelper (WrapI16 v) = 8"
| "SizeHelper (WrapI32 v) = 16"
| "SizeHelper (WrapI64 v) = 32"
| "SizeHelper (WrapF v) = 32"
| "SizeHelper (WrapD v) = 32"
| "SizeHelper (WrapB b) = 8"

text \<open>\<open>FormatValue\<close> into a buffer of the given size, and the object \<open>Wrap\<close> as the C string it converts to.\<close>

definition FormatValue :: "nat \<Rightarrow> wrap_arg \<Rightarrow> (nat \<Rightarrow> char) \<Rightarrow> (nat \<Rightarrow> char) option" where
  "FormatValue cap v buffer = map_option fst (snprintf_at cap 0 cap (FormatHelper v) buffer)"

definition Wrap :: "wrap_arg \<Rightarrow> (nat \<Rightarrow> char) \<Rightarrow> string option" where
  "Wrap v junk = map_option (\<lambda>b. takeWhile (\<lambda>c. c \<noteq> CHR 0x00) (text_of b (SizeHelper v))) (FormatValue (SizeHelper v) v junk)"

text \<open>The value that the text of a number stands for.\<close>

fun wrap_value :: "wrap_arg \<Rightarrow> int option" where
  "wrap_value (WrapU8 v) = Some (int (unat v))"
| "wrap_value (WrapU16 v) = Some (int (unat v))"
| "wrap_value (WrapU32 v) = Some (int (unat v))"
| "wrap_value (WrapU64 v) = Some (int (unat v))"
| "wrap_value (WrapI8 v) = Some (sint v)"
| "wrap_value (WrapI16 v) = Some (sint v)"
| "wrap_value (WrapI32 v) = Some (sint v)"
| "wrap_value (WrapI64 v) = Some (sint v)"
| "wrap_value _ = None"

section \<open>What is printed\<close>

lemma FormatHelper_fits: "wrap_fp v = None \<Longrightarrow> length (FormatHelper v) < SizeHelper v"
proof (induction v)
  case (WrapU8 w) then show ?case using decimal_word_length [of 3 w] by simp
next
  case (WrapU16 w) then show ?case using decimal_word_length [of 5 w] by simp
next
  case (WrapU32 w) then show ?case using decimal_word_length [of 10 w] by simp
next
  case (WrapU64 w) then show ?case using decimal_word_length [of 20 w] by simp
next
  case (WrapI8 w) then show ?case using decimal_signed_length [of 3 w] by simp
next
  case (WrapI16 w) then show ?case using decimal_signed_length [of 5 w] by simp
next
  case (WrapI32 w) then show ?case using decimal_signed_length [of 10 w] by simp
next
  case (WrapI64 w) then show ?case using decimal_signed_length [of 19 w] by simp
qed simp_all

lemma SizeHelper_bounds: "0 < SizeHelper v" "SizeHelper v \<le> 32" "wrap_fp v = Some x \<Longrightarrow> SizeHelper v = 32"
  by (cases v; simp)+

lemma print_fp_no_nul: "CHR 0x00 \<notin> set (print_fp x)"
  by (cases x) (auto simp: minus_sign_def print_millionths_def decimal_pad_def decimal_no_nul)

lemma FormatHelper_no_nul: "CHR 0x00 \<notin> set (FormatHelper v)"
  by (cases v) (auto simp: decimal_int_def decimal_no_nul print_fp_no_nul)

lemma round_half_even_nearest:
  assumes "0 < d"
  shows "2 * \<bar>int (round_half_even a d) * int d - int a\<bar> \<le> int d"
proof -
  let ?q = "int (a div d)" and ?r = "int (a mod d)"
  have a: "int a = ?q * int d + ?r"
    by (metis div_mult_mod_eq of_nat_add of_nat_mult)
  have r: "0 \<le> ?r" "?r < int d"
    using assms by simp_all
  show ?thesis
  proof (cases "2 * (a mod d) < d \<or> 2 * (a mod d) = d \<and> even (a div d)")
    case True
    then have "round_half_even a d = a div d" "2 * ?r \<le> int d"
      unfolding round_half_even_def Let_def by (simp_all only: if_True) linarith
    with a r show ?thesis
      by simp
  next
    case False
    then have "round_half_even a d = a div d + 1" "int d \<le> 2 * ?r"
      unfolding round_half_even_def Let_def by (simp_all only: if_False) linarith
    with a r show ?thesis
      by (simp add: algebra_simps)
  qed
qed

lemma millionths_nearest:
  "2 * \<bar>int (millionths n k) * 2 ^ nat (- k) - int n * 10 ^ 6 * 2 ^ nat k\<bar> \<le> 2 ^ nat (- k)"
  using round_half_even_nearest [of "2 ^ nat (- k)" "n * 10 ^ 6 * 2 ^ nat k"] by (simp add: millionths_def)

lemma decimal_length_lower: "n < 10 ^ length (decimal n)"
proof (induction n rule: decimal.induct)
  case (1 n)
  show ?case
  proof (cases "n < 10")
    case True
    then show ?thesis
      by (simp add: decimal.simps [of n])
  next
    case False
    with 1 have "n div 10 < 10 ^ length (decimal (n div 10))"
      by simp
    then have "n < 10 * 10 ^ length (decimal (n div 10))"
      by linarith
    with False show ?thesis
      by (simp add: decimal.simps [of n])
  qed
qed

lemma decimal_length_le: "0 < k \<Longrightarrow> length (decimal n) \<le> k \<longleftrightarrow> n < 10 ^ k"
  using decimal_length_lower [of n] decimal_length [of n k]
  by (meson less_le_trans power_increasing one_le_numeral)

lemma print_millionths_length: "length (print_millionths m) = length (decimal (m div 10 ^ 6)) + 7"
proof -
  have "m mod 10 ^ 6 < 10 ^ 6"
    by (rule mod_less_divisor) simp
  then have "length (decimal_pad 6 (int (m mod 10 ^ 6))) = 6"
    by (intro decimal_pad_length) (simp_all flip: of_nat_power)
  then show ?thesis
    by (simp add: print_millionths_def)
qed

lemma print_millionths_fits:
  assumes "0 < k"
  shows "length (print_millionths m) \<le> k + 7 \<longleftrightarrow> m < 10 ^ (k + 6)"
proof -
  have "m div 10 ^ 6 < 10 ^ k \<longleftrightarrow> m < 10 ^ k * 10 ^ 6"
    by (simp add: div_less_iff_less_mult)
  then show ?thesis
    using assms by (simp add: print_millionths_length decimal_length_le power_add)
qed

text \<open>Reading the text of a fixed-point number back, in millionths.\<close>

definition read_millionths :: "string \<Rightarrow> nat" where
  "read_millionths cs = read_decimal 0 (filter (\<lambda>c. c \<noteq> CHR ''.'') cs)"

lemma read_decimal_acc: "read_decimal acc xs = acc * 10 ^ length xs + read_decimal 0 xs"
proof (induction xs arbitrary: acc)
  case (Cons c xs)
  show ?case
    using Cons [of "10 * acc + char_digit c"] Cons [of "char_digit c"] by (simp add: algebra_simps)
qed simp

lemma read_decimal_zeros: "read_decimal 0 (replicate n CHR ''0'') = 0"
  by (induction n) (simp_all add: char_digit_def)

lemma decimal_no_dot: "CHR ''.'' \<notin> set (decimal n)"
proof -
  have d: "digit_char d \<noteq> CHR ''.''" if "d < 10" for d
    using char_digit_digit [OF that] that
    by (auto simp: digit_char_def dest!: arg_cong [where f = "of_char :: char \<Rightarrow> nat"])
  show ?thesis
  proof (induction n rule: decimal.induct)
    case (1 n)
    then show ?case
      by (cases "n < 10") (auto simp: decimal.simps [of n] d d [symmetric])
  qed
qed

lemma filter_absent: "c \<notin> set xs \<Longrightarrow> filter (\<lambda>x. x \<noteq> c) xs = xs"
  by (induction xs) auto

lemma read_print_millionths: "read_millionths (print_millionths m) = m"
proof -
  let ?z = "decimal_pad 6 (int (m mod 10 ^ 6))"
  have "m mod 10 ^ 6 < 10 ^ 6"
    by (rule mod_less_divisor) simp
  then have len: "length ?z = 6"
    by (intro decimal_pad_length) (simp_all flip: of_nat_power)
  have read: "read_decimal 0 ?z = m mod 10 ^ 6"
    by (simp add: decimal_pad_def read_decimal_append read_decimal_zeros read_decimal_decimal del: of_nat_mod)
  have "CHR ''.'' \<notin> set ?z"
    by (auto simp: decimal_pad_def decimal_no_dot)
  then have "filter (\<lambda>c. c \<noteq> CHR ''.'') (print_millionths m) = decimal (m div 10 ^ 6) @ ?z"
    by (simp add: print_millionths_def filter_absent decimal_no_dot)
  moreover have "read_decimal (m div 10 ^ 6) ?z = m div 10 ^ 6 * 10 ^ 6 + m mod 10 ^ 6"
    by (subst read_decimal_acc) (simp only: len read)
  ultimately show ?thesis
    by (simp only: read_millionths_def read_decimal_append read_decimal_decimal div_mult_mod_eq)
qed

lemma Wrap_takes: "Wrap v junk = Some (take (SizeHelper v - 1) (FormatHelper v))"
proof -
  let ?n = "SizeHelper v" and ?s = "take (SizeHelper v - 1) (FormatHelper v)"
  have le: "0 + length (?s @ [CHR 0x00]) \<le> ?n"
    using SizeHelper_bounds(1) [of v] by simp
  obtain b where b: "put_string ?n 0 (?s @ [CHR 0x00]) junk = Some b"
      "text_of b (length ?s + 1) = ?s @ [CHR 0x00]"
    using put_string_ok [OF le, of junk] by (auto simp: text_of_def)
  then have "text_of b (length ?s) = ?s" "b (length ?s) = CHR 0x00"
    by (simp_all add: text_of_def)
  moreover have "CHR 0x00 \<notin> set ?s"
    using FormatHelper_no_nul [of v] by (meson in_set_takeD)
  moreover have "length ?s < ?n"
    using le by simp
  ultimately have "takeWhile (\<lambda>c. c \<noteq> CHR 0x00) (text_of b ?n) = ?s"
    by (intro c_string_of)
  with b(1) show ?thesis
    using SizeHelper_bounds(1) [of v] by (simp add: Wrap_def FormatValue_def snprintf_at_def)
qed

section \<open>Properties\<close>

text \<open>
  Fact: \<open>FormatValue\<close> writes within the buffer that \<open>SizeHelper\<close> chooses for the type and keeps as much of the
  text as fits. For an integer or a truth value that is all of it, and an integer is read back from it.
\<close>

theorem wrap_prints_value:
  "Wrap v junk = Some (take (SizeHelper v - 1) (FormatHelper v)) \<and>
   (wrap_fp v = None \<longrightarrow> Wrap v junk = Some (FormatHelper v)) \<and>
   (\<forall>i. wrap_value v = Some i \<longrightarrow> read_int (FormatHelper v) = i)"
proof (intro conjI impI)
  show "Wrap v junk = Some (FormatHelper v)" if "wrap_fp v = None"
    using FormatHelper_fits [OF that] by (simp add: Wrap_takes)
  show "\<forall>i. wrap_value v = Some i \<longrightarrow> read_int (FormatHelper v) = i"
    by (cases v) (simp_all add: decimal_int_nat [symmetric] read_int_decimal)
qed (rule Wrap_takes)

text \<open>
  C39: a finite floating-point parameter is printed as the number of millionths nearest to it, which can be
  read back, as long as the text fits the 32 bytes: below 10^24, or above -10^23. Any other is cut off to
  its first 31 characters, without a sign of it.
\<close>

theorem wrap_prints_double:
  assumes v: "wrap_fp v = Some (FpFinite s n k)"
  shows "let m = millionths n k; t = print_millionths m in
    2 * \<bar>int m * 2 ^ nat (- k) - int n * 10 ^ 6 * 2 ^ nat k\<bar> \<le> 2 ^ nat (- k) \<and> read_millionths t = m \<and>
    (if m < 10 ^ (if s then 29 else 30) then Wrap v junk = Some (minus_sign s @ t)
     else \<exists>cut. cut \<noteq> [] \<and> minus_sign s @ t = the (Wrap v junk) @ cut \<and> length (the (Wrap v junk)) = 31)"
proof -
  let ?m = "millionths n k"
  have fh: "FormatHelper v = minus_sign s @ print_millionths ?m"
    using v by (cases v) simp_all
  then have w: "Wrap v junk = Some (take 31 (minus_sign s @ print_millionths ?m))"
    using SizeHelper_bounds(3) [OF v] by (simp add: fh Wrap_takes)
  have fits: "length (minus_sign s @ print_millionths ?m) \<le> 31 \<longleftrightarrow> ?m < 10 ^ (if s then 29 else 30)"
    using print_millionths_fits [of 23 ?m] print_millionths_fits [of 24 ?m] by (auto simp: minus_sign_def)
  show ?thesis
  proof (cases "?m < 10 ^ (if s then 29 else 30)")
    case True
    then show ?thesis
      using fits w millionths_nearest [of n k] read_print_millionths [of ?m] by (simp add: Let_def)
  next
    case False
    let ?cut = "drop 31 (minus_sign s @ print_millionths ?m)"
    have long: "31 < length (minus_sign s @ print_millionths ?m)"
      using False fits by linarith
    have "?cut \<noteq> [] \<and> minus_sign s @ print_millionths ?m = the (Wrap v junk) @ ?cut \<and> length (the (Wrap v junk)) = 31"
      unfolding w option.sel append_take_drop_id using long by (cases s) (simp_all add: minus_sign_def)
    then show ?thesis
      using False millionths_nearest [of n k] read_print_millionths [of ?m] unfolding Let_def by auto
  qed
qed

text \<open>2.5, as a double.\<close>

theorem wrap_prints_double_witness:
  "Wrap (WrapD 0x4004000000000000) (\<lambda>_. CHR 0x00) = Some ''2.500000''"
proof -
  have "wrap_fp (WrapD 0x4004000000000000) = Some (FpFinite False (2 ^ 52 + 2 ^ 50) (- 51))"
    by (simp add: fp_of_bits_def Let_def take_bit_eq_mask drop_bit_eq_div mask_eq_exp_minus_1 push_bit_eq_mult)
  moreover have "millionths (2 ^ 52 + 2 ^ 50) (- 51) = 2500000"
    by (simp add: millionths_def round_half_even_def Let_def)
  moreover have "print_millionths 2500000 = ''2.500000''"
    by (simp add: print_millionths_def decimal_pad_def decimal.simps [of 2] decimal.simps [of 500000] decimal.simps [of 50000]
        decimal.simps [of 5000] decimal.simps [of 500] decimal.simps [of 50] decimal.simps [of 5] digit_char_def char_of_def bit_0)
  ultimately show ?thesis
    using wrap_prints_double [of "WrapD 0x4004000000000000" False "2 ^ 52 + 2 ^ 50" "- 51" "\<lambda>_. CHR 0x00"]
    by (simp add: Let_def minus_sign_def)
qed

end
