(* ===== verification/LogLine.thy ===== *)
theory LogLine
  imports Printf LogMacro TimeImpl Allocator
begin

text \<open>
  Log entries and the text of a log line: \<open>LogLevelToString\<close>, \<open>LogItem\<close>, \<open>CopyParams\<close> and the
  formatting part of \<open>CLoggerImpl::WriteLog (LogItem &)\<close> in \<open>base/sources/logger/logger_impl.cpp\<close>. A result
  \<open>None\<close> stands for undefined behaviour: an access outside a buffer or an array.
\<close>

section \<open>Entries\<close>

definition LogLevelToString :: "LogLevel \<Rightarrow> string" where
  "LogLevelToString eLevel =
     (let szLogLevel = [''TRACE'', ''DEBUG'', '' INFO'', '' WARN'', ''ERROR'', ''FATAL'', ''EVENT'', '' NULL''];
          uIndex = (if eLevel \<ge> kTrace_lvl \<and> eLevel < kEvent_lvl then level_value eLevel else length szLogLevel - 1)
      in szLogLevel ! uIndex)"

text \<open>
  \<open>LogItem\<close> without its header. The strings are those that the pointers lead to; \<open>ppParams\<close> holds the
  elements of the parameter array that are initialized, or \<open>nullptr\<close>.
\<close>

record LogItem =
  iErrorNo :: uint32_t
  eLevel :: LogLevel
  uTid :: uint32_t
  uParamCount :: uint32_t
  uTimestampNs :: uint64_t
  pModule :: string
  pFileLine :: string
  pFunction :: string
  pFormat :: string
  ppParams :: "string list option"

definition param_at :: "string list option \<Rightarrow> nat \<Rightarrow> string option" where
  "param_at pp i = (case pp of None \<Rightarrow> None | Some ps \<Rightarrow> if i < length ps then Some (ps ! i) else None)"

text \<open>
  \<open>CopyParams\<close>: \<open>answers\<close> are those of the successive allocations, first the array, then one block for
  each parameter. The results are the blocks of the array and of the copies, the entry and the heap; a copy
  that cannot be allocated ends the loop with the entries before it.
\<close>

fun copy_loop :: "pointer list \<Rightarrow> string list \<Rightarrow> heap \<Rightarrow> (string \<times> uint64_t) list \<times> heap" where
  "copy_loop answers [] h = ([], h)"
| "copy_loop [] (p # ps) h = ([], h)"
| "copy_loop (ans # answers) (p # ps) h =
     (case CAllocatorImpl_Malloc ans (of_nat (length p) + 1) h of
        (None, h) \<Rightarrow> ([], h)
      | (Some a, h) \<Rightarrow> (case copy_loop answers ps h of (cs, h) \<Rightarrow> ((p, a) # cs, h)))"

definition CopyParams ::
  "pointer \<Rightarrow> pointer list \<Rightarrow> string list option \<Rightarrow> uint32_t \<Rightarrow> LogItem \<Rightarrow> heap \<Rightarrow>
     LogItem \<times> pointer \<times> uint64_t list \<times> heap" where
  "CopyParams ans answers pp count it h =
     (let it = it\<lparr>ppParams := nullptr, uParamCount := 0\<rparr> in
      case pp of
        None \<Rightarrow> (it, nullptr, [], h)
      | Some ps \<Rightarrow>
          if count = 0 then (it, nullptr, [], h)
          else (case CAllocatorImpl_Malloc ans (ucast count * 8) h of
              (None, h) \<Rightarrow> (it, nullptr, [], h)
            | (Some a, h) \<Rightarrow>
                (case copy_loop answers (take (unat count) ps) h of
                   (cs, h) \<Rightarrow>
                     (it\<lparr>ppParams := Some (map fst cs), uParamCount := of_nat (length cs)\<rparr>, Some a, map snd cs, h))))"

section \<open>Formatting\<close>

text \<open>The size of the buffer of a line.\<close>

fun params_size :: "string list option \<Rightarrow> nat list \<Rightarrow> uint64_t \<Rightarrow> uint64_t option" where
  "params_size pp [] n = Some n"
| "params_size pp (i # is) n =
     (case param_at pp i of None \<Rightarrow> None | Some p \<Rightarrow> params_size pp is (n + of_nat (length p)))"

definition format_size :: "LogItem \<Rightarrow> uint64_t option" where
  "format_size it =
     params_size (ppParams it) [0..<unat (uParamCount it)]
       (64 + of_nat (length (pModule it)) + of_nat (length (pFileLine it)) + of_nat (length (pFunction it)) +
        of_nat (length (pFormat it)))"

text \<open>The text up to the module, from the local time, the process and thread numbers and the entry.\<close>

definition line_header :: "uint32_t \<Rightarrow> uint32_t \<Rightarrow> ITime \<Rightarrow> LogItem \<Rightarrow> string" where
  "line_header pid tid t it =
     decimal_pad 4 (sint (uYear t)) @ decimal_pad 2 (sint (uMonth t)) @ decimal_pad 2 (sint (uDay t)) @ ''-'' @
     decimal_pad 2 (sint (uHour t)) @ '':'' @ decimal_pad 2 (sint (uMinute t)) @ '':'' @
     decimal_pad 2 (sint (uSecond t)) @ ''.'' @ decimal_pad 6 (sint (uMicro t)) @ '' '' @
     decimal (unat pid) @ '' '' @ decimal (unat tid) @ '' '' @ decimal_int (sint (iErrorNo it)) @ '' '' @
     LogLevelToString (eLevel it) @ '' ['' @ pModule it @ ''] ''"

definition line_place :: "LogItem \<Rightarrow> string" where
  "line_place it = ''('' @ pFileLine it @ '','' @ pFunction it @ '')''"

text \<open>
  \<open>snprintf\<close> at \<open>uLogBufferIndex\<close> with the remaining size, where \<open>cap\<close> is the size of the block.
\<close>

definition print_at :: "uint64_t \<Rightarrow> uint32_t \<Rightarrow> string \<Rightarrow> (nat \<Rightarrow> char) \<Rightarrow> ((nat \<Rightarrow> char) \<times> int) option" where
  "print_at cap ix s buf = snprintf_at (unat cap) (unat ix) (unat (cap - ucast ix)) s buf"

text \<open>\<open>pLogBuffer[uLogBufferIndex] = c\<close>.\<close>

definition store_at :: "uint64_t \<Rightarrow> uint32_t \<Rightarrow> char \<Rightarrow> (nat \<Rightarrow> char) \<Rightarrow> (nat \<Rightarrow> char) option" where
  "store_at cap ix c buf = (if unat ix < unat cap then Some (buf(unat ix := c)) else None)"

text \<open>The loop over the format: the buffer, \<open>uLogBufferIndex\<close> and \<open>uParamIndex\<close>.\<close>

function format_loop ::
  "uint64_t \<Rightarrow> string list option \<Rightarrow> string \<Rightarrow> (nat \<Rightarrow> char) \<Rightarrow> uint32_t \<Rightarrow> uint32_t \<Rightarrow>
     ((nat \<Rightarrow> char) \<times> uint32_t \<times> uint32_t) option" where
  "format_loop cap pp [] buf ix pix = Some (buf, ix, pix)"
| "format_loop cap pp (c # cs) buf ix pix =
     (if c = CHR ''{'' \<and> cs \<noteq> [] \<and> hd cs = CHR ''}''
      then (case param_at pp (unat pix) of
              None \<Rightarrow> None
            | Some p \<Rightarrow>
                (case print_at cap ix p buf of
                   None \<Rightarrow> None
                 | Some (buf, n) \<Rightarrow>
                     if n < 0 then Some (buf, ix, pix)
                     else format_loop cap pp (tl cs) buf (ix + word_of_int n) (pix + 1)))
      else (case store_at cap ix c buf of
              None \<Rightarrow> None
            | Some buf \<Rightarrow> format_loop cap pp cs buf (ix + 1) pix))"
  by pat_completeness auto

termination
  by (relation "measure (\<lambda>(cap, pp, cs, buf, ix, pix). length cs)") auto

text \<open>The loop over the parameters that the format left, given as their indices.\<close>

fun extra_loop ::
  "uint64_t \<Rightarrow> string list option \<Rightarrow> nat list \<Rightarrow> (nat \<Rightarrow> char) \<Rightarrow> uint32_t \<Rightarrow> ((nat \<Rightarrow> char) \<times> uint32_t) option" where
  "extra_loop cap pp [] buf ix = Some (buf, ix)"
| "extra_loop cap pp (i # is) buf ix =
     (case param_at pp i of
        None \<Rightarrow> None
      | Some p \<Rightarrow>
          (case print_at cap ix ('' '' @ p) buf of
             None \<Rightarrow> None
           | Some (buf, n) \<Rightarrow> if n < 0 then Some (buf, ix) else extra_loop cap pp is buf (ix + word_of_int n)))"

text \<open>
  The formatting from the header to the newline. The results are the error of the header, or the buffer and
  the number of characters to write.
\<close>

definition format_line ::
  "uint64_t \<Rightarrow> uint32_t \<Rightarrow> uint32_t \<Rightarrow> ITime \<Rightarrow> LogItem \<Rightarrow> (nat \<Rightarrow> char) \<Rightarrow>
     (ErrorCode + (nat \<Rightarrow> char) \<times> uint32_t) option" where
  "format_line cap pid tid t it buf =
     (case print_at cap 0 (line_header pid tid t it) buf of
        None \<Rightarrow> None
      | Some (buf, iLen) \<Rightarrow>
          if iLen < 0 then Some (Inl kSystemError)
          else case format_loop cap (ppParams it) (pFormat it) buf (word_of_int iLen) 0 of
              None \<Rightarrow> None
            | Some (buf, ix, pix) \<Rightarrow>
                (case extra_loop cap (ppParams it) [unat pix..<unat (uParamCount it)] buf ix of
                   None \<Rightarrow> None
                 | Some (buf, ix) \<Rightarrow>
                     (case print_at cap ix (line_place it) buf of
                        None \<Rightarrow> None
                      | Some (buf, n) \<Rightarrow>
                          (let ix = (if n > 0 then ix + word_of_int n else ix) in
                           case store_at cap ix (CHR 0x0A) buf of
                             None \<Rightarrow> None
                           | Some buf \<Rightarrow> Some (Inr (buf, ix + 1))))))"

section \<open>The reference line\<close>

text \<open>The format with its placeholders filled, and the parameters that are left.\<close>

function fill :: "string \<Rightarrow> string list \<Rightarrow> (string \<times> string list) option" where
  "fill [] ps = Some ([], ps)"
| "fill (c # cs) ps =
     (if c = CHR ''{'' \<and> cs \<noteq> [] \<and> hd cs = CHR ''}''
      then (case ps of [] \<Rightarrow> None | p # ps \<Rightarrow> map_option (\<lambda>(s, r). (p @ s, r)) (fill (tl cs) ps))
      else map_option (\<lambda>(s, r). (c # s, r)) (fill cs ps))"
  by pat_completeness auto

termination
  by (relation "measure (\<lambda>(cs, ps). length cs)") auto

definition log_text :: "uint32_t \<Rightarrow> uint32_t \<Rightarrow> ITime \<Rightarrow> LogItem \<Rightarrow> string list \<Rightarrow> string option" where
  "log_text pid tid t it ps =
     map_option (\<lambda>(s, r). line_header pid tid t it @ s @ concat (map (\<lambda>p. '' '' @ p) r) @
         line_place it @ [CHR 0x0A])
       (fill (pFormat it) ps)"

section \<open>The line that is written\<close>

text \<open>The state of the buffer after the text \<open>T\<close>; nothing is known of the content once \<open>T\<close> has filled it.\<close>

definition written :: "uint64_t \<Rightarrow> string \<Rightarrow> (nat \<Rightarrow> char) \<Rightarrow> uint32_t \<Rightarrow> bool" where
  "written cap T buf ix \<longleftrightarrow> ix = of_nat (length T) \<and> (length T < unat cap \<longrightarrow> text_of buf (length T) = T)"

lemma print_at_written:
  assumes w: "written cap T buf ix" and small: "length (T @ s) < 2 ^ 31"
  shows "print_at cap ix s buf = None \<and> unat cap < length T \<or>
    (\<exists>buf'. print_at cap ix s buf = Some (buf', int (length s)) \<and> written cap (T @ s) buf' (ix + word_of_int (int (length s))))"
proof -
  have ix: "unat ix = length T"
    using w small by (simp add: written_def unat_of_nat32)
  have ix': "ix + word_of_int (int (length s)) = of_nat (length (T @ s))"
    using w by (simp add: written_def)
  show ?thesis
  proof (cases "length T \<le> unat cap")
    case False
    then show ?thesis
      by (simp add: print_at_def snprintf_at_def ix)
  next
    case True
    have "unat (ucast ix :: uint64_t) = length T"
      using ix by (simp add: unat_ucast_32_64)
    with True have n: "unat (cap - ucast ix) = unat cap - length T"
      by (subst unat_sub) (simp_all add: word_le_nat_alt)
    show ?thesis
    proof (cases "length T + length s < unat cap")
      case True
      from snprintf_ok [OF True n, of buf] obtain buf' where
        b: "print_at cap ix s buf = Some (buf', int (length s))" "text_of buf' (length (T @ s)) = text_of buf (length T) @ s"
        using small by (auto simp: print_at_def ix)
      with w True ix' show ?thesis
        by (auto simp: written_def)
    next
      case False
      have "written cap (T @ s) buf' (ix + word_of_int (int (length s)))" for buf'
        unfolding written_def ix' using False by simp
      with snprintf_truncates [OF True n, of s buf] small show ?thesis
        by (auto simp: print_at_def ix)
    qed
  qed
qed

lemma store_at_written:
  assumes "written cap T buf ix" "length T < 2 ^ 31"
  shows "store_at cap ix c buf = None \<and> unat cap \<le> length T \<or>
    (\<exists>buf'. store_at cap ix c buf = Some buf' \<and> length T < unat cap \<and> text_of buf' (Suc (length T)) = T @ [c] \<and>
      written cap (T @ [c]) buf' (ix + 1))"
proof -
  have ix: "unat ix = length T"
    using assms by (simp add: written_def unat_of_nat32)
  have "text_of (buf(length T := c)) (Suc (length T)) = text_of buf (length T) @ [c]"
    by (simp add: text_of_def)
  with assms(1) ix show ?thesis
    by (auto simp: written_def store_at_def add.commute)
qed

lemma param_at_drop:
  assumes "drop i ps = p # ps'"
  shows "i < length ps" "param_at (Some ps) i = Some p" "drop (Suc i) ps = ps'"
proof -
  show "i < length ps"
    using assms by (metis drop_all list.distinct(1) not_le)
  then show "param_at (Some ps) i = Some p" "drop (Suc i) ps = ps'"
    using assms by (simp_all add: param_at_def nth_via_drop drop_Suc tl_drop [symmetric])
qed

lemma format_loop_written:
  assumes "written cap T buf ix" "fill cs (drop (unat pix) ps) = Some (s, r)" "length (T @ s) < 2 ^ 31"
    "unat pix \<le> length ps" "length ps < 2 ^ 32"
  shows "format_loop cap (Some ps) cs buf ix pix = None \<and> unat cap \<le> length (T @ s) \<or>
    (\<exists>buf' ix' pix'. format_loop cap (Some ps) cs buf ix pix = Some (buf', ix', pix') \<and> written cap (T @ s) buf' ix' \<and>
      drop (unat pix') ps = r \<and> unat pix' \<le> length ps)"
  using assms
proof (induction cap "Some ps" cs buf ix pix arbitrary: T s rule: format_loop.induct)
  case (1 cap buf ix pix)
  then show ?case by simp
next
  case (2 cap c cs buf ix pix)
  show ?case
  proof (cases "c = CHR ''{'' \<and> cs \<noteq> [] \<and> hd cs = CHR ''}''")
    case True
    then obtain p ps' s' where f: "drop (unat pix) ps = p # ps'" "fill (tl cs) ps' = Some (s', r)" "s = p @ s'"
      using 2(4) by (auto split: list.splits)
    note p = param_at_drop [OF f(1)]
    have pix: "unat (pix + 1) = Suc (unat pix)"
      using p(1) 2(7) unat_Suc_word [of pix] by simp
    have small: "length (T @ p) < 2 ^ 31" "length ((T @ p) @ s') < 2 ^ 31"
      using 2(5) f(3) by simp_all
    from print_at_written [OF 2(3) small(1)] show ?thesis
    proof (elim disjE exE conjE)
      fix buf'
      assume b: "print_at cap ix p buf = Some (buf', int (length p))"
        "written cap (T @ p) buf' (ix + word_of_int (int (length p)))"
      from 2(1) [OF True p(2) b(1) refl _ b(2)] f p pix small(2) 2(7) show ?thesis
        using True b(1) by auto
    qed (use True p f(3) in simp)
  next
    case False
    then obtain s' where f: "fill cs (drop (unat pix) ps) = Some (s', r)" "s = c # s'"
      using 2(4) by auto
    have small: "length T < 2 ^ 31" "length ((T @ [c]) @ s') < 2 ^ 31"
      using 2(5) f(2) by simp_all
    from store_at_written [OF 2(3) small(1), of c] show ?thesis
    proof (elim disjE exE conjE)
      fix buf'
      assume b: "store_at cap ix c buf = Some buf'" "written cap (T @ [c]) buf' (ix + 1)"
      from 2(2) [OF False b f(1) small(2) 2(6,7)] show ?thesis
        using False b(1) f(2) by auto
    qed (use False f(2) in auto)
  qed
qed

text \<open>A format with more placeholders than parameters reads past the array, or past the buffer before that.\<close>

lemma format_loop_short:
  assumes "written cap T buf ix" "fill cs (drop (unat pix) ps) = None"
    "length T + length cs + length (concat (drop (unat pix) ps)) < 2 ^ 31"
    "unat pix \<le> length ps" "length ps < 2 ^ 32"
  shows "format_loop cap (Some ps) cs buf ix pix = None"
  using assms
proof (induction cap "Some ps" cs buf ix pix arbitrary: T rule: format_loop.induct)
  case (1 cap buf ix pix)
  then show ?case by simp
next
  case (2 cap c cs buf ix pix)
  show ?case
  proof (cases "c = CHR ''{'' \<and> cs \<noteq> [] \<and> hd cs = CHR ''}''")
    case True
    show ?thesis
    proof (cases "drop (unat pix) ps")
      case Nil
      then show ?thesis
        using True 2(6) by (simp add: param_at_def)
    next
      case (Cons p ps')
      note p = param_at_drop [OF this]
      have f: "fill (tl cs) ps' = None"
        using 2(4) True Cons by simp
      have pix: "unat (pix + 1) = Suc (unat pix)"
        using p(1) 2(7) unat_Suc_word [of pix] by simp
      have small: "length (T @ p) < 2 ^ 31"
        using 2(5) Cons by simp
      from print_at_written [OF 2(3) small] show ?thesis
      proof (elim disjE exE conjE)
        fix buf'
        assume b: "print_at cap ix p buf = Some (buf', int (length p))"
          "written cap (T @ p) buf' (ix + word_of_int (int (length p)))"
        from 2(1) [OF True p(2) b(1) refl _ b(2)] f p pix 2(5,7) Cons show ?thesis
          using True b(1) by simp
      qed (use True p in simp)
    qed
  next
    case False
    then have f: "fill cs (drop (unat pix) ps) = None"
      using 2(4) by auto
    have small: "length T < 2 ^ 31" and s2: "length (T @ [c]) + length cs + length (concat (drop (unat pix) ps)) < 2 ^ 31"
      using 2(5) by simp_all
    from store_at_written [OF 2(3) small, of c] show ?thesis
    proof (elim disjE exE conjE)
      fix buf'
      assume b: "store_at cap ix c buf = Some buf'" "written cap (T @ [c]) buf' (ix + 1)"
      from 2(2) [OF False b f s2 2(6,7)] show ?thesis
        using False b(1) by auto
    qed (use False in auto)
  qed
qed

lemma extra_loop_written:
  assumes "written cap T buf ix" "length (T @ concat (map (\<lambda>p. '' '' @ p) (drop k ps))) < 2 ^ 31"
  shows "extra_loop cap (Some ps) [k..<length ps] buf ix = None \<and>
      unat cap < length (T @ concat (map (\<lambda>p. '' '' @ p) (drop k ps))) \<or>
    (\<exists>buf' ix'. extra_loop cap (Some ps) [k..<length ps] buf ix = Some (buf', ix') \<and>
      written cap (T @ concat (map (\<lambda>p. '' '' @ p) (drop k ps))) buf' ix')"
  using assms
proof (induction "length ps - k" arbitrary: k T buf ix)
  case 0
  then show ?case by auto
next
  case (Suc n)
  then have k: "k < length ps" by simp
  define p where "p = '' '' @ ps ! k"
  define r where "r = concat (map (\<lambda>p. '' '' @ p) (drop (Suc k) ps))"
  have d: "concat (map (\<lambda>p. '' '' @ p) (drop k ps)) = p @ r"
    using k by (simp add: p_def r_def Cons_nth_drop_Suc [symmetric])
  have p': "CHR '' '' # ps ! k = p"
    by (simp add: p_def)
  have u: "[k..<length ps] = k # [Suc k..<length ps]"
    using k by (simp add: upt_conv_Cons)
  have small: "length (T @ p) < 2 ^ 31" "length ((T @ p) @ r) < 2 ^ 31"
    using Suc(4) unfolding d by simp_all
  from print_at_written [OF Suc(3) small(1)] show ?case
  proof (elim disjE exE conjE)
    fix buf'
    assume b: "print_at cap ix p buf = Some (buf', int (length p))"
      "written cap (T @ p) buf' (ix + word_of_int (int (length p)))"
    have "n = length ps - Suc k"
      using Suc(2) by simp
    from Suc(1) [OF this b(2)] small(2) b(1) show ?thesis
      unfolding d u by (auto simp: k p' r_def [symmetric] param_at_def)
  qed (use k in \<open>simp add: u d p' param_at_def\<close>)
qed

text \<open>The whole line: it is the reference line, or the writing leaves the buffer.\<close>

lemma format_line_written:
  assumes params: "ppParams it = Some ps" "unat (uParamCount it) = length ps"
    and ref: "log_text pid tid t it ps = Some s" and small: "length s < 2 ^ 31"
  shows "if length s \<le> unat cap
    then \<exists>buf'. format_line cap pid tid t it buf = Some (Inr (buf', of_nat (length s))) \<and> text_of buf' (length s) = s
    else format_line cap pid tid t it buf = None"
proof -
  obtain f r where f: "fill (pFormat it) ps = Some (f, r)" using ref by (auto simp: log_text_def)
  define H where "H = line_header pid tid t it"
  define E where "E = concat (map (\<lambda>p. '' '' @ p) r)"
  define P where "P = line_place it"
  have s: "s = H @ f @ E @ P @ [CHR 0x0A]"
    using ref f by (simp add: log_text_def H_def E_def P_def)
  have ps: "length ps < 2 ^ 32"
    using unat_lt32 [of "uParamCount it"] params(2) by simp
  have "written cap [] buf 0"
    by (simp add: written_def text_of_def)
  from print_at_written [OF this, of H] small
  consider (no) "print_at cap 0 H buf = None" "unat cap < 0"
    | (ok) b1 where "print_at cap 0 H buf = Some (b1, int (length H))" "written cap H b1 (word_of_int (int (length H)))"
    by (auto simp: s)
  then show ?thesis
  proof cases
    case ok
    have *: "length (H @ f) < 2 ^ 31" "length ((H @ f) @ E) < 2 ^ 31" "length (((H @ f) @ E) @ P) < 2 ^ 31"
      using small by (simp_all add: s)
    from format_loop_written [OF ok(2), of "pFormat it" 0 ps f r] f *(1) ps
    consider (no) "format_loop cap (Some ps) (pFormat it) b1 (word_of_int (int (length H))) 0 = None" "unat cap \<le> length (H @ f)"
      | (ok2) b2 ix2 pix where "format_loop cap (Some ps) (pFormat it) b1 (word_of_int (int (length H))) 0 = Some (b2, ix2, pix)"
          "written cap (H @ f) b2 ix2" "drop (unat pix) ps = r"
      by auto
    then show ?thesis
    proof cases
      case no
      with ok show ?thesis
        by (simp add: format_line_def params(1) H_def [symmetric] s)
    next
      case ok2
      from extra_loop_written [OF ok2(2), of "unat pix" ps, unfolded ok2(3) E_def [symmetric], OF *(2)]
      consider (no) "extra_loop cap (Some ps) [unat pix..<length ps] b2 ix2 = None" "unat cap < length ((H @ f) @ E)"
        | (ok3) b3 ix3 where "extra_loop cap (Some ps) [unat pix..<length ps] b2 ix2 = Some (b3, ix3)"
            "written cap ((H @ f) @ E) b3 ix3"
        by auto
      then show ?thesis
      proof cases
        case no
        with ok ok2 show ?thesis
          by (simp add: format_line_def params H_def [symmetric] s)
      next
        case ok3
        from print_at_written [OF ok3(2) *(3)]
        consider (no) "print_at cap ix3 P b3 = None" "unat cap < length ((H @ f) @ E)"
          | (ok4) b4 where "print_at cap ix3 P b3 = Some (b4, int (length P))"
              "written cap (((H @ f) @ E) @ P) b4 (ix3 + word_of_int (int (length P)))"
          by auto
        then show ?thesis
        proof cases
          case no
          with ok ok2 ok3 show ?thesis
            by (simp add: format_line_def params H_def [symmetric] P_def [symmetric] s)
        next
          case ok4
          have pos: "0 < int (length P)"
            by (simp add: P_def line_place_def)
          from store_at_written [OF ok4(2) *(3), of "CHR 0x0A"] show ?thesis
            using ok ok2 ok3 ok4 pos
            by (auto simp: format_line_def params H_def [symmetric] P_def [symmetric] s written_def Let_def)
        qed
      qed
    qed
  qed simp
qed

section \<open>The size of the buffer\<close>

definition line_bytes :: "LogItem \<Rightarrow> string list \<Rightarrow> nat" where
  "line_bytes it ps = length (pModule it) + length (pFileLine it) + length (pFunction it) + length (pFormat it) +
     length (concat ps)"

lemma params_size_eq:
  "params_size (Some ps) [k..<length ps] n = Some (n + of_nat (length (concat (drop k ps))))"
proof (induction "length ps - k" arbitrary: k n)
  case 0
  then show ?case by simp
next
  case (Suc m)
  then have k: "k < length ps" "m = length ps - Suc k"
    by simp_all
  have d: "drop k ps = ps ! k # drop (Suc k) ps"
    using k(1) by (simp add: Cons_nth_drop_Suc)
  show ?case
    using k(1) Suc(1) [OF k(2)] unfolding d by (simp add: upt_conv_Cons param_at_def add.assoc)
qed

lemma format_size_eq:
  assumes "ppParams it = Some ps" "unat (uParamCount it) = length ps"
  shows "format_size it = Some (of_nat (64 + line_bytes it ps))"
  using assms params_size_eq [of ps 0] by (simp add: format_size_def line_bytes_def add_ac)

lemma fill_length:
  "fill cs ps = Some (f, r) \<Longrightarrow>
     length f + 2 * (length ps - length r) + length (concat r) = length cs + length (concat ps) \<and> length r \<le> length ps"
proof (induction cs ps arbitrary: f r rule: fill.induct)
  case (1 ps)
  then show ?case by simp
next
  case (2 c cs ps)
  show ?case
  proof (cases "c = CHR ''{'' \<and> cs \<noteq> [] \<and> hd cs = CHR ''}''")
    case True
    then obtain p ps' f' where f: "ps = p # ps'" "fill (tl cs) ps' = Some (f', r)" "f = p @ f'"
      using 2(3) by (auto split: list.splits)
    moreover obtain d cs' where "cs = d # cs'"
      using True by (cases cs) auto
    ultimately show ?thesis
      using 2(1) [OF True f(1,2)] by (simp add: Suc_diff_le)
  next
    case False
    then obtain f' where "fill cs ps = Some (f', r)" "f = c # f'"
      using 2(3) by auto
    with 2(2) [OF False] show ?thesis
      by simp
  qed
qed

lemma level_length: "length (LogLevelToString l) = 5"
  by (cases l) (simp_all add: LogLevelToString_def less_LogLevel_def less_eq_LogLevel_def Let_def)

text \<open>Times whose fields have the widths of the format.\<close>

definition time_prints :: "ITime \<Rightarrow> bool" where
  "time_prints t \<longleftrightarrow> uint (uYear t) < 10000 \<and> uint (uMonth t) < 100 \<and> uint (uDay t) < 100 \<and> uint (uHour t) < 100 \<and>
     uint (uMinute t) < 100 \<and> uint (uSecond t) < 100 \<and> uint (uMicro t) < 1000000"

lemma pad_length:
  assumes "uint (w :: uint32_t) < 10 ^ k" "0 < k" "k \<le> 9"
  shows "length (decimal_pad k (sint w)) = k"
proof -
  have "(10 :: int) ^ k \<le> 10 ^ 9"
    using assms(3) by (intro power_increasing) simp_all
  with assms have "sint w = uint w"
    by (intro sint_uint32) simp
  with assms show ?thesis
    by (simp add: decimal_pad_length)
qed

definition number_digits :: "uint32_t \<Rightarrow> uint32_t \<Rightarrow> LogItem \<Rightarrow> nat" where
  "number_digits pid tid it =
     length (decimal (unat pid)) + length (decimal (unat tid)) + length (decimal_int (sint (iErrorNo it)))"

lemma header_length:
  assumes "time_prints t"
  shows "length (line_header pid tid t it) = 37 + number_digits pid tid it + length (pModule it)"
  using assms pad_length [of "uYear t" 4] pad_length [of "uMonth t" 2] pad_length [of "uDay t" 2] pad_length [of "uHour t" 2]
    pad_length [of "uMinute t" 2] pad_length [of "uSecond t" 2] pad_length [of "uMicro t" 6]
  by (simp add: line_header_def level_length number_digits_def time_prints_def)

lemma extras_length: "length (concat (map (\<lambda>p. '' '' @ p) r)) = length r + length (concat r)"
  by (induction r) simp_all

lemma log_text_length:
  assumes "log_text pid tid t it ps = Some s" "fill (pFormat it) ps = Some (f, r)" "time_prints t"
  shows "length s + 2 * (length ps - length r) = 41 + number_digits pid tid it + length r + line_bytes it ps"
  using assms fill_length [OF assms(2)] header_length [OF assms(3), of pid tid it] extras_length [of r]
  by (auto simp: log_text_def line_bytes_def line_place_def)

lemma number_digits_bound: "number_digits pid tid it \<le> 31"
  using decimal_word_length [of 10 pid] decimal_word_length [of 10 tid] decimal_signed_length [of 10 "iErrorNo it"]
  by (simp add: number_digits_def)

lemma line_small:
  assumes "log_text pid tid t it ps = Some s" "time_prints t" "line_bytes it ps + length ps < 2 ^ 30"
  shows "length s < 2 ^ 31"
proof -
  obtain f r where "fill (pFormat it) ps = Some (f, r)"
    using assms(1) by (auto simp: log_text_def)
  with log_text_length [OF assms(1) this assms(2)] fill_length [OF this] number_digits_bound [of pid tid it] assms(3)
  show ?thesis
    by simp
qed

lemma size_small: "n < 2 ^ 30 \<Longrightarrow> unat (of_nat (64 + n) :: uint64_t) = 64 + n"
  by (subst unat_of_nat) simp

section \<open>Properties\<close>

text \<open>
  C20: what the formatter produces within its buffer is exactly the reference line: the header, the format
  with its placeholders replaced in order, the remaining parameters, the place of the call and the newline.
  Otherwise it has left the buffer, because the line is longer, or the format has more placeholders than
  there are parameters.
\<close>

theorem format_line_refines:
  assumes "ppParams it = Some ps" "unat (uParamCount it) = length ps" "time_prints t"
    "line_bytes it ps + length ps < 2 ^ 30"
  shows "case Option.bind (format_size it) (\<lambda>cap. format_line cap pid tid t it buf) of
      Some (Inr (b, n)) \<Rightarrow> log_text pid tid t it ps = Some (text_of b (unat n))
    | Some (Inl e) \<Rightarrow> False
    | None \<Rightarrow> (case log_text pid tid t it ps of None \<Rightarrow> True | Some s \<Rightarrow> 64 + line_bytes it ps < length s)"
proof -
  define cap where "cap = (of_nat (64 + line_bytes it ps) :: uint64_t)"
  have cap: "format_size it = Some cap" "unat cap = 64 + line_bytes it ps"
    using format_size_eq [OF assms(1,2)] size_small [of "line_bytes it ps"] assms(4) by (simp_all add: cap_def)
  show ?thesis
  proof (cases "log_text pid tid t it ps")
    case (Some s)
    have "length s < 2 ^ 31"
      by (rule line_small [OF Some assms(3,4)])
    with format_line_written [OF assms(1,2) Some this, of cap buf] cap Some show ?thesis
      by (auto simp: unat_of_nat32 split: if_splits)
  next
    case None
    then have f: "fill (pFormat it) (drop (unat (0 :: uint32_t)) ps) = None"
      by (simp add: log_text_def)
    define H where "H = line_header pid tid t it"
    have H: "length H < 2 ^ 31" "length H \<le> 68 + length (pModule it)"
      using header_length [OF assms(3), of pid tid it] number_digits_bound [of pid tid it] assms(4)
      by (simp_all add: H_def line_bytes_def)
    have small: "length H + length (pFormat it) + length (concat (drop (unat (0 :: uint32_t)) ps)) < 2 ^ 31"
      using H(2) assms(4) by (simp add: line_bytes_def)
    have "written cap [] buf 0"
      by (simp add: written_def text_of_def)
    from print_at_written [OF this, of H] H(1) cap(2)
    obtain b where b: "print_at cap 0 H buf = Some (b, int (length H))" "written cap H b (word_of_int (int (length H)))"
      by auto
    have "format_loop cap (Some ps) (pFormat it) b (word_of_int (int (length H))) 0 = None"
      using format_loop_short [OF b(2) f small] unat_lt32 [of "uParamCount it"] assms(2) by simp
    with b(1) None cap(1) show ?thesis
      by (simp add: format_line_def assms(1) H_def [symmetric])
  qed
qed

text \<open>
  C21: the line fits the buffer that was allocated for it exactly when the digits of the process number, the
  thread number and the error code and the number of parameters without a placeholder are together at most 23
  plus two for each placeholder; beyond that the line is written past the end of its heap block.
\<close>

theorem line_fits_iff:
  assumes "ppParams it = Some ps" "unat (uParamCount it) = length ps" "time_prints t"
    "line_bytes it ps + length ps < 2 ^ 30" "fill (pFormat it) ps = Some (f, r)"
  shows "Option.bind (format_size it) (\<lambda>cap. format_line cap pid tid t it buf) \<noteq> None \<longleftrightarrow>
    number_digits pid tid it + length r \<le> 23 + 2 * (length ps - length r)"
proof -
  define cap where "cap = (of_nat (64 + line_bytes it ps) :: uint64_t)"
  have cap: "format_size it = Some cap" "unat cap = 64 + line_bytes it ps"
    using format_size_eq [OF assms(1,2)] size_small [of "line_bytes it ps"] assms(4) by (simp_all add: cap_def)
  obtain s where s: "log_text pid tid t it ps = Some s"
    using assms(5) by (simp add: log_text_def)
  have "length s < 2 ^ 31"
    by (rule line_small [OF s assms(3,4)])
  with format_line_written [OF assms(1,2) s this, of cap buf] log_text_length [OF s assms(5,3)] cap show ?thesis
    by (auto split: if_splits)
qed

definition example_entry :: LogItem where
  "example_entry = \<lparr>iErrorNo = 0, eLevel = kInfo_lvl, uTid = 4242, uParamCount = 4, uTimestampNs = 0,
     pModule = ''net'', pFileLine = ''a.cpp:1'', pFunction = ''Run'', pFormat = ''{} up'', ppParams = Some [''x'', ''y'', ''z'', ''u'']\<rparr>"

lemma example_time_prints: "time_prints example_time"
  by (simp add: time_prints_def example_time_def ITime_of_fields_def)

theorem format_line_refines_witness:
  "case Option.bind (format_size example_entry) (\<lambda>cap. format_line cap 77 88 example_time example_entry (\<lambda>_. CHR 0x00)) of
      Some (Inr (b, n)) \<Rightarrow> log_text 77 88 example_time example_entry [''x'', ''y'', ''z'', ''u''] = Some (text_of b (unat n))
    | Some (Inl e) \<Rightarrow> False
    | None \<Rightarrow> (case log_text 77 88 example_time example_entry [''x'', ''y'', ''z'', ''u''] of None \<Rightarrow> True
        | Some s \<Rightarrow> 64 + line_bytes example_entry [''x'', ''y'', ''z'', ''u''] < length s)"
  by (rule format_line_refines [OF _ _ example_time_prints]) (simp_all add: example_entry_def line_bytes_def)

text \<open>
  In the thread of an asynchronous logger \<open>m_uTid\<close> keeps its initial value, the largest one. Six parameters
  without placeholders overflow the buffer.
\<close>

definition overflow_entry :: LogItem where
  "overflow_entry = example_entry\<lparr>pFormat := ''up'', uParamCount := 6,
     ppParams := Some [''x'', ''y'', ''z'', ''u'', ''v'', ''w'']\<rparr>"

theorem line_fits_iff_witness:
  "Option.bind (format_size overflow_entry)
     (\<lambda>cap. format_line cap 4194303 4294967295 example_time overflow_entry (\<lambda>_. CHR 0x00)) = None"
proof -
  have "number_digits 4194303 4294967295 overflow_entry = 18"
    by (simp add: number_digits_def overflow_entry_def example_entry_def decimal.simps decimal_int_def)
  moreover have "fill (pFormat overflow_entry) [''x'', ''y'', ''z'', ''u'', ''v'', ''w''] =
      Some (''up'', [''x'', ''y'', ''z'', ''u'', ''v'', ''w''])"
    by (simp add: overflow_entry_def)
  ultimately show ?thesis
    using line_fits_iff [of overflow_entry "[''x'', ''y'', ''z'', ''u'', ''v'', ''w'']" example_time "''up''"
        "[''x'', ''y'', ''z'', ''u'', ''v'', ''w'']" 4194303 4294967295 "\<lambda>_. CHR 0x00"]
    by (simp add: example_time_prints line_bytes_def overflow_entry_def example_entry_def)
qed

end
