(* ===== verification/LogFile.thy ===== *)
theory LogFile
  imports LogLine OrdMap "HOL-Library.List_Lexorder"
begin

text \<open>
  The file of the logger: \<open>WriteLog (const char *, uint32_t)\<close>, \<open>OpenLogFile\<close> and \<open>CheckFileSwitch\<close> of
  \<open>base/sources/logger/logger_impl.cpp\<close>. The files are an ordered map from paths to contents; what the
  system answers is an argument. The result \<open>None\<close> stands for undefined behaviour or an exception that
  leaves the function.
\<close>

section \<open>State\<close>

type_synonym files = "(string \<times> string) list"

text \<open>The fields of \<open>CLoggerImpl\<close> that belong to the file; an open \<open>m_pLogFile\<close> is the path it was opened with.\<close>

record CLogFile =
  m_pLogFile :: "string option"
  m_szLogFileName :: string
  m_uLogFileSize :: uint64_t
  m_uLogFileMaxSizeMB :: uint64_t
  m_uLogTotalSizeMB :: uint64_t
  m_uLastCheckTimeNs :: uint64_t
  m_strLoggerName :: string
  m_strLogPath :: string
  m_strLogPrefix :: string
  m_strLogSuffix :: string

text \<open>The two uses of \<open>snprintf\<close> into 256 bytes.\<close>

definition log_file_name :: "'x CLogFile_scheme \<Rightarrow> string" where
  "log_file_name l = take 255 (m_strLogPath l @ ''/'' @ m_strLoggerName l @ m_strLogSuffix l)"

definition rotated_name :: "'x CLogFile_scheme \<Rightarrow> ITime \<Rightarrow> string" where
  "rotated_name l t = take 255 (m_strLogPath l @ ''/'' @ m_strLoggerName l @ ''-'' @
     decimal_pad 4 (sint (uYear t)) @ decimal_pad 2 (sint (uMonth t)) @ decimal_pad 2 (sint (uDay t)) @ ''-'' @
     decimal_pad 2 (sint (uHour t)) @ decimal_pad 2 (sint (uMinute t)) @ decimal_pad 2 (sint (uSecond t)) @ m_strLogSuffix l)"

definition max_file_bytes :: "'x CLogFile_scheme \<Rightarrow> uint64_t" where
  "max_file_bytes l = m_uLogFileMaxSizeMB l * 1024 * 1024"

section \<open>The file system\<close>

definition rename_file :: "string \<Rightarrow> string \<Rightarrow> files \<Rightarrow> files" where
  "rename_file a b fs = (case om_find a fs of None \<Rightarrow> fs | Some c \<Rightarrow> om_assign b c (om_erase a fs))"

definition create_file :: "string \<Rightarrow> files \<Rightarrow> files" where
  "create_file p fs = (case om_find p fs of None \<Rightarrow> om_assign p [] fs | Some c \<Rightarrow> fs)"

text \<open>Writing to a file that was removed after it was opened leaves nothing behind.\<close>

definition append_file :: "string \<Rightarrow> string \<Rightarrow> files \<Rightarrow> files" where
  "append_file p s fs = (case om_find p fs of None \<Rightarrow> fs | Some c \<Rightarrow> om_assign p (c @ s) fs)"

section \<open>Operations\<close>

text \<open>
  \<open>can_open\<close> and \<open>can_rename\<close> say whether \<open>fopen\<close> and \<open>std::filesystem::rename\<close> succeed; the latter throws
  otherwise. \<open>t\<close> is the local time.
\<close>

definition OpenLogFile ::
  "bool \<Rightarrow> bool \<Rightarrow> ITime \<Rightarrow> 'x CLogFile_scheme \<Rightarrow> files \<Rightarrow> last_error \<Rightarrow>
     ('x CLogFile_scheme \<times> files \<times> last_error \<times> ErrorCode) option" where
  "OpenLogFile can_open can_rename t l fs e =
     (case
        (if m_pLogFile l \<noteq> nullptr
         then let l = l\<lparr>m_pLogFile := nullptr, m_uLogFileSize := 0\<rparr> in
           if om_find (m_szLogFileName l) fs \<noteq> None
           then (if can_rename then Some (l, rename_file (m_szLogFileName l) (rotated_name l t) fs) else None)
           else Some (l, fs)
         else Some (l, fs)) of
        None \<Rightarrow> None
      | Some (l, fs) \<Rightarrow>
          (let l = l\<lparr>m_szLogFileName := log_file_name l\<rparr> in
           if can_open
           then Some (l\<lparr>m_pLogFile := Some (m_szLogFileName l)\<rparr>, create_file (m_szLogFileName l) fs, e, kSuccess)
           else Some (l\<lparr>m_pLogFile := nullptr\<rparr>, fs, SetLastError kSystemError e, kSystemError)))"

text \<open>\<open>stored\<close> is the result of \<open>fwrite\<close>, the number of bytes that it wrote.\<close>

definition WriteLog_text ::
  "bool \<Rightarrow> bool \<Rightarrow> uint64_t \<Rightarrow> ITime \<Rightarrow> string \<Rightarrow> 'x CLogFile_scheme \<Rightarrow> files \<Rightarrow> last_error \<Rightarrow>
     ('x CLogFile_scheme \<times> files \<times> last_error \<times> ErrorCode) option" where
  "WriteLog_text can_open can_rename stored t s l fs e =
     (case
        (if m_pLogFile l = nullptr \<or> m_uLogFileSize l \<ge> max_file_bytes l
         then OpenLogFile can_open can_rename t l fs e else Some (l, fs, e, kSuccess)) of
        None \<Rightarrow> None
      | Some (l, fs, e, r) \<Rightarrow>
          if r \<noteq> kSuccess then Some (l, fs, e, kSystemError)
          else (case m_pLogFile l of
              None \<Rightarrow> None
            | Some p \<Rightarrow>
                if stored = - 1 then Some (l, fs, SetLastError kSystemError e, kSystemError)
                else Some (l\<lparr>m_uLogFileSize := m_uLogFileSize l + stored\<rparr>,
                  append_file p (take (unat stored) s) fs, e, kSuccess)))"

section \<open>CheckFileSwitch\<close>

text \<open>\<open>std::string::find_first_of\<close> and \<open>find_last_of\<close>, with \<open>npos\<close> when no character is found.\<close>

fun find_first_of :: "string \<Rightarrow> string \<Rightarrow> uint64_t \<Rightarrow> uint64_t" where
  "find_first_of cs [] i = - 1"
| "find_first_of cs (x # xs) i = (if x \<in> set cs then i else find_first_of cs xs (i + 1))"

fun find_last_of :: "string \<Rightarrow> string \<Rightarrow> uint64_t \<Rightarrow> uint64_t" where
  "find_last_of cs [] i = - 1"
| "find_last_of cs (x # xs) i =
     (let r = find_last_of cs xs (i + 1) in if r \<noteq> - 1 then r else if x \<in> set cs then i else - 1)"

definition skipped_file :: "'x CLogFile_scheme \<Rightarrow> string \<Rightarrow> bool" where
  "skipped_file l name \<longleftrightarrow> name = m_szLogFileName l \<or> find_first_of (m_strLogPrefix l) name 0 \<noteq> 0 \<or>
     find_last_of (m_strLogSuffix l) name 0 \<noteq> of_nat (length name) - of_nat (length (m_strLogSuffix l))"

text \<open>\<open>directory_iterator\<close>: the names in a directory, with the sizes of the files.\<close>

definition directory_entries :: "string \<Rightarrow> files \<Rightarrow> (string \<times> uint64_t) list" where
  "directory_entries dir fs =
     [(drop (Suc (length dir)) p, of_nat (length c)). (p, c) \<leftarrow> fs,
        take (Suc (length dir)) p = dir @ ''/'' \<and> CHR ''/'' \<notin> set (drop (Suc (length dir)) p)]"

text \<open>The loop that collects the files, and the loop that picks those to remove.\<close>

fun collect_files ::
  "'x CLogFile_scheme \<Rightarrow> (string \<times> uint64_t) list \<Rightarrow> uint64_t \<Rightarrow> (string \<times> uint64_t) list \<Rightarrow>
     uint64_t \<times> (string \<times> uint64_t) list" where
  "collect_files l [] uTotalSize mapFileNames = (uTotalSize, mapFileNames)"
| "collect_files l ((name, n) # es) uTotalSize mapFileNames =
     (if skipped_file l name then collect_files l es uTotalSize mapFileNames
      else collect_files l es (uTotalSize + n)
        (if om_find name mapFileNames = None then om_assign name n mapFileNames else mapFileNames))"

fun oldest_files :: "uint64_t \<Rightarrow> uint64_t \<Rightarrow> (string \<times> uint64_t) list \<Rightarrow> string list" where
  "oldest_files limit uTotalSize [] = []"
| "oldest_files limit uTotalSize ((name, n) # m) = (if uTotalSize > limit then name # oldest_files limit (uTotalSize - n) m else [])"

fun remove_files :: "string \<Rightarrow> string list \<Rightarrow> files \<Rightarrow> files" where
  "remove_files dir [] fs = fs"
| "remove_files dir (name # names) fs = remove_files dir names (om_erase (dir @ ''/'' @ name) fs)"

definition clean_files :: "'x CLogFile_scheme \<Rightarrow> files \<Rightarrow> files" where
  "clean_files l fs =
     (case collect_files l (directory_entries (m_strLogPath l) fs) 0 [] of
        (uTotalSize, m) \<Rightarrow>
          remove_files (m_strLogPath l) (oldest_files (m_uLogTotalSizeMB l * 1024 * 1024) uTotalSize m) fs)"

text \<open>The first part: the size of the current file. \<open>fclose\<close> of \<open>nullptr\<close> is undefined.\<close>

definition switch_file ::
  "bool \<Rightarrow> bool \<Rightarrow> ITime \<Rightarrow> 'x CLogFile_scheme \<Rightarrow> files \<Rightarrow> last_error \<Rightarrow>
     ('x CLogFile_scheme \<times> files \<times> last_error \<times> ErrorCode) option" where
  "switch_file can_open can_rename t l fs e =
     (if m_uLogFileSize l \<ge> max_file_bytes l
      then (if m_pLogFile l = nullptr then None
            else OpenLogFile can_open can_rename t (l\<lparr>m_pLogFile := nullptr, m_uLogFileSize := 0\<rparr>) fs e)
      else Some (l, fs, e, kSuccess))"

text \<open>
  The whole function; \<open>now\<close> is the clock in nanoseconds, and \<open>has_dir\<close> says whether the log directory exists.
\<close>

definition CheckFileSwitch ::
  "bool \<Rightarrow> bool \<Rightarrow> bool \<Rightarrow> uint64_t \<Rightarrow> ITime \<Rightarrow> 'x CLogFile_scheme \<Rightarrow> files \<Rightarrow> last_error \<Rightarrow>
     ('x CLogFile_scheme \<times> files \<times> last_error) option" where
  "CheckFileSwitch can_open can_rename has_dir now t l fs e =
     (case switch_file can_open can_rename t l fs e of
        None \<Rightarrow> None
      | Some (l, fs, e, r) \<Rightarrow>
          if r \<noteq> kSuccess then Some (l, fs, e)
          else if now - m_uLastCheckTimeNs l < kSecond * 60 * 10 then Some (l, fs, e)
          else if \<not> has_dir then None
          else let l = l\<lparr>m_uLastCheckTimeNs := now\<rparr> in Some (l, clean_files l fs, e))"

section \<open>Which files are removed\<close>

lemma unat_npos: "unat (- 1 :: uint64_t) = 2 ^ 64 - 1"
  by (simp add: unsigned_minus_1_eq_mask mask_eq_exp_minus_1)

lemma unat_of_nat64: "n < 2 ^ 64 \<Longrightarrow> unat (of_nat n :: uint64_t) = n"
  by (simp add: unat_of_nat)

lemma find_last_of_last:
  "name \<noteq> [] \<Longrightarrow> last name \<in> set cs \<Longrightarrow> unat i + length name < 2 ^ 64 \<Longrightarrow>
     find_last_of cs name i = i + of_nat (length name - 1)"
proof (induction cs name i rule: find_last_of.induct)
  case (2 cs x xs i)
  have i: "i \<noteq> - 1"
    using 2(4) by (auto simp: unat_npos)
  show ?case
  proof (cases "xs = []")
    case False
    have u: "unat (i + 1) = Suc (unat i)"
      using 2(4) unat_Suc_word [of i] by simp
    have ih: "find_last_of cs xs (i + 1) = i + of_nat (length xs)"
      using False 2 u by (cases xs) (simp_all add: algebra_simps)
    have "unat (i + of_nat (length xs)) = unat i + length xs"
      using 2(4) by (subst unat_plus_small) (simp_all add: unat_of_nat64)
    then have "i + of_nat (length xs) \<noteq> - 1"
      using 2(4) by (auto simp: unat_npos)
    with ih show ?thesis
      by (simp add: Let_def)
  qed (use 2 i in simp)
qed simp

lemma suffix_skipped:
  assumes "2 \<le> length (m_strLogSuffix l)" "name = pre @ m_strLogSuffix l" "length name < 2 ^ 64"
  shows "skipped_file l name"
proof -
  let ?s = "m_strLogSuffix l"
  have ne: "name \<noteq> []" "last name \<in> set ?s"
    using assms(1,2) last_in_set [of ?s] by (auto simp: last_append)
  have "find_last_of ?s name 0 = of_nat (length name - 1)"
    using find_last_of_last [OF ne, of 0] assms(3) by simp
  moreover have "(of_nat (length name) - of_nat (length ?s) :: uint64_t) = of_nat (length pre)"
    using assms(2) by simp
  moreover have "length name - 1 \<noteq> length pre" "length pre < 2 ^ 64" "length name - 1 < 2 ^ 64"
    using assms by simp_all
  then have "(of_nat (length name - 1) :: uint64_t) \<noteq> of_nat (length pre)"
    by (metis unat_of_nat64)
  ultimately show ?thesis
    by (simp add: skipped_file_def)
qed

lemma prefix_skipped: "m_strLogPrefix l = [] \<Longrightarrow> skipped_file l name"
proof -
  have "find_first_of [] xs i = - 1" for xs i
    by (induction xs arbitrary: i) simp_all
  then show "m_strLogPrefix l = [] \<Longrightarrow> skipped_file l name"
    by (simp add: skipped_file_def)
qed

lemma collect_files_valid:
  "om_valid m \<Longrightarrow> om_valid (snd (collect_files l es n m))"
  by (induction l es n m rule: collect_files.induct) (simp_all add: om_assign_valid)

lemma collect_files_names:
  "om_valid m \<Longrightarrow>
     fst ` set (snd (collect_files l es n m)) = fst ` set m \<union> {name \<in> fst ` set es. \<not> skipped_file l name}"
proof (induction l es n m rule: collect_files.induct)
  case (2 l name n es uTotalSize m)
  have "fst ` set (om_assign name n m) = insert name (fst ` set m)"
    using om_assign_set [OF 2(3), of name n] by force
  moreover have "om_find name m \<noteq> None \<Longrightarrow> name \<in> fst ` set m"
    using om.find_none [OF 2(3), of name] by simp
  ultimately show ?case
    using 2 by (auto simp: om_assign_valid)
qed simp

lemma oldest_files_sub: "set (oldest_files limit n m) \<subseteq> fst ` set m"
  by (induction limit n m rule: oldest_files.induct) auto

lemma remove_files_find:
  "om_valid fs \<Longrightarrow>
     om_find p (remove_files dir names fs) = (if p \<in> (\<lambda>name. dir @ ''/'' @ name) ` set names then None else om_find p fs)"
  by (induction dir names fs rule: remove_files.induct) (auto simp: om.find_erase om_erase_valid)

lemma remove_files_valid: "om_valid fs \<Longrightarrow> om_valid (remove_files dir names fs)"
  by (induction dir names fs rule: remove_files.induct) (simp_all add: om_erase_valid)

lemma clean_files_valid: "om_valid fs \<Longrightarrow> om_valid (clean_files l fs)"
  by (simp add: clean_files_def remove_files_valid split: prod.splits)

text \<open>A file that is skipped survives.\<close>

lemma clean_files_keeps:
  assumes "om_valid fs" "\<And>name. p = m_strLogPath l @ ''/'' @ name \<Longrightarrow> skipped_file l name"
  shows "om_find p (clean_files l fs) = om_find p fs"
proof -
  obtain n m where m: "collect_files l (directory_entries (m_strLogPath l) fs) 0 [] = (n, m)"
    by force
  have "fst ` set m = {name \<in> fst ` set (directory_entries (m_strLogPath l) fs). \<not> skipped_file l name}"
    using collect_files_names [of "[]" l "directory_entries (m_strLogPath l) fs" 0] m by (simp add: om_valid_def)
  with oldest_files_sub [of "m_uLogTotalSizeMB l * 1024 * 1024" n m] assms
  have "p \<notin> (\<lambda>name. m_strLogPath l @ ''/'' @ name) ` set (oldest_files (m_uLogTotalSizeMB l * 1024 * 1024) n m)"
    by blast
  with m assms(1) show ?thesis
    by (simp add: clean_files_def remove_files_find)
qed

section \<open>Lines and rotations\<close>

definition content :: "files \<Rightarrow> string \<Rightarrow> string" where
  "content fs p = (case om_find p fs of None \<Rightarrow> [] | Some c \<Rightarrow> c)"

text \<open>Whether a write rotates the file first.\<close>

definition rotates :: "'x CLogFile_scheme \<Rightarrow> bool" where
  "rotates l \<longleftrightarrow> m_pLogFile l \<noteq> nullptr \<and> m_uLogFileSize l \<ge> max_file_bytes l"

text \<open>
  What the system answers to one write: the local time, whether \<open>fopen\<close> and \<open>rename\<close> succeed if they are
  called, and the result of \<open>fwrite\<close>. In an answer that is \<open>complete\<close> every call does what it was asked.
\<close>

record line_env =
  le_time :: ITime
  le_open :: bool
  le_rename :: bool
  le_stored :: uint64_t

definition complete :: "line_env \<Rightarrow> string \<Rightarrow> bool" where
  "complete env s \<longleftrightarrow> le_open env \<and> le_rename env \<and> length s < 2 ^ 32 \<and> le_stored env = of_nat (length s)"

text \<open>
  Successive calls of \<open>WriteLog\<close>, each with its text and its answers. The results are the object, the
  files, the names that the rotations gave to the old files, and the codes that the calls returned.
\<close>

fun write_lines ::
  "(line_env \<times> string) list \<Rightarrow> 'x CLogFile_scheme \<Rightarrow> files \<Rightarrow> last_error \<Rightarrow>
     ('x CLogFile_scheme \<times> files \<times> string list \<times> ErrorCode list) option" where
  "write_lines [] l fs e = Some (l, fs, [], [])"
| "write_lines ((env, s) # ws) l fs e =
     (case WriteLog_text (le_open env) (le_rename env) (le_stored env) (le_time env) s l fs e of
        None \<Rightarrow> None
      | Some (l', fs', e', r) \<Rightarrow>
          map_option (\<lambda>(l'', fs'', ns, rs).
              (l'', fs'', (if rotates l then [rotated_name l (le_time env)] else []) @ ns, r # rs))
            (write_lines ws l' fs' e'))"

text \<open>The answers to a write of \<open>s\<close> when every call succeeds.\<close>

definition all_well :: "ITime \<Rightarrow> string \<Rightarrow> line_env" where
  "all_well t s = \<lparr>le_time = t, le_open = True, le_rename = True, le_stored = of_nat (length s)\<rparr>"

text \<open>The part of each text that reached the file.\<close>

definition arrived :: "line_env \<times> string \<Rightarrow> ErrorCode \<Rightarrow> string" where
  "arrived w r = (if r = kSuccess then take (unat (le_stored (fst w))) (snd w) else [])"

definition same_names :: "'x CLogFile_scheme \<Rightarrow> 'x CLogFile_scheme \<Rightarrow> bool" where
  "same_names l l' \<longleftrightarrow> m_strLoggerName l' = m_strLoggerName l \<and> m_strLogPath l' = m_strLogPath l \<and>
     m_strLogPrefix l' = m_strLogPrefix l \<and> m_strLogSuffix l' = m_strLogSuffix l \<and>
     m_uLogFileMaxSizeMB l' = m_uLogFileMaxSizeMB l"

lemma same_names_names:
  assumes "same_names l l'"
  shows "log_file_name l' = log_file_name l" "rotated_name l' = rotated_name l" "max_file_bytes l' = max_file_bytes l"
    "m_strLogPrefix l' = m_strLogPrefix l"
  using assms by (auto simp: same_names_def log_file_name_def rotated_name_def max_file_bytes_def)

text \<open>An open file is the current one and exists.\<close>

definition file_inv :: "'x CLogFile_scheme \<Rightarrow> files \<Rightarrow> bool" where
  "file_inv l fs \<longleftrightarrow> om_valid fs \<and>
     (\<forall>p. m_pLogFile l = Some p \<longrightarrow> p = log_file_name l \<and> m_szLogFileName l = p \<and> om_find p fs \<noteq> None)"

lemma content_assign: "om_valid fs \<Longrightarrow> content (om_assign p c fs) q = (if q = p then c else content fs q)"
  by (simp add: content_def om.find_assign)

lemma find_create: "om_valid fs \<Longrightarrow>
    om_find q (create_file p fs) = (if q = p then Some (content fs p) else om_find q fs)"
  by (auto simp: create_file_def content_def om.find_assign split: option.splits)

lemma find_rename: "om_valid fs \<Longrightarrow> om_find a fs = Some c \<Longrightarrow>
    om_find q (rename_file a b fs) = (if q = b then Some c else if q = a then None else om_find q fs)"
  by (auto simp: rename_file_def om.find_assign om.find_erase om_erase_valid)

lemma valid_files:
  "om_valid fs \<Longrightarrow> om_valid (create_file p fs)" "om_valid fs \<Longrightarrow> om_valid (rename_file a b fs)"
  "om_valid fs \<Longrightarrow> om_valid (append_file p s fs)"
  by (auto simp: create_file_def rename_file_def append_file_def om_assign_valid om_erase_valid split: option.splits)

lemma find_append: "om_valid fs \<Longrightarrow> om_find p fs = Some c \<Longrightarrow>
    om_find q (append_file p s fs) = (if q = p then Some (c @ s) else om_find q fs)"
  by (simp add: append_file_def om.find_assign)

text \<open>Opening the file.\<close>

lemma OpenLogFile_ok:
  assumes "file_inv l fs" "OpenLogFile True True t l fs e = Some (l', fs', e', r)"
  shows "r = kSuccess" "e' = e" "same_names l l'" "file_inv l' fs'" "m_pLogFile l' = Some (log_file_name l)"
    "m_uLogFileSize l' = (if m_pLogFile l = nullptr then m_uLogFileSize l else 0)"
    "m_pLogFile l = nullptr \<Longrightarrow>
       om_find q fs' = (if q = log_file_name l then Some (content fs (log_file_name l)) else om_find q fs)"
    "m_pLogFile l \<noteq> nullptr \<Longrightarrow> rotated_name l t \<noteq> log_file_name l \<Longrightarrow>
       om_find q fs' = (if q = log_file_name l then Some [] else if q = rotated_name l t then om_find (log_file_name l) fs
         else om_find q fs)"
  using assms
  by (auto simp: OpenLogFile_def file_inv_def same_names_def log_file_name_def rotated_name_def Let_def find_create
      find_rename valid_files content_def split: if_splits option.splits)

lemma OpenLogFile_defined:
  "OpenLogFile can_open True t l fs e \<noteq> None"
  by (simp add: OpenLogFile_def Let_def)

text \<open>Writing a line.\<close>

lemma WriteLog_text_ok:
  assumes inv: "file_inv l fs" and s: "length s < 2 ^ 32"
  shows "\<exists>l' fs'. WriteLog_text True True (of_nat (length s)) t s l fs e = Some (l', fs', e, kSuccess) \<and>
    same_names l l' \<and> file_inv l' fs' \<and> m_pLogFile l' = Some (log_file_name l) \<and>
    m_uLogFileSize l' = (if rotates l then 0 else m_uLogFileSize l) + of_nat (length s) \<and>
    ((rotates l \<longrightarrow> rotated_name l t \<noteq> log_file_name l) \<longrightarrow> (\<forall>q. om_find q fs' =
       (if q = log_file_name l then Some ((if rotates l then [] else content fs q) @ s)
        else if rotates l \<and> q = rotated_name l t then om_find (log_file_name l) fs
        else om_find q fs)))"
proof -
  have u: "unat (of_nat (length s) :: uint64_t) = length s" "(of_nat (length s) :: uint64_t) \<noteq> - 1"
    using s unat_of_nat64 [of "length s"] unat_npos by auto
  show ?thesis
  proof (cases "m_pLogFile l = nullptr \<or> m_uLogFileSize l \<ge> max_file_bytes l")
    case True
    obtain l1 fs1 e1 r1 where o: "OpenLogFile True True t l fs e = Some (l1, fs1, e1, r1)"
      using OpenLogFile_defined [of True t l fs e] by auto
    note ok = OpenLogFile_ok [OF inv o]
    have same: "\<And>x. same_names l (l1\<lparr>m_uLogFileSize := x\<rparr>)" "\<And>x. log_file_name (l1\<lparr>m_uLogFileSize := x\<rparr>) = log_file_name l"
      using ok(3) by (auto simp: same_names_def log_file_name_def)
    have valid: "om_valid fs1" "m_szLogFileName l1 = log_file_name l"
      using ok(4,5) by (simp_all add: file_inv_def)
    obtain c where c: "om_find (log_file_name l) fs1 = Some c"
      using ok(4,5) by (auto simp: file_inv_def)
    have find: "om_find q fs1 = (if q = log_file_name l then Some (if rotates l then [] else content fs q)
        else if rotates l \<and> q = rotated_name l t then om_find (log_file_name l) fs else om_find q fs)"
      if "rotates l \<longrightarrow> rotated_name l t \<noteq> log_file_name l" for q
      using ok(7,8) that True by (auto simp: rotates_def)
    have cur: "c = (if rotates l then [] else content fs (log_file_name l))"
      if "rotates l \<longrightarrow> rotated_name l t \<noteq> log_file_name l"
      using find [OF that, of "log_file_name l"] c by simp
    have w: "WriteLog_text True True (of_nat (length s)) t s l fs e =
        Some (l1\<lparr>m_uLogFileSize := m_uLogFileSize l1 + of_nat (length s)\<rparr>, append_file (log_file_name l) s fs1, e, kSuccess)"
      using True o ok(1,2,5) u by (simp add: WriteLog_text_def)
    show ?thesis
      unfolding w using same valid ok(5,6) True find cur
      by (auto simp: file_inv_def valid_files find_append [OF valid(1) c] rotates_def)
  next
    case False
    then obtain p where p: "m_pLogFile l = Some p" "\<not> rotates l"
      by (auto simp: rotates_def)
    with inv obtain c where c: "om_valid fs" "p = log_file_name l" "om_find p fs = Some c" "m_szLogFileName l = p"
      by (auto simp: file_inv_def)
    have w: "WriteLog_text True True (of_nat (length s)) t s l fs e =
        Some (l\<lparr>m_uLogFileSize := m_uLogFileSize l + of_nat (length s)\<rparr>, append_file p s fs, e, kSuccess)"
      using False p u by (simp add: WriteLog_text_def)
    have same: "\<And>x. same_names l (l\<lparr>m_uLogFileSize := x\<rparr>)" "\<And>x. log_file_name (l\<lparr>m_uLogFileSize := x\<rparr>) = log_file_name l"
      by (simp_all add: same_names_def rotated_name_def log_file_name_def)
    show ?thesis
      unfolding w using same p c find_append [OF c(1,3), of _ s]
      by (auto simp: file_inv_def valid_files content_def)
  qed
qed

text \<open>
  The rotated files in order and then the current one, read one after the other.
\<close>

definition history :: "files \<Rightarrow> string list \<Rightarrow> string \<Rightarrow> string" where
  "history fs ns cur = concat (map (content fs) (ns @ [cur]))"

lemma same_names_trans: "same_names l l' \<Longrightarrow> same_names l' l'' \<Longrightarrow> same_names l l''"
  by (simp add: same_names_def)

lemma OpenLogFile_inv:
  assumes "file_inv l fs" "OpenLogFile can_open True t l fs e = Some (l', fs', e', r)"
  shows "same_names l l' \<and> file_inv l' fs' \<and> (r = kSuccess \<longrightarrow> m_pLogFile l' = Some (log_file_name l))"
  using assms by (auto simp: OpenLogFile_def file_inv_def same_names_def log_file_name_def Let_def find_create
      valid_files split: if_splits)

lemma OpenLogFile_step:
  assumes inv: "file_inv l fs" and o: "OpenLogFile can_open True t l fs e = Some (l', fs', e', r)"
    and name: "m_pLogFile l \<noteq> nullptr \<Longrightarrow> rotated_name l t \<noteq> log_file_name l"
  shows "content fs' q = (if m_pLogFile l = nullptr then content fs q else if q = log_file_name l then []
      else if q = rotated_name l t then content fs (log_file_name l) else content fs q)"
    and "q \<noteq> log_file_name l \<Longrightarrow> m_pLogFile l = nullptr \<or> q \<noteq> rotated_name l t \<Longrightarrow> om_find q fs' = om_find q fs"
proof -
  have valid: "om_valid fs"
    using inv by (simp add: file_inv_def)
  have create: "content (create_file (log_file_name l) gs) q = content gs q"
    "q \<noteq> log_file_name l \<Longrightarrow> om_find q (create_file (log_file_name l) gs) = om_find q gs" if "om_valid gs" for gs q
    using find_create [OF that] by (auto simp: content_def)
  have "(content fs' q = (if m_pLogFile l = nullptr then content fs q else if q = log_file_name l then []
      else if q = rotated_name l t then content fs (log_file_name l) else content fs q)) \<and>
    (q \<noteq> log_file_name l \<longrightarrow> (m_pLogFile l = nullptr \<or> q \<noteq> rotated_name l t) \<longrightarrow> om_find q fs' = om_find q fs)"
  proof (cases "m_pLogFile l")
    case None
    with o have "fs' = (if can_open then create_file (log_file_name l) fs else fs)"
      by (auto simp: OpenLogFile_def Let_def log_file_name_def split: if_splits)
    with None create [OF valid] show ?thesis
      by simp
  next
    case (Some p)
    then obtain c where p: "m_szLogFileName l = log_file_name l" "om_find (log_file_name l) fs = Some c"
      using inv by (auto simp: file_inv_def)
    let ?gs = "rename_file (log_file_name l) (rotated_name l t) fs"
    have gs: "om_find q ?gs = (if q = rotated_name l t then Some c else if q = log_file_name l then None else om_find q fs)" for q
      by (rule find_rename [OF valid p(2)])
    have names: "log_file_name (l\<lparr>m_pLogFile := nullptr, m_uLogFileSize := 0\<rparr>) = log_file_name l"
      "rotated_name (l\<lparr>m_pLogFile := nullptr, m_uLogFileSize := 0\<rparr>) t = rotated_name l t"
      by (simp_all add: log_file_name_def rotated_name_def)
    have fs': "fs' = (if can_open then create_file (log_file_name l) ?gs else ?gs)"
      using o Some p names by (simp add: OpenLogFile_def Let_def split: if_splits)
    have "content fs' q = content ?gs q" "q \<noteq> log_file_name l \<Longrightarrow> om_find q fs' = om_find q ?gs"
      using create [OF valid_files(2) [OF valid]] by (simp_all add: fs')
    with gs [of q] Some p(2) name show ?thesis
      by (auto simp: content_def)
  qed
  then show "content fs' q = (if m_pLogFile l = nullptr then content fs q else if q = log_file_name l then []
      else if q = rotated_name l t then content fs (log_file_name l) else content fs q)"
    "q \<noteq> log_file_name l \<Longrightarrow> m_pLogFile l = nullptr \<or> q \<noteq> rotated_name l t \<Longrightarrow> om_find q fs' = om_find q fs"
    by blast+
qed

text \<open>The file that was opened or already was open, and the write.\<close>

lemma WriteLog_text_split:
  assumes "WriteLog_text can_open can_rename n t s l fs e = Some (l', fs', e', r)"
  obtains l1 fs1 e1 r1 where
    "(if m_pLogFile l = nullptr \<or> m_uLogFileSize l \<ge> max_file_bytes l
      then OpenLogFile can_open can_rename t l fs e else Some (l, fs, e, kSuccess)) = Some (l1, fs1, e1, r1)"
    "if r = kSuccess then r1 = kSuccess \<and> (\<exists>p. m_pLogFile l1 = Some p \<and>
         l' = l1\<lparr>m_uLogFileSize := m_uLogFileSize l1 + n\<rparr> \<and> fs' = append_file p (take (unat n) s) fs1)
     else l' = l1 \<and> fs' = fs1"
proof -
  let ?first = "if m_pLogFile l = nullptr \<or> m_uLogFileSize l \<ge> max_file_bytes l
      then OpenLogFile can_open can_rename t l fs e else Some (l, fs, e, kSuccess)"
  note w = assms [unfolded WriteLog_text_def]
  from w have "?first \<noteq> None"
    by (cases ?first) simp_all
  then obtain l1 fs1 e1 r1 where f: "?first = Some (l1, fs1, e1, r1)"
    by (metis not_None_eq prod_cases4)
  from w [unfolded f] show thesis
    by (intro that [OF f]) (auto split: if_splits option.splits)
qed

lemma WriteLog_text_inv:
  assumes w: "WriteLog_text can_open True n t s l fs e = Some (l', fs', e', r)" and inv: "file_inv l fs"
  shows "file_inv l' fs'"
proof -
  have append_inv: "file_inv (l1\<lparr>m_uLogFileSize := x\<rparr>) (append_file p u fs1)"
    if "file_inv l1 fs1" "m_pLogFile l1 = Some p" for l1 :: "'a CLogFile_scheme" and fs1 x p u
    using that by (auto simp: file_inv_def valid_files find_append log_file_name_def)
  obtain l1 fs1 e1 r1 where f: "(if m_pLogFile l = nullptr \<or> m_uLogFileSize l \<ge> max_file_bytes l
      then OpenLogFile can_open True t l fs e else Some (l, fs, e, kSuccess)) = Some (l1, fs1, e1, r1)"
    and out: "if r = kSuccess then r1 = kSuccess \<and> (\<exists>p. m_pLogFile l1 = Some p \<and>
         l' = l1\<lparr>m_uLogFileSize := m_uLogFileSize l1 + n\<rparr> \<and> fs' = append_file p (take (unat n) s) fs1)
     else l' = l1 \<and> fs' = fs1"
    using w by (rule WriteLog_text_split)
  have "file_inv l1 fs1"
    using f OpenLogFile_inv [OF inv] inv by (auto split: if_splits)
  with out append_inv show ?thesis
    by (auto split: if_splits)
qed

text \<open>One call of \<open>WriteLog\<close>, whatever the system answers.\<close>

lemma WriteLog_text_step:
  assumes inv: "file_inv l fs" and w: "WriteLog_text can_open True n t s l fs e = Some (l', fs', e', r)"
    and name: "rotates l \<Longrightarrow> rotated_name l t \<noteq> log_file_name l"
  shows "same_names l l' \<and> file_inv l' fs' \<and>
    content fs' q = (if q = log_file_name l then (if rotates l then [] else content fs q) @
        (if r = kSuccess then take (unat n) s else [])
      else if rotates l \<and> q = rotated_name l t then content fs (log_file_name l) else content fs q) \<and>
    (q \<noteq> log_file_name l \<longrightarrow> \<not> (rotates l \<and> q = rotated_name l t) \<longrightarrow> om_find q fs' = om_find q fs)"
proof -
  obtain l1 fs1 e1 r1 where f: "(if m_pLogFile l = nullptr \<or> m_uLogFileSize l \<ge> max_file_bytes l
      then OpenLogFile can_open True t l fs e else Some (l, fs, e, kSuccess)) = Some (l1, fs1, e1, r1)"
    and out: "if r = kSuccess then r1 = kSuccess \<and> (\<exists>p. m_pLogFile l1 = Some p \<and>
         l' = l1\<lparr>m_uLogFileSize := m_uLogFileSize l1 + n\<rparr> \<and> fs' = append_file p (take (unat n) s) fs1)
     else l' = l1 \<and> fs' = fs1"
    using w by (rule WriteLog_text_split)
  have one: "same_names l l1 \<and> file_inv l1 fs1 \<and> (r1 = kSuccess \<longrightarrow> m_pLogFile l1 = Some (log_file_name l)) \<and>
    content fs1 q = (if rotates l then (if q = log_file_name l then []
        else if q = rotated_name l t then content fs (log_file_name l) else content fs q) else content fs q) \<and>
    (q \<noteq> log_file_name l \<longrightarrow> \<not> (rotates l \<and> q = rotated_name l t) \<longrightarrow> om_find q fs1 = om_find q fs)" for q
  proof (cases "m_pLogFile l = nullptr \<or> m_uLogFileSize l \<ge> max_file_bytes l")
    case True
    with f have o: "OpenLogFile can_open True t l fs e = Some (l1, fs1, e1, r1)"
      by simp
    have "rotates l \<longleftrightarrow> m_pLogFile l \<noteq> nullptr"
      using True by (auto simp: rotates_def)
    with OpenLogFile_step [OF inv o, of q] OpenLogFile_inv [OF inv o] name show ?thesis
      by auto
  next
    case False
    with f inv show ?thesis
      by (auto simp: rotates_def file_inv_def same_names_def)
  qed
  show ?thesis
  proof (cases "r = kSuccess")
    case True
    note p = one [of "log_file_name l"]
    have names: "log_file_name l1 = log_file_name l"
      using p same_names_names by blast
    obtain c where c: "om_valid fs1" "om_find (log_file_name l) fs1 = Some c"
      using p out True by (auto simp: file_inv_def)
    have eq: "l' = l1\<lparr>m_uLogFileSize := m_uLogFileSize l1 + n\<rparr>"
      "fs' = append_file (log_file_name l) (take (unat n) s) fs1"
      using out p True by auto
    have find: "om_find q fs' = (if q = log_file_name l then Some (c @ take (unat n) s) else om_find q fs1)" for q
      unfolding eq(2) by (rule find_append [OF c])
    have "om_valid fs'"
      unfolding eq(2) by (rule valid_files(3) [OF c(1)])
    then have "file_inv l' fs'"
      using p find out True names by (auto simp: file_inv_def eq(1) log_file_name_def)
    moreover have "same_names l l'"
      using p by (simp add: same_names_def eq(1))
    moreover have "content fs (log_file_name l) = c" if "\<not> rotates l"
      using p that c(2) by (simp add: content_def)
    moreover have "c = []" if "rotates l"
      using p that c(2) by (simp add: content_def)
    ultimately show ?thesis
      using one [of q] find [of q] True by (auto simp: content_def)
  next
    case False
    with out one [of q] show ?thesis
      by auto
  qed
qed

lemma WriteLog_text_defined:
  assumes "file_inv l fs"
  shows "WriteLog_text can_open True n t s l fs e \<noteq> None"
  using assms by (auto simp: WriteLog_text_def OpenLogFile_def Let_def)

lemma write_lines_history:
  assumes "file_inv l fs" "\<forall>(env, s) \<in> set ws. le_rename env"
  shows "\<exists>l' fs' ns rs. write_lines ws l fs e = Some (l', fs', ns, rs) \<and> length rs = length ws \<and>
    (distinct ns \<longrightarrow> log_file_name l \<notin> set ns \<longrightarrow>
       history fs' ns (log_file_name l) = content fs (log_file_name l) @ concat (map2 arrived ws rs) \<and>
       (\<forall>q. q \<noteq> log_file_name l \<longrightarrow> q \<notin> set ns \<longrightarrow> om_find q fs' = om_find q fs))"
  using assms
proof (induction ws arbitrary: l fs e)
  case Nil
  then show ?case
    by (simp add: history_def)
next
  case (Cons w ws)
  obtain env s where w: "w = (env, s)" by force
  have rn: "le_rename env = True" and ws: "\<forall>(env, s) \<in> set ws. le_rename env"
    using Cons.prems(2) w by auto
  obtain l1 fs1 e1 r where o: "WriteLog_text (le_open env) True (le_stored env) (le_time env) s l fs e = Some (l1, fs1, e1, r)"
    using WriteLog_text_defined [OF Cons.prems(1)] by (metis not_None_eq prod_cases4)
  note step = WriteLog_text_step [OF Cons.prems(1) o]
  show ?case
  proof (cases "rotates l \<longrightarrow> rotated_name l (le_time env) \<noteq> log_file_name l")
    case True
    then have name: "rotates l \<Longrightarrow> rotated_name l (le_time env) \<noteq> log_file_name l"
      by simp
    note st = step [OF name]
    have inv1: "file_inv l1 fs1" and same: "same_names l l1"
      using st by blast+
    note names = same_names_names [OF same]
    from Cons.IH [OF inv1 ws, of e1, unfolded names] obtain l' fs' ns rs where
      run: "write_lines ws l1 fs1 e1 = Some (l', fs', ns, rs)" "length rs = length ws"
      and IH: "distinct ns \<Longrightarrow> log_file_name l \<notin> set ns \<Longrightarrow>
       history fs' ns (log_file_name l) = content fs1 (log_file_name l) @ concat (map2 arrived ws rs) \<and>
       (\<forall>q. q \<noteq> log_file_name l \<longrightarrow> q \<notin> set ns \<longrightarrow> om_find q fs' = om_find q fs1)"
      by blast
    have cur: "content fs1 (log_file_name l) = (if rotates l then [] else content fs (log_file_name l)) @ arrived w r"
      using st [of "log_file_name l"] by (simp add: arrived_def w)
    show ?thesis
    proof (cases "rotates l")
      case rot: True
      have "history fs' (rotated_name l (le_time env) # ns) (log_file_name l) =
          content fs' (rotated_name l (le_time env)) @ history fs' ns (log_file_name l)"
        by (simp add: history_def)
      moreover have "content fs1 (rotated_name l (le_time env)) = content fs (log_file_name l)"
        using st [of "rotated_name l (le_time env)"] rot True by simp
      ultimately show ?thesis
        using run IH st cur o rot w rn by (auto simp: content_def)
    next
      case False
      with run IH st cur o w rn show ?thesis
        by auto
    qed
  next
    case False
    have "file_inv l1 fs1"
      using o Cons.prems(1) by (rule WriteLog_text_inv)
    from Cons.IH [OF this ws, of e1] obtain l' fs' ns rs where
      "write_lines ws l1 fs1 e1 = Some (l', fs', ns, rs)" "length rs = length ws"
      by blast
    with False o w rn show ?thesis
      by auto
  qed
qed

text \<open>When every answer is complete, every call succeeds and all the text arrives.\<close>

lemma write_lines_complete:
  assumes "file_inv l fs" "\<forall>(env, s) \<in> set ws. complete env s" "write_lines ws l fs e = Some (l', fs', ns, rs)"
  shows "rs = replicate (length ws) kSuccess \<and> concat (map2 arrived ws rs) = concat (map snd ws)"
  using assms
proof (induction ws arbitrary: l fs e l' fs' ns rs)
  case (Cons w ws)
  obtain env s where w: "w = (env, s)" by force
  have c: "le_open env = True" "le_rename env = True" "le_stored env = of_nat (length s)" "length s < 2 ^ 32"
    and ws: "\<forall>(env, s) \<in> set ws. complete env s"
    using Cons.prems(2) w by (auto simp: complete_def)
  from WriteLog_text_ok [OF Cons.prems(1) c(4), of "le_time env" e] obtain l1 fs1 where
    o: "WriteLog_text True True (of_nat (length s)) (le_time env) s l fs e = Some (l1, fs1, e, kSuccess)" "file_inv l1 fs1"
    by blast
  with Cons.prems(3) w c obtain ns' rs' where "write_lines ws l1 fs1 e = Some (l', fs', ns', rs')" "rs = kSuccess # rs'"
    by auto
  with Cons.IH [OF o(2) ws] w c(3,4) unat_of_nat64 [of "length s"] show ?case
    by (simp add: arrived_def)
qed simp

section \<open>The writer thread\<close>

text \<open>
  What \<open>Run\<close> does for each entry: the write and then the check; \<open>now\<close> is the clock of the check. Here
  every call of the system succeeds.
\<close>

fun async_lines ::
  "(ITime \<times> uint64_t \<times> string) list \<Rightarrow> 'x CLogFile_scheme \<Rightarrow> files \<Rightarrow> last_error \<Rightarrow>
     ('x CLogFile_scheme \<times> files) option" where
  "async_lines [] l fs e = Some (l, fs)"
| "async_lines ((t, now, s) # ws) l fs e =
     (case WriteLog_text True True (of_nat (length s)) t s l fs e of
        None \<Rightarrow> None
      | Some (l, fs, e, r) \<Rightarrow>
          (case CheckFileSwitch True True True now t l fs e of
             None \<Rightarrow> None
           | Some (l, fs, e) \<Rightarrow> async_lines ws l fs e))"

text \<open>The switch closes and reopens the same file.\<close>

lemma switch_file_ok:
  assumes inv: "file_inv l fs" and cur: "m_pLogFile l = Some (log_file_name l)" and pos: "0 < max_file_bytes l"
  shows "\<exists>l' fs'. switch_file True True t l fs e = Some (l', fs', e, kSuccess) \<and> same_names l l' \<and> file_inv l' fs' \<and>
    m_pLogFile l' = Some (log_file_name l) \<and> m_uLogFileSize l' < max_file_bytes l \<and> (\<forall>q. om_find q fs' = om_find q fs)"
proof (cases "m_uLogFileSize l \<ge> max_file_bytes l")
  case True
  define l0 where "l0 = l\<lparr>m_pLogFile := nullptr, m_uLogFileSize := 0\<rparr>"
  have l0: "same_names l l0" "log_file_name l0 = log_file_name l" "m_pLogFile l0 = nullptr" "m_uLogFileSize l0 = 0"
    by (simp_all add: l0_def same_names_def log_file_name_def rotated_name_def)
  have i0: "file_inv l0 fs"
    using inv l0(3) by (simp add: file_inv_def)
  obtain l1 fs1 e1 r1 where o: "OpenLogFile True True t l0 fs e = Some (l1, fs1, e1, r1)"
    using OpenLogFile_defined [of True t l0 fs e] by auto
  have "om_find (log_file_name l) fs = Some (content fs (log_file_name l))"
    using inv cur by (auto simp: file_inv_def content_def)
  with OpenLogFile_ok [OF i0 o] l0 o True cur pos show ?thesis
    by (auto simp: switch_file_def l0_def [symmetric] intro: same_names_trans)
next
  case False
  then have "switch_file True True t l fs e = Some (l, fs, e, kSuccess)"
    by (simp add: switch_file_def)
  with assms False show ?thesis
    by (auto simp: same_names_def not_le)
qed

lemma CheckFileSwitch_ok:
  assumes inv: "file_inv l fs" and cur: "m_pLogFile l = Some (log_file_name l)" and pos: "0 < max_file_bytes l"
    and pre: "m_strLogPrefix l = []"
  shows "\<exists>l' fs'. CheckFileSwitch True True True now t l fs e = Some (l', fs', e) \<and> same_names l l' \<and> file_inv l' fs' \<and>
    \<not> rotates l' \<and> (\<forall>q. om_find q fs' = om_find q fs)"
proof -
  obtain l1 fs1 where s: "switch_file True True t l fs e = Some (l1, fs1, e, kSuccess)" "same_names l l1" "file_inv l1 fs1"
    "m_pLogFile l1 = Some (log_file_name l)" "m_uLogFileSize l1 < max_file_bytes l" "\<forall>q. om_find q fs1 = om_find q fs"
    using switch_file_ok [OF inv cur pos, of t e] by blast
  define l2 where "l2 = l1\<lparr>m_uLastCheckTimeNs := now\<rparr>"
  have l2: "same_names l l2" "m_pLogFile l2 = m_pLogFile l1" "m_uLogFileSize l2 = m_uLogFileSize l1"
    "log_file_name l2 = log_file_name l1" "m_szLogFileName l2 = m_szLogFileName l1" "m_strLogPrefix l2 = []"
    using s(2) pre by (simp_all add: l2_def same_names_def log_file_name_def rotated_name_def)
  have v: "om_valid fs1"
    using s(3) by (simp add: file_inv_def)
  have keep: "om_find q (clean_files l2 fs1) = om_find q fs1" for q
    using clean_files_keeps [OF v] prefix_skipped [OF l2(6)] by blast
  have v2: "om_valid (clean_files l2 fs1)"
    using v by (simp add: clean_files_valid)
  have "\<not> rotates l1" "\<not> rotates l2"
    using s(5) same_names_names(3) [OF s(2)] same_names_names(3) [OF l2(1)] l2(3) by (auto simp: rotates_def)
  moreover have "file_inv l2 (clean_files l2 fs1)"
    using s(3) l2 v2 keep by (simp add: file_inv_def)
  ultimately show ?thesis
    using s l2(1) keep by (auto simp: CheckFileSwitch_def l2_def [symmetric] Let_def)
qed

lemma async_lines_run:
  assumes "file_inv l fs" "\<not> rotates l" "0 < max_file_bytes l" "m_strLogPrefix l = []"
    "\<forall>(t, now, s) \<in> set ws. length s < 2 ^ 32" "ws \<noteq> []"
  shows "\<exists>l' fs'. async_lines ws l fs e = Some (l', fs') \<and>
    om_find q fs' = (if q = log_file_name l then Some (content fs q @ concat (map (\<lambda>(t, now, s). s) ws)) else om_find q fs)"
  using assms
proof (induction ws arbitrary: l fs)
  case (Cons w ws)
  obtain t now s where w: "w = (t, now, s)" by (cases w)
  have s: "length s < 2 ^ 32" and ws: "\<forall>(t, now, s) \<in> set ws. length s < 2 ^ 32"
    using Cons.prems(5) w by auto
  from WriteLog_text_ok [OF Cons.prems(1) s, of t e] Cons.prems(2)
  obtain l1 fs1 where o: "WriteLog_text True True (of_nat (length s)) t s l fs e = Some (l1, fs1, e, kSuccess)"
    "same_names l l1" "file_inv l1 fs1" "m_pLogFile l1 = Some (log_file_name l)"
    and find: "\<forall>q. om_find q fs1 = (if q = log_file_name l then Some (content fs q @ s) else om_find q fs)"
    by auto
  have n1: "log_file_name l1 = log_file_name l" "m_strLogPrefix l1 = []" "0 < max_file_bytes l1"
    using Cons.prems(3,4) same_names_names [OF o(2)] by simp_all
  from CheckFileSwitch_ok [OF o(3) _ n1(3,2), of now t e] o(4) n1(1)
  obtain l2 fs2 where c: "CheckFileSwitch True True True now t l1 fs1 e = Some (l2, fs2, e)" "same_names l1 l2"
    "file_inv l2 fs2" "\<not> rotates l2" "\<forall>q. om_find q fs2 = om_find q fs1"
    by auto
  have n2: "log_file_name l2 = log_file_name l" "m_strLogPrefix l2 = []" "0 < max_file_bytes l2"
    using n1 same_names_names [OF c(2)] by simp_all
  show ?case
  proof (cases "ws = []")
    case True
    with o(1) c w find show ?thesis
      by simp
  next
    case False
    from Cons.IH [OF c(3,4) n2(3,2) ws False] o(1) c(1,5) w find n2(1) show ?thesis
      by (auto simp: content_def)
  qed
qed simp

section \<open>Properties\<close>

text \<open>
  C22: a logger that writes from the caller's thread, from its first write on, for any answers of \<open>fopen\<close>
  and \<open>fwrite\<close>, a \<open>rename\<close> that does not throw, and rotations with different names: the rotated files in
  the order of their rotation followed by the current file contain what was in the file before and
  then, in order, what \<open>fwrite\<close> took of each text whose call returned success; no other file changes. So
  when \<open>fopen\<close> succeeds and \<open>fwrite\<close> is complete, every call returns success and no line is lost; a
  line is lost, with an error, when \<open>fopen\<close> fails, and the rest of a short \<open>fwrite\<close> is lost although the
  call returns success.
\<close>

theorem no_line_lost:
  assumes "om_valid fs" "m_pLogFile l = nullptr" "\<forall>(env, s) \<in> set ws. le_rename env"
  shows "\<exists>l' fs' ns rs. write_lines ws l fs e = Some (l', fs', ns, rs) \<and> length rs = length ws \<and>
    (distinct (log_file_name l # ns) \<longrightarrow>
       history fs' ns (log_file_name l) = content fs (log_file_name l) @ concat (map2 arrived ws rs) \<and>
       (\<forall>q. q \<notin> set (log_file_name l # ns) \<longrightarrow> om_find q fs' = om_find q fs)) \<and>
    ((\<forall>(env, s) \<in> set ws. complete env s) \<longrightarrow>
       rs = replicate (length ws) kSuccess \<and> concat (map2 arrived ws rs) = concat (map snd ws))"
proof -
  have inv: "file_inv l fs"
    using assms(1,2) by (simp add: file_inv_def)
  from write_lines_history [OF inv assms(3), of e] obtain l' fs' ns rs where
    run: "write_lines ws l fs e = Some (l', fs', ns, rs)" "length rs = length ws"
    and hist: "distinct ns \<longrightarrow> log_file_name l \<notin> set ns \<longrightarrow>
       history fs' ns (log_file_name l) = content fs (log_file_name l) @ concat (map2 arrived ws rs) \<and>
       (\<forall>q. q \<noteq> log_file_name l \<longrightarrow> q \<notin> set ns \<longrightarrow> om_find q fs' = om_find q fs)"
    by blast
  have "(\<forall>(env, s) \<in> set ws. complete env s) \<longrightarrow>
       rs = replicate (length ws) kSuccess \<and> concat (map2 arrived ws rs) = concat (map snd ws)"
    using write_lines_complete [OF inv _ run(1)] by blast
  with run hist show ?thesis
    by auto
qed

text \<open>
  Fact: names of rotated files have a resolution of one second, and a rename replaces what it finds. Three
  lines in the same second, each of them filling the file: the first one is in no file afterwards.
\<close>

theorem rotation_drops_line:
  assumes "om_valid fs" "m_pLogFile l = nullptr" "m_uLogFileSize l = 0" "max_file_bytes l = 0"
    "rotated_name l t \<noteq> log_file_name l" "\<forall>s \<in> {s1, s2, s3}. length s < 2 ^ 32"
  shows "\<exists>l' fs' rs. write_lines [(all_well t s1, s1), (all_well t s2, s2), (all_well t s3, s3)] l fs e =
      Some (l', fs', [rotated_name l t, rotated_name l t], rs) \<and>
    (\<forall>q. om_find q fs' = (if q = log_file_name l then Some s3 else if q = rotated_name l t then Some s2 else om_find q fs))"
proof -
  have s: "length s1 < 2 ^ 32" "length s2 < 2 ^ 32" "length s3 < 2 ^ 32"
    using assms(6) by auto
  have "file_inv l fs" "\<not> rotates l"
    using assms(1,2) by (simp_all add: file_inv_def rotates_def)
  with WriteLog_text_ok [OF this(1) s(1), of t e] obtain l1 fs1 where
    w1: "WriteLog_text True True (of_nat (length s1)) t s1 l fs e = Some (l1, fs1, e, kSuccess)" "same_names l l1"
      "file_inv l1 fs1" "m_pLogFile l1 = Some (log_file_name l)"
      "\<forall>q. om_find q fs1 = (if q = log_file_name l then Some (content fs q @ s1) else om_find q fs)"
    by auto
  note n1 = same_names_names [OF w1(2)]
  have r1: "rotates l1"
    using w1(4) n1(3) assms(4) by (simp add: rotates_def)
  with WriteLog_text_ok [OF w1(3) s(2), of t e] n1 assms(5) obtain l2 fs2 where
    w2: "WriteLog_text True True (of_nat (length s2)) t s2 l1 fs1 e = Some (l2, fs2, e, kSuccess)" "same_names l1 l2"
      "file_inv l2 fs2" "m_pLogFile l2 = Some (log_file_name l)"
      "\<forall>q. om_find q fs2 = (if q = log_file_name l then Some s2
         else if q = rotated_name l t then om_find (log_file_name l) fs1 else om_find q fs1)"
    by auto
  note n2 = same_names_names [OF w2(2)]
  have r2: "rotates l2"
    using w2(4) n1(3) n2(3) assms(4) by (simp add: rotates_def)
  with WriteLog_text_ok [OF w2(3) s(3), of t e] n1 n2 assms(5) obtain l3 fs3 where
    w3: "WriteLog_text True True (of_nat (length s3)) t s3 l2 fs2 e = Some (l3, fs3, e, kSuccess)"
      "\<forall>q. om_find q fs3 = (if q = log_file_name l then Some s3
         else if q = rotated_name l t then om_find (log_file_name l) fs2 else om_find q fs2)"
    by auto
  show ?thesis
    using w1(1,5) w2(1,5) w3 r1 r2 n1 n2 \<open>\<not> rotates l\<close> assms(5) by (simp add: all_well_def)
qed

text \<open>
  Fact: the thread of an asynchronous logger never rotates: after each line \<open>CheckFileSwitch\<close> resets the
  size and reopens the same file, so that all lines go to one file, whatever the limit on the size of a file,
  and no other file changes.
\<close>

theorem async_never_rotates:
  assumes "om_valid fs" "m_pLogFile l = nullptr" "0 < max_file_bytes l" "m_strLogPrefix l = []"
    "\<forall>(t, now, s) \<in> set ws. length s < 2 ^ 32" "ws \<noteq> []"
  shows "\<exists>l' fs'. async_lines ws l fs e = Some (l', fs') \<and>
    om_find q fs' = (if q = log_file_name l then Some (content fs q @ concat (map (\<lambda>(t, now, s). s) ws)) else om_find q fs)"
proof -
  have "file_inv l fs" "\<not> rotates l"
    using assms(1,2) by (simp_all add: file_inv_def rotates_def)
  from async_lines_run [OF this assms(3-6)] show ?thesis .
qed

text \<open>
  Fact: the limit on the total size is never enforced: \<open>CheckFileSwitch\<close> removes no file whose name ends
  with the suffix of the log files, when the suffix has at least two characters, and no file at all with the
  default prefix.
\<close>

theorem total_limit_ignored:
  assumes "om_valid fs" "CheckFileSwitch can_open can_rename has_dir now t l fs e = Some (l', fs', e')"
    "om_find (m_strLogPath l @ ''/'' @ name) fs = Some c"
    "m_strLogPrefix l = [] \<or>
       2 \<le> length (m_strLogSuffix l) \<and> name = pre @ m_strLogSuffix l \<and> length name < 2 ^ 64"
  shows "om_find (m_strLogPath l @ ''/'' @ name) fs' = Some c"
proof -
  let ?p = "m_strLogPath l @ ''/'' @ name"
  obtain l1 fs1 e1 r where s: "switch_file can_open can_rename t l fs e = Some (l1, fs1, e1, r)"
    using assms(2) by (auto simp: CheckFileSwitch_def split: option.splits prod.splits)
  have k: "om_valid fs1" "om_find ?p fs1 = Some c" "m_strLogPath l1 = m_strLogPath l"
    "m_strLogPrefix l1 = m_strLogPrefix l" "m_strLogSuffix l1 = m_strLogSuffix l"
    using s assms(1,3) by (auto simp: switch_file_def OpenLogFile_def Let_def valid_files find_create content_def
        split: if_splits)
  define l2 where "l2 = l1\<lparr>m_uLastCheckTimeNs := now\<rparr>"
  have "skipped_file l2 name"
    using assms(4) suffix_skipped [of l2 name pre] prefix_skipped [of l2 name] k(4,5) by (auto simp: l2_def)
  then have "om_find ?p (clean_files l2 fs1) = Some c"
    using clean_files_keeps [OF k(1), of ?p l2] k(2,3) by (simp add: l2_def)
  with assms(2) s k(2) show ?thesis
    by (auto simp: CheckFileSwitch_def l2_def Let_def split: if_splits)
qed

section \<open>Examples\<close>

definition example_log :: "uint64_t \<Rightarrow> CLogFile" where
  "example_log max_mb = \<lparr>m_pLogFile = nullptr, m_szLogFileName = [], m_uLogFileSize = 0, m_uLogFileMaxSizeMB = max_mb,
     m_uLogTotalSizeMB = 0, m_uLastCheckTimeNs = 0, m_strLoggerName = ''app'', m_strLogPath = ''log'', m_strLogPrefix = [],
     m_strLogSuffix = ''.log''\<rparr>"

lemma example_log_fields:
  "m_pLogFile (example_log n) = nullptr" "m_uLogFileSize (example_log n) = 0" "m_strLogPrefix (example_log n) = []"
  "max_file_bytes (example_log n) = n * 1024 * 1024"
  by (simp_all add: example_log_def max_file_bytes_def)

lemma example_log_name: "log_file_name (example_log n) = ''log/app.log''"
  by (simp add: log_file_name_def example_log_def)

lemma digit_chars:
  "digit_char 0 = CHR ''0''" "digit_char 1 = CHR ''1''" "digit_char 2 = CHR ''2''" "digit_char 3 = CHR ''3''"
  "digit_char 4 = CHR ''4''" "digit_char 5 = CHR ''5''" "digit_char 6 = CHR ''6''" "digit_char 7 = CHR ''7''"
  "digit_char 8 = CHR ''8''" "digit_char 9 = CHR ''9''"
  by code_simp+

lemma example_rotated: "rotated_name (example_log n) example_time = ''log/app-20240229-123456.log''"
  by (simp add: rotated_name_def example_log_def example_time_def ITime_of_fields_def decimal_pad_def decimal.simps
      digit_chars digit_chars(2) [unfolded One_nat_def])

text \<open>The second line is cut short, the third one finds the file closed by a failed \<open>fopen\<close>.\<close>

definition example_writes :: "(line_env \<times> string) list" where
  "example_writes = [(all_well example_time ''a'', ''a''),
     (\<lparr>le_time = example_time, le_open = True, le_rename = True, le_stored = 2\<rparr>, ''bcde''),
     (\<lparr>le_time = example_time, le_open = False, le_rename = True, le_stored = 0\<rparr>, ''f'')]"

theorem no_line_lost_witness:
  "\<exists>l' fs' ns rs. write_lines example_writes (example_log 16) [(''log/app.log'', ''old'')] kSuccess
      = Some (l', fs', ns, rs) \<and>
    (distinct (log_file_name (example_log 16) # ns) \<longrightarrow>
       history fs' ns (log_file_name (example_log 16)) = ''old'' @ concat (map2 arrived example_writes rs))"
  using no_line_lost [of "[(''log/app.log'', ''old'')]" "example_log 16" example_writes kSuccess]
  by (auto simp: om_valid_def example_log_name example_log_fields content_def example_writes_def all_well_def
      simp del: write_lines.simps)

theorem rotation_drops_line_witness:
  "\<exists>l' fs' rs. write_lines [(all_well example_time ''a'', ''a''), (all_well example_time ''b'', ''b''),
       (all_well example_time ''c'', ''c'')] (example_log 0) [] kSuccess =
      Some (l', fs', [''log/app-20240229-123456.log'', ''log/app-20240229-123456.log''], rs) \<and>
    (\<forall>q. om_find q fs' = (if q = ''log/app.log'' then Some ''c''
       else if q = ''log/app-20240229-123456.log'' then Some ''b'' else None))"
  using rotation_drops_line [of "[]" "example_log 0" example_time "''a''" "''b''" "''c''" kSuccess]
  by (simp add: om_valid_def example_log_name example_rotated example_log_fields del: write_lines.simps cong: if_cong)

theorem async_never_rotates_witness:
  "\<exists>l' fs'. async_lines [(example_time, 5, ''a''), (example_time, 6, ''b'')] (example_log 1) [] kSuccess = Some (l', fs') \<and>
    om_find ''log/app.log'' fs' = Some ''ab''"
  using async_never_rotates [of "[]" "example_log 1" "[(example_time, 5, ''a''), (example_time, 6, ''b'')]" kSuccess "''log/app.log''"]
  by (simp add: om_valid_def example_log_name example_log_fields content_def del: async_lines.simps)

theorem total_limit_ignored_witness:
  "om_find ''log/old.log'' (case CheckFileSwitch True True True (10 ^ 12) example_time (example_log 1)
      [(''log/old.log'', ''x'')] kSuccess of Some (l', fs', e') \<Rightarrow> fs' | None \<Rightarrow> []) = Some ''x''"
proof -
  let ?l = "example_log 1" and ?fs = "[(''log/old.log'', ''x'')]"
  obtain l' fs' e' where c: "CheckFileSwitch True True True (10 ^ 12) example_time ?l ?fs kSuccess = Some (l', fs', e')"
    by (simp add: CheckFileSwitch_def switch_file_def max_file_bytes_def example_log_def Let_def kSecond_def
        kMill_def kMicro_def kNano_def)
  have p: "m_strLogPath ?l @ ''/'' @ ''old.log'' = ''log/old.log''" "m_strLogPrefix ?l = []"
    by (simp_all add: example_log_def)
  have "om_find (m_strLogPath ?l @ ''/'' @ ''old.log'') fs' = Some ''x''"
    by (rule total_limit_ignored [OF _ c]) (simp_all add: om_valid_def example_log_def)
  with c p show ?thesis
    by simp
qed

end
