(* ===== verification/Logger.thy ===== *)
theory Logger
  imports LogFile FixedQueue Spin ThreadManager
begin

text \<open>
  The logger: \<open>base/include/logger/logger.h\<close> and \<open>base/sources/logger/logger_impl.{h,cpp}\<close>. Calls of one
  logger run one after the other; what the operating system, the allocator and the configuration object
  answer are arguments. The result \<open>None\<close> stands for undefined behaviour, or an exception that leaves the
  call.
\<close>

section \<open>State\<close>

record CLoggerImpl = CLogFile +
  m_eLogLevel :: LogLevel
  m_bAsync :: bool
  m_uPid :: uint32_t
  m_uLogFormatBufferSize :: uint32_t
  m_pChannel :: "(uint64_t \<times> CSPSCFixedBoundedChannel) option"
  m_pSpinLock :: pointer
  m_uLogChannelMaxMemMB :: uint32_t
  m_bRunning_log :: bool
  m_pThreadManager :: bool
  m_pThread :: pointer
  m_uBindCpuNo :: uint32_t

definition CLoggerImpl_default :: "LogLevel \<Rightarrow> string \<Rightarrow> CLoggerImpl" where
  "CLoggerImpl_default junk_level junk_name =
     \<lparr>m_pLogFile = nullptr, m_szLogFileName = junk_name, m_uLogFileSize = 0, m_uLogFileMaxSizeMB = 16,
      m_uLogTotalSizeMB = 4 * 1024, m_uLastCheckTimeNs = 0, m_strLoggerName = [], m_strLogPath = [], m_strLogPrefix = [],
      m_strLogSuffix = [], m_eLogLevel = junk_level, m_bAsync = False, m_uPid = - 1, m_uLogFormatBufferSize = 4096,
      m_pChannel = nullptr, m_pSpinLock = nullptr, m_uLogChannelMaxMemMB = 128, m_bRunning_log = False,
      m_pThreadManager = False, m_pThread = nullptr, m_uBindCpuNo = - 1\<rparr>"

text \<open>
  What the calls change: the heap, the files, the last error, the thread manager and the thread objects, the
  elements in the slots of the channel, and the objects in the blocks that hold a \<open>LogItem\<close>, each with the
  block of its parameter array and the blocks of the parameters.
\<close>

record log_world =
  lw_heap :: heap
  lw_files :: files
  lw_err :: last_error
  lw_tm :: "unit CThreadManagerImpl"
  lw_threads :: "(unit, uint64_t) thread_store"
  lw_slots :: "uint64_t \<Rightarrow> pointer"
  lw_items :: "uint64_t \<rightharpoonup> LogItem \<times> pointer \<times> uint64_t list"

definition lw_error :: "ErrorCode \<Rightarrow> log_world \<Rightarrow> log_world" where
  "lw_error c w = w\<lparr>lw_err := SetLastError c (lw_err w)\<rparr>"

text \<open>\<open>std::free\<close> of a pointer that is not the start of a block is undefined.\<close>

definition checked_free :: "pointer \<Rightarrow> log_world \<Rightarrow> log_world option" where
  "checked_free p w =
     (case p of
        None \<Rightarrow> Some w
      | Some a \<Rightarrow> if lw_heap w a = None then None else Some (w\<lparr>lw_heap := CAllocatorImpl_Free p (lw_heap w)\<rparr>))"

fun checked_frees :: "uint64_t list \<Rightarrow> log_world \<Rightarrow> log_world option" where
  "checked_frees [] w = Some w"
| "checked_frees (a # as) w = Option.bind (checked_free (Some a) w) (checked_frees as)"

section \<open>Initialization\<close>

text \<open>
  The configuration object, an \<open>IJson\<close>, as its getters answer; a string may throw. The numbers and \<open>log_async\<close>
  are read outside the \<open>try\<close> block: the theory LoggerConfig reads them from a JSON object, where an exception
  of theirs leaves the call before anything else happens.
\<close>

record log_config =
  cfg_u32 :: "string \<Rightarrow> uint32_t \<Rightarrow> uint32_t"
  cfg_u64 :: "string \<Rightarrow> uint64_t \<Rightarrow> uint64_t"
  cfg_bool :: "string \<Rightarrow> bool \<Rightarrow> bool"
  cfg_string :: "string \<Rightarrow> string \<Rightarrow> string option"

text \<open>The answers of the system to one \<open>Init\<close>.\<close>

record log_answers =
  la_pid :: uint32_t
  la_channel :: pointer
  la_storage :: pointer
  la_lock :: pointer
  la_manager :: bool
  la_thread :: pointer
  la_throws :: bool
  la_cpus :: int

definition level_of :: "uint32_t \<Rightarrow> LogLevel" where
  "level_of n = [kTrace_lvl, kDebug_lvl, kInfo_lvl, kWarn_lvl, kError_lvl, kFatal_lvl, kEvent_lvl] ! unat n"

text \<open>The numeric options.\<close>

definition Init_numbers :: "log_answers \<Rightarrow> log_config \<Rightarrow> CLoggerImpl \<Rightarrow> CLoggerImpl" where
  "Init_numbers a cfg l =
     (let uLogLevel = cfg_u32 cfg ''log_level'' 2;
          uLogLevel = (if uLogLevel > 6 then 2 else uLogLevel)
      in l\<lparr>m_eLogLevel := level_of uLogLevel, m_uPid := la_pid a, m_bAsync := cfg_bool cfg ''log_async'' False,
           m_uBindCpuNo := cfg_u32 cfg ''bind_cpu_no'' (- 1),
           m_uLogFileMaxSizeMB := cfg_u64 cfg ''log_file_max_size_mb'' 16,
           m_uLogTotalSizeMB := cfg_u64 cfg ''log_total_size_mb'' (4 * 1024),
           m_uLogFormatBufferSize := cfg_u32 cfg ''log_format_buffer_size'' 4096,
           m_uLogChannelMaxMemMB := cfg_u32 cfg ''log_channel_max_mem_mb'' 128\<rparr>)"

text \<open>The strings, up to the first that throws; the second result says whether none did.\<close>

definition Init_strings :: "log_config \<Rightarrow> CLoggerImpl \<Rightarrow> CLoggerImpl \<times> bool" where
  "Init_strings cfg l =
     (case cfg_string cfg ''logger_name'' [] of None \<Rightarrow> (l, False) | Some s \<Rightarrow>
        (let l = l\<lparr>m_strLoggerName := s\<rparr> in
         case cfg_string cfg ''log_path'' ''./log'' of None \<Rightarrow> (l, False) | Some s \<Rightarrow>
           (let l = l\<lparr>m_strLogPath := s\<rparr> in
            case cfg_string cfg ''log_prefix'' [] of None \<Rightarrow> (l, False) | Some s \<Rightarrow>
              (let l = l\<lparr>m_strLogPrefix := s\<rparr> in
               case cfg_string cfg ''log_suffix'' ''.log'' of None \<Rightarrow> (l, False) | Some s \<Rightarrow>
                 (l\<lparr>m_strLogSuffix := s\<rparr>, True)))))"

text \<open>The channel of pointers, with 4096 slots of 8 bytes. \<open>sizeof_channel\<close> is the size of the channel object.\<close>

definition Init_channel ::
  "uint64_t \<Rightarrow> log_answers \<Rightarrow> CLoggerImpl \<Rightarrow> log_world \<Rightarrow> CLoggerImpl \<times> log_world \<times> ErrorCode" where
  "Init_channel sizeof_channel a l w =
     (case SPSCFixed_Create (la_channel a) (la_storage a) sizeof_channel
         (Some \<lparr>uElementSize = 8, uMaxElementCount = 4096, uTotalMemorySizeKB = 0\<rparr>) (lw_heap w) (lw_err w) of
        (ch, h, e) \<Rightarrow>
          (let l = l\<lparr>m_pChannel := ch\<rparr>; w = w\<lparr>lw_heap := h, lw_err := e\<rparr> in
           if ch = nullptr then (l, lw_error kOutOfMemory w, kOutOfMemory) else (l, w, kSuccess)))"

definition Init_lock ::
  "uint64_t \<Rightarrow> log_answers \<Rightarrow> CLoggerImpl \<Rightarrow> log_world \<Rightarrow> CLoggerImpl \<times> log_world \<times> ErrorCode" where
  "Init_lock sizeof_lock a l w =
     (case SpinLock_Create (la_lock a) sizeof_lock (lw_heap w) of
        (pLock, h) \<Rightarrow>
          (let l = l\<lparr>m_pSpinLock := map_option fst pLock\<rparr>; w = w\<lparr>lw_heap := h\<rparr> in
           if m_pSpinLock l = nullptr then (l, lw_error kOutOfMemory w, kOutOfMemory) else (l, w, kSuccess)))"

text \<open>
  The thread: \<open>this\<close> is the address of the logger, the argument that \<open>RunWrapper\<close> gets. The name is cut to
  15 characters.
\<close>

definition Init_thread ::
  "log_answers \<Rightarrow> uint64_t \<Rightarrow> CLoggerImpl \<Rightarrow> log_world \<Rightarrow> (CLoggerImpl \<times> log_world \<times> ErrorCode) option" where
  "Init_thread a this l w =
     (let l = l\<lparr>m_pThreadManager := la_manager a\<rparr> in
      if \<not> m_pThreadManager l then Some (l, lw_error kOutOfMemory w, kOutOfMemory)
      else case TM_CreateThread0 (la_thread a) (la_throws a) this (lw_tm w) (lw_threads w) (lw_err w) of
          None \<Rightarrow> None
        | Some (tm, st, e, pThread) \<Rightarrow>
            (let l = l\<lparr>m_pThread := pThread\<rparr>; w = w\<lparr>lw_tm := tm, lw_threads := st, lw_err := e\<rparr> in
             case pThread of
               None \<Rightarrow> Some (l, lw_error kSystemError w, kSystemError)
             | Some p \<Rightarrow>
                 (case st p of
                    None \<Rightarrow> None
                  | Some th \<Rightarrow>
                      (case CThreadImpl_Bind (Some (take 15 (''logger_'' @ m_strLoggerName l))) (Some ()) this th (lw_err w) of
                         (th, e, r) \<Rightarrow>
                           (let w = w\<lparr>lw_threads := st(p \<mapsto> th), lw_err := e\<rparr> in
                            if r \<noteq> kSuccess then Some (l, lw_error kSystemError w, kSystemError)
                            else if m_uBindCpuNo l \<noteq> - 1
                            then (case CThreadImpl_BindCpu (la_cpus a) (sint (m_uBindCpuNo l)) th (lw_err w) of
                                (th, e, r) \<Rightarrow>
                                  (let w = w\<lparr>lw_threads := st(p \<mapsto> th), lw_err := e\<rparr> in
                                   if r \<noteq> kSuccess then Some (l, lw_error kSystemError w, kSystemError)
                                   else Some (l, w, kSuccess)))
                            else Some (l, w, kSuccess))))))"

definition CLoggerImpl_Init ::
  "uint64_t \<Rightarrow> uint64_t \<Rightarrow> log_answers \<Rightarrow> log_config option \<Rightarrow> uint64_t \<Rightarrow> CLoggerImpl \<Rightarrow> log_world \<Rightarrow>
     (CLoggerImpl \<times> log_world \<times> ErrorCode) option" where
  "CLoggerImpl_Init sizeof_channel sizeof_lock a pConfig this l w =
     (case pConfig of
        None \<Rightarrow> Some (l, lw_error kInvalidParam w, kInvalidParam)
      | Some cfg \<Rightarrow>
          (case Init_strings cfg (Init_numbers a cfg l) of
             (l, False) \<Rightarrow> Some (l, lw_error kThrowException w, kThrowException)
           | (l, True) \<Rightarrow>
               if \<not> m_bAsync l then Some (l, w, kSuccess)
               else (case Init_channel sizeof_channel a l w of
                   (l, w, r) \<Rightarrow>
                     if r \<noteq> kSuccess then Some (l, w, r)
                     else (case Init_lock sizeof_lock a l w of
                         (l, w, r) \<Rightarrow> if r \<noteq> kSuccess then Some (l, w, r) else Init_thread a this l w))))"

section \<open>Start, stop and exit\<close>

definition CLoggerImpl_Start :: "bool \<Rightarrow> CLoggerImpl \<Rightarrow> log_world \<Rightarrow> (CLoggerImpl \<times> log_world \<times> ErrorCode) option" where
  "CLoggerImpl_Start spawned l w =
     (if m_bAsync l
      then (if m_bRunning_log l then Some (l, lw_error kInvalidCall w, kInvalidCall)
            else case m_pThread l of
                None \<Rightarrow> Some (l, lw_error kSystemError w, kSystemError)
              | Some p \<Rightarrow>
                  (case lw_threads w p of
                     None \<Rightarrow> None
                   | Some th \<Rightarrow>
                       (case CThreadImpl_Start spawned th (lw_err w) of
                          None \<Rightarrow> None
                        | Some (th, e, r) \<Rightarrow>
                            (let w = w\<lparr>lw_threads := (lw_threads w)(p \<mapsto> th), lw_err := e\<rparr> in
                             if r \<noteq> kSuccess then Some (l, lw_error kSystemError w, kSystemError)
                             else Some (l\<lparr>m_bRunning_log := True\<rparr>, w, kSuccess)))))
      else Some (l, w, kSuccess))"

text \<open>\<open>IThread::Stop\<close> requests the stop and joins the thread.\<close>

definition CLoggerImpl_Stop :: "CLoggerImpl \<Rightarrow> log_world \<Rightarrow> (CLoggerImpl \<times> log_world) option" where
  "CLoggerImpl_Stop l w =
     (if m_bAsync l \<and> m_bRunning_log l
      then (case m_pThread l of
          None \<Rightarrow> Some (l, w)
        | Some p \<Rightarrow>
            (case lw_threads w p of
               None \<Rightarrow> None
             | Some th \<Rightarrow>
                 (case CThreadImpl_Stop_request th of
                    (th, must_join) \<Rightarrow>
                      Some (l\<lparr>m_bRunning_log := False\<rparr>,
                        w\<lparr>lw_threads := (lw_threads w)(p \<mapsto> (if must_join then th\<lparr>m_bJoinable := False\<rparr> else th))\<rparr>))))
      else Some (l, w))"

text \<open>\<open>Exit\<close>: the storage of the channel is freed by its destructor, the lock has none.\<close>

definition Exit_async :: "CLoggerImpl \<Rightarrow> log_world \<Rightarrow> (CLoggerImpl \<times> log_world) option" where
  "Exit_async l w =
     (let w = (if m_pChannel l \<noteq> nullptr then w\<lparr>lw_heap := SPSCFixed_Destroy (m_pChannel l) (lw_heap w)\<rparr> else w);
          w = (if m_pSpinLock l \<noteq> nullptr then w\<lparr>lw_heap := SpinLock_Destroy (m_pSpinLock l) (lw_heap w)\<rparr> else w);
          l = l\<lparr>m_pChannel := nullptr, m_pSpinLock := nullptr\<rparr>
      in if m_pThreadManager l \<and> m_pThread l \<noteq> nullptr
         then map_option (\<lambda>(tm, st). (l\<lparr>m_pThread := nullptr, m_pThreadManager := False\<rparr>, w\<lparr>lw_tm := tm, lw_threads := st\<rparr>))
           (TM_DestroyThread0 (m_pThread l) (lw_tm w) (lw_threads w))
         else Some (l\<lparr>m_pThreadManager := False\<rparr>, w))"

definition CLoggerImpl_Exit :: "CLoggerImpl \<Rightarrow> log_world \<Rightarrow> (CLoggerImpl \<times> log_world) option" where
  "CLoggerImpl_Exit l w =
     (case CLoggerImpl_Stop l w of
        None \<Rightarrow> None
      | Some (l, w) \<Rightarrow>
          map_option (\<lambda>(l, w). (if m_pLogFile l \<noteq> nullptr then l\<lparr>m_pLogFile := nullptr\<rparr> else l, w))
            (if m_bAsync l then Exit_async l w else Some (l, w)))"

definition CLoggerImpl_destructor :: "CLoggerImpl \<Rightarrow> log_world \<Rightarrow> (CLoggerImpl \<times> log_world) option" where
  "CLoggerImpl_destructor l w = CLoggerImpl_Exit l w"

text \<open>
  \<open>Create\<close> and \<open>Destroy\<close>. Destroying runs \<open>Exit\<close> and frees the object. \<open>ILogger_Create\<close> is the case in which the
  getters of the numbers and of \<open>log_async\<close> return; \<open>ILogger_Create_json\<close> in LoggerConfig is the whole function.
\<close>

definition ILogger_Destroy :: "(uint64_t \<times> CLoggerImpl) option \<Rightarrow> log_world \<Rightarrow> log_world option" where
  "ILogger_Destroy pLogger w =
     (case pLogger of
        None \<Rightarrow> Some w
      | Some (p, l) \<Rightarrow>
          map_option (\<lambda>(l, w). w\<lparr>lw_heap := CAllocatorImpl_Free (Some p) (lw_heap w)\<rparr>) (CLoggerImpl_Exit l w))"

definition ILogger_Create ::
  "pointer \<Rightarrow> uint64_t \<Rightarrow> uint64_t \<Rightarrow> uint64_t \<Rightarrow> LogLevel \<Rightarrow> string \<Rightarrow> log_answers \<Rightarrow> log_config option \<Rightarrow> log_world \<Rightarrow>
     ((uint64_t \<times> CLoggerImpl) option \<times> log_world) option" where
  "ILogger_Create ans sizeof_logger sizeof_channel sizeof_lock junk_level junk_name a pConfig w =
     (case IAllocatorEx_New ans sizeof_logger (Some (CLoggerImpl_default junk_level junk_name)) (lw_heap w) of
        (None, h) \<Rightarrow> Some (nullptr, lw_error kOutOfMemory (w\<lparr>lw_heap := h\<rparr>))
      | (Some (p, l), h) \<Rightarrow>
          (case CLoggerImpl_Init sizeof_channel sizeof_lock a pConfig p l (w\<lparr>lw_heap := h\<rparr>) of
             None \<Rightarrow> None
           | Some (l, w, r) \<Rightarrow>
               if r \<noteq> kSuccess
               then map_option (\<lambda>w. (nullptr, lw_error r w)) (ILogger_Destroy (Some (p, l)) w)
               else Some (Some (p, l), w)))"

definition CLoggerImpl_GetStats :: "('j \<Rightarrow> 'j) \<Rightarrow> 'j option \<Rightarrow> 'j option \<times> ErrorCode" where
  "CLoggerImpl_GetStats clear pJson = (map_option clear pJson, kSuccess)"

section \<open>Writing an entry\<close>

text \<open>
  What one \<open>WriteLog (LogItem &)\<close> gets from the system: the block for the line and its initial content, the
  clock, the local time, the content of an uninitialized \<open>tm\<close>, and the answers for the file.
\<close>

record write_env =
  we_block :: pointer
  we_junk :: "nat \<Rightarrow> char"
  we_now :: uint64_t
  we_time :: ITime
  we_junk_tm :: tm
  we_open :: bool
  we_rename :: bool
  we_stored :: "uint32_t \<Rightarrow> uint64_t"
  we_file_time :: ITime

text \<open>The time printed in a line.\<close>

definition line_time :: "write_env \<Rightarrow> LogItem \<Rightarrow> ITime" where
  "line_time v it = ITime_minus_assign_sec (we_junk_tm v) (we_time v) ((we_now v - uTimestampNs it) div kSecond)"

text \<open>\<open>tid\<close> is the \<open>m_uTid\<close> of the thread that writes. The buffer is freed on an error of the header only.\<close>

definition CLoggerImpl_WriteLog ::
  "write_env \<Rightarrow> uint32_t \<Rightarrow> LogItem \<Rightarrow> CLoggerImpl \<Rightarrow> log_world \<Rightarrow> (CLoggerImpl \<times> log_world \<times> ErrorCode) option" where
  "CLoggerImpl_WriteLog v tid it l w =
     (case format_size it of
        None \<Rightarrow> None
      | Some cap \<Rightarrow>
          (case CAllocatorImpl_Malloc (we_block v) cap (lw_heap w) of
             (None, h) \<Rightarrow> Some (l, lw_error kOutOfMemory w, kOutOfMemory)
           | (Some a, h) \<Rightarrow>
               (let w = w\<lparr>lw_heap := h\<rparr> in
                case format_line cap (m_uPid l) tid (line_time v it) it (we_junk v) of
                  None \<Rightarrow> None
                | Some (Inl er) \<Rightarrow>
                    Some (l, lw_error er (w\<lparr>lw_heap := CAllocatorImpl_Free (Some a) (lw_heap w)\<rparr>), er)
                | Some (Inr (buf, n)) \<Rightarrow>
                    (case WriteLog_text (we_open v) (we_rename v) (we_stored v n) (we_file_time v) (text_of buf (unat n)) l
                        (lw_files w) (lw_err w) of
                       None \<Rightarrow> None
                     | Some (l, fs, e, r) \<Rightarrow> Some (l, w\<lparr>lw_files := fs, lw_err := e\<rparr>, r)))))"

section \<open>Logging\<close>

text \<open>The thread-local \<open>m_uTid\<close>, read at the start of a call; \<open>gettid\<close> is the number of the thread.\<close>

definition own_tid :: "uint32_t \<Rightarrow> uint32_t \<Rightarrow> uint32_t" where
  "own_tid tid m_uTid = (if m_uTid = - 1 then tid else m_uTid)"

text \<open>Putting a pointer into the channel, with the lock held; the second result says whether there was a slot.\<close>

definition post_item :: "uint64_t \<Rightarrow> CLoggerImpl \<Rightarrow> log_world \<Rightarrow> (CLoggerImpl \<times> log_world \<times> bool) option" where
  "post_item pItem l w =
     (case m_pChannel l of
        None \<Rightarrow> None
      | Some (p, c) \<Rightarrow>
          (case SPSCFixed_New c of
             (c, None) \<Rightarrow> Some (l\<lparr>m_pChannel := Some (p, c)\<rparr>, w, False)
           | (c, Some slot) \<Rightarrow>
               Some (l\<lparr>m_pChannel := Some (p, SPSCFixed_Post (Some slot) c)\<rparr>,
                 w\<lparr>lw_slots := (lw_slots w)(slot := Some pItem)\<rparr>, True)))"

text \<open>
  \<open>Log\<close>: \<open>ans\<close>, \<open>ans_array\<close> and \<open>ans_params\<close> answer the allocations of the entry, of the parameter array and
  of the copies; a \<open>LogItem\<close> has 72 bytes. The result also has the new \<open>m_uTid\<close>.
\<close>

definition CLoggerImpl_Log ::
  "write_env \<Rightarrow> pointer \<Rightarrow> pointer \<Rightarrow> pointer list \<Rightarrow> uint32_t \<Rightarrow> uint32_t \<Rightarrow> uint64_t \<Rightarrow> uint32_t \<Rightarrow> LogLevel \<Rightarrow> string \<Rightarrow>
     string \<Rightarrow> string \<Rightarrow> string \<Rightarrow> string list option \<Rightarrow> uint32_t \<Rightarrow> CLoggerImpl \<Rightarrow> log_world \<Rightarrow>
     (CLoggerImpl \<times> log_world \<times> uint32_t \<times> ErrorCode) option" where
  "CLoggerImpl_Log v ans ans_array ans_params gettid tls_tid now err lvl module fileline func fmt params count l w =
     (let tid = own_tid gettid tls_tid;
          it = \<lparr>iErrorNo = err, eLevel = lvl, uTid = tid, uParamCount = count, uTimestampNs = now, pModule = module,
            pFileLine = fileline, pFunction = func, pFormat = fmt, ppParams = params\<rparr>
      in if m_bAsync l
         then (case CAllocatorImpl_Malloc ans 72 (lw_heap w) of
             (None, h) \<Rightarrow> Some (l, lw_error kOutOfMemory w, tid, kOutOfMemory)
           | (Some a, h) \<Rightarrow>
               (case CopyParams ans_array ans_params params count it h of
                  (it, arr, blocks, h) \<Rightarrow>
                    (case post_item a l (w\<lparr>lw_heap := h, lw_items := (lw_items w)(a \<mapsto> (it, arr, blocks))\<rparr>) of
                       None \<Rightarrow> None
                     | Some (l, w, True) \<Rightarrow> Some (l, w, tid, kSuccess)
                     | Some (l, w, False) \<Rightarrow>
                         map_option (\<lambda>w. (l, lw_error kOutOfMemory (w\<lparr>lw_items := (lw_items w)(a := None)\<rparr>), tid, kOutOfMemory))
                           (checked_free (Some a) w))))
         else map_option (\<lambda>(l, w, r). (l, w, tid, r)) (CLoggerImpl_WriteLog v tid it l w))"

text \<open>
  \<open>LogFormat\<close>: the text that is formatted into a buffer of \<open>m_uLogFormatBufferSize\<close> bytes and the length
  that is passed on, for a buffer that may be written; \<open>msg\<close> is what \<open>vsnprintf\<close> makes of the format and
  its arguments. The differences of sizes are 32-bit. The error results free the buffer.
\<close>

definition format_header :: "uint32_t \<Rightarrow> uint32_t \<Rightarrow> ITime \<Rightarrow> uint32_t \<Rightarrow> LogLevel \<Rightarrow> string" where
  "format_header pid tid t err lvl =
     decimal_pad 4 (sint (uYear t)) @ decimal_pad 2 (sint (uMonth t)) @ decimal_pad 2 (sint (uDay t)) @ ''-'' @
     decimal_pad 2 (sint (uHour t)) @ '':'' @ decimal_pad 2 (sint (uMinute t)) @ '':'' @
     decimal_pad 2 (sint (uSecond t)) @ ''.'' @ decimal_pad 6 (sint (uMicro t)) @ '' '' @
     decimal (unat pid) @ '' '' @ decimal (unat tid) @ '' '' @ decimal_int (sint err) @ '' '' @
     LogLevelToString lvl @ '' ''"

definition format_text :: "uint32_t \<Rightarrow> string \<Rightarrow> string \<Rightarrow> (nat \<Rightarrow> char) \<Rightarrow> (ErrorCode + (nat \<Rightarrow> char) \<times> uint32_t) option" where
  "format_text bufsize header msg buf =
     (case snprintf_at (unat bufsize) 0 (unat bufsize) header buf of
        None \<Rightarrow> None
      | Some (buf, iLen) \<Rightarrow>
          if iLen < 0 then Some (Inl kSystemError)
          else case snprintf_at (unat bufsize) (nat iLen) (unat (bufsize - word_of_int iLen)) msg buf of
              None \<Rightarrow> None
            | Some (buf, iLen2) \<Rightarrow>
                if iLen2 < 0 then Some (Inl kSystemError)
                else (let uWriteLen = min (word_of_int iLen + word_of_int iLen2) (bufsize - 1) in
                  if unat (uWriteLen - 1) < unat bufsize
                  then Some (Inr (buf(unat (uWriteLen - 1) := CHR 0x0A), uWriteLen + 1))
                  else None))"

text \<open>
  The item is not allocated: its address is \<open>sizeof (LogForamtItem) + m_uLogFormatBufferSize\<close>, and the
  buffer follows it. \<open>mapped\<close> says at which addresses the program may write. The synchronous call frees
  the buffer.
\<close>

definition CLoggerImpl_LogFormat ::
  "(uint64_t \<Rightarrow> bool) \<Rightarrow> write_env \<Rightarrow> uint32_t \<Rightarrow> uint32_t \<Rightarrow> ITime \<Rightarrow> uint32_t \<Rightarrow> LogLevel \<Rightarrow> string \<Rightarrow> CLoggerImpl \<Rightarrow>
     log_world \<Rightarrow> (CLoggerImpl \<times> log_world \<times> uint32_t \<times> ErrorCode) option" where
  "CLoggerImpl_LogFormat mapped v gettid tls_tid t err lvl msg l w =
     (let tid = own_tid gettid tls_tid;
          pItem = 16 + ucast (m_uLogFormatBufferSize l);
          pLogBuffer = pItem + 16
      in if \<not> mapped pLogBuffer then None
         else case format_text (m_uLogFormatBufferSize l) (format_header (m_uPid l) tid t err lvl) msg (we_junk v) of
             None \<Rightarrow> None
           | Some (Inl r) \<Rightarrow> map_option (\<lambda>w. (l, lw_error r w, tid, r)) (checked_free (Some pLogBuffer) w)
           | Some (Inr (buf, n)) \<Rightarrow>
               if m_bAsync l
               then (if \<not> mapped pItem then None
                     else case post_item pItem l w of
                       None \<Rightarrow> None
                     | Some (l, w, True) \<Rightarrow> Some (l, w, tid, kSuccess)
                     | Some (l, w, False) \<Rightarrow>
                         map_option (\<lambda>w. (l, lw_error kOutOfMemory w, tid, kOutOfMemory)) (checked_free (Some pItem) w))
               else (case WriteLog_text (we_open v) (we_rename v) (we_stored v n) (we_file_time v) (text_of buf (unat n)) l
                       (lw_files w) (lw_err w) of
                     None \<Rightarrow> None
                   | Some (l, fs, e, r) \<Rightarrow>
                       map_option (\<lambda>w. (l, w, tid, r)) (checked_free (Some pLogBuffer) (w\<lparr>lw_files := fs, lw_err := e\<rparr>))))"

section \<open>The thread of the logger\<close>

text \<open>
  \<open>Run\<close> takes the address of the slot of the channel for the address of the item. The type of the item is
  then the lowest byte of the pointer in the slot, and the other fields are those of the object at that
  address, if there is one. \<open>m_uTid\<close> of this thread is never set. \<open>notify_one\<close> and the wait only change when
  it runs.
\<close>

definition CheckFileSwitch_lw :: "bool \<Rightarrow> write_env \<Rightarrow> CLoggerImpl \<Rightarrow> log_world \<Rightarrow> (CLoggerImpl \<times> log_world) option" where
  "CheckFileSwitch_lw has_dir v l w =
     map_option (\<lambda>(l, fs, e). (l, w\<lparr>lw_files := fs, lw_err := e\<rparr>))
       (CheckFileSwitch (we_open v) (we_rename v) has_dir (we_now v) (we_file_time v) l (lw_files w) (lw_err w))"

definition header_type :: "pointer \<Rightarrow> uint64_t" where
  "header_type stored = (case stored of None \<Rightarrow> 0 | Some a \<Rightarrow> a AND 255)"

definition run_item :: "write_env \<Rightarrow> uint64_t \<Rightarrow> CLoggerImpl \<Rightarrow> log_world \<Rightarrow> (CLoggerImpl \<times> log_world) option" where
  "run_item v pHeader l w =
     (if header_type (lw_slots w pHeader) = 0
      then (case lw_items w pHeader of
          None \<Rightarrow> None
        | Some (it, arr, blocks) \<Rightarrow>
            (case CLoggerImpl_WriteLog v (- 1) it l w of
               None \<Rightarrow> None
             | Some (l, w, r) \<Rightarrow>
                 map_option (Pair l) (Option.bind (checked_frees (take (unat (uParamCount it)) blocks) w) (checked_free arr))))
      else if header_type (lw_slots w pHeader) = 1 then None
      else Some (l, w))"

definition CLoggerImpl_Run :: "bool \<Rightarrow> write_env \<Rightarrow> CLoggerImpl \<Rightarrow> log_world \<Rightarrow> (CLoggerImpl \<times> log_world) option" where
  "CLoggerImpl_Run has_dir v l w =
     (case m_pChannel l of
        None \<Rightarrow> None
      | Some (p, c) \<Rightarrow>
          (case SPSCFixed_Get c of
             (c, None) \<Rightarrow> CheckFileSwitch_lw has_dir v (l\<lparr>m_pChannel := Some (p, c)\<rparr>) w
           | (c, Some pHeader) \<Rightarrow>
               (case run_item v pHeader (l\<lparr>m_pChannel := Some (p, c)\<rparr>) w of
                  None \<Rightarrow> None
                | Some (l, w) \<Rightarrow>
                    (case checked_free (Some pHeader) w of
                       None \<Rightarrow> None
                     | Some w \<Rightarrow>
                         CheckFileSwitch_lw has_dir v (l\<lparr>m_pChannel := Some (p, SPSCFixed_Delete (Some pHeader) c)\<rparr>) w))))"

definition CLoggerImpl_RunWrapper ::
  "bool \<Rightarrow> write_env \<Rightarrow> CLoggerImpl \<Rightarrow> log_world \<Rightarrow> (CLoggerImpl \<times> log_world \<times> bool) option" where
  "CLoggerImpl_RunWrapper has_dir v l w = map_option (\<lambda>(l, w). (l, w, True)) (CLoggerImpl_Run has_dir v l w)"

section \<open>Facts\<close>

lemmas [log_ops] = checked_free_def post_item_def CAllocatorImpl_Malloc_def CAllocatorImpl_Free_def

text \<open>
  The resources of a logger on top of a heap, the thread objects and the thread manager: the channel with its
  storage, the lock and the thread.
\<close>

definition channel_on :: "(uint64_t \<times> CSPSCFixedBoundedChannel) option \<Rightarrow> heap \<Rightarrow> heap \<Rightarrow> bool" where
  "channel_on ch h0 h \<longleftrightarrow>
     (case ch of
        None \<Rightarrow> h = h0
      | Some (p, c) \<Rightarrow> \<exists>q n m. m_pDatap c = Some q \<and> h = h0(p \<mapsto> n, q \<mapsto> m) \<and> h0 p = None \<and> h0 q = None \<and> p \<noteq> q)"

definition lock_on :: "pointer \<Rightarrow> heap \<Rightarrow> heap \<Rightarrow> bool" where
  "lock_on k h0 h \<longleftrightarrow> (case k of None \<Rightarrow> h = h0 | Some p \<Rightarrow> \<exists>n. h = h0(p \<mapsto> n) \<and> h0 p = None)"

definition thread_on ::
  "pointer \<Rightarrow> bool \<Rightarrow> log_world \<Rightarrow> log_world \<Rightarrow> bool" where
  "thread_on t tm w0 w \<longleftrightarrow>
     (case t of
        None \<Rightarrow> lw_threads w = lw_threads w0 \<and> lw_tm w = lw_tm w0
      | Some p \<Rightarrow> tm \<and> (\<exists>th. lw_threads w = (lw_threads w0)(p \<mapsto> th)) \<and>
          lw_tm w = (lw_tm w0)\<lparr>m_setThreads := insert p (m_setThreads (lw_tm w0))\<rparr> \<and>
          lw_threads w0 p = None \<and> p \<notin> m_setThreads (lw_tm w0))"

definition holds :: "CLoggerImpl \<Rightarrow> log_world \<Rightarrow> log_world \<Rightarrow> bool" where
  "holds l w0 w \<longleftrightarrow> \<not> m_bRunning_log l \<and>
     (\<exists>h1. channel_on (m_pChannel l) (lw_heap w0) h1 \<and> lock_on (m_pSpinLock l) h1 (lw_heap w)) \<and>
     thread_on (m_pThread l) (m_pThreadManager l) w0 w \<and>
     (\<not> m_bAsync l \<longrightarrow> m_pChannel l = nullptr \<and> m_pSpinLock l = nullptr \<and> m_pThread l = nullptr)"

definition same_resources :: "log_world \<Rightarrow> log_world \<Rightarrow> bool" where
  "same_resources w w' \<longleftrightarrow> lw_heap w' = lw_heap w \<and> lw_threads w' = lw_threads w \<and> lw_tm w' = lw_tm w"

lemma destroy_channel_on:
  assumes "channel_on (Some pc) h0 h1" "lock_on k h1 h"
  shows "lock_on k h0 (SPSCFixed_Destroy (Some pc) h)"
proof -
  obtain p c q n m where c: "pc = (p, c)" "m_pDatap c = Some q" "h1 = h0(p \<mapsto> n, q \<mapsto> m)" "h0 p = None" "h0 q = None" "p \<noteq> q"
    using assms(1) by (cases pc) (auto simp: channel_on_def)
  have D: "SPSCFixed_Destroy (Some pc) h = h(q := None, p := None)" for h
    using c(1,2) by (simp add: SPSCFixed_Destroy_def IAllocatorEx_Delete_def SPSCFixed_destructor_def CAllocatorImpl_Free_def)
  show ?thesis
  proof (cases k)
    case None
    with assms(2) c show ?thesis
      unfolding D by (auto simp: lock_on_def fun_eq_iff)
  next
    case (Some x)
    then obtain i where "h = h1(x \<mapsto> i)" "h1 x = None"
      using assms(2) by (auto simp: lock_on_def)
    with c have "h(q := None, p := None) = h0(x \<mapsto> i)" "h0 x = None"
      by (auto simp: fun_eq_iff split: if_splits)
    with Some show ?thesis
      unfolding D by (auto simp: lock_on_def)
  qed
qed

lemma Exit_restores:
  assumes "holds l w0 w"
  shows "\<exists>l' w'. CLoggerImpl_Exit l w = Some (l', w') \<and> same_resources w0 w'"
proof (cases "m_bAsync l")
  case False
  with assms show ?thesis
    by (auto simp: holds_def CLoggerImpl_Exit_def CLoggerImpl_Stop_def same_resources_def channel_on_def lock_on_def
        thread_on_def)
next
  case True
  obtain h1 where h: "channel_on (m_pChannel l) (lw_heap w0) h1" "lock_on (m_pSpinLock l) h1 (lw_heap w)"
    using assms by (auto simp: holds_def)
  define w1 where "w1 = (if m_pChannel l \<noteq> nullptr then w\<lparr>lw_heap := SPSCFixed_Destroy (m_pChannel l) (lw_heap w)\<rparr> else w)"
  define w2 where "w2 = (if m_pSpinLock l \<noteq> nullptr then w1\<lparr>lw_heap := SpinLock_Destroy (m_pSpinLock l) (lw_heap w1)\<rparr> else w1)"
  have "lock_on (m_pSpinLock l) (lw_heap w0) (lw_heap w1)"
    using h destroy_channel_on by (cases "m_pChannel l") (auto simp: w1_def channel_on_def)
  then have h2: "lw_heap w2 = lw_heap w0"
    by (auto simp: w2_def lock_on_def SpinLock_Destroy_def IAllocatorEx_Delete_def CAllocatorImpl_Free_def fun_upd_idem
        split: option.splits)
  have t2: "thread_on (m_pThread l) (m_pThreadManager l) w0 w2"
    using assms by (auto simp: holds_def w2_def w1_def thread_on_def split: option.splits)
  have stop: "CLoggerImpl_Stop l w = Some (l, w)"
    using assms by (simp add: holds_def CLoggerImpl_Stop_def)
  have exit: "Exit_async l w =
      (let l = l\<lparr>m_pChannel := nullptr, m_pSpinLock := nullptr\<rparr> in
       if m_pThreadManager l \<and> m_pThread l \<noteq> nullptr
       then map_option (\<lambda>(tm, st). (l\<lparr>m_pThread := nullptr, m_pThreadManager := False\<rparr>, w2\<lparr>lw_tm := tm, lw_threads := st\<rparr>))
         (TM_DestroyThread0 (m_pThread l) (lw_tm w2) (lw_threads w2))
       else Some (l\<lparr>m_pThreadManager := False\<rparr>, w2))"
    by (simp add: Exit_async_def w2_def w1_def Let_def del: not_None_eq split del: if_split cong: if_cong)
  show ?thesis
  proof (cases "m_pThread l")
    case None
    with True stop exit h2 t2 show ?thesis
      by (simp add: CLoggerImpl_Exit_def Let_def same_resources_def thread_on_def)
  next
    case (Some p)
    with t2 obtain th where "m_pThreadManager l" "lw_threads w2 = (lw_threads w0)(p \<mapsto> th)" "lw_threads w0 p = None"
      "lw_tm w2 = (lw_tm w0)\<lparr>m_setThreads := insert p (m_setThreads (lw_tm w0))\<rparr>" "p \<notin> m_setThreads (lw_tm w0)"
      by (auto simp: thread_on_def)
    with True stop exit h2 Some show ?thesis
      by (simp add: CLoggerImpl_Exit_def Let_def same_resources_def TM_DestroyThread0_def store_Destroy_def fun_upd_idem)
  qed
qed

text \<open>What \<open>Create\<close> may assume of the answers of the allocator and of the thread store.\<close>

definition answers_fresh :: "pointer \<Rightarrow> log_answers \<Rightarrow> log_world \<Rightarrow> bool" where
  "answers_fresh ans a w \<longleftrightarrow>
     (\<forall>p \<in> set_option ans \<union> set_option (la_channel a) \<union> set_option (la_storage a) \<union> set_option (la_lock a). lw_heap w p = None) \<and>
     set_option ans \<inter> (set_option (la_channel a) \<union> set_option (la_storage a) \<union> set_option (la_lock a)) = {} \<and>
     set_option (la_channel a) \<inter> (set_option (la_storage a) \<union> set_option (la_lock a)) = {} \<and>
     set_option (la_storage a) \<inter> set_option (la_lock a) = {} \<and>
     (\<forall>p \<in> set_option (la_thread a). lw_threads w p = None \<and> p \<notin> m_setThreads (lw_tm w))"

lemma fixed_Create_on:
  assumes "SPSCFixed_Create ans1 ans2 sz (Some cfg) h e = (ch, h', e')" "\<forall>p \<in> set_option ans1 \<union> set_option ans2. h p = None"
    "set_option ans1 \<inter> set_option ans2 = {}"
  shows "channel_on ch h h'" "ch \<noteq> None \<Longrightarrow> dom h' = dom h \<union> set_option ans1 \<union> set_option ans2"
proof -
  have "channel_on ch h h' \<and> (ch \<noteq> None \<longrightarrow> dom h' = dom h \<union> set_option ans1 \<union> set_option ans2)"
  proof (cases ch)
    case None
    have "h' = h"
    proof (rule Create_null)
      show "malloc_fresh h ans1"
        using assms(2) by (auto simp: malloc_fresh_def split: option.splits)
      show "malloc_fresh (h(p \<mapsto> sz)) ans2" if "ans1 = Some p" for p
        using assms(2,3) that by (auto simp: malloc_fresh_def split: option.splits)
      show "SPSCFixed_Create ans1 ans2 sz (Some cfg) h e = (None, h', e')"
        using assms(1) None by simp
    qed
    with None show ?thesis
      by (simp add: channel_on_def)
  next
    case (Some pc)
    with assms(1) obtain p q where pq: "ans1 = Some p" "ans2 = Some q" "fst pc = p" "m_pDatap (snd pc) = Some q"
      "h' = h(p \<mapsto> sz, q \<mapsto> Up2PowerOf2 (ucast (uMaxElementCount cfg)) * ALIGN8 (ucast (uElementSize cfg)))"
      by (auto simp: SPSCFixed_Create_def IAllocatorEx_New_def CAllocatorImpl_Malloc_def SPSCFixed_Init_def Let_def
          split: option.splits if_splits)
    moreover have "h p = None" "h q = None" "p \<noteq> q"
      using pq(1,2) assms(2,3) by auto
    ultimately show ?thesis
      using Some by (cases pc) (auto simp: channel_on_def)
  qed
  then show "channel_on ch h h'" "ch \<noteq> None \<Longrightarrow> dom h' = dom h \<union> set_option ans1 \<union> set_option ans2"
    by blast+
qed

text \<open>The resources after each part of \<open>Init\<close>, for a logger that had none.\<close>

definition empty_logger :: "CLoggerImpl \<Rightarrow> bool" where
  "empty_logger l \<longleftrightarrow> \<not> m_bRunning_log l \<and> m_pChannel l = nullptr \<and> m_pSpinLock l = nullptr \<and> m_pThread l = nullptr"

lemma holds_empty: "empty_logger l \<Longrightarrow> same_resources w0 w \<Longrightarrow> holds l w0 w"
  by (auto simp: empty_logger_def same_resources_def holds_def channel_on_def lock_on_def thread_on_def)

lemma strings_empty: "Init_strings cfg l = (l', b) \<Longrightarrow> empty_logger l \<Longrightarrow> empty_logger l'"
  by (auto simp: Init_strings_def Let_def empty_logger_def split: option.splits)

lemma numbers_empty: "empty_logger l \<Longrightarrow> empty_logger (Init_numbers a cfg l)"
  by (simp add: Init_numbers_def Let_def empty_logger_def)

lemma lw_error_resources [simp]: "lw_heap (lw_error c w) = lw_heap w" "lw_threads (lw_error c w) = lw_threads w"
  "lw_tm (lw_error c w) = lw_tm w"
  by (simp_all add: lw_error_def)

lemma holds_lw_error [simp]: "holds l w0 (lw_error c w) \<longleftrightarrow> holds l w0 w"
  by (simp add: holds_def thread_on_def split: option.splits)

lemma Init_thread_holds:
  assumes "\<not> m_bRunning_log l" "m_bAsync l" "m_pThread l = nullptr"
    "channel_on (m_pChannel l) (lw_heap w0) h1" "lock_on (m_pSpinLock l) h1 (lw_heap w)"
    "lw_threads w = lw_threads w0" "lw_tm w = lw_tm w0"
    "\<forall>p \<in> set_option (la_thread a). lw_threads w0 p = None \<and> p \<notin> m_setThreads (lw_tm w0)"
  shows "\<exists>l' w' r. Init_thread a this l w = Some (l', w', r) \<and> holds l' w0 w'"
proof (cases "la_manager a")
  case False
  with assms show ?thesis
    by (auto simp: Init_thread_def Let_def holds_def thread_on_def)
next
  case True
  show ?thesis
  proof (cases "la_thread a")
    case None
    with True assms show ?thesis
      by (auto simp: Init_thread_def Let_def TM_CreateThread0_def store_Create_def holds_def thread_on_def)
  next
    case (Some p)
    then have p: "lw_threads w0 p = None" "p \<notin> m_setThreads (lw_tm w0)"
      using assms(8) by auto
    with True Some assms show ?thesis
      by (auto simp: Init_thread_def Let_def TM_CreateThread0_def store_Create_def store_Destroy_def holds_def thread_on_def
          fun_upd_idem split: prod.splits)
  qed
qed

lemma Init_holds:
  assumes "empty_logger l" "answers_fresh None a w"
  shows "\<exists>l' w' r. CLoggerImpl_Init sizeof_channel sizeof_lock a pConfig this l w = Some (l', w', r) \<and> holds l' w w'"
proof (cases pConfig)
  case None
  with assms show ?thesis
    by (auto simp: CLoggerImpl_Init_def same_resources_def intro: holds_empty)
next
  case (Some cfg)
  obtain l1 b where s: "Init_strings cfg (Init_numbers a cfg l) = (l1, b)"
    by force
  have l1: "empty_logger l1"
    using strings_empty [OF s] numbers_empty [OF assms(1)] by blast
  have w: "same_resources w w"
    by (simp add: same_resources_def)
  show ?thesis
  proof (cases "b \<and> m_bAsync l1")
    case False
    with Some s holds_empty [OF l1 w] show ?thesis
      by (cases b) (auto simp: CLoggerImpl_Init_def)
  next
    case True
    obtain ch h e where c: "SPSCFixed_Create (la_channel a) (la_storage a) sizeof_channel
        (Some \<lparr>uElementSize = 8, uMaxElementCount = 4096, uTotalMemorySizeKB = 0\<rparr>) (lw_heap w) (lw_err w) = (ch, h, e)"
      by (metis prod_cases3)
    have on: "channel_on ch (lw_heap w) h" "ch \<noteq> None \<Longrightarrow> dom h = dom (lw_heap w) \<union> set_option (la_channel a) \<union> set_option (la_storage a)"
      using fixed_Create_on [OF c] assms(2) by (auto simp: answers_fresh_def)
    show ?thesis
    proof (cases "ch = None \<or> la_lock a = None")
      case True': True
      with True Some s c on(1) l1 show ?thesis
        by (auto simp: CLoggerImpl_Init_def Init_channel_def Init_lock_def Let_def SpinLock_Create_def IAllocatorEx_New_def
            CAllocatorImpl_Malloc_def holds_def thread_on_def lock_on_def empty_logger_def)
    next
      case False
      then obtain k pc where k: "la_lock a = Some k" "ch = Some pc" by auto
      then have "k \<notin> dom (lw_heap w)" "k \<notin> set_option (la_channel a)" "k \<notin> set_option (la_storage a)"
        using assms(2) by (auto simp: answers_fresh_def)
      then have "h k = None"
        using on(2) k(2) by blast
      define l2 where "l2 = l1\<lparr>m_pChannel := ch, m_pSpinLock := Some k\<rparr>"
      define w2 where "w2 = w\<lparr>lw_err := e, lw_heap := h(k \<mapsto> sizeof_lock)\<rparr>"
      have I: "CLoggerImpl_Init sizeof_channel sizeof_lock a pConfig this l w = Init_thread a this l2 w2"
        using True Some s c k by (simp add: CLoggerImpl_Init_def Init_channel_def Init_lock_def Let_def SpinLock_Create_def
            IAllocatorEx_New_def CAllocatorImpl_Malloc_def l2_def w2_def)
      show ?thesis
        unfolding I
        by (rule Init_thread_holds [where ?h1.0 = h])
          (use True l1 on(1) k \<open>h k = None\<close> assms(2) in \<open>auto simp: l2_def w2_def empty_logger_def lock_on_def answers_fresh_def\<close>)
    qed
  qed
qed

text \<open>\<open>Create\<close> followed by \<open>Destroy\<close>, for a configuration whose numbers can be read.\<close>

lemma Create_Destroy:
  assumes "answers_fresh ans a w"
  shows "case ILogger_Create ans sizeof_logger sizeof_channel sizeof_lock junk_level junk_name a pConfig w of
      None \<Rightarrow> False
    | Some (None, w') \<Rightarrow> same_resources w w'
    | Some (Some (p, l), w') \<Rightarrow> (case ILogger_Destroy (Some (p, l)) w' of None \<Rightarrow> False | Some w'' \<Rightarrow> same_resources w w'')"
proof (cases ans)
  case None
  then show ?thesis
    by (simp add: ILogger_Create_def IAllocatorEx_New_def CAllocatorImpl_Malloc_def same_resources_def)
next
  case (Some p)
  define w1 where "w1 = w\<lparr>lw_heap := (lw_heap w)(p \<mapsto> sizeof_logger)\<rparr>"
  have e: "empty_logger (CLoggerImpl_default junk_level junk_name)"
    by (simp add: empty_logger_def CLoggerImpl_default_def)
  have f: "answers_fresh None a w1"
    using assms Some by (auto simp: answers_fresh_def w1_def)
  obtain l' w' r where I: "CLoggerImpl_Init sizeof_channel sizeof_lock a pConfig p (CLoggerImpl_default junk_level junk_name) w1
      = Some (l', w', r)" "holds l' w1 w'"
    using Init_holds [OF e f] by blast
  obtain l'' w'' where x: "CLoggerImpl_Exit l' w' = Some (l'', w'')" "same_resources w1 w''"
    using Exit_restores [OF I(2)] by blast
  have "lw_heap w p = None"
    using assms Some by (simp add: answers_fresh_def)
  then have D: "ILogger_Destroy (Some (p, l')) w' = Some (w''\<lparr>lw_heap := lw_heap w\<rparr>)"
    "same_resources w (w''\<lparr>lw_heap := lw_heap w\<rparr>)"
    using x by (simp_all add: ILogger_Destroy_def same_resources_def w1_def CAllocatorImpl_Free_def fun_upd_idem)
  have C: "ILogger_Create ans sizeof_logger sizeof_channel sizeof_lock junk_level junk_name a pConfig w =
      (if r \<noteq> kSuccess then map_option (\<lambda>w. (nullptr, lw_error r w)) (ILogger_Destroy (Some (p, l')) w')
       else Some (Some (p, l'), w'))"
    using I(1) Some by (simp add: ILogger_Create_def IAllocatorEx_New_def CAllocatorImpl_Malloc_def w1_def)
  show ?thesis
    unfolding C using D by (simp add: same_resources_def)
qed

section \<open>Properties\<close>

lemma WriteLog_text_code:
  assumes "file_inv l fs" "WriteLog_text can_open True n t s l fs e = Some (l', fs', e', r)"
  shows "r = (if (m_pLogFile l \<noteq> nullptr \<and> \<not> rotates l \<or> can_open) \<and> n \<noteq> - 1 then kSuccess else kSystemError)"
  using assms by (auto simp: WriteLog_text_def OpenLogFile_def rotates_def Let_def split: if_splits option.splits)

lemma line_written:
  assumes ps: "ppParams it = Some ps" "unat (uParamCount it) = length ps"
    and t: "time_prints (line_time v it)" "line_bytes it ps + length ps < 2 ^ 30"
    and s: "log_text (m_uPid l) tid (line_time v it) it ps = Some s" "length s \<le> 64 + line_bytes it ps"
    and a: "we_block v = Some a"
  shows "CLoggerImpl_WriteLog v tid it l w =
    map_option (\<lambda>(l, fs, e, r).
        (l, w\<lparr>lw_heap := (lw_heap w)(a \<mapsto> of_nat (64 + line_bytes it ps)), lw_files := fs, lw_err := e\<rparr>, r))
      (WriteLog_text (we_open v) (we_rename v) (we_stored v (of_nat (length s))) (we_file_time v) s l (lw_files w) (lw_err w))"
proof -
  define cap where "cap = (of_nat (64 + line_bytes it ps) :: uint64_t)"
  have cap: "format_size it = Some cap" "unat cap = 64 + line_bytes it ps"
    using format_size_eq [OF ps] size_small [of "line_bytes it ps"] t(2) by (simp_all add: cap_def)
  have small: "length s < 2 ^ 31"
    by (rule line_small [OF s(1) t])
  then have n: "unat (of_nat (length s) :: uint32_t) = length s"
    by (simp add: unat_of_nat32)
  obtain buf where "format_line cap (m_uPid l) tid (line_time v it) it (we_junk v) = Some (Inr (buf, of_nat (length s)))"
    "text_of buf (length s) = s"
    using format_line_written [OF ps s(1) small, of cap "we_junk v"] cap(2) s(2) by auto
  then show ?thesis
    using cap(1) n a by (auto simp: CLoggerImpl_WriteLog_def CAllocatorImpl_Malloc_def cap_def split: option.splits)
qed

text \<open>
  C24: a synchronous call of \<open>Log\<close> whose line fits, at any time: with the file closed or open, due to be
  rotated or not. When there is no block for the line it returns out-of-memory and changes nothing else.
  Otherwise it rotates the file if that is due, and appends what \<open>fwrite\<close> takes of the reference line to the
  current file. It returns success exactly when the file could be opened, if it had to be, and \<open>fwrite\<close> did
  not fail, so that the whole line is appended when \<open>fwrite\<close> takes it all; the block of the line stays
  allocated in every case.
\<close>

theorem sync_log_appends:
  assumes "\<not> m_bAsync l" "file_inv l (lw_files w)" "we_rename v"
    and "rotates l \<longrightarrow> rotated_name l (we_file_time v) \<noteq> log_file_name l"
    and "it = \<lparr>iErrorNo = err, eLevel = lvl, uTid = own_tid tid tls, uParamCount = count, uTimestampNs = now, pModule = module,
        pFileLine = fileline, pFunction = func, pFormat = fmt, ppParams = Some ps\<rparr>"
    and "unat count = length ps" "time_prints (line_time v it)" "line_bytes it ps + length ps < 2 ^ 30"
    and "log_text (m_uPid l) (own_tid tid tls) (line_time v it) it ps = Some s" "length s \<le> 64 + line_bytes it ps"
    and "n = we_stored v (of_nat (length s))"
  shows "\<exists>l' w' r. CLoggerImpl_Log v ans ans_array ans_params tid tls now err lvl module fileline func fmt (Some ps) count l w =
      Some (l', w', own_tid tid tls, r) \<and> file_inv l' (lw_files w') \<and>
    (case we_block v of
       None \<Rightarrow> r = kOutOfMemory \<and> l' = l \<and> w' = lw_error kOutOfMemory w
     | Some a \<Rightarrow>
         r = (if (m_pLogFile l \<noteq> nullptr \<and> \<not> rotates l \<or> we_open v) \<and> n \<noteq> - 1 then kSuccess else kSystemError) \<and>
         lw_heap w' = (lw_heap w)(a \<mapsto> of_nat (64 + line_bytes it ps)) \<and>
         (\<forall>q. content (lw_files w') q =
            (if q = log_file_name l
             then (if rotates l then [] else content (lw_files w) q) @ (if r = kSuccess then take (unat n) s else [])
             else if rotates l \<and> q = rotated_name l (we_file_time v) then content (lw_files w) (log_file_name l)
             else content (lw_files w) q)))"
proof -
  have ps: "ppParams it = Some ps" "unat (uParamCount it) = length ps"
    using assms(5,6) by simp_all
  have L: "CLoggerImpl_Log v ans ans_array ans_params tid tls now err lvl module fileline func fmt (Some ps) count l w =
      map_option (\<lambda>(l, w, r). (l, w, own_tid tid tls, r)) (CLoggerImpl_WriteLog v (own_tid tid tls) it l w)"
    using assms(1,5) by (simp add: CLoggerImpl_Log_def Let_def)
  show ?thesis
  proof (cases "we_block v")
    case None
    then have "CLoggerImpl_WriteLog v (own_tid tid tls) it l w = Some (l, lw_error kOutOfMemory w, kOutOfMemory)"
      using format_size_eq [OF ps] by (simp add: CLoggerImpl_WriteLog_def CAllocatorImpl_Malloc_def)
    with L None assms(2) show ?thesis
      by (simp add: lw_error_def)
  next
    case (Some a)
    obtain l' fs e r where W: "WriteLog_text (we_open v) True n (we_file_time v) s l (lw_files w) (lw_err w) = Some (l', fs, e, r)"
      using WriteLog_text_defined [OF assms(2)] by (metis not_None_eq prod_cases4)
    have R: "CLoggerImpl_WriteLog v (own_tid tid tls) it l w =
        Some (l', w\<lparr>lw_heap := (lw_heap w)(a \<mapsto> of_nat (64 + line_bytes it ps)), lw_files := fs, lw_err := e\<rparr>, r)"
      using line_written [OF ps assms(7-10) Some, of w] W assms(3,11) by simp
    note step = WriteLog_text_step [OF assms(2) W] WriteLog_text_code [OF assms(2) W]
    from L R Some step assms(4) show ?thesis
      by auto
  qed
qed

lemma CheckFileSwitch_content:
  assumes "CheckFileSwitch can_open True has_dir now t l fs e = Some (l', fs', e')" "om_valid fs"
  shows "content fs' q = [] \<or> content fs' q = content fs q"
proof -
  have create: "content (create_file p fs) q = content fs q" for p
    using find_create [OF assms(2), of q p] by (simp add: content_def)
  have clean: "content (clean_files k gs) q = [] \<or> content (clean_files k gs) q = content gs q"
    if "om_valid gs" for gs and k :: "'a CLogFile_scheme"
    using remove_files_find [OF that] by (auto simp: clean_files_def content_def split: prod.splits)
  show ?thesis
    using assms(1) create clean [OF assms(2)] clean [OF valid_files(1) [OF assms(2)]]
    by (auto simp: CheckFileSwitch_def switch_file_def OpenLogFile_def Let_def split: if_splits)
qed

text \<open>
  C25: the thread of an asynchronous logger takes the address of the slot for the address of the item, where
  no item is. Unless the call is undefined, it writes nothing: all it does to the files is the periodic
  \<open>CheckFileSwitch\<close>, after which every file is as it was, or is empty, or has been removed. And it has
  freed a block that starts at the slot, which can only be the storage of the channel itself, that is still
  in use.
\<close>

theorem async_run_frees_storage:
  assumes "m_pChannel l = Some (p, c)" "SPSCFixed_Get c = (c', Some slot)" "lw_items w slot = None"
    and "om_valid (lw_files w)" "we_rename v"
  shows "case CLoggerImpl_Run has_dir v l w of
      None \<Rightarrow> True
    | Some (l', w') \<Rightarrow>
        CheckFileSwitch (we_open v) True has_dir (we_now v) (we_file_time v)
          (l\<lparr>m_pChannel := Some (p, SPSCFixed_Delete (Some slot) c')\<rparr>) (lw_files w) (lw_err w) =
          Some (l', lw_files w', lw_err w') \<and>
        (\<forall>q. content (lw_files w') q = [] \<or> content (lw_files w') q = content (lw_files w) q) \<and>
        lw_heap w slot \<noteq> None \<and> lw_heap w' = (lw_heap w)(slot := None) \<and>
        map_option (\<lambda>(p, c). m_pDatac c) (m_pChannel l') = Some (m_pDatac c)"
proof (cases "CLoggerImpl_Run has_dir v l w")
  case (Some lw')
  obtain l' w' where lw': "lw' = (l', w')"
    by force
  have d: "m_pDatac c' = m_pDatac c"
    using assms(2) by (auto simp: SPSCFixed_Get_def Let_def split: if_splits)
  let ?l = "l\<lparr>m_pChannel := Some (p, SPSCFixed_Delete (Some slot) c')\<rparr>" and ?w = "w\<lparr>lw_heap := (lw_heap w)(slot := None)\<rparr>"
  have R: "lw_heap w slot \<noteq> None" "CheckFileSwitch_lw has_dir v ?l ?w = Some (l', w')"
    using assms(1-3) Some lw' by (auto simp: CLoggerImpl_Run_def run_item_def log_ops split: option.splits if_splits)
  then have C: "CheckFileSwitch (we_open v) True has_dir (we_now v) (we_file_time v) ?l (lw_files w) (lw_err w) =
      Some (l', lw_files w', lw_err w')" and h: "lw_heap w' = (lw_heap w)(slot := None)"
    using assms(5) by (auto simp: CheckFileSwitch_lw_def)
  have ch: "m_pChannel l' = m_pChannel ?l"
    using C by (auto simp: CheckFileSwitch_def switch_file_def OpenLogFile_def Let_def split: if_splits)
  show ?thesis
    using Some lw' C h ch d R(1) CheckFileSwitch_content [OF C assms(4)] by (auto simp: SPSCFixed_Delete_def)
qed simp

text \<open>
  Fact: the synchronous \<open>LogFormat\<close> frees a buffer that it has computed from two sizes and never allocated: unless
  the heap happens to have a block that starts at that very address, every call is undefined, wherever the
  program may write.
\<close>

theorem LogFormat_undefined:
  assumes "\<not> m_bAsync l" "lw_heap w (32 + ucast (m_uLogFormatBufferSize l)) = None"
  shows "CLoggerImpl_LogFormat mapped v tid tls t err lvl msg l w = None"
  using assms by (auto simp: CLoggerImpl_LogFormat_def Let_def log_ops add_ac split: option.splits sum.splits)

text \<open>
  Fact: an asynchronous \<open>Log\<close> that finds the channel full fails and frees the entry, but not the copies of its
  parameters: the heap keeps every block of the parameters that it allocated.
\<close>

theorem full_channel_leaks:
  assumes "m_bAsync l" "m_pChannel l = Some (p, c)" "SPSCFixed_New c = (c', None)"
    and "malloc_fresh (lw_heap w) (Some a)" "params = Some [prm]"
    and "b \<noteq> a" "d \<noteq> a" "b \<noteq> d"
  shows "CLoggerImpl_Log v (Some a) (Some b) [Some d] tid tls now err lvl module fileline func fmt params 1 l w =
    Some (l\<lparr>m_pChannel := Some (p, c')\<rparr>,
      lw_error kOutOfMemory (w\<lparr>lw_heap := (lw_heap w)(b \<mapsto> 8, d \<mapsto> of_nat (length prm) + 1), lw_items := (lw_items w)(a := None)\<rparr>),
      own_tid tid tls, kOutOfMemory)"
  using assms
  by (simp add: CLoggerImpl_Log_def CopyParams_def Let_def log_ops malloc_fresh_def lw_error_def fun_upd_twist fun_upd_idem)

text \<open>
  Fact: the length that \<open>LogFormat\<close> passes on is off by one: a message that fits loses its last character to
  the newline, and the terminating zero is written to the file.
\<close>

theorem LogFormat_drops_last:
  assumes "length (header @ msg) + 1 < unat bufsize" "length (header @ msg) < 2 ^ 31" "header @ msg \<noteq> []"
  shows "\<exists>buf' n. format_text bufsize header msg buf = Some (Inr (buf', n)) \<and>
    text_of buf' (unat n) = butlast (header @ msg) @ [CHR 0x0A, CHR 0x00]"
proof -
  let ?k = "length (header @ msg)"
  have h: "0 + length header < unat bufsize" "length header < 2 ^ 31" "length msg < 2 ^ 31"
    using assms(1,2) by simp_all
  obtain b1 where b1: "snprintf_at (unat bufsize) 0 (unat bufsize) header buf = Some (b1, int (length header))"
    "text_of b1 (length header) = header"
    using snprintf_ok [OF h(1) _ h(2), of "unat bufsize" buf] by (auto simp: text_of_def)
  have uh: "unat (of_nat (length header) :: uint32_t) = length header"
    using h(2) by (simp add: unat_of_nat32)
  then have n: "unat (bufsize - of_nat (length header)) = unat bufsize - length header"
    using h(1) by (subst unat_sub) (simp_all add: word_le_nat_alt)
  have m: "length header + length msg < unat bufsize"
    using assms(1) by simp
  obtain b2 where b2: "snprintf_at (unat bufsize) (length header) (unat (bufsize - of_nat (length header))) msg b1 =
      Some (b2, int (length msg))" "text_of b2 ?k = header @ msg" "b2 ?k = CHR 0x00"
    using snprintf_ok [OF m n h(3), of b1] b1(2) by auto
  define w where "w = (of_nat ?k :: uint32_t)"
  have w: "unat w = ?k" "of_nat (length header) + of_nat (length msg) = w"
    using assms(2) unat_of_nat32 [of ?k] by (simp_all add: w_def)
  have "1 \<le> bufsize"
    using assms(1) by (simp add: word_le_nat_alt)
  then have "unat (bufsize - 1) = unat bufsize - 1"
    by (simp add: unat_sub)
  then have "w \<le> bufsize - 1"
    using assms(1) w(1) by (simp add: word_le_nat_alt)
  then have min: "min w (bufsize - 1) = w"
    by simp
  have "1 \<le> w"
    using assms(3) w(1) by (cases "header @ msg") (simp_all add: word_le_nat_alt)
  then have w1: "unat (w - 1) = ?k - 1"
    using w(1) by (simp add: unat_sub)
  have w2: "unat (w + 1) = Suc ?k"
    using w(1) assms(2) unat_Suc_word [of w] by simp
  have F: "format_text bufsize header msg buf = Some (Inr (b2(?k - 1 := CHR 0x0A), w + 1))"
    using b1(1) b2(1) w(2) min w1 assms(1,3) by (simp add: format_text_def Let_def)
  obtain j where j: "?k = Suc j"
    using assms(3) by (cases "header @ msg") auto
  have "text_of (b2(j := CHR 0x0A)) (Suc (Suc j)) = text_of b2 j @ [CHR 0x0A, CHR 0x00]"
    using b2(3) j by (simp add: text_of_def)
  moreover have "text_of b2 j = butlast (header @ msg)"
    using text_of_shorter [OF b2(2), of j] j by (simp add: butlast_conv_take)
  ultimately show ?thesis
    using F w2 j by auto
qed

lemma line_time_same:
  assumes "valid_ITime (we_time v)" "(we_now v - uTimestampNs it) div kSecond = 0"
  shows "line_time v it = (we_time v)\<lparr>uMicro := 0\<rparr>"
proof -
  have "GetTimeStampSecond (ITime_of_second (we_junk_tm v) 0) = 0"
    by (rule GetTimeStampSecond_of_second) simp
  with second_of_date [OF assms(1), of "we_junk_tm v"] show ?thesis
    by (auto simp: line_time_def assms(2) ITime_minus_assign_sec_def ITime_minus_assign_def ITime_minus_def Let_def
        word_neq_0_conv [symmetric])
qed

text \<open>
  Fact: the time in a line has no microseconds: the subtraction of the delay goes through a timestamp in
  seconds. Within one second of the call it is the local time with the microseconds set to zero.
\<close>

theorem line_time_no_micros:
  assumes "valid_ITime (we_time v)" "(we_now v - uTimestampNs it) div kSecond = 0"
  shows "line_time v it = (we_time v)\<lparr>uMicro := 0\<rparr>"
  using assms by (rule line_time_same)

lemma line_time_micro: "uMicro (line_time v it) = 0"
  by (simp add: line_time_def ITime_minus_assign_sec_def ITime_minus_assign_def ITime_minus_def ITime_of_second_def
      ITime_of_tm_def ITime_of_fields_def Let_def)

section \<open>Examples\<close>

definition example_world :: log_world where
  "example_world = \<lparr>lw_heap = Map.empty, lw_files = [(''log/app.log'', ''old'')], lw_err = kSuccess,
     lw_tm = CThreadManagerImpl_default, lw_threads = Map.empty, lw_slots = (\<lambda>_. None), lw_items = Map.empty\<rparr>"

definition example_answers :: log_answers where
  "example_answers = \<lparr>la_pid = 7, la_channel = Some 4096, la_storage = Some 8192, la_lock = None, la_manager = True,
     la_thread = Some 64, la_throws = False, la_cpus = 4\<rparr>"

definition example_logger :: "bool \<Rightarrow> CLoggerImpl" where
  "example_logger async = (CLoggerImpl_default kInfo_lvl ''log/app.log'')\<lparr>m_pLogFile := Some ''log/app.log'',
     m_strLoggerName := ''app'', m_strLogPath := ''log'', m_strLogSuffix := ''.log'', m_bAsync := async, m_uPid := 7\<rparr>"

definition example_env :: write_env where
  "example_env = \<lparr>we_block = Some 1024, we_junk = (\<lambda>_. CHR 0x00), we_now = 0, we_time = example_time,
     we_junk_tm = tm_of_ITime example_time, we_open = True, we_rename = True, we_stored = ucast, we_file_time = example_time\<rparr>"

definition example_item :: LogItem where
  "example_item = \<lparr>iErrorNo = 0, eLevel = kInfo_lvl, uTid = own_tid 9 (- 1), uParamCount = 1, uTimestampNs = 0, pModule = ''m'',
     pFileLine = ''f'', pFunction = ''g'', pFormat = ''{}!'', ppParams = Some [''hi'']\<rparr>"

lemma example_line_time: "line_time example_env example_item = ITime_of_fields 2024 2 29 12 34 56 0"
proof -
  have "valid_ITime (we_time example_env)" "(we_now example_env - uTimestampNs example_item) div kSecond = 0"
    by (simp_all add: example_env_def example_valid example_item_def)
  from line_time_same [OF this] show ?thesis
    by (simp add: example_env_def example_time_def ITime_of_fields_def)
qed

lemma replicate_5: "replicate 5 x = [x, x, x, x, x]"
  by (simp add: numeral_eq_Suc)

lemma example_own_tid: "own_tid 9 (- 1) = 9"
  by (simp add: own_tid_def)

lemma example_text:
  "log_text 7 9 (ITime_of_fields 2024 2 29 12 34 56 0) example_item [''hi''] =
     Some (''20240229-12:34:56.000000 7 9 0  INFO [m] hi!(f,g)'' @ [CHR 0x0A])"
  by (simp add: log_text_def line_header_def line_place_def example_item_def ITime_of_fields_def decimal_pad_def decimal.simps
      decimal_int_def digit_chars digit_chars(2) [unfolded One_nat_def] LogLevelToString_def less_LogLevel_def
      less_eq_LogLevel_def Let_def replicate_5)

lemma example_logger_file:
  "m_bAsync (example_logger b) = b" "m_pLogFile (example_logger b) = Some ''log/app.log''"
  "log_file_name (example_logger b) = ''log/app.log''" "\<not> rotates (example_logger b)" "m_uPid (example_logger b) = 7"
  "file_inv (example_logger b) (lw_files example_world)"
  by (simp_all add: example_logger_def CLoggerImpl_default_def log_file_name_def rotates_def max_file_bytes_def
      file_inv_def example_world_def om_valid_def)

theorem sync_log_appends_witness:
  "\<exists>l' w'. CLoggerImpl_Log example_env None None [] 9 (- 1) 0 0 kInfo_lvl ''m'' ''f'' ''g'' ''{}!'' (Some [''hi'']) 1
      (example_logger False) example_world = Some (l', w', 9, kSuccess) \<and>
    content (lw_files w') ''log/app.log'' =
      ''old20240229-12:34:56.000000 7 9 0  INFO [m] hi!(f,g)'' @ [CHR 0x0A]"
proof -
  have 1: "time_prints (ITime_of_fields 2024 2 29 12 34 56 0)"
    by (simp add: time_prints_def ITime_of_fields_def)
  have 2: "line_bytes example_item [''hi''] = 8"
    by (simp add: line_bytes_def example_item_def)
  have 3: "example_item = \<lparr>iErrorNo = 0, eLevel = kInfo_lvl, uTid = 9, uParamCount = 1, uTimestampNs = 0, pModule = ''m'',
      pFileLine = ''f'', pFunction = ''g'', pFormat = ''{}!'', ppParams = Some [''hi'']\<rparr>"
    by (simp add: example_item_def example_own_tid)
  note * = sync_log_appends [of "example_logger False" example_world example_env example_item 0 kInfo_lvl 9
      "- 1" 1 0 "''m''" "''f''" "''g''" "''{}!''" "[''hi'']" _ _ None None "[]",
      unfolded example_line_time example_logger_file example_own_tid 2, OF _ _ _ _ 3 _ 1 _ example_text _ refl]
  have "content (lw_files example_world) ''log/app.log'' = ''old''"
    by (simp add: content_def example_world_def)
  with * show ?thesis
    by (auto simp: example_env_def example_logger_file)
qed

theorem LogFormat_undefined_witness:
  "CLoggerImpl_LogFormat (\<lambda>_. True) example_env 9 (- 1) example_time 0 kInfo_lvl ''hello'' (example_logger False) example_world = None"
  using LogFormat_undefined [of "example_logger False" example_world "\<lambda>_. True" example_env 9 "- 1" example_time 0 kInfo_lvl "''hello''"]
  by (simp add: example_logger_file example_world_def)

text \<open>An asynchronous logger with one entry in the first slot, and one with a full channel.\<close>

definition example_channel :: "uint64_t \<Rightarrow> CSPSCFixedBoundedChannel" where
  "example_channel tail = SPSCFixed_default\<lparr>m_pDatap := Some 8192, m_pDatac := Some 8192, m_uElemSizep := 8, m_uElemSizec := 8,
     m_uSizep := 4096, m_uSizec := 4096, m_uTail := tail\<rparr>"

lemma example_get: "\<exists>c. SPSCFixed_Get (example_channel 1) = (c, Some 8192)"
  by (simp add: SPSCFixed_Get_def example_channel_def SPSCFixed_default_def SPSCFixed_slot_def GetIndex_def Let_def)

lemma example_full: "\<exists>c. SPSCFixed_New (example_channel 4096) = (c, None)"
  by (simp add: SPSCFixed_New_def example_channel_def SPSCFixed_default_def Let_def)

lemma example_check:
  "CheckFileSwitch_lw True example_env ((example_logger True)\<lparr>m_pChannel := ch\<rparr>) w \<noteq> None"
  by (simp add: CheckFileSwitch_lw_def CheckFileSwitch_def switch_file_def max_file_bytes_def example_logger_def
      CLoggerImpl_default_def example_env_def kSecond_def kMill_def kMicro_def kNano_def)

theorem async_run_frees_storage_witness:
  "\<exists>l' w'. CLoggerImpl_Run True example_env ((example_logger True)\<lparr>m_pChannel := Some (4096, example_channel 1)\<rparr>)
      (example_world\<lparr>lw_heap := [8192 \<mapsto> 32768], lw_slots := (\<lambda>_. Some 1040)\<rparr>) = Some (l', w') \<and>
    lw_heap w' 8192 = None \<and> map_option (\<lambda>(p, c). m_pDatac c) (m_pChannel l') = Some (Some 8192)"
proof -
  let ?l = "(example_logger True)\<lparr>m_pChannel := Some (4096, example_channel 1)\<rparr>"
  let ?w = "example_world\<lparr>lw_heap := [8192 \<mapsto> 32768], lw_slots := (\<lambda>_. Some 1040)\<rparr>"
  obtain c where c: "SPSCFixed_Get (example_channel 1) = (c, Some 8192)"
    using example_get by blast
  have "CLoggerImpl_Run True example_env ?l ?w \<noteq> None"
    using example_check [of "Some (4096, SPSCFixed_Delete (Some 8192) c)"] c
    by (simp add: CLoggerImpl_Run_def run_item_def header_type_def checked_free_def)
  moreover have "m_pDatac (example_channel 1) = Some 8192"
    by (simp add: example_channel_def)
  ultimately show ?thesis
    using async_run_frees_storage [of ?l 4096 "example_channel 1" c 8192 ?w example_env True] c
    by (auto simp: example_world_def example_env_def om_valid_def split: option.splits)
qed

theorem full_channel_leaks_witness:
  "\<exists>l' w'. CLoggerImpl_Log example_env (Some 16) (Some 32) [Some 48] 9 (- 1) 0 0 kInfo_lvl ''m'' ''f'' ''g'' ''{}!'' (Some [''hi'']) 1
      ((example_logger True)\<lparr>m_pChannel := Some (4096, example_channel 4096)\<rparr>) example_world = Some (l', w', 9, kOutOfMemory) \<and>
    lw_heap w' = [32 \<mapsto> 8, 48 \<mapsto> 3]"
proof -
  obtain c where c: "SPSCFixed_New (example_channel 4096) = (c, None)"
    using example_full by blast
  show ?thesis
    using full_channel_leaks [of "(example_logger True)\<lparr>m_pChannel := Some (4096, example_channel 4096)\<rparr>" 4096
        "example_channel 4096" c example_world 16 "Some [''hi'']" "''hi''" 32 48] c
    by (simp add: example_logger_file malloc_fresh_def) (simp add: example_world_def example_logger_def example_own_tid)
qed

theorem LogFormat_drops_last_witness:
  "\<exists>buf' n. format_text 64 ''head '' ''hello'' (\<lambda>_. CHR 0x00) = Some (Inr (buf', n)) \<and>
    text_of buf' (unat n) = ''head hell'' @ [CHR 0x0A, CHR 0x00]"
  using LogFormat_drops_last [of "''head ''" "''hello''" 64 "\<lambda>_. CHR 0x00"] by simp

end
