(* ===== verification/JsonLib.thy ===== *)
theory JsonLib
  imports Prelude
begin

text \<open>
  The library behind the JSON wrapper. jsoncpp is a git submodule of the repository
  (\<open>deps/jsoncpp\<close>) and not part of it, so it is a parameter of the model: the record
  \<open>jsoncpp\<close> lists the functions \<open>json_impl.cpp\<close> calls, over a type \<open>'h\<close> of library states and a
  type \<open>'r\<close> of references to a \<open>Json::Value\<close>. Nothing is fixed about either type. A function that
  may throw a \<open>std::exception\<close> returns no value for it, with the state it left.

  What the documentation of jsoncpp promises, and the properties rely on, is \<open>jsoncpp_laws\<close>: it
  reads a reference as a JSON document (\<open>vw\<close>) and says which path leads from one reference to
  another (\<open>at_path\<close>). The theory JsonTree has an instance for which the laws are proved.
\<close>

section \<open>The functions called\<close>

text \<open>A double is only passed through: its bits.\<close>

type_synonym double = "64 word"

text \<open>\<open>Json::ValueType\<close>, in the order of its numeric values.\<close>

datatype ValueType =
  nullValue | intValue | uintValue | realValue | stringValue | booleanValue | arrayValue | objectValue

text \<open>The C++ types converted to \<open>Json::Value\<close> by an assignment or \<open>append\<close>.\<close>

datatype 'r json_arg =
    ABool bool | AInt uint32_t | AInt64 uint64_t | AUInt uint32_t | AUInt64 uint64_t
  | ADouble double | AString string | AValue 'r

type_synonym ('a, 's) throwing = "'s \<Rightarrow> 'a option \<times> 's"

record ('h, 'r) jsoncpp =
  Value_new :: "ValueType \<Rightarrow> ('r, 'h) throwing"
  Value_copy :: "'r \<Rightarrow> ('r, 'h) throwing"
  Value_assign :: "'r \<Rightarrow> 'r json_arg \<Rightarrow> (unit, 'h) throwing"
  Value_move :: "'r \<Rightarrow> 'r \<Rightarrow> (unit, 'h) throwing"
  Value_at :: "'r \<Rightarrow> string \<Rightarrow> ('r, 'h) throwing"
  Value_nth :: "'r \<Rightarrow> uint32_t \<Rightarrow> ('r, 'h) throwing"
  Value_append :: "'r \<Rightarrow> 'r json_arg \<Rightarrow> (unit, 'h) throwing"
  Value_removeMember :: "'r \<Rightarrow> string \<Rightarrow> (unit, 'h) throwing"
  Value_clear :: "'r \<Rightarrow> (unit, 'h) throwing"
  Value_isMember :: "'r \<Rightarrow> string \<Rightarrow> 'h \<Rightarrow> bool option"
  Value_type :: "'r \<Rightarrow> 'h \<Rightarrow> ValueType"
  Value_size :: "'r \<Rightarrow> 'h \<Rightarrow> uint32_t"
  as_bool :: "'r \<Rightarrow> 'h \<Rightarrow> bool option"
  as_int32 :: "'r \<Rightarrow> 'h \<Rightarrow> uint32_t option"
  as_int64 :: "'r \<Rightarrow> 'h \<Rightarrow> uint64_t option"
  as_uint32 :: "'r \<Rightarrow> 'h \<Rightarrow> uint32_t option"
  as_uint64 :: "'r \<Rightarrow> 'h \<Rightarrow> uint64_t option"
  as_double :: "'r \<Rightarrow> 'h \<Rightarrow> double option"
  as_cstring :: "'r \<Rightarrow> 'h \<Rightarrow> string option option"
  toStyledString :: "'r \<Rightarrow> 'h \<Rightarrow> string option"
  Reader_parse :: "string \<Rightarrow> 'r \<Rightarrow> (bool, 'h) throwing"
  parseFromStream :: "string \<Rightarrow> 'r \<Rightarrow> (bool, 'h) throwing"
  sizeof_CJsonImpl :: uint64_t

definition Value_isObject :: "('h, 'r) jsoncpp \<Rightarrow> 'r \<Rightarrow> 'h \<Rightarrow> bool" where
  "Value_isObject L r h \<longleftrightarrow> Value_type L r h = objectValue"

definition Value_isArray :: "('h, 'r) jsoncpp \<Rightarrow> 'r \<Rightarrow> 'h \<Rightarrow> bool" where
  "Value_isArray L r h \<longleftrightarrow> Value_type L r h = arrayValue"

section \<open>Documents and paths\<close>

datatype json =
    JNull | JInt uint64_t | JUInt uint64_t | JReal double | JString string | JBool bool
  | JArray "json list" | JObject "string \<rightharpoonup> json"

datatype jstep = Key string | Idx nat

fun json_type :: "json \<Rightarrow> ValueType" where
  "json_type JNull = nullValue"
| "json_type (JInt _) = intValue"
| "json_type (JUInt _) = uintValue"
| "json_type (JReal _) = realValue"
| "json_type (JString _) = stringValue"
| "json_type (JBool _) = booleanValue"
| "json_type (JArray _) = arrayValue"
| "json_type (JObject _) = objectValue"

fun json_default :: "ValueType \<Rightarrow> json" where
  "json_default nullValue = JNull"
| "json_default intValue = JInt 0"
| "json_default uintValue = JUInt 0"
| "json_default realValue = JReal 0"
| "json_default stringValue = JString []"
| "json_default booleanValue = JBool False"
| "json_default arrayValue = JArray []"
| "json_default objectValue = JObject Map.empty"

text \<open>The members of an object; \<open>null\<close> counts as the empty object.\<close>

fun members :: "json \<Rightarrow> (string \<rightharpoonup> json) option" where
  "members JNull = Some Map.empty"
| "members (JObject m) = Some m"
| "members _ = None"

text \<open>The number an integer value stands for, however it is stored.\<close>

fun json_int :: "json \<Rightarrow> int option" where
  "json_int (JInt i) = Some (sint i)"
| "json_int (JUInt u) = Some (uint u)"
| "json_int _ = None"

fun json_step :: "jstep \<Rightarrow> json \<Rightarrow> json option" where
  "json_step (Key k) (JObject m) = m k"
| "json_step (Idx i) (JArray xs) = (if i < length xs then Some (xs ! i) else None)"
| "json_step _ _ = None"

fun walk :: "jstep list \<Rightarrow> json \<Rightarrow> json option" where
  "walk [] v = Some v"
| "walk (s # p) v = Option.bind (json_step s v) (walk p)"

fun put_step :: "jstep \<Rightarrow> json \<Rightarrow> json \<Rightarrow> json" where
  "put_step (Key k) x (JObject m) = JObject (m(k \<mapsto> x))"
| "put_step (Idx i) x (JArray xs) = JArray (xs[i := x])"
| "put_step _ x v = v"

fun put :: "jstep list \<Rightarrow> json \<Rightarrow> json \<Rightarrow> json" where
  "put [] x v = x"
| "put (s # p) x v = (case json_step s v of None \<Rightarrow> v | Some u \<Rightarrow> put_step s (put p x u) v)"

lemma json_step_put: "json_step s v = Some u \<Longrightarrow> json_step s (put_step s x v) = Some x"
  by (induction s v rule: json_step.induct) (auto split: if_splits)

lemma put_step_same: "json_step s v = Some u \<Longrightarrow> put_step s u v = v"
  by (induction s v rule: json_step.induct) (auto split: if_splits)

lemma put_step_twice: "put_step s y (put_step s x v) = put_step s y v"
  by (induction s x v rule: put_step.induct) auto

lemma walk_append: "walk (p @ q) v = Option.bind (walk p v) (walk q)"
  by (induction p arbitrary: v) (auto split: bind_splits)

lemma walk_put: "walk p v = Some u \<Longrightarrow> walk p (put p x v) = Some x"
  by (induction p arbitrary: v)
    (auto simp: json_step_put split: bind_splits option.splits)

lemma walk_put_append:
  "walk p v = Some u \<Longrightarrow> walk (p @ q) (put p x v) = walk q x"
  by (simp add: walk_append walk_put)

lemma put_append: "walk p v = Some u \<Longrightarrow> put (p @ q) x v = put p (put q x u) v"
  by (induction p arbitrary: v) (auto split: bind_splits option.splits)

lemma put_same: "walk p v = Some u \<Longrightarrow> put p u v = v"
  by (induction p arbitrary: v) (auto simp: put_step_same split: bind_splits option.splits)

lemma put_twice: "walk p v = Some u \<Longrightarrow> put p y (put p x v) = put p y v"
  by (induction p arbitrary: v)
    (auto simp: json_step_put put_step_twice split: bind_splits option.splits)

section \<open>The documented behaviour\<close>

record ('h, 'r) json_view =
  vw :: "'h \<Rightarrow> 'r \<Rightarrow> json"
  at_path :: "'h \<Rightarrow> 'r \<Rightarrow> jstep list \<Rightarrow> 'r \<Rightarrow> bool"
  vroot :: "'h \<Rightarrow> 'r \<Rightarrow> nat"

text \<open>A reference is alive when the empty path leads from it to itself.\<close>

definition live :: "('h, 'r) json_view \<Rightarrow> 'h \<Rightarrow> 'r \<Rightarrow> bool" where
  "live V h r \<longleftrightarrow> at_path V h r [] r"

fun arg_json :: "('h, 'r) json_view \<Rightarrow> 'h \<Rightarrow> 'r json_arg \<Rightarrow> json" where
  "arg_json V h (ABool b) = JBool b"
| "arg_json V h (AInt i) = JInt (scast i)"
| "arg_json V h (AInt64 i) = JInt i"
| "arg_json V h (AUInt u) = JUInt (ucast u)"
| "arg_json V h (AUInt64 u) = JUInt u"
| "arg_json V h (ADouble d) = JReal d"
| "arg_json V h (AString s) = JString s"
| "arg_json V h (AValue r) = vw V h r"

text \<open>
  \<open>writes\<close>: the value at \<open>r\<close> becomes \<open>v\<close>, seen as such from every value \<open>r\<close> is a part of, and values
  with another root keep theirs. References to the values \<open>r\<close> is a part of and to values with another
  root stay good; nothing is said of references to parts of the old value at \<open>r\<close>.
  \<open>allocates\<close>: a new root, everything else is as before.
\<close>

definition keeps :: "('h, 'r) json_view \<Rightarrow> 'h \<Rightarrow> 'h \<Rightarrow> 'r \<Rightarrow> bool" where
  "keeps V h h' s \<longleftrightarrow>
     (\<forall>q t. at_path V h s q t \<longrightarrow> at_path V h' s q t) \<and> vw V h' s = vw V h s \<and> vroot V h' s = vroot V h s"

definition replaced :: "('h, 'r) json_view \<Rightarrow> 'r \<Rightarrow> json \<Rightarrow> 'h \<Rightarrow> 'h \<Rightarrow> bool" where
  "replaced V r v h h' \<longleftrightarrow>
     (\<forall>s q t p. at_path V h s q t \<and> at_path V h t p r \<longrightarrow> at_path V h' s q t) \<and>
     (\<forall>s p. at_path V h s p r \<longrightarrow> vw V h' s = put p v (vw V h s) \<and> vroot V h' s = vroot V h s)"

definition writes :: "('h, 'r) json_view \<Rightarrow> 'r \<Rightarrow> json \<Rightarrow> 'h \<Rightarrow> 'h \<Rightarrow> bool" where
  "writes V r v h h' \<longleftrightarrow>
     replaced V r v h h' \<and> (\<forall>s. live V h s \<and> vroot V h s \<noteq> vroot V h r \<longrightarrow> keeps V h h' s)"

definition allocates :: "('h, 'r) json_view \<Rightarrow> 'r \<Rightarrow> json \<Rightarrow> 'h \<Rightarrow> 'h \<Rightarrow> bool" where
  "allocates V r v h h' \<longleftrightarrow>
     live V h' r \<and> vw V h' r = v \<and> (\<forall>s. live V h s \<longrightarrow> keeps V h h' s \<and> vroot V h s \<noteq> vroot V h' r)"

text \<open>
  Selecting a member or an element that exists changes nothing. A member that does not exist is inserted
  as null, which moves no other value.
\<close>

definition selects :: "('h, 'r) json_view \<Rightarrow> 'r \<Rightarrow> jstep \<Rightarrow> 'r option \<times> 'h \<Rightarrow> 'h \<Rightarrow> bool" where
  "selects V r s res h \<longleftrightarrow>
     (\<exists>r'. res = (Some r', h) \<and> at_path V h r [s] r')"

definition path_laws :: "('h, 'r) json_view \<Rightarrow> bool" where
  "path_laws V \<longleftrightarrow>
     (\<forall>h r p r'. at_path V h r p r' \<longrightarrow>
        live V h r \<and> live V h r' \<and> vroot V h r' = vroot V h r \<and> walk p (vw V h r) = Some (vw V h r')) \<and>
     (\<forall>h r p r' q r''. at_path V h r p r' \<longrightarrow> at_path V h r' q r'' \<longrightarrow> at_path V h r (p @ q) r'')"

definition read_laws :: "('h, 'r) jsoncpp \<Rightarrow> ('h, 'r) json_view \<Rightarrow> bool" where
  "read_laws L V \<longleftrightarrow>
     (\<forall>h r. live V h r \<longrightarrow>
        Value_type L r h = json_type (vw V h r) \<and>
        (\<forall>k. Value_isMember L r k h = map_option (\<lambda>m. k \<in> dom m) (members (vw V h r))) \<and>
        (\<forall>xs. vw V h r = JArray xs \<longrightarrow> Value_size L r h = of_nat (length xs)) \<and>
        (\<forall>b. vw V h r = JBool b \<longrightarrow> as_bool L r h = Some b) \<and>
        (\<forall>n. json_int (vw V h r) = Some n \<longrightarrow>
           (- (2 ^ 31) \<le> n \<and> n < 2 ^ 31 \<longrightarrow> as_int32 L r h = Some (word_of_int n)) \<and>
           (- (2 ^ 63) \<le> n \<and> n < 2 ^ 63 \<longrightarrow> as_int64 L r h = Some (word_of_int n)) \<and>
           (0 \<le> n \<and> n < 2 ^ 32 \<longrightarrow> as_uint32 L r h = Some (word_of_int n)) \<and>
           (0 \<le> n \<and> n < 2 ^ 64 \<longrightarrow> as_uint64 L r h = Some (word_of_int n))) \<and>
        (\<forall>s. vw V h r = JString s \<longrightarrow> as_uint32 L r h = None \<and> as_uint64 L r h = None) \<and>
        (\<forall>d. vw V h r = JReal d \<longrightarrow> as_double L r h = Some d) \<and>
        (\<forall>s. vw V h r = JString s \<longrightarrow> as_cstring L r h = Some (Some s)))"

definition write_laws :: "('h, 'r) jsoncpp \<Rightarrow> ('h, 'r) json_view \<Rightarrow> bool" where
  "write_laws L V \<longleftrightarrow>
     (\<forall>h t. \<exists>r h'. Value_new L t h = (Some r, h') \<and> allocates V r (json_default t) h h') \<and>
     (\<forall>h s. live V h s \<longrightarrow>
        (\<exists>r h'. Value_copy L s h = (Some r, h') \<and> allocates V r (vw V h s) h h')) \<and>
     (\<forall>h r a. live V h r \<and> (\<forall>s. a = AValue s \<longrightarrow> live V h s) \<longrightarrow>
        (\<exists>h'. Value_assign L r a h = (Some (), h') \<and> writes V r (arg_json V h a) h h') \<and>
        (\<forall>xs. vw V h r = JArray xs \<longrightarrow>
           (\<exists>h'. Value_append L r a h = (Some (), h') \<and> writes V r (JArray (xs @ [arg_json V h a])) h h')))"

definition select_laws :: "('h, 'r) jsoncpp \<Rightarrow> ('h, 'r) json_view \<Rightarrow> bool" where
  "select_laws L V \<longleftrightarrow>
     (\<forall>h r k m. live V h r \<and> members (vw V h r) = Some m \<longrightarrow>
        (if k \<in> dom m then selects V r (Key k) (Value_at L r k h) h
         else \<exists>r' h'. Value_at L r k h = (Some r', h') \<and>
                writes V r (JObject (m(k \<mapsto> JNull))) h h' \<and> at_path V h' r [Key k] r' \<and>
                (\<forall>s. live V h s \<and> (\<forall>q. \<not> at_path V h s q r) \<longrightarrow> keeps V h h' s))) \<and>
     (\<forall>h r i xs. live V h r \<and> vw V h r = JArray xs \<and> unat i < length xs \<longrightarrow>
        selects V r (Idx (unat i)) (Value_nth L r i h) h)"

text \<open>
  Move assignment: the target gets the value of the source. What it leaves in the source is not
  promised, nor is anything about the values the source is a part of.
\<close>

definition move_laws :: "('h, 'r) jsoncpp \<Rightarrow> ('h, 'r) json_view \<Rightarrow> bool" where
  "move_laws L V \<longleftrightarrow>
     (\<forall>h r s. live V h r \<and> live V h s \<and> vroot V h r \<noteq> vroot V h s \<longrightarrow>
        (\<exists>h'. Value_move L r s h = (Some (), h') \<and> replaced V r (vw V h s) h h' \<and>
           (\<forall>t. live V h t \<and> vroot V h t \<noteq> vroot V h r \<and> vroot V h t \<noteq> vroot V h s \<longrightarrow> keeps V h h' t)))"

text \<open>The parsers write only the value they are given.\<close>

definition parse_laws :: "('h, 'r) jsoncpp \<Rightarrow> ('h, 'r) json_view \<Rightarrow> bool" where
  "parse_laws L V \<longleftrightarrow>
     (\<forall>h r str f. live V h r \<and> (f = Reader_parse L \<or> f = parseFromStream L) \<longrightarrow>
        (\<exists>v. writes V r v h (snd (f str r h))))"

definition jsoncpp_laws :: "('h, 'r) jsoncpp \<Rightarrow> ('h, 'r) json_view \<Rightarrow> bool" where
  "jsoncpp_laws L V \<longleftrightarrow> path_laws V \<and> read_laws L V \<and> write_laws L V \<and> select_laws L V \<and> move_laws L V \<and> parse_laws L V"

end
