(* ===== verification/JsonImpl.thy ===== *)
theory JsonImpl
  imports JsonLib Allocator
begin

text \<open>
  The JSON wrapper: \<open>base/sources/utilities/json_impl.cpp\<close>, class \<open>CJsonImpl\<close>, with the types of
  \<open>base/include/utilities/json.h\<close>. An object is its address; \<open>jw_objs\<close> maps the address of each
  \<open>CJsonImpl\<close> alive to its fields. \<open>m_jsonValue\<close> is the reference the object stands for: its own
  \<open>m_jsonValueData\<close>, or a part of the value of the parent that made it.

  The result of an operation is none when a \<open>std::exception\<close> leaves it. A C string passed in or
  out is its characters, none for \<open>nullptr\<close>. The end of the life of a local \<open>Json::Value\<close> is not
  modelled: it releases storage of the library only. A \<open>delete\<close> expression runs the destructor and
  releases the block; that it may be used at all on a block of \<open>IAllocatorEx::New\<close>, which comes from
  \<open>std::malloc\<close>, is taken for granted here as it is in the code.
\<close>

section \<open>Types\<close>

datatype JsonType =
    kInvalid_json | kBool | kInt32 | kInt64 | kUint32 | kUint64 | kDouble | kString | kObject | kArray

fun GetIJsonType :: "ValueType \<Rightarrow> JsonType" where
  "GetIJsonType nullValue = kInvalid_json"
| "GetIJsonType intValue = kInt64"
| "GetIJsonType uintValue = kUint64"
| "GetIJsonType realValue = kDouble"
| "GetIJsonType stringValue = kString"
| "GetIJsonType booleanValue = kBool"
| "GetIJsonType arrayValue = kArray"
| "GetIJsonType objectValue = kObject"

fun GetJsonValueType :: "JsonType \<Rightarrow> ValueType" where
  "GetJsonValueType kInvalid_json = nullValue"
| "GetJsonValueType kBool = booleanValue"
| "GetJsonValueType kInt32 = intValue"
| "GetJsonValueType kInt64 = intValue"
| "GetJsonValueType kUint32 = uintValue"
| "GetJsonValueType kUint64 = uintValue"
| "GetJsonValueType kDouble = realValue"
| "GetJsonValueType kString = stringValue"
| "GetJsonValueType kObject = objectValue"
| "GetJsonValueType kArray = arrayValue"

record 'r CJsonImpl =
  m_jsonValueData :: 'r
  m_jsonValue :: 'r
  m_vecJsonValues :: "pointer list"
  m_strJsonString :: string

record ('h, 'r) json_world =
  jw_lib :: 'h
  jw_objs :: "uint64_t \<rightharpoonup> 'r CJsonImpl"
  jw_heap :: heap
  jw_err :: last_error

text \<open>
  What the memory answers to a call that makes a \<open>CJsonImpl\<close>: \<open>std::malloc\<close>, and whether each
  \<open>push_back\<close> finds room or throws.
\<close>

record json_memory =
  jm_malloc :: pointer
  jm_push :: bool
  jm_push_null :: bool

section \<open>Exceptions\<close>

text \<open>Running on after a step, unless it threw; \<open>try ... catch\<close>; a call of the library.\<close>

definition jbind :: "'a option \<times> 's \<Rightarrow> ('a \<Rightarrow> 's \<Rightarrow> 'b option \<times> 's) \<Rightarrow> 'b option \<times> 's" where
  "jbind m f = (case m of (None, w) \<Rightarrow> (None, w) | (Some a, w) \<Rightarrow> f a w)"

definition jcatch :: "'a option \<times> 's \<Rightarrow> ('s \<Rightarrow> 'a option \<times> 's) \<Rightarrow> 'a option \<times> 's" where
  "jcatch m f = (case m of (None, w) \<Rightarrow> f w | (Some a, w) \<Rightarrow> (Some a, w))"

definition jlib :: "('a, 'h) throwing \<Rightarrow> ('a, ('h, 'r) json_world) throwing" where
  "jlib f w = (case f (jw_lib w) of (r, h) \<Rightarrow> (r, w\<lparr>jw_lib := h\<rparr>))"

definition jread :: "('h \<Rightarrow> 'a option) \<Rightarrow> ('a, ('h, 'r) json_world) throwing" where
  "jread f w = (f (jw_lib w), w)"

lemma jbind_simps [simp]:
  "jbind (None, w) f = (None, w)"
  "jbind (Some a, w) f = f a w"
  by (simp_all add: jbind_def)

lemma jcatch_simps [simp]:
  "jcatch (None, w) f = f w"
  "jcatch (Some a, w) f = (Some a, w)"
  by (simp_all add: jcatch_def)

definition jerror :: "ErrorCode \<Rightarrow> ('h, 'r) json_world \<Rightarrow> ('h, 'r) json_world" where
  "jerror c w = w\<lparr>jw_err := SetLastError c (jw_err w)\<rparr>"

text \<open>\<open>SetLastError(c); return r;\<close>\<close>

definition jfail :: "ErrorCode \<Rightarrow> 'a \<Rightarrow> ('a, ('h, 'r) json_world) throwing" where
  "jfail c r w = (Some r, jerror c w)"

section \<open>Objects\<close>

definition the_obj :: "uint64_t \<Rightarrow> ('h, 'r) json_world \<Rightarrow> 'r CJsonImpl" where
  "the_obj p w = the (jw_objs w p)"

definition the_value :: "uint64_t \<Rightarrow> ('h, 'r) json_world \<Rightarrow> 'r" where
  "the_value p w = m_jsonValue (the_obj p w)"

text \<open>\<open>dynamic_cast<CJsonImpl *>\<close>.\<close>

definition to_CJsonImpl :: "pointer \<Rightarrow> ('h, 'r) json_world \<Rightarrow> pointer" where
  "to_CJsonImpl pJson w = (case pJson of None \<Rightarrow> None | Some q \<Rightarrow> if jw_objs w q = None then None else Some q)"

text \<open>The three constructors.\<close>

definition CJsonImpl_of_type ::
  "('h, 'r) jsoncpp \<Rightarrow> JsonType \<Rightarrow> ('r CJsonImpl, 'h) throwing" where
  "CJsonImpl_of_type L jsonType h =
     jbind (Value_new L (GetJsonValueType jsonType) h) (\<lambda>v h.
       (Some \<lparr>m_jsonValueData = v, m_jsonValue = v, m_vecJsonValues = [], m_strJsonString = []\<rparr>, h))"

definition CJsonImpl_of_ref ::
  "('h, 'r) jsoncpp \<Rightarrow> 'r \<Rightarrow> bool \<Rightarrow> ('r CJsonImpl, 'h) throwing" where
  "CJsonImpl_of_ref L jsonValue bRoot h =
     jbind (if bRoot then Value_copy L jsonValue h else Value_new L objectValue h) (\<lambda>v h.
       (Some \<lparr>m_jsonValueData = v, m_jsonValue = (if bRoot then v else jsonValue),
              m_vecJsonValues = [], m_strJsonString = []\<rparr>, h))"

definition CJsonImpl_of_value ::
  "('h, 'r) jsoncpp \<Rightarrow> 'r \<Rightarrow> ('r CJsonImpl, 'h) throwing" where
  "CJsonImpl_of_value L jsonValue h =
     jbind (Value_copy L jsonValue h) (\<lambda>v h.
       (Some \<lparr>m_jsonValueData = v, m_jsonValue = v, m_vecJsonValues = [], m_strJsonString = []\<rparr>, h))"

text \<open>\<open>IAllocatorEx::New<CJsonImpl>\<close>: the constructor runs when \<open>Malloc\<close> gave a block.\<close>

definition New_CJsonImpl ::
  "('h, 'r) jsoncpp \<Rightarrow> pointer \<Rightarrow> ('r CJsonImpl, 'h) throwing \<Rightarrow> ('h, 'r) json_world \<Rightarrow>
     pointer \<times> ('h, 'r) json_world" where
  "New_CJsonImpl L ans ctor w =
     (let (obj, h) = (if ans = nullptr then (None, jw_lib w) else ctor (jw_lib w))
      in case IAllocatorEx_New ans (sizeof_CJsonImpl L) obj (jw_heap w) of
           (None, hp) \<Rightarrow> (nullptr, w\<lparr>jw_lib := h, jw_heap := hp\<rparr>)
         | (Some (c, t), hp) \<Rightarrow>
             (Some c, w\<lparr>jw_lib := h, jw_heap := hp, jw_objs := (jw_objs w)(c \<mapsto> t)\<rparr>))"

text \<open>\<open>IAllocatorEx::Delete\<close> of an object without children.\<close>

definition Delete_new ::
  "pointer \<Rightarrow> ('h, 'r) json_world \<Rightarrow> ('h, 'r) json_world" where
  "Delete_new pJsonImpl w =
     (case pJsonImpl of
        None \<Rightarrow> w
      | Some c \<Rightarrow> w\<lparr>jw_objs := (jw_objs w)(c := None),
                    jw_heap := IAllocatorEx_Delete (Some c) id (jw_heap w)\<rparr>)"

definition push_child :: "uint64_t \<Rightarrow> pointer \<Rightarrow> ('h, 'r) json_world \<Rightarrow> ('h, 'r) json_world" where
  "push_child p c w =
     w\<lparr>jw_objs := (jw_objs w)(p \<mapsto> (the_obj p w)\<lparr>m_vecJsonValues := m_vecJsonValues (the_obj p w) @ [c]\<rparr>)\<rparr>"

text \<open>
  The block shared by the functions that return a child: \<open>New\<close>, and when it gave an object
  \<open>push_back\<close> and return it. Nothing is returned when there is no object. When \<open>push_back\<close> throws,
  the \<open>catch\<close> deletes the object.
\<close>

definition new_child ::
  "('h, 'r) jsoncpp \<Rightarrow> json_memory \<Rightarrow> uint64_t \<Rightarrow> ('r CJsonImpl, 'h) throwing \<Rightarrow>
     (pointer, ('h, 'r) json_world) throwing" where
  "new_child L a p ctor w =
     (case New_CJsonImpl L (jm_malloc a) ctor w of
        (None, w) \<Rightarrow> jfail kInvalidParam nullptr w
      | (Some c, w) \<Rightarrow>
          if jm_push a then (Some (Some c), push_child p (Some c) w)
          else (None, Delete_new (Some c) w))"

section \<open>Parsing\<close>

text \<open>The part of \<open>Parse\<close> inside \<open>try\<close>; \<open>parser\<close> is the jsoncpp function that reads the text.\<close>

definition parse_into ::
  "('h, 'r) jsoncpp \<Rightarrow> (string \<Rightarrow> 'r \<Rightarrow> (bool, 'h) throwing) \<Rightarrow> string \<Rightarrow> uint64_t \<Rightarrow>
     (ErrorCode, ('h, 'r) json_world) throwing" where
  "parse_into L parser str p w =
     jbind (jlib (Value_new L nullValue) w) (\<lambda>v w.
     jbind (jlib (parser str v) w) (\<lambda>ok w.
       if \<not> ok then jfail kInvalidParam kInvalidParam w
       else jbind (jlib (Value_move L (the_value p w) v) w) (\<lambda>_ w. (Some kSuccess, w))))"

definition CJsonImpl_Parse ::
  "('h, 'r) jsoncpp \<Rightarrow> uint64_t \<Rightarrow> string option \<Rightarrow> (ErrorCode, ('h, 'r) json_world) throwing" where
  "CJsonImpl_Parse L p pJsonStr w =
     (case pJsonStr of
        None \<Rightarrow> jfail kInvalidParam kInvalidParam w
      | Some str \<Rightarrow> jcatch (parse_into L (Reader_parse L) str p w) (jfail kThrowException kThrowException))"

text \<open>\<open>opened\<close> is the content of the file when it could be opened.\<close>

definition CJsonImpl_ParseFile ::
  "('h, 'r) jsoncpp \<Rightarrow> string option \<Rightarrow> uint64_t \<Rightarrow> string option \<Rightarrow>
     (ErrorCode, ('h, 'r) json_world) throwing" where
  "CJsonImpl_ParseFile L opened p pJsonFile w =
     (case pJsonFile of
        None \<Rightarrow> jfail kInvalidParam kInvalidParam w
      | Some _ \<Rightarrow>
          (case opened of
             None \<Rightarrow> jfail kInvalidParam kInvalidParam w
           | Some str \<Rightarrow> jcatch (parse_into L (parseFromStream L) str p w) (jfail kThrowException kThrowException)))"

section \<open>Members\<close>

text \<open>\<open>GetValue\<close>: \<open>as\<close> is the conversion \<open>as<T>\<close>. The call of \<open>isMember\<close> is outside the \<open>try\<close>.\<close>

definition GetValue_key ::
  "('h, 'r) jsoncpp \<Rightarrow> ('r \<Rightarrow> 'h \<Rightarrow> 'a option) \<Rightarrow> uint64_t \<Rightarrow> string option \<Rightarrow> 'a \<Rightarrow>
     ('a, ('h, 'r) json_world) throwing" where
  "GetValue_key L as p pKey defaultValue w =
     (case pKey of
        None \<Rightarrow> (Some defaultValue, w)
      | Some k \<Rightarrow>
          jbind (jread (Value_isMember L (the_value p w) k) w) (\<lambda>is w.
            if is
            then jcatch
              (jbind (jlib (Value_at L (the_value p w) k) w) (\<lambda>r w. jread (as r) w))
              (\<lambda>w. (Some defaultValue, w))
            else (Some defaultValue, w)))"

definition CJsonImpl_GetBool ::
  "('h, 'r) jsoncpp \<Rightarrow> uint64_t \<Rightarrow> string option \<Rightarrow> bool \<Rightarrow> (bool, ('h, 'r) json_world) throwing" where
  "CJsonImpl_GetBool L p pKey bDefault w = GetValue_key L (as_bool L) p pKey bDefault w"

definition CJsonImpl_GetInt32 ::
  "('h, 'r) jsoncpp \<Rightarrow> uint64_t \<Rightarrow> string option \<Rightarrow> uint32_t \<Rightarrow> (uint32_t, ('h, 'r) json_world) throwing" where
  "CJsonImpl_GetInt32 L p pKey iDefault w = GetValue_key L (as_int32 L) p pKey iDefault w"

definition CJsonImpl_GetInt64 ::
  "('h, 'r) jsoncpp \<Rightarrow> uint64_t \<Rightarrow> string option \<Rightarrow> uint64_t \<Rightarrow> (uint64_t, ('h, 'r) json_world) throwing" where
  "CJsonImpl_GetInt64 L p pKey iDefault w = GetValue_key L (as_int64 L) p pKey iDefault w"

definition CJsonImpl_GetUint32 ::
  "('h, 'r) jsoncpp \<Rightarrow> uint64_t \<Rightarrow> string option \<Rightarrow> uint32_t \<Rightarrow> (uint32_t, ('h, 'r) json_world) throwing" where
  "CJsonImpl_GetUint32 L p pKey uDefault w = GetValue_key L (as_uint32 L) p pKey uDefault w"

definition CJsonImpl_GetUint64 ::
  "('h, 'r) jsoncpp \<Rightarrow> uint64_t \<Rightarrow> string option \<Rightarrow> uint64_t \<Rightarrow> (uint64_t, ('h, 'r) json_world) throwing" where
  "CJsonImpl_GetUint64 L p pKey uDefault w = GetValue_key L (as_uint64 L) p pKey uDefault w"

definition CJsonImpl_GetDouble ::
  "('h, 'r) jsoncpp \<Rightarrow> uint64_t \<Rightarrow> string option \<Rightarrow> double \<Rightarrow> (double, ('h, 'r) json_world) throwing" where
  "CJsonImpl_GetDouble L p pKey dDefault w = GetValue_key L (as_double L) p pKey dDefault w"

definition CJsonImpl_GetString ::
  "('h, 'r) jsoncpp \<Rightarrow> uint64_t \<Rightarrow> string option \<Rightarrow> string option \<Rightarrow>
     (string option, ('h, 'r) json_world) throwing" where
  "CJsonImpl_GetString L p pKey pDefault w = GetValue_key L (as_cstring L) p pKey pDefault w"

text \<open>The guard \<open>pKey != nullptr && m_jsonValue.isMember(pKey) && m_jsonValue[pKey].isX()\<close>.\<close>

definition member_is ::
  "('h, 'r) jsoncpp \<Rightarrow> ('r \<Rightarrow> 'h \<Rightarrow> bool) \<Rightarrow> 'r \<Rightarrow> string option \<Rightarrow> (bool, ('h, 'r) json_world) throwing" where
  "member_is L isX v pKey w =
     (case pKey of
        None \<Rightarrow> (Some False, w)
      | Some k \<Rightarrow>
          jbind (jread (Value_isMember L v k) w) (\<lambda>is w.
            if is then jbind (jlib (Value_at L v k) w) (\<lambda>r w. (Some (isX r (jw_lib w)), w))
            else (Some False, w)))"

text \<open>The body of the two functions that return a copy of a member: the copy is copied again.\<close>

definition copied_child ::
  "('h, 'r) jsoncpp \<Rightarrow> json_memory \<Rightarrow> uint64_t \<Rightarrow> string \<Rightarrow> (pointer, ('h, 'r) json_world) throwing" where
  "copied_child L a p k w =
     jbind (jlib (Value_at L (the_value p w) k) w) (\<lambda>r w.
     jbind (jlib (Value_copy L r) w) (\<lambda>v w.
       new_child L a p (CJsonImpl_of_value L v) w))"

definition CJsonImpl_GetObject ::
  "('h, 'r) jsoncpp \<Rightarrow> json_memory \<Rightarrow> uint64_t \<Rightarrow> string option \<Rightarrow> (pointer, ('h, 'r) json_world) throwing" where
  "CJsonImpl_GetObject L a p pKey w =
     jbind (member_is L (Value_isObject L) (the_value p w) pKey w) (\<lambda>ok w.
       if ok then jcatch (copied_child L a p (the pKey) w) (jfail kThrowException nullptr)
       else jfail kInvalidParam nullptr w)"

definition CJsonImpl_GetArray ::
  "('h, 'r) jsoncpp \<Rightarrow> json_memory \<Rightarrow> uint64_t \<Rightarrow> string option \<Rightarrow> (pointer, ('h, 'r) json_world) throwing" where
  "CJsonImpl_GetArray L a p pKey w =
     jbind (member_is L (Value_isArray L) (the_value p w) pKey w) (\<lambda>ok w.
       if ok then jcatch (copied_child L a p (the pKey) w) (jfail kThrowException nullptr)
       else jfail kInvalidParam nullptr w)"

text \<open>\<open>GetObject(pKey, pJson)\<close> assigns a copy, \<open>GetArray(pKey, pJson)\<close> moves the member.\<close>

definition CJsonImpl_GetObject_into ::
  "('h, 'r) jsoncpp \<Rightarrow> uint64_t \<Rightarrow> string option \<Rightarrow> pointer \<Rightarrow> (ErrorCode, ('h, 'r) json_world) throwing" where
  "CJsonImpl_GetObject_into L p pKey pJson w =
     (if pKey = None \<or> pJson = nullptr then jfail kInvalidParam kInvalidParam w
      else jbind (member_is L (Value_isObject L) (the_value p w) pKey w) (\<lambda>ok w.
        case (ok, to_CJsonImpl pJson w) of
          (True, Some q) \<Rightarrow>
            jcatch
              (jbind (jlib (Value_at L (the_value p w) (the pKey)) w) (\<lambda>r w.
               jbind (jlib (Value_assign L (the_value q w) (AValue r)) w) (\<lambda>_ w. (Some kSuccess, w))))
              (jfail kThrowException kThrowException)
        | _ \<Rightarrow> jfail kInvalidParam kInvalidParam w))"

definition CJsonImpl_GetArray_into ::
  "('h, 'r) jsoncpp \<Rightarrow> uint64_t \<Rightarrow> string option \<Rightarrow> pointer \<Rightarrow> (ErrorCode, ('h, 'r) json_world) throwing" where
  "CJsonImpl_GetArray_into L p pKey pJson w =
     (if pKey = None \<or> pJson = nullptr then jfail kInvalidParam kInvalidParam w
      else jbind (member_is L (Value_isArray L) (the_value p w) pKey w) (\<lambda>ok w.
        case (ok, to_CJsonImpl pJson w) of
          (True, Some q) \<Rightarrow>
            jcatch
              (jbind (jlib (Value_at L (the_value p w) (the pKey)) w) (\<lambda>r w.
               jbind (jlib (Value_move L (the_value q w) r) w) (\<lambda>_ w. (Some kSuccess, w))))
              (jfail kThrowException kThrowException)
        | _ \<Rightarrow> jfail kInvalidParam kInvalidParam w))"

definition SetValue ::
  "('h, 'r) jsoncpp \<Rightarrow> uint64_t \<Rightarrow> string option \<Rightarrow> 'r json_arg \<Rightarrow> (ErrorCode, ('h, 'r) json_world) throwing" where
  "SetValue L p pKey val w =
     (case pKey of
        None \<Rightarrow> jfail kInvalidParam kInvalidParam w
      | Some k \<Rightarrow>
          jcatch
            (jbind (jlib (Value_at L (the_value p w) k) w) (\<lambda>r w.
             jbind (jlib (Value_assign L r val) w) (\<lambda>_ w. (Some kSuccess, w))))
            (jfail kThrowException kThrowException))"

definition CJsonImpl_SetBool ::
  "('h, 'r) jsoncpp \<Rightarrow> uint64_t \<Rightarrow> string option \<Rightarrow> bool \<Rightarrow> (ErrorCode, ('h, 'r) json_world) throwing" where
  "CJsonImpl_SetBool L p pKey bValue w = SetValue L p pKey (ABool bValue) w"

definition CJsonImpl_SetInt32 ::
  "('h, 'r) jsoncpp \<Rightarrow> uint64_t \<Rightarrow> string option \<Rightarrow> uint32_t \<Rightarrow> (ErrorCode, ('h, 'r) json_world) throwing" where
  "CJsonImpl_SetInt32 L p pKey iValue w = SetValue L p pKey (AInt iValue) w"

definition CJsonImpl_SetInt64 ::
  "('h, 'r) jsoncpp \<Rightarrow> uint64_t \<Rightarrow> string option \<Rightarrow> uint64_t \<Rightarrow> (ErrorCode, ('h, 'r) json_world) throwing" where
  "CJsonImpl_SetInt64 L p pKey iValue w = SetValue L p pKey (AInt64 iValue) w"

definition CJsonImpl_SetUint32 ::
  "('h, 'r) jsoncpp \<Rightarrow> uint64_t \<Rightarrow> string option \<Rightarrow> uint32_t \<Rightarrow> (ErrorCode, ('h, 'r) json_world) throwing" where
  "CJsonImpl_SetUint32 L p pKey uValue w = SetValue L p pKey (AUInt uValue) w"

definition CJsonImpl_SetUint64 ::
  "('h, 'r) jsoncpp \<Rightarrow> uint64_t \<Rightarrow> string option \<Rightarrow> uint64_t \<Rightarrow> (ErrorCode, ('h, 'r) json_world) throwing" where
  "CJsonImpl_SetUint64 L p pKey uValue w = SetValue L p pKey (AUInt64 uValue) w"

definition CJsonImpl_SetDouble ::
  "('h, 'r) jsoncpp \<Rightarrow> uint64_t \<Rightarrow> string option \<Rightarrow> double \<Rightarrow> (ErrorCode, ('h, 'r) json_world) throwing" where
  "CJsonImpl_SetDouble L p pKey dValue w = SetValue L p pKey (ADouble dValue) w"

definition CJsonImpl_SetString ::
  "('h, 'r) jsoncpp \<Rightarrow> uint64_t \<Rightarrow> string option \<Rightarrow> string option \<Rightarrow> (ErrorCode, ('h, 'r) json_world) throwing" where
  "CJsonImpl_SetString L p pKey pValue w =
     (case pValue of
        None \<Rightarrow> jfail kInvalidParam kInvalidParam w
      | Some s \<Rightarrow> SetValue L p pKey (AString s) w)"

definition CJsonImpl_SetObject_from ::
  "('h, 'r) jsoncpp \<Rightarrow> uint64_t \<Rightarrow> string option \<Rightarrow> pointer \<Rightarrow> (ErrorCode, ('h, 'r) json_world) throwing" where
  "CJsonImpl_SetObject_from L p pKey pJson w =
     (case to_CJsonImpl pJson w of
        None \<Rightarrow> jfail kInvalidParam kInvalidParam w
      | Some q \<Rightarrow> SetValue L p pKey (AValue (the_value q w)) w)"

definition CJsonImpl_SetArray_from ::
  "('h, 'r) jsoncpp \<Rightarrow> uint64_t \<Rightarrow> string option \<Rightarrow> pointer \<Rightarrow> (ErrorCode, ('h, 'r) json_world) throwing" where
  "CJsonImpl_SetArray_from L p pKey pJson w =
     (case to_CJsonImpl pJson w of
        None \<Rightarrow> jfail kInvalidParam kInvalidParam w
      | Some q \<Rightarrow> SetValue L p pKey (AValue (the_value q w)) w)"

text \<open>The functions that add an empty object or array and return a child that stands for it.\<close>

definition CJsonImpl_SetObject ::
  "('h, 'r) jsoncpp \<Rightarrow> json_memory \<Rightarrow> uint64_t \<Rightarrow> string option \<Rightarrow> (pointer, ('h, 'r) json_world) throwing" where
  "CJsonImpl_SetObject L a p pKey w =
     jbind (jlib (Value_new L objectValue) w) (\<lambda>v w.
     jbind (SetValue L p pKey (AValue v) w) (\<lambda>rc w.
       if rc = kSuccess
       then jcatch
         (jbind (jlib (Value_at L (the_value p w) (the pKey)) w) (\<lambda>r w.
            new_child L a p (CJsonImpl_of_ref L r False) w))
         (jfail kThrowException nullptr)
       else jfail kInvalidParam nullptr w))"

definition CJsonImpl_SetArray ::
  "('h, 'r) jsoncpp \<Rightarrow> json_memory \<Rightarrow> uint64_t \<Rightarrow> string option \<Rightarrow> (pointer, ('h, 'r) json_world) throwing" where
  "CJsonImpl_SetArray L a p pKey w =
     jbind (jlib (Value_new L arrayValue) w) (\<lambda>v w.
     jbind (SetValue L p pKey (AValue v) w) (\<lambda>rc w.
       if rc = kSuccess
       then jcatch
         (jbind (jlib (Value_at L (the_value p w) (the pKey)) w) (\<lambda>r w.
            new_child L a p (CJsonImpl_of_ref L r False) w))
         (jfail kThrowException nullptr)
       else jfail kInvalidParam nullptr w))"

section \<open>Elements\<close>

definition in_range :: "('h, 'r) jsoncpp \<Rightarrow> 'r \<Rightarrow> uint32_t \<Rightarrow> 'h \<Rightarrow> bool" where
  "in_range L v iIndex h \<longleftrightarrow> Value_isArray L v h \<and> iIndex < Value_size L v h"

definition GetValue_index ::
  "('h, 'r) jsoncpp \<Rightarrow> ('r \<Rightarrow> 'h \<Rightarrow> 'a option) \<Rightarrow> uint64_t \<Rightarrow> uint32_t \<Rightarrow> 'a \<Rightarrow>
     ('a, ('h, 'r) json_world) throwing" where
  "GetValue_index L as p iIndex defaultValue w =
     (if in_range L (the_value p w) iIndex (jw_lib w)
      then jcatch
        (jbind (jlib (Value_nth L (the_value p w) iIndex) w) (\<lambda>r w. jread (as r) w))
        (\<lambda>w. (Some defaultValue, w))
      else (Some defaultValue, w))"

definition CJsonImpl_GetBool_at ::
  "('h, 'r) jsoncpp \<Rightarrow> uint64_t \<Rightarrow> uint32_t \<Rightarrow> bool \<Rightarrow> (bool, ('h, 'r) json_world) throwing" where
  "CJsonImpl_GetBool_at L p iIndex bDefault w = GetValue_index L (as_bool L) p iIndex bDefault w"

definition CJsonImpl_GetInt32_at ::
  "('h, 'r) jsoncpp \<Rightarrow> uint64_t \<Rightarrow> uint32_t \<Rightarrow> uint32_t \<Rightarrow> (uint32_t, ('h, 'r) json_world) throwing" where
  "CJsonImpl_GetInt32_at L p iIndex iDefault w = GetValue_index L (as_int32 L) p iIndex iDefault w"

definition CJsonImpl_GetInt64_at ::
  "('h, 'r) jsoncpp \<Rightarrow> uint64_t \<Rightarrow> uint32_t \<Rightarrow> uint64_t \<Rightarrow> (uint64_t, ('h, 'r) json_world) throwing" where
  "CJsonImpl_GetInt64_at L p iIndex iDefault w = GetValue_index L (as_int64 L) p iIndex iDefault w"

definition CJsonImpl_GetUint32_at ::
  "('h, 'r) jsoncpp \<Rightarrow> uint64_t \<Rightarrow> uint32_t \<Rightarrow> uint32_t \<Rightarrow> (uint32_t, ('h, 'r) json_world) throwing" where
  "CJsonImpl_GetUint32_at L p iIndex uDefault w = GetValue_index L (as_uint32 L) p iIndex uDefault w"

definition CJsonImpl_GetUint64_at ::
  "('h, 'r) jsoncpp \<Rightarrow> uint64_t \<Rightarrow> uint32_t \<Rightarrow> uint64_t \<Rightarrow> (uint64_t, ('h, 'r) json_world) throwing" where
  "CJsonImpl_GetUint64_at L p iIndex uDefault w = GetValue_index L (as_uint64 L) p iIndex uDefault w"

definition CJsonImpl_GetDouble_at ::
  "('h, 'r) jsoncpp \<Rightarrow> uint64_t \<Rightarrow> uint32_t \<Rightarrow> double \<Rightarrow> (double, ('h, 'r) json_world) throwing" where
  "CJsonImpl_GetDouble_at L p iIndex dDefault w = GetValue_index L (as_double L) p iIndex dDefault w"

definition CJsonImpl_GetString_at ::
  "('h, 'r) jsoncpp \<Rightarrow> uint64_t \<Rightarrow> uint32_t \<Rightarrow> string option \<Rightarrow>
     (string option, ('h, 'r) json_world) throwing" where
  "CJsonImpl_GetString_at L p iIndex pDefault w = GetValue_index L (as_cstring L) p iIndex pDefault w"

definition CJsonImpl_GetObject_at ::
  "('h, 'r) jsoncpp \<Rightarrow> json_memory \<Rightarrow> uint64_t \<Rightarrow> uint32_t \<Rightarrow> (pointer, ('h, 'r) json_world) throwing" where
  "CJsonImpl_GetObject_at L a p iIndex w =
     (if in_range L (the_value p w) iIndex (jw_lib w)
      then jcatch
        (jbind (jlib (Value_nth L (the_value p w) iIndex) w) (\<lambda>r w.
           new_child L a p (CJsonImpl_of_ref L r False) w))
        (jfail kThrowException nullptr)
      else jfail kInvalidParam nullptr w)"

definition CJsonImpl_GetArray_at ::
  "('h, 'r) jsoncpp \<Rightarrow> json_memory \<Rightarrow> uint64_t \<Rightarrow> uint32_t \<Rightarrow> (pointer, ('h, 'r) json_world) throwing" where
  "CJsonImpl_GetArray_at L a p iIndex w =
     (if in_range L (the_value p w) iIndex (jw_lib w)
      then jcatch
        (jbind (jlib (Value_nth L (the_value p w) iIndex) w) (\<lambda>r w.
           new_child L a p (CJsonImpl_of_ref L r False) w))
        (jfail kThrowException nullptr)
      else jfail kInvalidParam nullptr w)"

definition CJsonImpl_GetObject_at_into ::
  "('h, 'r) jsoncpp \<Rightarrow> uint64_t \<Rightarrow> uint32_t \<Rightarrow> pointer \<Rightarrow> (ErrorCode, ('h, 'r) json_world) throwing" where
  "CJsonImpl_GetObject_at_into L p iIndex pJson w =
     (case (in_range L (the_value p w) iIndex (jw_lib w), to_CJsonImpl pJson w) of
        (True, Some q) \<Rightarrow>
          jcatch
            (jbind (jlib (Value_nth L (the_value p w) iIndex) w) (\<lambda>r w.
             jbind (jlib (Value_assign L (the_value q w) (AValue r)) w) (\<lambda>_ w. (Some kSuccess, w))))
            (jfail kThrowException kThrowException)
      | _ \<Rightarrow> jfail kInvalidParam kInvalidParam w)"

definition CJsonImpl_GetArray_at_into ::
  "('h, 'r) jsoncpp \<Rightarrow> uint64_t \<Rightarrow> uint32_t \<Rightarrow> pointer \<Rightarrow> (ErrorCode, ('h, 'r) json_world) throwing" where
  "CJsonImpl_GetArray_at_into L p iIndex pJson w =
     (case (in_range L (the_value p w) iIndex (jw_lib w), to_CJsonImpl pJson w) of
        (True, Some q) \<Rightarrow>
          jcatch
            (jbind (jlib (Value_nth L (the_value p w) iIndex) w) (\<lambda>r w.
             jbind (jlib (Value_assign L (the_value q w) (AValue r)) w) (\<lambda>_ w. (Some kSuccess, w))))
            (jfail kThrowException kThrowException)
      | _ \<Rightarrow> jfail kInvalidParam kInvalidParam w)"

definition AppendValue ::
  "('h, 'r) jsoncpp \<Rightarrow> uint64_t \<Rightarrow> 'r json_arg \<Rightarrow> (ErrorCode, ('h, 'r) json_world) throwing" where
  "AppendValue L p val w =
     (if Value_isArray L (the_value p w) (jw_lib w)
      then jcatch
        (jbind (jlib (Value_append L (the_value p w) val) w) (\<lambda>_ w. (Some kSuccess, w)))
        (jfail kThrowException kThrowException)
      else jfail kInvalidParam kInvalidParam w)"

definition CJsonImpl_AppendBool ::
  "('h, 'r) jsoncpp \<Rightarrow> uint64_t \<Rightarrow> bool \<Rightarrow> (ErrorCode, ('h, 'r) json_world) throwing" where
  "CJsonImpl_AppendBool L p bValue w = AppendValue L p (ABool bValue) w"

definition CJsonImpl_AppendInt32 ::
  "('h, 'r) jsoncpp \<Rightarrow> uint64_t \<Rightarrow> uint32_t \<Rightarrow> (ErrorCode, ('h, 'r) json_world) throwing" where
  "CJsonImpl_AppendInt32 L p iValue w = AppendValue L p (AInt iValue) w"

definition CJsonImpl_AppendInt64 ::
  "('h, 'r) jsoncpp \<Rightarrow> uint64_t \<Rightarrow> uint64_t \<Rightarrow> (ErrorCode, ('h, 'r) json_world) throwing" where
  "CJsonImpl_AppendInt64 L p iValue w = AppendValue L p (AInt64 iValue) w"

definition CJsonImpl_AppendUint32 ::
  "('h, 'r) jsoncpp \<Rightarrow> uint64_t \<Rightarrow> uint32_t \<Rightarrow> (ErrorCode, ('h, 'r) json_world) throwing" where
  "CJsonImpl_AppendUint32 L p uValue w = AppendValue L p (AUInt uValue) w"

definition CJsonImpl_AppendUint64 ::
  "('h, 'r) jsoncpp \<Rightarrow> uint64_t \<Rightarrow> uint64_t \<Rightarrow> (ErrorCode, ('h, 'r) json_world) throwing" where
  "CJsonImpl_AppendUint64 L p uValue w = AppendValue L p (AUInt64 uValue) w"

definition CJsonImpl_AppendDouble ::
  "('h, 'r) jsoncpp \<Rightarrow> uint64_t \<Rightarrow> double \<Rightarrow> (ErrorCode, ('h, 'r) json_world) throwing" where
  "CJsonImpl_AppendDouble L p dValue w = AppendValue L p (ADouble dValue) w"

definition CJsonImpl_AppendString ::
  "('h, 'r) jsoncpp \<Rightarrow> uint64_t \<Rightarrow> string option \<Rightarrow> (ErrorCode, ('h, 'r) json_world) throwing" where
  "CJsonImpl_AppendString L p pValue w =
     (case pValue of
        None \<Rightarrow> jfail kInvalidParam kInvalidParam w
      | Some s \<Rightarrow> AppendValue L p (AString s) w)"

definition CJsonImpl_AppendObject_from ::
  "('h, 'r) jsoncpp \<Rightarrow> uint64_t \<Rightarrow> pointer \<Rightarrow> (ErrorCode, ('h, 'r) json_world) throwing" where
  "CJsonImpl_AppendObject_from L p pJson w =
     (case to_CJsonImpl pJson w of
        None \<Rightarrow> jfail kInvalidParam kInvalidParam w
      | Some q \<Rightarrow>
          if Value_isObject L (the_value q w) (jw_lib w) then AppendValue L p (AValue (the_value q w)) w
          else jfail kInvalidParam kInvalidParam w)"

definition CJsonImpl_AppendArray_from ::
  "('h, 'r) jsoncpp \<Rightarrow> uint64_t \<Rightarrow> pointer \<Rightarrow> (ErrorCode, ('h, 'r) json_world) throwing" where
  "CJsonImpl_AppendArray_from L p pJson w =
     (case to_CJsonImpl pJson w of
        None \<Rightarrow> jfail kInvalidParam kInvalidParam w
      | Some q \<Rightarrow>
          if Value_isArray L (the_value q w) (jw_lib w) then AppendValue L p (AValue (the_value q w)) w
          else jfail kInvalidParam kInvalidParam w)"

text \<open>\<open>m_jsonValue[m_jsonValue.size() - 1]\<close>.\<close>

definition last_element :: "('h, 'r) jsoncpp \<Rightarrow> uint64_t \<Rightarrow> ('r, ('h, 'r) json_world) throwing" where
  "last_element L p w = jlib (Value_nth L (the_value p w) (Value_size L (the_value p w) (jw_lib w) - 1)) w"

text \<open>\<open>AppendObject()\<close> stores a null pointer before the child, \<open>AppendArray()\<close> does not.\<close>

definition CJsonImpl_AppendObject ::
  "('h, 'r) jsoncpp \<Rightarrow> json_memory \<Rightarrow> uint64_t \<Rightarrow> (pointer, ('h, 'r) json_world) throwing" where
  "CJsonImpl_AppendObject L a p w =
     jbind (jlib (Value_new L objectValue) w) (\<lambda>v w.
     jbind (AppendValue L p (AValue v) w) (\<lambda>rc w.
       if rc = kSuccess
       then jcatch
         (jbind (last_element L p w) (\<lambda>r w.
            if jm_push_null a
            then new_child L a p (CJsonImpl_of_ref L r False) (push_child p nullptr w)
            else (None, w)))
         (jfail kThrowException nullptr)
       else jfail kInvalidParam nullptr w))"

definition CJsonImpl_AppendArray ::
  "('h, 'r) jsoncpp \<Rightarrow> json_memory \<Rightarrow> uint64_t \<Rightarrow> (pointer, ('h, 'r) json_world) throwing" where
  "CJsonImpl_AppendArray L a p w =
     jbind (jlib (Value_new L arrayValue) w) (\<lambda>v w.
     jbind (AppendValue L p (AValue v) w) (\<lambda>rc w.
       if rc = kSuccess
       then jcatch
         (jbind (last_element L p w) (\<lambda>r w. new_child L a p (CJsonImpl_of_ref L r False) w))
         (jfail kThrowException nullptr)
       else jfail kInvalidParam nullptr w))"

section \<open>Destruction\<close>

text \<open>
  \<open>delete\<close> of a \<open>CJsonImpl\<close>: the destructor deletes the pointers of \<open>m_vecJsonValues\<close> in order, then
  the block is released. The pending work is a list: pointers still to be deleted, and blocks whose
  object's destructor has begun. The life of an object ends when its destructor begins. Deleting a
  pointer to no object, or a block that is not allocated, is undefined: no result. The blocks are those of
  \<open>IAllocatorEx::New\<close>, of \<open>std::malloc\<close>; C++ leaves \<open>delete\<close> of them undefined, and here it frees them, as
  the usual implementations do.
\<close>

datatype delete_item = Del pointer | FreeBlock uint64_t

text \<open>The objects alive are finitely many; the recursion stops on a store that is not finite.\<close>

function (sequential) delete_items ::
  "delete_item list \<Rightarrow> ('h, 'r) json_world \<Rightarrow> ('h, 'r) json_world option" where
  "delete_items [] w = Some w"
| "delete_items (Del None # is) w = delete_items is w"
| "delete_items (Del (Some p) # is) w =
     (if infinite (dom (jw_objs w)) then None
      else case jw_objs w p of
        None \<Rightarrow> None
      | Some obj \<Rightarrow>
          delete_items (map Del (m_vecJsonValues obj) @ FreeBlock p # is)
            (w\<lparr>jw_objs := (jw_objs w)(p := None)\<rparr>))"
| "delete_items (FreeBlock p # is) w =
     (if jw_heap w p = None then None
      else delete_items is (w\<lparr>jw_heap := CAllocatorImpl_Free (Some p) (jw_heap w)\<rparr>))"
  by pat_completeness auto
termination
proof (relation "(\<lambda>(is, w). card (dom (jw_objs w))) <*mlex*> measure (\<lambda>(is, w). length is)")
  show "wf ((\<lambda>(is, w). card (dom (jw_objs w))) <*mlex*> measure (\<lambda>(is, w). length is))"
    by (rule wf_mlex) simp
next
  fix "is" :: "delete_item list" and w :: "('h, 'r) json_world"
  show "((is, w), Del None # is, w) \<in> (\<lambda>(is, w). card (dom (jw_objs w))) <*mlex*> measure (\<lambda>(is, w). length is)"
    by (rule mlex_leq) auto
next
  fix p "is" and w :: "('h, 'r) json_world" and obj
  assume "\<not> infinite (dom (jw_objs w))" "jw_objs w p = Some obj"
  then show "((map Del (m_vecJsonValues obj) @ FreeBlock p # is, w\<lparr>jw_objs := (jw_objs w)(p := None)\<rparr>),
      Del (Some p) # is, w) \<in> (\<lambda>(is, w). card (dom (jw_objs w))) <*mlex*> measure (\<lambda>(is, w). length is)"
    by (intro mlex_less) (auto intro: card_Diff1_less)
next
  fix p "is" and w :: "('h, 'r) json_world"
  show "((is, w\<lparr>jw_heap := CAllocatorImpl_Free (Some p) (jw_heap w)\<rparr>), FreeBlock p # is, w)
      \<in> (\<lambda>(is, w). card (dom (jw_objs w))) <*mlex*> measure (\<lambda>(is, w). length is)"
    by (rule mlex_leq) auto
qed

definition IJson_Destroy :: "pointer \<Rightarrow> ('h, 'r) json_world \<Rightarrow> ('h, 'r) json_world option" where
  "IJson_Destroy pJson w = (if pJson \<noteq> nullptr then delete_items [Del pJson] w else Some w)"

definition IJson_Create ::
  "('h, 'r) jsoncpp \<Rightarrow> pointer \<Rightarrow> JsonType \<Rightarrow> ('h, 'r) json_world \<Rightarrow> pointer \<times> ('h, 'r) json_world" where
  "IJson_Create L ans jsonType w = New_CJsonImpl L ans (CJsonImpl_of_type L jsonType) w"

text \<open>\<open>Delete\<close> and \<open>Clear\<close>: the calls of the library are outside any \<open>try\<close>.\<close>

definition CJsonImpl_Delete ::
  "('h, 'r) jsoncpp \<Rightarrow> uint64_t \<Rightarrow> string option \<Rightarrow> (unit, ('h, 'r) json_world) throwing" where
  "CJsonImpl_Delete L p pKey w =
     (case pKey of
        None \<Rightarrow> (Some (), w)
      | Some k \<Rightarrow> jlib (Value_removeMember L (the_value p w) k) w)"

definition clear_children :: "uint64_t \<Rightarrow> ('h, 'r) json_world \<Rightarrow> ('h, 'r) json_world" where
  "clear_children p w = w\<lparr>jw_objs := (jw_objs w)(p \<mapsto> (the_obj p w)\<lparr>m_vecJsonValues := []\<rparr>)\<rparr>"

definition CJsonImpl_Clear ::
  "('h, 'r) jsoncpp \<Rightarrow> uint64_t \<Rightarrow> ('h, 'r) json_world \<Rightarrow> (unit option \<times> ('h, 'r) json_world) option" where
  "CJsonImpl_Clear L p w =
     map_option (\<lambda>w. jlib (Value_clear L (the_value p w)) (clear_children p w))
       (delete_items (map Del (m_vecJsonValues (the_obj p w))) w)"

section \<open>Text, size and type\<close>

text \<open>\<open>isspace\<close> of the C locale.\<close>

definition isspace :: "char \<Rightarrow> bool" where
  "isspace c \<longleftrightarrow> c = CHR '' '' \<or> (9 \<le> (of_char c :: nat) \<and> (of_char c :: nat) \<le> 13)"

definition store_string :: "uint64_t \<Rightarrow> string \<Rightarrow> ('h, 'r) json_world \<Rightarrow> ('h, 'r) json_world" where
  "store_string p s w = w\<lparr>jw_objs := (jw_objs w)(p \<mapsto> (the_obj p w)\<lparr>m_strJsonString := s\<rparr>)\<rparr>"

definition CJsonImpl_ToString ::
  "('h, 'r) jsoncpp \<Rightarrow> uint64_t \<Rightarrow> bool \<Rightarrow> (string option, ('h, 'r) json_world) throwing" where
  "CJsonImpl_ToString L p bPretty w =
     jcatch
       (jbind (jread (toStyledString L (the_value p w)) w) (\<lambda>styled w.
          let s = (if bPretty then styled else filter (\<lambda>ch. \<not> isspace ch) styled)
          in (Some (Some s), store_string p s w)))
       (jfail kThrowException nullptr)"

definition CJsonImpl_GetType ::
  "('h, 'r) jsoncpp \<Rightarrow> uint64_t \<Rightarrow> string option \<Rightarrow> (JsonType, ('h, 'r) json_world) throwing" where
  "CJsonImpl_GetType L p pKey w =
     (case pKey of
        None \<Rightarrow> (Some (GetIJsonType (Value_type L (the_value p w) (jw_lib w))), w)
      | Some k \<Rightarrow>
          jbind (jread (Value_isMember L (the_value p w) k) w) (\<lambda>is w.
            if is
            then jbind (jlib (Value_at L (the_value p w) k) w) (\<lambda>r w.
              (Some (GetIJsonType (Value_type L r (jw_lib w))), w))
            else (Some (GetIJsonType nullValue), w)))"

definition CJsonImpl_GetType_at ::
  "('h, 'r) jsoncpp \<Rightarrow> uint64_t \<Rightarrow> uint32_t \<Rightarrow> (JsonType, ('h, 'r) json_world) throwing" where
  "CJsonImpl_GetType_at L p iIndex w =
     (if in_range L (the_value p w) iIndex (jw_lib w)
      then jbind (jlib (Value_nth L (the_value p w) iIndex) w) (\<lambda>r w.
        (Some (GetIJsonType (Value_type L r (jw_lib w))), w))
      else (Some (GetIJsonType nullValue), w))"

definition CJsonImpl_GetSize :: "('h, 'r) jsoncpp \<Rightarrow> uint64_t \<Rightarrow> ('h, 'r) json_world \<Rightarrow> uint32_t" where
  "CJsonImpl_GetSize L p w = Value_size L (the_value p w) (jw_lib w)"

end
