(* ===== verification/JsonTree.thy ===== *)
theory JsonTree
  imports JsonLib
begin

text \<open>
  An instance of \<open>jsoncpp\<close> that satisfies \<open>jsoncpp_laws\<close>, so that the hypotheses of the properties
  of the JSON wrapper can hold: the library state is a list of documents, and a reference is the
  number of a document with a path into it. The text functions know a few texts only.
\<close>

type_synonym tree_ref = "nat \<times> jstep list"

definition tree_value :: "json list \<Rightarrow> tree_ref \<Rightarrow> json" where
  "tree_value h r = the (walk (snd r) (h ! fst r))"

definition tree_live :: "json list \<Rightarrow> tree_ref \<Rightarrow> bool" where
  "tree_live h r \<longleftrightarrow> fst r < length h \<and> walk (snd r) (h ! fst r) \<noteq> None"

definition tree_view :: "(json list, tree_ref) json_view" where
  "tree_view =
     \<lparr>vw = tree_value,
      at_path = (\<lambda>h r q r'. fst r' = fst r \<and> snd r' = snd r @ q \<and> tree_live h r'),
      vroot = (\<lambda>h r. fst r)\<rparr>"

definition tree_set :: "tree_ref \<Rightarrow> json \<Rightarrow> json list \<Rightarrow> json list" where
  "tree_set r v h = h[fst r := put (snd r) v (h ! fst r)]"

definition tree_new :: "json \<Rightarrow> (tree_ref, json list) throwing" where
  "tree_new v h = (Some (length h, []), h @ [v])"

definition tree_child :: "tree_ref \<Rightarrow> jstep \<Rightarrow> tree_ref" where
  "tree_child r s = (fst r, snd r @ [s])"

definition tree_at :: "tree_ref \<Rightarrow> string \<Rightarrow> (tree_ref, json list) throwing" where
  "tree_at r k h =
     (case members (tree_value h r) of
        None \<Rightarrow> (None, h)
      | Some m \<Rightarrow> (Some (tree_child r (Key k)),
                   if m k = None then tree_set r (JObject (m(k \<mapsto> JNull))) h else h))"

definition tree_nth :: "tree_ref \<Rightarrow> uint32_t \<Rightarrow> (tree_ref, json list) throwing" where
  "tree_nth r i h =
     (case tree_value h r of
        JArray xs \<Rightarrow> if unat i < length xs then (Some (tree_child r (Idx (unat i))), h) else (None, h)
      | _ \<Rightarrow> (None, h))"

definition tree_append :: "tree_ref \<Rightarrow> tree_ref json_arg \<Rightarrow> (unit, json list) throwing" where
  "tree_append r a h =
     (case tree_value h r of
        JArray xs \<Rightarrow> (Some (), tree_set r (JArray (xs @ [arg_json tree_view h a])) h)
      | _ \<Rightarrow> (None, h))"

definition tree_remove :: "tree_ref \<Rightarrow> string \<Rightarrow> (unit, json list) throwing" where
  "tree_remove r k h =
     (case members (tree_value h r) of
        None \<Rightarrow> (None, h)
      | Some m \<Rightarrow> (Some (), if m k = None then h else tree_set r (JObject (m(k := None))) h))"

definition tree_clear :: "tree_ref \<Rightarrow> (unit, json list) throwing" where
  "tree_clear r h =
     (case tree_value h r of
        JNull \<Rightarrow> (Some (), h)
      | JArray _ \<Rightarrow> (Some (), tree_set r (JArray []) h)
      | JObject _ \<Rightarrow> (Some (), tree_set r (JObject Map.empty) h)
      | _ \<Rightarrow> (None, h))"

definition tree_size :: "json \<Rightarrow> uint32_t" where
  "tree_size v =
     (case v of JArray xs \<Rightarrow> of_nat (length xs) | JObject m \<Rightarrow> of_nat (card (dom m)) | _ \<Rightarrow> 0)"

definition tree_styled :: "json \<Rightarrow> string" where
  "tree_styled v =
     (case v of JString s \<Rightarrow> ''\"'' @ s @ ''\"'' | JNull \<Rightarrow> ''null'' | JArray _ \<Rightarrow> ''[]'' | _ \<Rightarrow> ''{}'')"

definition tree_parse :: "string \<Rightarrow> tree_ref \<Rightarrow> (bool, json list) throwing" where
  "tree_parse str r h =
     (if str = ''null'' then (Some True, tree_set r JNull h)
      else if str = ''[]'' then (Some True, tree_set r (JArray []) h)
      else if str = ''{}'' then (Some True, tree_set r (JObject Map.empty) h)
      else (Some False, tree_set r JNull h))"

text \<open>An integer in the range from \<open>lo\<close> to below \<open>hi\<close>; anything else throws.\<close>

definition tree_int :: "int \<Rightarrow> int \<Rightarrow> json \<Rightarrow> 'w::len word option" where
  "tree_int lo hi v = Option.bind (json_int v) (\<lambda>n. if lo \<le> n \<and> n < hi then Some (word_of_int n) else None)"

definition tree_lib :: "(json list, tree_ref) jsoncpp" where
  "tree_lib =
     \<lparr>Value_new = (\<lambda>t. tree_new (json_default t)),
      Value_copy = (\<lambda>r h. tree_new (tree_value h r) h),
      Value_assign = (\<lambda>r a h. (Some (), tree_set r (arg_json tree_view h a) h)),
      Value_move = (\<lambda>r s h. (Some (), tree_set s (tree_value h r) (tree_set r (tree_value h s) h))),
      Value_at = tree_at,
      Value_nth = tree_nth,
      Value_append = tree_append,
      Value_removeMember = tree_remove,
      Value_clear = tree_clear,
      Value_isMember = (\<lambda>r k h. map_option (\<lambda>m. k \<in> dom m) (members (tree_value h r))),
      Value_type = (\<lambda>r h. json_type (tree_value h r)),
      Value_size = (\<lambda>r h. tree_size (tree_value h r)),
      as_bool = (\<lambda>r h. case tree_value h r of JBool b \<Rightarrow> Some b | _ \<Rightarrow> None),
      as_int32 = (\<lambda>r h. tree_int (- (2 ^ 31)) (2 ^ 31) (tree_value h r)),
      as_int64 = (\<lambda>r h. tree_int (- (2 ^ 63)) (2 ^ 63) (tree_value h r)),
      as_uint32 = (\<lambda>r h. tree_int 0 (2 ^ 32) (tree_value h r)),
      as_uint64 = (\<lambda>r h. tree_int 0 (2 ^ 64) (tree_value h r)),
      as_double = (\<lambda>r h. case tree_value h r of JReal d \<Rightarrow> Some d | _ \<Rightarrow> None),
      as_cstring = (\<lambda>r h. case tree_value h r of JString s \<Rightarrow> Some (Some s) | _ \<Rightarrow> None),
      toStyledString = (\<lambda>r h. Some (tree_styled (tree_value h r))),
      Reader_parse = tree_parse,
      parseFromStream = tree_parse,
      sizeof_CJsonImpl = 120\<rparr>"

section \<open>The laws\<close>

lemma tree_view_simps [simp]:
  "vw tree_view = tree_value"
  "at_path tree_view h r q r' \<longleftrightarrow> fst r' = fst r \<and> snd r' = snd r @ q \<and> tree_live h r'"
  "vroot tree_view h r = fst r"
  by (simp_all add: tree_view_def)

lemma live_tree [simp]: "live tree_view h r \<longleftrightarrow> tree_live h r"
  by (simp add: live_def)

lemma tree_live_prefix: "tree_live h (i, q @ p) \<Longrightarrow> tree_live h (i, q)"
  by (auto simp: tree_live_def walk_append split: bind_splits)

lemma tree_value_append:
  "tree_live h (i, q @ p) \<Longrightarrow> walk p (tree_value h (i, q)) = Some (tree_value h (i, q @ p))"
  by (auto simp: tree_live_def tree_value_def walk_append split: bind_splits)

lemma tree_set_at:
  assumes "tree_live h (i, q @ p)"
  shows "tree_live (tree_set (i, q @ p) v h) (i, q)"
    "tree_value (tree_set (i, q @ p) v h) (i, q) = put p v (tree_value h (i, q))"
proof -
  from assms obtain u where u: "i < length h" "walk (q @ p) (h ! i) = Some u"
    by (auto simp: tree_live_def)
  then obtain x where x: "walk q (h ! i) = Some x" "walk p x = Some u"
    by (auto simp: walk_append split: bind_splits)
  show "tree_live (tree_set (i, q @ p) v h) (i, q)"
    using u x by (simp add: tree_live_def tree_set_def put_append [of q] walk_put)
  show "tree_value (tree_set (i, q @ p) v h) (i, q) = put p v (tree_value h (i, q))"
    using u x by (simp add: tree_value_def tree_set_def put_append [of q] walk_put)
qed

lemma tree_set_other:
  "fst s \<noteq> fst r \<Longrightarrow> tree_live (tree_set r v h) s = tree_live h s \<and>
     tree_value (tree_set r v h) s = tree_value h s"
  by (simp add: tree_live_def tree_value_def tree_set_def)

lemma tree_replaced: "replaced tree_view r v h (tree_set r v h)"
  unfolding replaced_def
proof (intro conjI allI impI)
  fix s q t p
  assume "at_path tree_view h s q t \<and> at_path tree_view h t p r"
  then show "at_path tree_view (tree_set r v h) s q t"
    using tree_set_at(1) [of h "fst t" "snd t" p v] by (cases r; cases s; cases t) auto
next
  fix s p
  assume "at_path tree_view h s p r"
  then show "vw tree_view (tree_set r v h) s = put p v (vw tree_view h s)"
    using tree_set_at(2) [of h "fst s" "snd s" p v] by (cases r; cases s) auto
qed simp

lemma tree_keeps:
  assumes "\<And>t. fst t = fst s \<Longrightarrow> tree_live h' t = tree_live h t \<and> tree_value h' t = tree_value h t"
  shows "keeps tree_view h h' s"
  using assms by (auto simp: keeps_def)

lemma tree_writes: "writes tree_view r v h (tree_set r v h)"
  unfolding writes_def by (auto simp: tree_replaced tree_set_other intro!: tree_keeps)

lemma tree_allocates: "allocates tree_view (length h, []) v h (h @ [v])"
  unfolding allocates_def
  by (auto simp: tree_live_def tree_value_def nth_append intro!: tree_keeps)

lemma tree_paths: "path_laws tree_view"
proof -
  have "live tree_view h r \<and> live tree_view h r' \<and> vroot tree_view h r' = vroot tree_view h r \<and>
      walk p (vw tree_view h r) = Some (vw tree_view h r')" if "at_path tree_view h r p r'" for h r p r'
    using that by (cases r; cases r') (auto simp: tree_value_append dest: tree_live_prefix)
  then show ?thesis
    unfolding path_laws_def by auto
qed

lemma tree_reads: "read_laws tree_lib tree_view"
  by (simp add: read_laws_def tree_lib_def tree_size_def tree_int_def)

lemma tree_write_laws: "write_laws tree_lib tree_view"
  unfolding write_laws_def
  by (auto simp: tree_lib_def tree_new_def tree_allocates tree_writes tree_append_def)

lemma tree_child_live:
  "tree_live h r \<Longrightarrow> json_step s (tree_value h r) \<noteq> None \<Longrightarrow> tree_live h (tree_child r s)"
  by (cases r) (auto simp: tree_live_def tree_child_def tree_value_def walk_append)

lemma tree_set_value: "tree_live h r \<Longrightarrow> tree_live (tree_set r v h) r \<and> tree_value (tree_set r v h) r = v"
  using tree_set_at [of h "fst r" "snd r" "[]" v] by simp

lemma members_SomeD: "members v = Some m \<Longrightarrow> m k = Some x \<Longrightarrow> v = JObject m"
  by (cases v) auto

lemma walk_put_insert:
  assumes "walk pr d = Some v" "members v = Some m" "m k = None" "walk ps d \<noteq> None" "\<forall>q. pr \<noteq> ps @ q"
  shows "walk (ps @ q) (put pr (JObject (m(k \<mapsto> JNull))) d) = walk (ps @ q) d"
  using assms
proof (induction pr arbitrary: ps d)
  case Nil
  then obtain st rest where ps: "ps = st # rest"
    by (cases ps) auto
  with Nil obtain k' x where k': "st = Key k'" "m k' = Some x"
    by (cases d; cases st) (auto split: bind_splits if_splits)
  with Nil have "d = JObject m" "k' \<noteq> k"
    by (auto dest: members_SomeD)
  with k' show ?case
    by (simp add: ps)
next
  case (Cons st pr)
  obtain st' rest where ps: "ps = st' # rest"
    using Cons.prems(5) by (cases ps) auto
  obtain u where u: "json_step st d = Some u" "walk pr u = Some v"
    using Cons.prems(1) by (auto split: bind_splits)
  show ?case
  proof (cases "st' = st")
    case True
    with Cons.IH [OF u(2) Cons.prems(2,3), of rest] Cons.prems(4,5) u(1) ps show ?thesis
      by (simp add: json_step_put)
  next
    case False
    have "json_step st' (put_step st x d) = json_step st' d" for x
      using False u(1) by (cases d; cases st; cases st') (auto split: if_splits)
    then show ?thesis
      using u(1) by (simp add: ps)
  qed
qed

lemma tree_insert_keeps:
  assumes r: "tree_live h r" "members (tree_value h r) = Some m" "m k = None"
    and s: "tree_live h s" "\<forall>q. \<not> at_path tree_view h s q r"
  shows "keeps tree_view h (tree_set r (JObject (m(k \<mapsto> JNull))) h) s"
proof (cases "fst s = fst r")
  case False
  then show ?thesis
    by (intro tree_keeps) (simp add: tree_set_other)
next
  case True
  obtain v where v: "walk (snd r) (h ! fst r) = Some v"
    using r(1) by (auto simp: tree_live_def)
  have "walk (snd s @ q) (put (snd r) (JObject (m(k \<mapsto> JNull))) (h ! fst r)) = walk (snd s @ q) (h ! fst r)" for q
    by (rule walk_put_insert [OF v, of m k]) (use r s True v in \<open>auto simp: tree_value_def tree_live_def\<close>)
  from this this [of "[]"] show ?thesis
    using True s(1) r(1) by (auto simp: keeps_def tree_set_def tree_live_def tree_value_def)
qed

lemma tree_select_laws: "select_laws tree_lib tree_view"
  unfolding select_laws_def
proof (intro conjI allI impI)
  fix h r k m
  assume a: "live tree_view h r \<and> members (vw tree_view h r) = Some m"
  show "if k \<in> dom m then selects tree_view r (Key k) (Value_at tree_lib r k h) h
        else \<exists>r' h'. Value_at tree_lib r k h = (Some r', h') \<and>
                writes tree_view r (JObject (m(k \<mapsto> JNull))) h h' \<and> at_path tree_view h' r [Key k] r' \<and>
                (\<forall>s. live tree_view h s \<and> (\<forall>q. \<not> at_path tree_view h s q r) \<longrightarrow> keeps tree_view h h' s)"
  proof (cases "k \<in> dom m")
    case True
    with a have "tree_live h (tree_child r (Key k))"
      by (auto intro!: tree_child_live dest: members_SomeD)
    with a True show ?thesis
      by (auto simp: tree_lib_def tree_at_def selects_def tree_child_def)
  next
    case False
    let ?h = "tree_set r (JObject (m(k \<mapsto> JNull))) h"
    have m: "m k = None"
      using False by auto
    have "tree_live ?h (tree_child r (Key k))"
      using a tree_set_value [of h r "JObject (m(k \<mapsto> JNull))"] by (intro tree_child_live) auto
    then have "at_path tree_view ?h r [Key k] (tree_child r (Key k))"
      by (simp add: tree_child_def)
    moreover have "Value_at tree_lib r k h = (Some (tree_child r (Key k)), ?h)"
      using a m by (simp add: tree_lib_def tree_at_def)
    moreover have "keeps tree_view h ?h s" if "live tree_view h s \<and> (\<forall>q. \<not> at_path tree_view h s q r)" for s
      by (rule tree_insert_keeps [of h r m k s]) (use a m that in \<open>auto simp only: tree_view_simps(1) live_tree\<close>)
    ultimately show ?thesis
      using False tree_writes by auto
  qed
next
  fix h r and i :: uint32_t and xs
  assume a: "live tree_view h r \<and> vw tree_view h r = JArray xs \<and> unat i < length xs"
  then have "tree_live h (tree_child r (Idx (unat i)))"
    by (intro tree_child_live) auto
  with a show "selects tree_view r (Idx (unat i)) (Value_nth tree_lib r i h) h"
    by (simp add: tree_lib_def tree_nth_def selects_def tree_child_def)
qed

lemma tree_move_replaces:
  assumes "tree_live h r" "tree_live h s" "fst r \<noteq> fst s"
  shows "replaced tree_view r (tree_value h s) h (tree_set s (tree_value h r) (tree_set r (tree_value h s) h)) \<and>
    replaced tree_view s (tree_value h r) h (tree_set s (tree_value h r) (tree_set r (tree_value h s) h))"
proof -
  let ?g = "tree_set s (tree_value h r) (tree_set r (tree_value h s) h)"
  have swap: "?g = tree_set r (tree_value h s) (tree_set s (tree_value h r) h)"
    using assms(3) by (simp add: tree_set_def list_update_swap)
  have "replaced tree_view r (tree_value h s) h ?g"
    using assms tree_replaced [of r "tree_value h s" h] by (auto simp: replaced_def tree_set_other)
  moreover have "replaced tree_view s (tree_value h r) h ?g"
    unfolding swap using assms tree_replaced [of s "tree_value h r" h]
    by (auto simp: replaced_def tree_set_other)
  ultimately show ?thesis
    by blast
qed

lemma tree_move_laws: "move_laws tree_lib tree_view"
  unfolding move_laws_def
proof (intro allI impI)
  fix h r s
  assume a: "live tree_view h r \<and> live tree_view h s \<and> vroot tree_view h r \<noteq> vroot tree_view h s"
  let ?g = "tree_set s (tree_value h r) (tree_set r (tree_value h s) h)"
  have "keeps tree_view h ?g t" if "fst t \<noteq> fst r" "fst t \<noteq> fst s" for t
    using that by (intro tree_keeps) (simp add: tree_set_other)
  then show "\<exists>h'. Value_move tree_lib r s h = (Some (), h') \<and> replaced tree_view r (vw tree_view h s) h h' \<and>
      (\<forall>t. live tree_view h t \<and> vroot tree_view h t \<noteq> vroot tree_view h r \<and>
         vroot tree_view h t \<noteq> vroot tree_view h s \<longrightarrow> keeps tree_view h h' t)"
    using tree_move_replaces [of h r s] a by (auto simp: tree_lib_def)
qed

lemma tree_parse_laws: "parse_laws tree_lib tree_view"
proof -
  have "\<exists>v. writes tree_view r v h (snd (tree_parse str r h))" for str r h
  proof -
    have "snd (tree_parse str r h) = tree_set r
        (if str = ''[]'' then JArray [] else if str = ''{}'' then JObject Map.empty else JNull) h"
      by (auto simp: tree_parse_def)
    then show ?thesis
      using tree_writes by metis
  qed
  then show ?thesis
    by (simp add: parse_laws_def tree_lib_def)
qed

lemma tree_laws: "jsoncpp_laws tree_lib tree_view"
  by (simp add: jsoncpp_laws_def tree_paths tree_reads tree_write_laws tree_select_laws
      tree_move_laws tree_parse_laws)

end
