(* ===== verification/JsonSpec.thy ===== *)
theory JsonSpec
  imports JsonImpl JsonTree
begin

text \<open>
  What the operations of the JSON wrapper do to the document they stand for, given the documented
  behaviour of jsoncpp (\<open>jsoncpp_laws\<close>): the setters are map updates, the appenders extend the array,
  what was set or appended is read back, a child returned without copying writes through to its parent,
  and which calls fail or let an exception out.
\<close>

section \<open>Writing through references\<close>

lemma at_pathD:
  assumes "jsoncpp_laws L V" "at_path V h r p r'"
  shows "live V h r" "live V h r'" "vroot V h r' = vroot V h r"
    "walk p (vw V h r) = Some (vw V h r')"
proof -
  have "live V h r \<and> live V h r' \<and> vroot V h r' = vroot V h r \<and> walk p (vw V h r) = Some (vw V h r')"
    using assms unfolding jsoncpp_laws_def path_laws_def by blast
  then show "live V h r" "live V h r'" "vroot V h r' = vroot V h r"
    "walk p (vw V h r) = Some (vw V h r')"
    by auto
qed

lemma at_path_trans:
  assumes "jsoncpp_laws L V" "at_path V h r p r'" "at_path V h r' q r''"
  shows "at_path V h r (p @ q) r''"
  using assms unfolding jsoncpp_laws_def path_laws_def by blast

lemma at_path_live: "live V h r \<Longrightarrow> at_path V h r [] r"
  by (simp add: live_def)

lemma writes_live: "writes V r v h h' \<Longrightarrow> live V h r \<Longrightarrow> live V h' r"
  unfolding live_def writes_def replaced_def by blast

lemma writes_value: "writes V r v h h' \<Longrightarrow> live V h r \<Longrightarrow> vw V h' r = v"
  by (auto simp: writes_def replaced_def dest: at_path_live)

lemma writes_root: "writes V r v h h' \<Longrightarrow> live V h r \<Longrightarrow> vroot V h' r = vroot V h r"
  by (auto simp: writes_def replaced_def dest: at_path_live)

lemma keeps_live: "keeps V h h' s \<Longrightarrow> live V h s \<Longrightarrow> live V h' s"
  by (simp add: keeps_def live_def)

lemma writes_part:
  assumes L: "jsoncpp_laws L V" and at: "at_path V h r p r'" and w: "writes V r' x h h'"
  shows "writes V r (put p x (vw V h r)) h h'"
proof -
  have "vw V h' s = put q (put p x (vw V h r)) (vw V h s) \<and> vroot V h' s = vroot V h s"
    if s: "at_path V h s q r" for s q
    using w at_path_trans [OF L s at] at_pathD(4) [OF L s]
    by (auto simp: writes_def replaced_def put_append)
  moreover have "at_path V h' s q t" if "at_path V h s q t" "at_path V h t q' r" for s q t q'
    using w at_path_trans [OF L that(2) at] that(1) by (auto simp: writes_def replaced_def)
  moreover have "keeps V h h' s" if "live V h s" "vroot V h s \<noteq> vroot V h r" for s
    using w at_pathD(3) [OF L at] that by (simp add: writes_def)
  ultimately show ?thesis
    unfolding writes_def replaced_def by blast
qed

lemma writes_again:
  assumes L: "jsoncpp_laws L V" and "live V h r" and w1: "writes V r v h h1" and w2: "writes V r y h1 h2"
  shows "writes V r y h h2"
proof -
  have "vw V h2 s = put p y (vw V h s) \<and> vroot V h2 s = vroot V h s" if s: "at_path V h s p r" for s p
  proof -
    have s1: "at_path V h1 s p r"
      using w1 s at_path_live [OF \<open>live V h r\<close>] unfolding writes_def replaced_def by blast
    then have "vw V h2 s = put p y (put p v (vw V h s))" "vroot V h2 s = vroot V h s"
      using w1 w2 s by (auto simp: writes_def replaced_def)
    then show ?thesis
      using at_pathD(4) [OF L s] by (simp add: put_twice)
  qed
  moreover have "at_path V h2 s q t" if "at_path V h s q t" "at_path V h t p r" for s q t p
  proof -
    have "at_path V h1 s q t" "at_path V h1 t p r"
      using w1 that at_path_live [OF \<open>live V h r\<close>] unfolding writes_def replaced_def by blast+
    then show ?thesis
      using w2 unfolding writes_def replaced_def by blast
  qed
  moreover have "keeps V h h2 s" if s: "live V h s" "vroot V h s \<noteq> vroot V h r" for s
  proof -
    have k: "keeps V h h1 s"
      using w1 s by (simp add: writes_def)
    then have "live V h1 s" "vroot V h1 s \<noteq> vroot V h1 r"
      using s keeps_live [OF k] writes_root [OF w1 \<open>live V h r\<close>] by (simp_all add: keeps_def)
    then show ?thesis
      using w2 k by (auto simp: writes_def keeps_def)
  qed
  ultimately show ?thesis
    unfolding writes_def replaced_def by blast
qed

section \<open>The calls of the library\<close>

lemma sint_scast_64: "sint (scast (i :: uint32_t) :: uint64_t) = sint i"
  by (simp add: sint_up_scast is_up)

lemma uint_ucast_64: "uint (ucast (i :: uint32_t) :: uint64_t) = uint i"
  by (simp add: uint_up_ucast is_up)

lemma reads:
  assumes "jsoncpp_laws L V" "live V h r"
  shows "Value_type L r h = json_type (vw V h r)"
    "Value_isMember L r k h = map_option (\<lambda>m. k \<in> dom m) (members (vw V h r))"
    "vw V h r = JArray xs \<Longrightarrow> Value_size L r h = of_nat (length xs)"
    "vw V h r = JBool b \<Longrightarrow> as_bool L r h = Some b"
    "json_int (vw V h r) = Some n \<Longrightarrow> 0 \<le> n \<Longrightarrow> n < 2 ^ 32 \<Longrightarrow> as_uint32 L r h = Some (word_of_int n)"
    "json_int (vw V h r) = Some n \<Longrightarrow> 0 \<le> n \<Longrightarrow> n < 2 ^ 64 \<Longrightarrow> as_uint64 L r h = Some (word_of_int n)"
    "vw V h r = JString s \<Longrightarrow> as_uint32 L r h = None"
    "vw V h r = JString s \<Longrightarrow> as_uint64 L r h = None"
    "vw V h r = JReal d \<Longrightarrow> as_double L r h = Some d"
    "vw V h r = JString s \<Longrightarrow> as_cstring L r h = Some (Some s)"
    "json_int (vw V h r) = Some n \<Longrightarrow> - (2 ^ 31) \<le> n \<Longrightarrow> n < 2 ^ 31 \<Longrightarrow> as_int32 L r h = Some (word_of_int n)"
    "json_int (vw V h r) = Some n \<Longrightarrow> - (2 ^ 63) \<le> n \<Longrightarrow> n < 2 ^ 63 \<Longrightarrow> as_int64 L r h = Some (word_of_int n)"
  using assms by (simp_all add: jsoncpp_laws_def read_laws_def)

lemma typed_reads:
  assumes "jsoncpp_laws L V" "live V h r"
  shows "vw V h r = JInt (scast i) \<Longrightarrow> as_int32 L r h = Some i"
    "vw V h r = JInt j \<Longrightarrow> as_int64 L r h = Some j"
    "vw V h r = JUInt (ucast i) \<Longrightarrow> as_uint32 L r h = Some i"
    "vw V h r = JUInt j \<Longrightarrow> as_uint64 L r h = Some j"
  using reads(11) [OF assms, of "sint i"] reads(12) [OF assms, of "sint j"] reads(5) [OF assms, of "uint i"]
    reads(6) [OF assms, of "uint j"] sint_greater_eq [of i] sint_lt [of i] sint_greater_eq [of j] sint_lt [of j]
    uint_lt2p [of i] uint_lt2p [of j]
  by (simp_all add: sint_scast_64 uint_ucast_64)

lemma assign_writes:
  assumes "jsoncpp_laws L V" "live V h r" "\<And>s. a = AValue s \<Longrightarrow> live V h s"
  obtains h' where "Value_assign L r a h = (Some (), h')" "writes V r (arg_json V h a) h h'"
proof -
  have "write_laws L V"
    using assms(1) by (simp add: jsoncpp_laws_def)
  from this [unfolded write_laws_def, THEN conjunct2, THEN conjunct2, rule_format, of h r a] assms(2,3) that
  show thesis
    by auto
qed

lemma append_writes:
  assumes "jsoncpp_laws L V" "live V h r" "\<And>s. a = AValue s \<Longrightarrow> live V h s" "vw V h r = JArray xs"
  obtains h' where "Value_append L r a h = (Some (), h')" "writes V r (JArray (xs @ [arg_json V h a])) h h'"
proof -
  have "write_laws L V"
    using assms(1) by (simp add: jsoncpp_laws_def)
  from this [unfolded write_laws_def, THEN conjunct2, THEN conjunct2, rule_format, of h r a] assms(2-4) that
  show thesis
    by auto
qed

lemma new_allocates:
  assumes "jsoncpp_laws L V"
  obtains r h' where "Value_new L t h = (Some r, h')" "allocates V r (json_default t) h h'"
proof -
  have "write_laws L V"
    using assms by (simp add: jsoncpp_laws_def)
  from this [unfolded write_laws_def, THEN conjunct1, rule_format, of t h] that show thesis
    by auto
qed

lemma copy_allocates:
  assumes "jsoncpp_laws L V" "live V h s"
  obtains r h' where "Value_copy L s h = (Some r, h')" "allocates V r (vw V h s) h h'"
proof -
  have "write_laws L V"
    using assms by (simp add: jsoncpp_laws_def)
  from this [unfolded write_laws_def, THEN conjunct2, THEN conjunct1, rule_format, of h s] assms(2) that
  show thesis
    by auto
qed

lemma nth_selects:
  assumes "jsoncpp_laws L V" "live V h r" "vw V h r = JArray xs" "unat i < length xs"
  obtains r' where "Value_nth L r i h = (Some r', h)" "at_path V h r [Idx (unat i)] r'" "vw V h r' = xs ! unat i"
proof -
  have "select_laws L V"
    using assms(1) by (simp add: jsoncpp_laws_def)
  from this [unfolded select_laws_def, THEN conjunct2, rule_format, of h r xs i] assms(2-4)
  obtain r' where r': "Value_nth L r i h = (Some r', h)" "at_path V h r [Idx (unat i)] r'"
    by (auto simp: selects_def)
  moreover have "vw V h r' = xs ! unat i"
    using at_pathD(4) [OF assms(1) r'(2)] assms(3,4) by simp
  ultimately show thesis
    using that by blast
qed

lemma at_selects:
  assumes "jsoncpp_laws L V" "live V h r" "members (vw V h r) = Some m" "m k = Some x"
  obtains r' where "Value_at L r k h = (Some r', h)" "at_path V h r [Key k] r'" "vw V h r' = x"
proof -
  have "select_laws L V"
    using assms(1) by (simp add: jsoncpp_laws_def)
  from this [unfolded select_laws_def, THEN conjunct1, rule_format, of h r m k] assms(2-4)
  obtain r' where r': "Value_at L r k h = (Some r', h)" "at_path V h r [Key k] r'"
    by (auto simp: selects_def domIff)
  moreover have "vw V h r' = x"
    using at_pathD(4) [OF assms(1) r'(2)] members_SomeD [OF assms(3,4)] assms(4) by simp
  ultimately show thesis
    using that by blast
qed

lemma at_inserts:
  assumes "jsoncpp_laws L V" "live V h r" "members (vw V h r) = Some m" "m k = None"
  obtains r' h' where "Value_at L r k h = (Some r', h')" "at_path V h' r [Key k] r'"
    "writes V r (JObject (m(k \<mapsto> JNull))) h h'"
    "\<And>s. live V h s \<Longrightarrow> (\<forall>q. \<not> at_path V h s q r) \<Longrightarrow> keeps V h h' s"
proof -
  have "select_laws L V"
    using assms(1) by (simp add: jsoncpp_laws_def)
  from this [unfolded select_laws_def, THEN conjunct1, rule_format, of h r m k] assms(2-4) that
  show thesis
    by (auto simp: domIff)
qed

lemma jlib_eq: "f (jw_lib w) = (x, h) \<Longrightarrow> jlib f w = (x, w\<lparr>jw_lib := h\<rparr>)"
  by (simp add: jlib_def)

lemma the_value_lib [simp]: "the_value p (w\<lparr>jw_lib := h\<rparr>) = the_value p w"
  by (simp add: the_value_def the_obj_def)

section \<open>Setting and getting members\<close>

text \<open>The object of \<open>p\<close> stands for an object of the members \<open>m\<close>; \<open>null\<close> stands for the empty object.\<close>

definition is_object ::
  "('h, 'r) jsoncpp \<Rightarrow> ('h, 'r) json_view \<Rightarrow> uint64_t \<Rightarrow> ('h, 'r) json_world \<Rightarrow> (string \<rightharpoonup> json) \<Rightarrow> bool" where
  "is_object L V p w m \<longleftrightarrow>
     jsoncpp_laws L V \<and> live V (jw_lib w) (the_value p w) \<and>
     members (vw V (jw_lib w) (the_value p w)) = Some m"

definition is_array ::
  "('h, 'r) jsoncpp \<Rightarrow> ('h, 'r) json_view \<Rightarrow> uint64_t \<Rightarrow> ('h, 'r) json_world \<Rightarrow> json list \<Rightarrow> bool" where
  "is_array L V p w xs \<longleftrightarrow>
     jsoncpp_laws L V \<and> live V (jw_lib w) (the_value p w) \<and>
     vw V (jw_lib w) (the_value p w) = JArray xs \<and> length xs < 2 ^ 32"

text \<open>The call succeeds, writes \<open>v\<close> to the value \<open>p\<close> stands for, and does nothing else.\<close>

definition stores ::
  "('h, 'r) json_view \<Rightarrow> uint64_t \<Rightarrow> json \<Rightarrow> ('h, 'r) json_world \<Rightarrow>
     ErrorCode option \<times> ('h, 'r) json_world \<Rightarrow> bool" where
  "stores V p v w res \<longleftrightarrow>
     (\<exists>h'. res = (Some kSuccess, w\<lparr>jw_lib := h'\<rparr>) \<and> writes V (the_value p w) v (jw_lib w) h')"

text \<open>A value argument of another root than the object's.\<close>

definition arg_apart :: "('h, 'r) json_view \<Rightarrow> uint64_t \<Rightarrow> ('h, 'r) json_world \<Rightarrow> 'r json_arg \<Rightarrow> bool" where
  "arg_apart V p w a \<longleftrightarrow>
     (\<forall>s. a = AValue s \<longrightarrow>
        live V (jw_lib w) s \<and> vroot V (jw_lib w) s \<noteq> vroot V (jw_lib w) (the_value p w))"

lemma arg_apart_scalar [simp]:
  "arg_apart V p w (ABool b)" "arg_apart V p w (AInt i)" "arg_apart V p w (AInt64 j)"
  "arg_apart V p w (AUInt i)" "arg_apart V p w (AUInt64 j)" "arg_apart V p w (ADouble d)"
  "arg_apart V p w (AString s)"
  by (simp_all add: arg_apart_def)

text \<open>
  What a value argument stands for when it is copied: \<open>operator[]\<close> has inserted a new member before, which
  shows in the values that the object is a part of, and in no other.
\<close>

definition value_now ::
  "('h, 'r) json_view \<Rightarrow> uint64_t \<Rightarrow> (string \<rightharpoonup> json) \<Rightarrow> string \<Rightarrow> ('h, 'r) json_world \<Rightarrow> 'r json_arg \<Rightarrow> json \<Rightarrow> bool" where
  "value_now V p m k w a x \<longleftrightarrow>
     (case a of
        AValue s \<Rightarrow> live V (jw_lib w) s \<and>
          (if m k = None \<and> (\<exists>q. at_path V (jw_lib w) s q (the_value p w))
           then \<exists>q. at_path V (jw_lib w) s q (the_value p w) \<and> x = put q (JObject (m(k \<mapsto> JNull))) (vw V (jw_lib w) s)
           else x = vw V (jw_lib w) s)
      | _ \<Rightarrow> x = arg_json V (jw_lib w) a)"

lemma value_now_apart:
  "jsoncpp_laws L V \<Longrightarrow> arg_apart V p w a \<Longrightarrow> value_now V p m k w a (arg_json V (jw_lib w) a)"
  by (cases a) (auto simp: value_now_def arg_apart_def dest: at_pathD(3))

lemma SetValue_at:
  assumes o: "is_object L V p w m" and a: "value_now V p m k w a x"
  obtains r' h' where "SetValue L p (Some k) a w = (Some kSuccess, w\<lparr>jw_lib := h'\<rparr>)"
    "writes V (the_value p w) (JObject (m(k \<mapsto> x))) (jw_lib w) h'"
    "at_path V h' (the_value p w) [Key k] r'"
proof -
  let ?h = "jw_lib w" and ?r = "the_value p w"
  from o have L: "jsoncpp_laws L V" and r: "live V ?h ?r" and m: "members (vw V ?h ?r) = Some m"
    by (simp_all add: is_object_def)
  obtain r' h1 m' where at: "Value_at L ?r k ?h = (Some r', h1)" "at_path V h1 ?r [Key k] r'"
      and w1: "h1 = ?h \<and> vw V ?h ?r = JObject m' \<or> writes V ?r (JObject m') ?h h1"
      and m': "m'(k \<mapsto> y) = m(k \<mapsto> y)" "m' k \<noteq> None"
      and a1: "(\<forall>s. a = AValue s \<longrightarrow> live V h1 s) \<and> arg_json V h1 a = x" for y
  proof (cases "m k")
    case None
    obtain r' h1 where h1: "Value_at L ?r k ?h = (Some r', h1)" "at_path V h1 ?r [Key k] r'"
      "writes V ?r (JObject (m(k \<mapsto> JNull))) ?h h1"
      and keep: "\<And>s. live V ?h s \<Longrightarrow> (\<forall>q. \<not> at_path V ?h s q ?r) \<Longrightarrow> keeps V ?h h1 s"
      using at_inserts [OF L r m None] by metis
    have part: "live V h1 s \<and> vw V h1 s = put q (JObject (m(k \<mapsto> JNull))) (vw V ?h s)"
      if "at_path V ?h s q ?r" for s q
      using h1(3) that at_path_live [OF at_pathD(1) [OF L that]] unfolding live_def writes_def replaced_def by blast
    have "(\<forall>s. a = AValue s \<longrightarrow> live V h1 s) \<and> arg_json V h1 a = x"
    proof (cases a)
      case (AValue s)
      show ?thesis
      proof (cases "\<exists>q. at_path V ?h s q ?r")
        case True
        with a None AValue obtain q where "at_path V ?h s q ?r" "x = put q (JObject (m(k \<mapsto> JNull))) (vw V ?h s)"
          by (auto simp: value_now_def)
        with part AValue show ?thesis
          by auto
      next
        case False
        with a None AValue keep [of s] keeps_live [of V ?h h1 s] show ?thesis
          by (auto simp: value_now_def keeps_def)
      qed
    qed (use a in \<open>auto simp: value_now_def\<close>)
    then show thesis
      using h1 by (intro that [of r' h1 "m(k \<mapsto> JNull)"]) auto
  next
    case (Some y)
    obtain r' where "Value_at L ?r k ?h = (Some r', ?h)" "at_path V ?h ?r [Key k] r'"
      using at_selects [OF L r m Some] .
    moreover have "(\<forall>s. a = AValue s \<longrightarrow> live V ?h s) \<and> arg_json V ?h a = x"
      using a Some by (cases a) (auto simp: value_now_def)
    ultimately show thesis
      using members_SomeD [OF m Some] Some by (intro that [of r' ?h m]) auto
  qed
  have r1: "live V h1 ?r" "vw V h1 ?r = JObject m'"
    using w1 r writes_live writes_value by metis+
  obtain h2 where as: "Value_assign L r' a h1 = (Some (), h2)" "writes V r' x h1 h2"
    using assign_writes [OF L at_pathD(2) [OF L at(2)], of a] a1 by blast
  then have w2: "writes V ?r (JObject (m(k \<mapsto> x))) h1 h2"
    using writes_part [OF L at(2) as(2)] r1(2) m' by auto
  have "writes V ?r (JObject (m(k \<mapsto> x))) ?h h2"
    using w1 w2 writes_again [OF L r _ w2] by auto
  moreover have "SetValue L p (Some k) a w = (Some kSuccess, w\<lparr>jw_lib := h2\<rparr>)"
    using at(1) as(1) by (simp add: SetValue_def jlib_def)
  moreover have "at_path V h2 ?r [Key k] r'"
    using as(2) at(2) at_path_live [OF at_pathD(2) [OF L at(2)]] unfolding writes_def replaced_def by blast
  ultimately show thesis
    using that by blast
qed

lemma SetValue_now:
  assumes "is_object L V p w m" "value_now V p m k w a x"
  shows "stores V p (JObject (m(k \<mapsto> x))) w (SetValue L p (Some k) a w)"
  by (rule SetValue_at [OF assms]) (auto simp: stores_def)

lemma SetValue_stores:
  assumes "is_object L V p w m" "arg_apart V p w a"
  shows "stores V p (JObject (m(k \<mapsto> arg_json V (jw_lib w) a))) w (SetValue L p (Some k) a w)"
  using assms by (intro SetValue_now value_now_apart) (auto simp: is_object_def)

lemma stores_object:
  assumes "is_object L V p w m" "stores V p (JObject m') w res"
  shows "\<exists>w'. res = (Some kSuccess, w') \<and> is_object L V p w' m'"
  using assms by (auto simp: stores_def is_object_def writes_value intro: writes_live)

lemma GetValue_member:
  assumes "is_object L V p w m" "m k = Some x"
    and as: "\<And>r. live V (jw_lib w) r \<Longrightarrow> vw V (jw_lib w) r = x \<Longrightarrow> as r (jw_lib w) = Some y"
  shows "GetValue_key L as p (Some k) d w = (Some y, w)"
proof -
  let ?h = "jw_lib w" and ?r = "the_value p w"
  from assms have L: "jsoncpp_laws L V" and r: "live V ?h ?r" and m: "members (vw V ?h ?r) = Some m"
    by (simp_all add: is_object_def)
  obtain r' where "Value_at L ?r k ?h = (Some r', ?h)" "at_path V ?h ?r [Key k] r'" "vw V ?h r' = x"
    using at_selects [OF L r m assms(2)] .
  then show ?thesis
    using reads(2) [OF L r, of k] m assms(2) as at_pathD(2) [OF L]
    by (auto simp: GetValue_key_def jread_def jlib_def)
qed

lemma GetValue_missing:
  assumes "is_object L V p w m" "m k = None"
  shows "GetValue_key L as p (Some k) d w = (Some d, w)"
  using assms reads(2) [of L V "jw_lib w" "the_value p w" k]
  by (auto simp: GetValue_key_def is_object_def jread_def)

lemma GetValue_throws:
  assumes "jsoncpp_laws L V" "live V (jw_lib w) (the_value p w)"
    "members (vw V (jw_lib w) (the_value p w)) = None"
  shows "GetValue_key L as p (Some k) d w = (None, w)"
  using assms reads(2) [of L V "jw_lib w" "the_value p w" k]
  by (auto simp: GetValue_key_def jread_def)

lemmas typed_setters =
  CJsonImpl_SetBool_def CJsonImpl_SetInt32_def CJsonImpl_SetInt64_def CJsonImpl_SetUint32_def
  CJsonImpl_SetUint64_def CJsonImpl_SetDouble_def CJsonImpl_SetString_def

lemmas typed_getters =
  CJsonImpl_GetBool_def CJsonImpl_GetInt32_def CJsonImpl_GetInt64_def CJsonImpl_GetUint32_def
  CJsonImpl_GetUint64_def CJsonImpl_GetDouble_def CJsonImpl_GetString_def

lemmas typed_appenders =
  CJsonImpl_AppendBool_def CJsonImpl_AppendInt32_def CJsonImpl_AppendInt64_def CJsonImpl_AppendUint32_def
  CJsonImpl_AppendUint64_def CJsonImpl_AppendDouble_def CJsonImpl_AppendString_def

lemmas typed_getters_at =
  CJsonImpl_GetBool_at_def CJsonImpl_GetInt32_at_def CJsonImpl_GetInt64_at_def CJsonImpl_GetUint32_at_def
  CJsonImpl_GetUint64_at_def CJsonImpl_GetDouble_at_def CJsonImpl_GetString_at_def

lemma Set_Get:
  assumes o: "is_object L V p w m" and a: "arg_apart V p w a" and x: "arg_json V (jw_lib w) a = x"
    and as: "\<And>h r. live V h r \<Longrightarrow> vw V h r = x \<Longrightarrow> as r h = Some y"
  shows "\<exists>w'. SetValue L p (Some k) a w = (Some kSuccess, w') \<and> GetValue_key L as p (Some k) d w' = (Some y, w')"
proof -
  have "stores V p (JObject (m(k \<mapsto> x))) w (SetValue L p (Some k) a w)"
    using SetValue_stores [OF o a, of k] x by simp
  then obtain w' where s: "SetValue L p (Some k) a w = (Some kSuccess, w')"
    and o': "is_object L V p w' (m(k \<mapsto> x))"
    using stores_object [OF o] by blast
  show ?thesis
    using GetValue_member [OF o', of k x as y d] as s by simp
qed

section \<open>Elements\<close>

lemma in_range_array:
  "is_array L V p w xs \<Longrightarrow> in_range L (the_value p w) i (jw_lib w) \<longleftrightarrow> unat i < length xs"
  by (auto simp: is_array_def in_range_def Value_isArray_def reads(1) reads(3) word_less_nat_alt
      unat_of_nat32)

lemma in_range_other:
  "jsoncpp_laws L V \<Longrightarrow> live V (jw_lib w) (the_value p w) \<Longrightarrow>
     json_type (vw V (jw_lib w) (the_value p w)) \<noteq> arrayValue \<Longrightarrow>
     \<not> in_range L (the_value p w) i (jw_lib w)"
  by (simp add: in_range_def Value_isArray_def reads(1))

lemma GetValue_element:
  assumes "is_array L V p w xs" "unat i < length xs"
    and as: "\<And>r. live V (jw_lib w) r \<Longrightarrow> vw V (jw_lib w) r = xs ! unat i \<Longrightarrow> as r (jw_lib w) = Some y"
  shows "GetValue_index L as p i d w = (Some y, w)"
proof -
  let ?h = "jw_lib w" and ?r = "the_value p w"
  from assms(1) have L: "jsoncpp_laws L V" and r: "live V ?h ?r" and v: "vw V ?h ?r = JArray xs"
    by (simp_all add: is_array_def)
  obtain r' where r': "Value_nth L ?r i ?h = (Some r', ?h)" "at_path V ?h ?r [Idx (unat i)] r'"
    "vw V ?h r' = xs ! unat i"
    using nth_selects [OF L r v assms(2)] .
  then show ?thesis
    using in_range_array [OF assms(1)] assms(2) as at_pathD(2) [OF L r'(2)]
    by (simp add: GetValue_index_def jread_def jlib_def)
qed

lemma AppendValue_stores:
  assumes o: "is_array L V p w xs" and a: "arg_apart V p w a"
  shows "stores V p (JArray (xs @ [arg_json V (jw_lib w) a])) w (AppendValue L p a w)"
proof -
  from o have L: "jsoncpp_laws L V" and r: "live V (jw_lib w) (the_value p w)"
    and v: "vw V (jw_lib w) (the_value p w) = JArray xs"
    by (simp_all add: is_array_def)
  have "\<And>s. a = AValue s \<Longrightarrow> live V (jw_lib w) s"
    using a by (simp add: arg_apart_def)
  from append_writes [OF L r this v] show ?thesis
    using reads(1) [OF L r] v
    by (fastforce simp: AppendValue_def Value_isArray_def stores_def jlib_def)
qed

lemma stores_array:
  assumes "is_array L V p w xs" "stores V p (JArray ys) w res" "length ys < 2 ^ 32"
  shows "\<exists>w'. res = (Some kSuccess, w') \<and> is_array L V p w' ys"
  using assms by (auto simp: stores_def is_array_def writes_value intro: writes_live)

lemma Append_Get:
  assumes o: "is_array L V p w xs" and a: "arg_apart V p w a" and x: "arg_json V (jw_lib w) a = x"
    and n: "length xs + 1 < 2 ^ 32"
    and as: "\<And>h r. live V h r \<Longrightarrow> vw V h r = x \<Longrightarrow> as r h = Some y"
  shows "\<exists>w'. AppendValue L p a w = (Some kSuccess, w') \<and> CJsonImpl_GetSize L p w' = of_nat (length xs + 1) \<and>
    GetValue_index L as p (of_nat (length xs)) d w' = (Some y, w')"
proof -
  have "stores V p (JArray (xs @ [x])) w (AppendValue L p a w)"
    using AppendValue_stores [OF o a] x by simp
  then obtain w' where s: "AppendValue L p a w = (Some kSuccess, w')" and o': "is_array L V p w' (xs @ [x])"
    using stores_array [OF o, of "xs @ [x]"] n by fastforce
  have i: "unat (of_nat (length xs) :: uint32_t) = length xs"
    using n by (intro unat_of_nat32) simp
  have "GetValue_index L as p (of_nat (length xs)) d w' = (Some y, w')"
    using GetValue_element [OF o', of "of_nat (length xs)" as y d] as i by simp
  moreover have "CJsonImpl_GetSize L p w' = of_nat (length xs + 1)"
    using o' reads(3) [of L V "jw_lib w'" "the_value p w'" "xs @ [x]"]
    by (simp add: CJsonImpl_GetSize_def is_array_def)
  ultimately show ?thesis
    using s by blast
qed

section \<open>The properties\<close>

text \<open>C26: on an object, each typed setter succeeds and updates the member map of the document at that
  key; the write is seen from every document the object is a part of, and no other document changes.
  \<open>SetObject(key, json)\<close> and \<open>SetArray(key, json)\<close> do the same with the value of any living object, of
  this document or another: the value it has, except that a new member of a part of that value, the
  object itself included, is already there as null when the value is copied.\<close>

theorem setters_update:
  assumes "is_object L V p w m"
  shows "stores V p (JObject (m(k \<mapsto> JBool b))) w (CJsonImpl_SetBool L p (Some k) b w) \<and>
    stores V p (JObject (m(k \<mapsto> JInt (scast i)))) w (CJsonImpl_SetInt32 L p (Some k) i w) \<and>
    stores V p (JObject (m(k \<mapsto> JInt j))) w (CJsonImpl_SetInt64 L p (Some k) j w) \<and>
    stores V p (JObject (m(k \<mapsto> JUInt (ucast i)))) w (CJsonImpl_SetUint32 L p (Some k) i w) \<and>
    stores V p (JObject (m(k \<mapsto> JUInt j))) w (CJsonImpl_SetUint64 L p (Some k) j w) \<and>
    stores V p (JObject (m(k \<mapsto> JReal d))) w (CJsonImpl_SetDouble L p (Some k) d w) \<and>
    stores V p (JObject (m(k \<mapsto> JString s))) w (CJsonImpl_SetString L p (Some k) (Some s) w) \<and>
    (\<forall>q x. jw_objs w q \<noteq> None \<longrightarrow> value_now V p m k w (AValue (the_value q w)) x \<longrightarrow>
       stores V p (JObject (m(k \<mapsto> x))) w (CJsonImpl_SetObject_from L p (Some k) (Some q) w) \<and>
       stores V p (JObject (m(k \<mapsto> x))) w (CJsonImpl_SetArray_from L p (Some k) (Some q) w))"
  using SetValue_stores [OF assms, of "ABool b" k] SetValue_stores [OF assms, of "AInt i" k]
    SetValue_stores [OF assms, of "AInt64 j" k] SetValue_stores [OF assms, of "AUInt i" k]
    SetValue_stores [OF assms, of "AUInt64 j" k] SetValue_stores [OF assms, of "ADouble d" k]
    SetValue_stores [OF assms, of "AString s" k] SetValue_now [OF assms, of k]
  by (auto simp: typed_setters CJsonImpl_SetObject_from_def CJsonImpl_SetArray_from_def to_CJsonImpl_def)

text \<open>C30: what a typed setter stored under a key of an object is what the getter of the same type
  returns for it.\<close>

theorem set_get:
  assumes o: "is_object L V p w m"
  shows "(\<exists>w'. CJsonImpl_SetBool L p (Some k) b w = (Some kSuccess, w') \<and>
      CJsonImpl_GetBool L p (Some k) db w' = (Some b, w')) \<and>
    (\<exists>w'. CJsonImpl_SetInt32 L p (Some k) i w = (Some kSuccess, w') \<and>
      CJsonImpl_GetInt32 L p (Some k) di w' = (Some i, w')) \<and>
    (\<exists>w'. CJsonImpl_SetInt64 L p (Some k) j w = (Some kSuccess, w') \<and>
      CJsonImpl_GetInt64 L p (Some k) dj w' = (Some j, w')) \<and>
    (\<exists>w'. CJsonImpl_SetUint32 L p (Some k) i w = (Some kSuccess, w') \<and>
      CJsonImpl_GetUint32 L p (Some k) di w' = (Some i, w')) \<and>
    (\<exists>w'. CJsonImpl_SetUint64 L p (Some k) j w = (Some kSuccess, w') \<and>
      CJsonImpl_GetUint64 L p (Some k) dj w' = (Some j, w')) \<and>
    (\<exists>w'. CJsonImpl_SetDouble L p (Some k) f w = (Some kSuccess, w') \<and>
      CJsonImpl_GetDouble L p (Some k) dj w' = (Some f, w')) \<and>
    (\<exists>w'. CJsonImpl_SetString L p (Some k) (Some s) w = (Some kSuccess, w') \<and>
      CJsonImpl_GetString L p (Some k) ds w' = (Some (Some s), w'))"
proof -
  have L: "jsoncpp_laws L V"
    using o by (simp add: is_object_def)
  show ?thesis
    unfolding typed_setters typed_getters option.case
    by (intro conjI Set_Get [OF o]) (auto simp: reads [OF L] typed_reads [OF L])
qed

text \<open>Fact: on an array, appending a value succeeds, the size grows by one, and the getter of the same
  type reads the value back at the last index.\<close>

theorem append_get:
  assumes o: "is_array L V p w xs" and n: "length xs + 1 < 2 ^ 32"
  shows "(\<exists>w'. CJsonImpl_AppendBool L p b w = (Some kSuccess, w') \<and>
      CJsonImpl_GetSize L p w' = of_nat (length xs + 1) \<and>
      CJsonImpl_GetBool_at L p (of_nat (length xs)) db w' = (Some b, w')) \<and>
    (\<exists>w'. CJsonImpl_AppendInt32 L p i w = (Some kSuccess, w') \<and>
      CJsonImpl_GetSize L p w' = of_nat (length xs + 1) \<and>
      CJsonImpl_GetInt32_at L p (of_nat (length xs)) di w' = (Some i, w')) \<and>
    (\<exists>w'. CJsonImpl_AppendInt64 L p j w = (Some kSuccess, w') \<and>
      CJsonImpl_GetSize L p w' = of_nat (length xs + 1) \<and>
      CJsonImpl_GetInt64_at L p (of_nat (length xs)) dj w' = (Some j, w')) \<and>
    (\<exists>w'. CJsonImpl_AppendUint32 L p i w = (Some kSuccess, w') \<and>
      CJsonImpl_GetSize L p w' = of_nat (length xs + 1) \<and>
      CJsonImpl_GetUint32_at L p (of_nat (length xs)) di w' = (Some i, w')) \<and>
    (\<exists>w'. CJsonImpl_AppendUint64 L p j w = (Some kSuccess, w') \<and>
      CJsonImpl_GetSize L p w' = of_nat (length xs + 1) \<and>
      CJsonImpl_GetUint64_at L p (of_nat (length xs)) dj w' = (Some j, w')) \<and>
    (\<exists>w'. CJsonImpl_AppendDouble L p f w = (Some kSuccess, w') \<and>
      CJsonImpl_GetSize L p w' = of_nat (length xs + 1) \<and>
      CJsonImpl_GetDouble_at L p (of_nat (length xs)) dj w' = (Some f, w')) \<and>
    (\<exists>w'. CJsonImpl_AppendString L p (Some s) w = (Some kSuccess, w') \<and>
      CJsonImpl_GetSize L p w' = of_nat (length xs + 1) \<and>
      CJsonImpl_GetString_at L p (of_nat (length xs)) ds w' = (Some (Some s), w'))"
proof -
  have L: "jsoncpp_laws L V"
    using o by (simp add: is_array_def)
  show ?thesis
    unfolding typed_appenders typed_getters_at option.case
    by (intro conjI Append_Get [OF o _ _ n]) (auto simp: reads [OF L] typed_reads [OF L])
qed

section \<open>Children without a copy\<close>

lemma allocates_keeps:
  assumes "allocates V v x h h'" "live V h r"
  shows "live V h' r" "vw V h' r = vw V h r" "vroot V h' r = vroot V h r" "vroot V h' v \<noteq> vroot V h' r"
    "\<And>p t. at_path V h r p t \<Longrightarrow> at_path V h' r p t"
  using assms by (auto simp: allocates_def keeps_def live_def)

lemma is_object_keeps:
  "is_object L V p w m \<Longrightarrow> allocates V v x (jw_lib w) h' \<Longrightarrow> is_object L V p (w\<lparr>jw_lib := h'\<rparr>) m"
  by (auto simp: is_object_def allocates_keeps)

lemma new_child_made:
  assumes "jm_malloc a = Some c" "jm_push a" "ctor (jw_lib w) = (Some obj, h')" "c \<noteq> p"
  obtains w' where "new_child L a p ctor w = (Some (Some c), w')" "jw_lib w' = h'"
    "the_value p w' = the_value p w" "the_value c w' = m_jsonValue obj"
  using assms
  by (auto simp: new_child_def New_CJsonImpl_def IAllocatorEx_New_def CAllocatorImpl_Malloc_def
      push_child_def the_value_def the_obj_def)

lemma of_ref_made:
  assumes "jsoncpp_laws L V"
  obtains obj h' v where "CJsonImpl_of_ref L r False h = (Some obj, h')" "m_jsonValue obj = r"
    "allocates V v (JObject Map.empty) h h'"
proof -
  obtain v h' where "Value_new L objectValue h = (Some v, h')" "allocates V v (JObject Map.empty) h h'"
    using new_allocates [OF assms, of objectValue h] by auto
  then show thesis
    using that by (auto simp: CJsonImpl_of_ref_def)
qed

lemma stores_child:
  assumes o: "is_object L V p w m" and at: "at_path V (jw_lib w) (the_value p w) [Key k] (the_value c w)"
    and s: "stores V c x w res"
  shows "\<exists>w'. res = (Some kSuccess, w') \<and> is_object L V p w' (m(k \<mapsto> x))"
proof -
  let ?h = "jw_lib w" and ?r = "the_value p w"
  from o have L: "jsoncpp_laws L V" and r: "live V ?h ?r" and m: "members (vw V ?h ?r) = Some m"
    by (simp_all add: is_object_def)
  obtain h' where h': "res = (Some kSuccess, w\<lparr>jw_lib := h'\<rparr>)" "writes V (the_value c w) x ?h h'"
    using s by (auto simp: stores_def)
  have "json_step (Key k) (vw V ?h ?r) \<noteq> None"
    using at_pathD(4) [OF L at] by (auto split: bind_splits)
  then have "vw V ?h ?r = JObject m"
    using m by (cases "vw V ?h ?r") auto
  moreover have "m k \<noteq> None"
    using at_pathD(4) [OF L at] calculation by (auto split: bind_splits)
  ultimately have "stores V p (JObject (m(k \<mapsto> x))) w res"
    using writes_part [OF L at h'(2)] h'(1) by (auto simp: stores_def)
  then show ?thesis
    using stores_object [OF o] by blast
qed

text \<open>C29: \<open>SetObject(key)\<close> stores an empty object under the key and returns a child that stands for
  that member: whatever is then stored in the child is seen as the member of the parent, without a copy.\<close>

theorem child_writes_through:
  assumes o: "is_object L V p w m" and a: "jm_malloc a = Some c" "jm_push a" "c \<noteq> p"
  shows "\<exists>w'. CJsonImpl_SetObject L a p (Some k) w = (Some (Some c), w') \<and>
    is_object L V p w' (m(k \<mapsto> JObject Map.empty)) \<and> is_object L V c w' Map.empty \<and>
    (\<forall>x res. stores V c x w' res \<longrightarrow> (\<exists>w''. res = (Some kSuccess, w'') \<and> is_object L V p w'' (m(k \<mapsto> x))))"
proof -
  let ?h = "jw_lib w" and ?r = "the_value p w"
  from o have L: "jsoncpp_laws L V" and r: "live V ?h ?r"
    by (simp_all add: is_object_def)
  obtain v h1 where v: "Value_new L objectValue ?h = (Some v, h1)" "allocates V v (JObject Map.empty) ?h h1"
    using new_allocates [OF L, of objectValue ?h] by auto
  let ?w1 = "w\<lparr>jw_lib := h1\<rparr>"
  have o1: "is_object L V p ?w1 m"
    using is_object_keeps [OF o v(2)] .
  have apart: "arg_apart V p ?w1 (AValue v)"
    using v(2) allocates_keeps(4) [OF v(2) r] by (simp add: arg_apart_def allocates_def)
  obtain h2 where s: "SetValue L p (Some k) (AValue v) ?w1 = (Some kSuccess, ?w1\<lparr>jw_lib := h2\<rparr>)"
      "writes V ?r (JObject (m(k \<mapsto> JObject Map.empty))) h1 h2"
    using SetValue_at [OF o1 value_now_apart [OF L apart], of k thesis] v(2) by (auto simp: allocates_def)
  let ?w2 = "?w1\<lparr>jw_lib := h2\<rparr>"
  have o2: "is_object L V p ?w2 (m(k \<mapsto> JObject Map.empty))"
    using stores_object [OF o1, of "m(k \<mapsto> JObject Map.empty)"] s by (auto simp: stores_def)
  then have r2: "live V h2 ?r" "members (vw V h2 ?r) = Some (m(k \<mapsto> JObject Map.empty))"
    by (simp_all add: is_object_def)
  obtain r' where r': "Value_at L ?r k h2 = (Some r', h2)" "at_path V h2 ?r [Key k] r'"
      "vw V h2 r' = JObject Map.empty"
    using at_selects [OF L r2, of k "JObject Map.empty"] by auto
  obtain obj h3 u where obj: "CJsonImpl_of_ref L r' False h2 = (Some obj, h3)" "m_jsonValue obj = r'"
      "allocates V u (JObject Map.empty) h2 h3"
    using of_ref_made [OF L] .
  obtain w' where w': "new_child L a p (CJsonImpl_of_ref L r' False) ?w2 = (Some (Some c), w')"
      "jw_lib w' = h3" "the_value p w' = ?r" "the_value c w' = r'"
    using new_child_made [OF a(1,2) _ a(3), of "CJsonImpl_of_ref L r' False" ?w2] obj by auto
  have "CJsonImpl_SetObject L a p (Some k) w = (Some (Some c), w')"
    using v(1) s(1) r'(1) w'(1) by (simp add: CJsonImpl_SetObject_def jlib_def)
  moreover have "is_object L V p w' (m(k \<mapsto> JObject Map.empty))"
    using is_object_keeps [OF o2] obj(3) w' by (simp add: is_object_def)
  moreover have "is_object L V c w' Map.empty"
    using allocates_keeps [OF obj(3) at_pathD(2) [OF L r'(2)]] r'(3) w' L by (simp add: is_object_def)
  moreover have "at_path V (jw_lib w') (the_value p w') [Key k] (the_value c w')"
    using allocates_keeps(5) [OF obj(3) r2(1) r'(2)] w' by simp
  ultimately show ?thesis
    using stores_child by fastforce
qed

section \<open>Parsing\<close>

lemma parse_into_outcome:
  assumes L: "jsoncpp_laws L V" and r: "live V (jw_lib w) (the_value p w)"
    and f: "parser = Reader_parse L \<or> parser = parseFromStream L"
    and res: "jcatch (parse_into L parser str p w) (jfail kThrowException kThrowException) = (rc, w')"
  shows "\<exists>v h1 ok h2. Value_new L nullValue (jw_lib w) = (Some v, h1) \<and> parser str v h1 = (ok, h2) \<and>
    rc = Some (case ok of None \<Rightarrow> kThrowException | Some False \<Rightarrow> kInvalidParam | Some True \<Rightarrow> kSuccess) \<and>
    live V (jw_lib w') (the_value p w') \<and> vw V (jw_lib w') (the_value p w') =
      (if ok = Some True then vw V h2 v else vw V (jw_lib w) (the_value p w))"
proof -
  let ?h = "jw_lib w" and ?r = "the_value p w"
  obtain v h1 where v: "Value_new L nullValue ?h = (Some v, h1)" "allocates V v JNull ?h h1"
    using new_allocates [OF L, of nullValue ?h] by auto
  obtain ok h2 where ok: "parser str v h1 = (ok, h2)"
    by (cases "parser str v h1")
  have v1: "live V h1 v"
    using v(2) by (simp add: allocates_def)
  have "parse_laws L V"
    using L by (simp add: jsoncpp_laws_def)
  from this [unfolded parse_laws_def, rule_format, of h1 v parser str] f v1 ok
  obtain x where x: "writes V v x h1 h2"
    by auto
  have r1: "live V h1 ?r" "vw V h1 ?r = vw V ?h ?r" "vroot V h1 v \<noteq> vroot V h1 ?r"
    using allocates_keeps [OF v(2) r] by auto
  then have k: "keeps V h1 h2 ?r"
    using x by (simp add: writes_def)
  then have r2: "live V h2 ?r" "vw V h2 ?r = vw V ?h ?r" "live V h2 v" "vroot V h2 ?r \<noteq> vroot V h2 v"
    using keeps_live [OF k r1(1)] r1 writes_live [OF x v1] writes_root [OF x v1] by (auto simp: keeps_def)
  have "move_laws L V"
    using L by (simp add: jsoncpp_laws_def)
  from this [unfolded move_laws_def, rule_format, of h2 ?r v] r2
  obtain h3 where h3: "Value_move L ?r v h2 = (Some (), h3)" "replaced V ?r (vw V h2 v) h2 h3"
    by auto
  then have r3: "live V h3 ?r" "vw V h3 ?r = vw V h2 v"
    using at_path_live [OF r2(1)] by (auto simp: replaced_def live_def)
  show ?thesis
  proof (cases "ok = Some True")
    case True
    then have "rc = Some kSuccess" "w' = w\<lparr>jw_lib := h3\<rparr>"
      using res v(1) ok h3(1) by (auto simp: parse_into_def jlib_def)
    then show ?thesis
      using True v(1) ok r3 by (auto intro!: exI [of _ v])
  next
    case False
    then have "rc = Some (case ok of None \<Rightarrow> kThrowException | Some False \<Rightarrow> kInvalidParam | Some True \<Rightarrow> kSuccess)"
      "jw_lib w' = h2" "the_value p w' = ?r"
      using False res v(1) ok
      by (cases ok; auto simp: parse_into_def jlib_def jfail_def jerror_def the_value_def the_obj_def)+
    then show ?thesis
      using False v(1) ok r2 by auto
  qed
qed

text \<open>C31: \<open>Parse\<close> and \<open>ParseFile\<close> let no exception out, and when they do not return 0 the document is
  as it was: a null argument, a file that cannot be opened, a text that does not parse and a parser that
  throws all leave the object unchanged.\<close>

theorem parse_failure_keeps:
  assumes L: "jsoncpp_laws L V" and r: "live V (jw_lib w) (the_value p w)"
    and res: "CJsonImpl_Parse L p pJsonStr w = (rc, w') \<or> CJsonImpl_ParseFile L opened p pJsonFile w = (rc, w')"
  shows "rc \<noteq> None \<and> (rc \<noteq> Some kSuccess \<longrightarrow>
    live V (jw_lib w') (the_value p w') \<and>
    vw V (jw_lib w') (the_value p w') = vw V (jw_lib w) (the_value p w))"
proof -
  consider "(rc, w') = jfail kInvalidParam kInvalidParam w"
    | parser str where "parser = Reader_parse L \<or> parser = parseFromStream L"
      "jcatch (parse_into L parser str p w) (jfail kThrowException kThrowException) = (rc, w')"
    using res by (auto simp: CJsonImpl_Parse_def CJsonImpl_ParseFile_def split: option.splits)
  then show ?thesis
  proof cases
    case 1
    then show ?thesis
      using r by (simp add: jfail_def jerror_def the_value_def the_obj_def)
  next
    case 2
    obtain ok where "rc = Some (case ok of None \<Rightarrow> kThrowException | Some False \<Rightarrow> kInvalidParam | Some True \<Rightarrow> kSuccess)"
      "live V (jw_lib w') (the_value p w')"
      "ok \<noteq> Some True \<longrightarrow> vw V (jw_lib w') (the_value p w') = vw V (jw_lib w) (the_value p w)"
      using parse_into_outcome [OF L r 2] by auto
    then show ?thesis
      by (cases "ok = Some True") auto
  qed
qed

section \<open>Getters that find nothing, and exceptions\<close>

lemma GetValue_object:
  assumes o: "is_object L V p w m"
  shows "\<exists>y. GetValue_key L as p pKey d w = (Some y, w) \<and> (pKey = None \<or> m (the pKey) = None \<longrightarrow> y = d)"
proof (cases "pKey = None \<or> m (the pKey) = None")
  case True
  then show ?thesis
    using GetValue_missing [OF o, of "the pKey" as d] by (cases pKey) (auto simp: GetValue_key_def)
next
  case False
  then obtain k x where k: "pKey = Some k" "m k = Some x"
    by auto
  let ?h = "jw_lib w" and ?r = "the_value p w"
  from o have L: "jsoncpp_laws L V" and r: "live V ?h ?r" and m: "members (vw V ?h ?r) = Some m"
    by (simp_all add: is_object_def)
  obtain r' where "Value_at L ?r k ?h = (Some r', ?h)" "at_path V ?h ?r [Key k] r'"
    using at_selects [OF L r m k(2)] .
  then have "GetValue_key L as p pKey d w = (Some (case as r' ?h of None \<Rightarrow> d | Some y \<Rightarrow> y), w)"
    using reads(2) [OF L r, of k] m k
    by (cases "as r' ?h") (auto simp: GetValue_key_def jread_def jlib_def)
  then show ?thesis
    using k by auto
qed

text \<open>C32: a typed getter called with a key on an object never lets an exception out, changes nothing,
  and returns the default when the key is null or is not a member; a member of another type gives some
  value of the getter's type.\<close>

theorem getters_total:
  assumes o: "is_object L V p w m"
  shows "(\<exists>y. CJsonImpl_GetBool L p pKey db w = (Some y, w) \<and> (pKey = None \<or> m (the pKey) = None \<longrightarrow> y = db)) \<and>
    (\<exists>y. CJsonImpl_GetInt32 L p pKey di w = (Some y, w) \<and> (pKey = None \<or> m (the pKey) = None \<longrightarrow> y = di)) \<and>
    (\<exists>y. CJsonImpl_GetInt64 L p pKey dj w = (Some y, w) \<and> (pKey = None \<or> m (the pKey) = None \<longrightarrow> y = dj)) \<and>
    (\<exists>y. CJsonImpl_GetUint32 L p pKey di w = (Some y, w) \<and> (pKey = None \<or> m (the pKey) = None \<longrightarrow> y = di)) \<and>
    (\<exists>y. CJsonImpl_GetUint64 L p pKey dj w = (Some y, w) \<and> (pKey = None \<or> m (the pKey) = None \<longrightarrow> y = dj)) \<and>
    (\<exists>y. CJsonImpl_GetDouble L p pKey dj w = (Some y, w) \<and> (pKey = None \<or> m (the pKey) = None \<longrightarrow> y = dj)) \<and>
    (\<exists>y. CJsonImpl_GetString L p pKey ds w = (Some y, w) \<and> (pKey = None \<or> m (the pKey) = None \<longrightarrow> y = ds))"
  unfolding typed_getters by (intro conjI GetValue_object [OF o])

text \<open>Fact: on an array, or any other value that is neither an object nor null, a getter with a key does
  not return its default: the exception of \<open>isMember\<close> leaves the call. So do \<open>GetObject\<close>, \<open>GetArray\<close> and
  \<open>GetType\<close> with a key.\<close>

theorem getters_throw_on_array:
  assumes L: "jsoncpp_laws L V" "live V (jw_lib w) (the_value p w)"
    and m: "members (vw V (jw_lib w) (the_value p w)) = None"
  shows "CJsonImpl_GetInt32 L p (Some k) di w = (None, w) \<and> CJsonImpl_GetString L p (Some k) ds w = (None, w) \<and>
    CJsonImpl_GetObject L a p (Some k) w = (None, w) \<and> CJsonImpl_GetArray L a p (Some k) w = (None, w) \<and>
    CJsonImpl_GetObject_into L p (Some k) (Some q) w = (None, w) \<and> CJsonImpl_GetType L p (Some k) w = (None, w)"
  using reads(2) [OF L, of k] m
  by (simp add: GetValue_throws [OF L m] typed_getters CJsonImpl_GetObject_def CJsonImpl_GetArray_def CJsonImpl_GetObject_into_def
      CJsonImpl_GetType_def member_is_def jread_def)

text \<open>Fact: an index getter on a value that is not an array, or with an index past the end, returns its
  default, and the functions that return an element as an object return null and set \<open>kInvalidParam\<close>.\<close>

theorem index_out_of_range:
  assumes "\<not> in_range L (the_value p w) i (jw_lib w)"
  shows "CJsonImpl_GetBool_at L p i db w = (Some db, w) \<and> CJsonImpl_GetInt32_at L p i di w = (Some di, w) \<and>
    CJsonImpl_GetInt64_at L p i dj w = (Some dj, w) \<and> CJsonImpl_GetUint32_at L p i di w = (Some di, w) \<and>
    CJsonImpl_GetUint64_at L p i dj w = (Some dj, w) \<and> CJsonImpl_GetDouble_at L p i dj w = (Some dj, w) \<and>
    CJsonImpl_GetString_at L p i ds w = (Some ds, w) \<and>
    CJsonImpl_GetObject_at L a p i w = (Some nullptr, jerror kInvalidParam w) \<and>
    CJsonImpl_GetArray_at L a p i w = (Some nullptr, jerror kInvalidParam w) \<and>
    CJsonImpl_GetType_at L p i w = (Some kInvalid_json, w)"
  using assms by (simp add: typed_getters_at GetValue_index_def CJsonImpl_GetObject_at_def
      CJsonImpl_GetArray_at_def CJsonImpl_GetType_at_def jfail_def)

text \<open>Fact: the type of a new object. The two 32-bit types are stored, and reported, as the 64-bit ones;
  every other type is reported as it was asked for.\<close>

theorem created_type:
  assumes "jsoncpp_laws L V" "IJson_Create L (Some c) t w = (r, w')"
  shows "r = Some c \<and> live V (jw_lib w') (the_value c w') \<and>
    CJsonImpl_GetType L c None w' =
      (Some (if t = kInt32 then kInt64 else if t = kUint32 then kUint64 else t), w')"
proof -
  obtain v h where v: "Value_new L (GetJsonValueType t) (jw_lib w) = (Some v, h)"
      "allocates V v (json_default (GetJsonValueType t)) (jw_lib w) h"
    using new_allocates [OF assms(1), of "GetJsonValueType t" "jw_lib w"] .
  have r: "r = Some c" "jw_lib w' = h" "the_value c w' = v"
    using assms(2) v(1)
    by (auto simp: IJson_Create_def New_CJsonImpl_def CJsonImpl_of_type_def IAllocatorEx_New_def
        CAllocatorImpl_Malloc_def the_value_def the_obj_def)
  have l: "live V h v" "vw V h v = json_default (GetJsonValueType t)"
    using v(2) by (auto simp: allocates_def)
  have "GetIJsonType (Value_type L v h) = (if t = kInt32 then kInt64 else if t = kUint32 then kUint64 else t)"
    using reads(1) [OF assms(1) l(1)] l(2) by (cases t) simp_all
  then show ?thesis
    using r l by (simp add: CJsonImpl_GetType_def)
qed

text \<open>Fact: \<open>GetArray(key, json)\<close> is documented to copy the array out, but moves it. With a library whose
  move assignment exchanges the two values, as jsoncpp's does, the member of the source is afterwards what
  the target held before.\<close>

theorem GetArray_into_moves:
  assumes o: "is_object L V p w m" and k: "m k = Some (JArray xs)"
    and q: "jw_objs w q \<noteq> None" "live V (jw_lib w) (the_value q w)"
      "vroot V (jw_lib w) (the_value q w) \<noteq> vroot V (jw_lib w) (the_value p w)"
    and swap: "\<And>h r s. live V h r \<Longrightarrow> live V h s \<Longrightarrow> vroot V h r \<noteq> vroot V h s \<Longrightarrow>
      \<exists>h'. Value_move L r s h = (Some (), h') \<and> replaced V r (vw V h s) h h' \<and> replaced V s (vw V h r) h h'"
  shows "\<exists>w'. CJsonImpl_GetArray_into L p (Some k) (Some q) w = (Some kSuccess, w') \<and>
    vw V (jw_lib w') (the_value q w') = JArray xs \<and>
    vw V (jw_lib w') (the_value p w') = JObject (m(k \<mapsto> vw V (jw_lib w) (the_value q w)))"
proof -
  let ?h = "jw_lib w" and ?r = "the_value p w" and ?s = "the_value q w"
  from o have L: "jsoncpp_laws L V" and r: "live V ?h ?r" and m: "members (vw V ?h ?r) = Some m"
    by (simp_all add: is_object_def)
  obtain r' where r': "Value_at L ?r k ?h = (Some r', ?h)" "at_path V ?h ?r [Key k] r'" "vw V ?h r' = JArray xs"
    using at_selects [OF L r m k] .
  obtain h' where h': "Value_move L ?s r' ?h = (Some (), h')" "replaced V ?s (vw V ?h r') ?h h'"
      "replaced V r' (vw V ?h ?s) ?h h'"
    using swap [OF q(2) at_pathD(2) [OF L r'(2)]] q(3) at_pathD(3) [OF L r'(2)] by auto
  have "vw V h' ?s = JArray xs"
    using h'(2) at_path_live [OF q(2)] r'(3) by (auto simp: replaced_def)
  moreover have "vw V h' ?r = JObject (m(k \<mapsto> vw V ?h ?s))"
    using h'(3) r'(2) members_SomeD [OF m k] k by (auto simp: replaced_def)
  moreover have "CJsonImpl_GetArray_into L p (Some k) (Some q) w = (Some kSuccess, w\<lparr>jw_lib := h'\<rparr>)"
    using r' h'(1) q(1) reads(1) [OF L at_pathD(2) [OF L r'(2)]] reads(2) [OF L r, of k] m k
    by (auto simp: CJsonImpl_GetArray_into_def member_is_def jread_def jlib_def Value_isArray_def to_CJsonImpl_def)
  ultimately show ?thesis
    by auto
qed

text \<open>Fact: the compact text of \<open>ToString(false)\<close> is the styled text with every white space character
  taken out, those inside string values too: no character of it is white space, whatever the document.\<close>

theorem compact_text_strips_strings:
  assumes "toStyledString L (the_value p w) (jw_lib w) = Some s"
  shows "\<exists>t w'. CJsonImpl_ToString L p False w = (Some (Some t), w') \<and>
    t = filter (\<lambda>c. \<not> isspace c) s \<and> (\<forall>c \<in> set t. \<not> isspace c) \<and> m_strJsonString (the_obj p w') = t"
  using assms by (simp add: CJsonImpl_ToString_def jread_def store_string_def the_obj_def Let_def)

section \<open>Witnesses\<close>

text \<open>Two objects on the library state \<open>docs\<close>: the one at 16 stands for the first document, the one at
  32 for the second.\<close>

definition example_object :: "nat \<Rightarrow> tree_ref CJsonImpl" where
  "example_object i =
     \<lparr>m_jsonValueData = (i, []), m_jsonValue = (i, []), m_vecJsonValues = [], m_strJsonString = []\<rparr>"

definition example_json :: "json list \<Rightarrow> (json list, tree_ref) json_world" where
  "example_json docs =
     \<lparr>jw_lib = docs, jw_objs = [16 \<mapsto> example_object 0, 32 \<mapsto> example_object 1],
      jw_heap = [16 \<mapsto> 120, 32 \<mapsto> 120], jw_err = kSuccess\<rparr>"

lemma example_json_values [simp]:
  "jw_lib (example_json docs) = docs" "jw_objs (example_json docs) 32 = Some (example_object 1)"
  "the_value 16 (example_json docs) = (0, [])" "the_value 32 (example_json docs) = (1, [])"
  by (simp_all add: example_json_def the_value_def the_obj_def example_object_def)

lemma tree_document [simp]:
  "i < length docs \<Longrightarrow> tree_live docs (i, [])" "tree_value docs (i, []) = docs ! i"
  by (simp_all add: tree_live_def tree_value_def)

lemma example_is_object: "is_object tree_lib tree_view 16 (example_json [JObject m, v]) m"
  by (simp add: is_object_def tree_laws)

lemma example_is_array: "is_array tree_lib tree_view 16 (example_json [JArray [JNull], v]) [JNull]"
  by (simp add: is_array_def tree_laws)

text \<open>One new object, given the block at 48.\<close>

definition example_memory :: json_memory where
  "example_memory = \<lparr>jm_malloc = Some 48, jm_push = True, jm_push_null = True\<rparr>"

theorem setters_update_witness:
  "stores tree_view 16 (JObject [''k'' \<mapsto> JInt (scast (7 :: uint32_t))]) (example_json [JObject Map.empty, JNull])
     (CJsonImpl_SetInt32 tree_lib 16 (Some ''k'') 7 (example_json [JObject Map.empty, JNull])) \<and>
   stores tree_view 16 (JObject [''k'' \<mapsto> JNull]) (example_json [JObject Map.empty, JNull])
     (CJsonImpl_SetObject_from tree_lib 16 (Some ''k'') (Some 32) (example_json [JObject Map.empty, JNull])) \<and>
   stores tree_view 16 (JObject [''k'' \<mapsto> JObject [''k'' \<mapsto> JNull]]) (example_json [JObject Map.empty, JNull])
     (CJsonImpl_SetObject_from tree_lib 16 (Some ''k'') (Some 16) (example_json [JObject Map.empty, JNull]))"
proof -
  let ?w = "example_json [JObject Map.empty, JNull]"
  have "value_now tree_view 16 Map.empty ''k'' ?w (AValue (the_value 32 ?w)) JNull"
    "value_now tree_view 16 Map.empty ''k'' ?w (AValue (the_value 16 ?w)) (JObject [''k'' \<mapsto> JNull])"
    by (auto simp: value_now_def)
  moreover have "jw_objs ?w 16 \<noteq> None"
    by (simp add: example_json_def)
  ultimately show ?thesis
    using setters_update [OF example_is_object [of Map.empty JNull], where k = "''k''" and i = 7] by simp
qed

theorem set_get_witness:
  "\<exists>w'. CJsonImpl_SetInt32 tree_lib 16 (Some ''k'') 7 (example_json [JObject Map.empty, JNull]) = (Some kSuccess, w') \<and>
     CJsonImpl_GetInt32 tree_lib 16 (Some ''k'') 0 w' = (Some 7, w')"
  using set_get [OF example_is_object] by blast

theorem append_get_witness:
  "\<exists>w'. CJsonImpl_AppendString tree_lib 16 (Some ''s'') (example_json [JArray [JNull], JNull]) = (Some kSuccess, w') \<and>
     CJsonImpl_GetSize tree_lib 16 w' = of_nat (length [JNull] + 1) \<and>
     CJsonImpl_GetString_at tree_lib 16 (of_nat (length [JNull])) None w' = (Some (Some ''s''), w')"
  using append_get [OF example_is_array] by auto

theorem child_writes_through_witness:
  "\<exists>w'. CJsonImpl_SetObject tree_lib example_memory 16 (Some ''k'') (example_json [JObject Map.empty, JNull]) =
       (Some (Some 48), w') \<and>
     is_object tree_lib tree_view 16 w' [''k'' \<mapsto> JObject Map.empty] \<and> is_object tree_lib tree_view 48 w' Map.empty \<and>
     (\<forall>x res. stores tree_view 48 x w' res \<longrightarrow>
        (\<exists>w''. res = (Some kSuccess, w'') \<and> is_object tree_lib tree_view 16 w'' [''k'' \<mapsto> x]))"
  by (rule child_writes_through [OF example_is_object]) (simp_all add: example_memory_def)

theorem parse_failure_keeps_witness:
  "\<exists>rc w'. CJsonImpl_Parse tree_lib 16 (Some ''nonsense'') (example_json [JObject Map.empty, JNull]) = (rc, w') \<and>
     rc = Some kInvalidParam \<and> vw tree_view (jw_lib w') (the_value 16 w') = JObject Map.empty"
proof -
  let ?w = "example_json [JObject Map.empty, JNull]"
  obtain rc w' where r: "CJsonImpl_Parse tree_lib 16 (Some ''nonsense'') ?w = (rc, w')"
    by (cases "CJsonImpl_Parse tree_lib 16 (Some ''nonsense'') ?w")
  have rc: "rc = Some kInvalidParam"
    using r by (simp add: CJsonImpl_Parse_def parse_into_def jlib_def tree_lib_def tree_new_def
        tree_parse_def jfail_def)
  have "live tree_view (jw_lib ?w) (the_value 16 ?w)"
    by simp
  then show ?thesis
    using parse_failure_keeps [OF tree_laws, of ?w 16 "Some ''nonsense''" rc w'] r rc by auto
qed

theorem getters_total_witness:
  "\<exists>y. CJsonImpl_GetInt32 tree_lib 16 (Some ''x'') 5 (example_json [JObject [''k'' \<mapsto> JString []], JNull]) =
     (Some y, example_json [JObject [''k'' \<mapsto> JString []], JNull]) \<and> y = 5"
  using getters_total [OF example_is_object [of "[''k'' \<mapsto> JString []]" JNull],
      where pKey = "Some ''x''" and di = 5] by auto

theorem getters_throw_on_array_witness:
  "CJsonImpl_GetInt32 tree_lib 16 (Some ''k'') 5 (example_json [JArray [], JNull]) =
     (None, example_json [JArray [], JNull])"
  using getters_throw_on_array [OF tree_laws, of "example_json [JArray [], JNull]" 16] by simp

theorem created_type_witness:
  "CJsonImpl_GetType tree_lib 48 None (snd (IJson_Create tree_lib (Some 48) kInt32 (example_json []))) =
     (Some kInt64, snd (IJson_Create tree_lib (Some 48) kInt32 (example_json [])))"
  using created_type [OF tree_laws, of 48 kInt32 "example_json []"]
  by (cases "IJson_Create tree_lib (Some 48) kInt32 (example_json [])") simp

theorem GetArray_into_moves_witness:
  "\<exists>w'. CJsonImpl_GetArray_into tree_lib 16 (Some ''k'') (Some 32)
       (example_json [JObject [''k'' \<mapsto> JArray [JNull]], JObject Map.empty]) = (Some kSuccess, w') \<and>
     vw tree_view (jw_lib w') (the_value 32 w') = JArray [JNull] \<and>
     vw tree_view (jw_lib w') (the_value 16 w') = JObject [''k'' \<mapsto> JObject Map.empty]"
proof -
  let ?w = "example_json [JObject [''k'' \<mapsto> JArray [JNull]], JObject Map.empty]"
  have "\<exists>h'. Value_move tree_lib r s h = (Some (), h') \<and>
      replaced tree_view r (vw tree_view h s) h h' \<and> replaced tree_view s (vw tree_view h r) h h'"
    if "live tree_view h r" "live tree_view h s" "vroot tree_view h r \<noteq> vroot tree_view h s" for h r s
    using tree_move_replaces [of h r s] that by (simp add: tree_lib_def)
  then show ?thesis
    using GetArray_into_moves [OF example_is_object [of "[''k'' \<mapsto> JArray [JNull]]" "JObject Map.empty"],
        where k = "''k''" and xs = "[JNull]" and q = 32] by auto
qed

end
