(* ===== verification/LoggerConfig.thy ===== *)
theory LoggerConfig
  imports Logger JsonSpec
begin

text \<open>
  The logger with the JSON object it is configured by: \<open>ILogger::Create\<close> and \<open>CLoggerImpl::Init\<close> in
  \<open>base/sources/logger/logger_impl.cpp\<close> over the getters of \<open>base/sources/utilities/json_impl.cpp\<close>, in
  place of the abstract configuration of the theory Logger.
\<close>

section \<open>Reading the configuration\<close>

text \<open>
  The four strings are read inside the \<open>try\<close> block. A null pointer, which a string cannot be assigned, ends
  the reading as an exception does.
\<close>

fun read_strings ::
  "('h, 'r) jsoncpp \<Rightarrow> uint64_t \<Rightarrow> (string \<times> string) list \<Rightarrow> ('h, 'r) json_world \<Rightarrow>
     (string \<rightharpoonup> string) \<times> ('h, 'r) json_world" where
  "read_strings L p [] w = (Map.empty, w)"
| "read_strings L p ((k, d) # ks) w =
     (case CJsonImpl_GetString L p (Some k) (Some d) w of
        (Some (Some s), w) \<Rightarrow> (case read_strings L p ks w of (m, w) \<Rightarrow> (m(k \<mapsto> s), w))
      | (_, w) \<Rightarrow> (Map.empty, w))"

text \<open>The other options are read before it, so that an exception of a getter leaves \<open>Init\<close>.\<close>

definition read_config :: "('h, 'r) jsoncpp \<Rightarrow> uint64_t \<Rightarrow> (log_config, ('h, 'r) json_world) throwing" where
  "read_config L p w =
     jbind (CJsonImpl_GetUint32 L p (Some ''log_level'') 2 w) (\<lambda>uLogLevel w.
     jbind (CJsonImpl_GetBool L p (Some ''log_async'') False w) (\<lambda>bAsync w.
     jbind (CJsonImpl_GetUint32 L p (Some ''bind_cpu_no'') (- 1) w) (\<lambda>uBindCpuNo w.
     jbind (CJsonImpl_GetUint64 L p (Some ''log_file_max_size_mb'') 16 w) (\<lambda>uLogFileMaxSizeMB w.
     jbind (CJsonImpl_GetUint64 L p (Some ''log_total_size_mb'') (4 * 1024) w) (\<lambda>uLogTotalSizeMB w.
     jbind (CJsonImpl_GetUint32 L p (Some ''log_format_buffer_size'') 4096 w) (\<lambda>uLogFormatBufferSize w.
     jbind (CJsonImpl_GetUint32 L p (Some ''log_channel_max_mem_mb'') 128 w) (\<lambda>uLogChannelMaxMemMB w.
     (case read_strings L p [(''logger_name'', []), (''log_path'', ''./log''), (''log_prefix'', []),
         (''log_suffix'', ''.log'')] w of
        (m, w) \<Rightarrow>
          (Some \<lparr>cfg_u32 = (\<lambda>k d. if k = ''log_level'' then uLogLevel else if k = ''bind_cpu_no'' then uBindCpuNo
              else if k = ''log_format_buffer_size'' then uLogFormatBufferSize
              else if k = ''log_channel_max_mem_mb'' then uLogChannelMaxMemMB else d),
            cfg_u64 = (\<lambda>k d. if k = ''log_file_max_size_mb'' then uLogFileMaxSizeMB
              else if k = ''log_total_size_mb'' then uLogTotalSizeMB else d),
            cfg_bool = (\<lambda>k d. if k = ''log_async'' then bAsync else d), cfg_string = (\<lambda>k d. m k)\<rparr>, w)))))))))"

text \<open>
  \<open>Create\<close> with a JSON object. The result says whether the call returns (\<open>Inr\<close>) or an exception leaves it
  (\<open>Inl\<close>), which then has the block of the object and does not free it.
\<close>

definition ILogger_Create_json ::
  "pointer \<Rightarrow> uint64_t \<Rightarrow> uint64_t \<Rightarrow> uint64_t \<Rightarrow> LogLevel \<Rightarrow> string \<Rightarrow> log_answers \<Rightarrow>
     ('h, 'r) jsoncpp \<Rightarrow> pointer \<Rightarrow> ('h, 'r) json_world \<Rightarrow> log_world \<Rightarrow>
     ((unit + (uint64_t \<times> CLoggerImpl) option) \<times> log_world) option \<times> ('h, 'r) json_world" where
  "ILogger_Create_json ans sizeof_logger sizeof_channel sizeof_lock junk_level junk_name a L pConfig w lw =
     (let create = (\<lambda>cfg. map_option (\<lambda>(r, lw). (Inr r, lw))
            (ILogger_Create ans sizeof_logger sizeof_channel sizeof_lock junk_level junk_name a cfg lw))
      in case (pConfig, IAllocatorEx_New ans sizeof_logger (Some ()) (lw_heap lw)) of
           (Some p, Some _, h) \<Rightarrow>
             (case read_config L p w of
                (None, w) \<Rightarrow> (Some (Inl (), lw\<lparr>lw_heap := h\<rparr>), w)
              | (Some cfg, w) \<Rightarrow> (create (Some cfg), w))
         | _ \<Rightarrow> (create None, w))"

section \<open>What a document says\<close>

text \<open>
  A number that is missing, or given as a string, counts as the default; other values have to be integers
  in range for \<open>number_ok\<close>, since what jsoncpp makes of them is not used here.
\<close>

definition number_or :: "json option \<Rightarrow> 'w::len word \<Rightarrow> 'w word" where
  "number_or v d = (case Option.bind v json_int of None \<Rightarrow> d | Some n \<Rightarrow> word_of_int n)"

definition number_ok :: "nat \<Rightarrow> json option \<Rightarrow> bool" where
  "number_ok n v =
     (case v of None \<Rightarrow> True | Some (JString _) \<Rightarrow> True
      | Some x \<Rightarrow> (case json_int x of None \<Rightarrow> False | Some i \<Rightarrow> 0 \<le> i \<and> i < 2 ^ n))"

definition bool_or :: "json option \<Rightarrow> bool \<Rightarrow> bool" where
  "bool_or v d = (case v of Some (JBool b) \<Rightarrow> b | _ \<Rightarrow> d)"

definition string_or :: "json option \<Rightarrow> string \<Rightarrow> string" where
  "string_or v d = (case v of Some (JString s) \<Rightarrow> s | _ \<Rightarrow> d)"

definition good_config :: "(string \<rightharpoonup> json) \<Rightarrow> bool" where
  "good_config m \<longleftrightarrow>
     list_all (\<lambda>k. number_ok 32 (m k))
       [''log_level'', ''bind_cpu_no'', ''log_format_buffer_size'', ''log_channel_max_mem_mb''] \<and>
     list_all (\<lambda>k. number_ok 64 (m k)) [''log_file_max_size_mb'', ''log_total_size_mb''] \<and>
     m ''log_async'' \<in> {None, Some (JBool False), Some (JBool True)} \<and>
     list_all (\<lambda>k. \<forall>x. m k = Some x \<longrightarrow> json_type x = stringValue)
       [''logger_name'', ''log_path'', ''log_prefix'', ''log_suffix'']"

definition document_config :: "(string \<rightharpoonup> json) \<Rightarrow> log_config" where
  "document_config m =
     \<lparr>cfg_u32 = (\<lambda>k. number_or (m k)), cfg_u64 = (\<lambda>k. number_or (m k)), cfg_bool = (\<lambda>k. bool_or (m k)),
      cfg_string = (\<lambda>k d. Some (string_or (m k) d))\<rparr>"

lemma GetValue_unreadable:
  assumes "is_object L V p w m" "m k = Some x"
    and as: "\<And>r. live V (jw_lib w) r \<Longrightarrow> vw V (jw_lib w) r = x \<Longrightarrow> as r (jw_lib w) = None"
  shows "GetValue_key L as p (Some k) d w = (Some d, w)"
proof -
  let ?h = "jw_lib w" and ?r = "the_value p w"
  from assms have L: "jsoncpp_laws L V" and r: "live V ?h ?r" and m: "members (vw V ?h ?r) = Some m"
    by (simp_all add: is_object_def)
  obtain r' where "Value_at L ?r k ?h = (Some r', ?h)" "at_path V ?h ?r [Key k] r'" "vw V ?h r' = x"
    using at_selects [OF L r m assms(2)] .
  then show ?thesis
    using reads(2) [OF L r, of k] m assms(2) as at_pathD(2) [OF L]
    by (auto simp: GetValue_key_def jread_def jlib_def)
qed

lemma is_objectD: "is_object L V p w m \<Longrightarrow> jsoncpp_laws L V"
  by (simp add: is_object_def)

lemma GetNumber_document:
  assumes o: "is_object L V p w m" and ok: "number_ok n (m k)"
    and num: "\<And>r i. live V (jw_lib w) r \<Longrightarrow> json_int (vw V (jw_lib w) r) = Some i \<Longrightarrow> 0 \<le> i \<Longrightarrow> i < 2 ^ n \<Longrightarrow>
      as r (jw_lib w) = Some (word_of_int i)"
    and str: "\<And>r s. live V (jw_lib w) r \<Longrightarrow> vw V (jw_lib w) r = JString s \<Longrightarrow> as r (jw_lib w) = None"
  shows "GetValue_key L as p (Some k) d w = (Some (number_or (m k) d), w)"
proof (cases "m k")
  case None
  then show ?thesis
    by (simp add: GetValue_missing [OF o] number_or_def)
next
  case (Some x)
  show ?thesis
  proof (cases "json_int x")
    case None
    with ok Some obtain s where "x = JString s"
      by (auto simp: number_ok_def split: json.splits)
    with Some show ?thesis
      by (simp add: number_or_def GetValue_unreadable [OF o Some] str)
  next
    case i: (Some i)
    with ok Some have "0 \<le> i" "i < 2 ^ n"
      by (auto simp: number_ok_def split: json.splits)
    with i Some show ?thesis
      by (simp add: number_or_def GetValue_member [OF o Some] num)
  qed
qed

lemma GetUint_document:
  assumes o: "is_object L V p w m"
  shows "number_ok 32 (m k) \<Longrightarrow> CJsonImpl_GetUint32 L p (Some k) d w = (Some (number_or (m k) d), w)"
    "number_ok 64 (m k) \<Longrightarrow> CJsonImpl_GetUint64 L p (Some k) e w = (Some (number_or (m k) e), w)"
  unfolding typed_getters
  by (rule GetNumber_document [OF o], assumption; simp add: reads(5-8) [OF is_objectD [OF o]])+

lemma GetBool_document:
  assumes o: "is_object L V p w m" and ok: "m k \<in> {None, Some (JBool False), Some (JBool True)}"
  shows "CJsonImpl_GetBool L p (Some k) d w = (Some (bool_or (m k) d), w)"
  using ok by (auto simp: typed_getters bool_or_def GetValue_missing [OF o] GetValue_member [OF o]
      reads(4) [OF is_objectD [OF o]])

lemma GetString_document:
  assumes o: "is_object L V p w m" and ok: "\<forall>x. m k = Some x \<longrightarrow> json_type x = stringValue"
  shows "CJsonImpl_GetString L p (Some k) (Some d) w = (Some (Some (string_or (m k) d)), w)"
proof (cases "m k")
  case None
  then show ?thesis
    by (simp add: typed_getters GetValue_missing [OF o] string_or_def)
next
  case (Some x)
  with ok obtain s where x: "x = JString s"
    by (cases x) auto
  show ?thesis
    using Some by (simp add: x typed_getters string_or_def GetValue_member [OF o] reads(10) [OF is_objectD [OF o]])
qed

section \<open>From the document to the logger\<close>

lemma read_strings_document:
  assumes "is_object L V p w m" "\<forall>(k, d) \<in> set ks. \<forall>x. m k = Some x \<longrightarrow> json_type x = stringValue"
    "distinct (map fst ks)"
  shows "\<exists>c. read_strings L p ks w = (c, w) \<and> (\<forall>(k, d) \<in> set ks. c k = Some (string_or (m k) d))"
  using assms(2,3)
proof (induction ks)
  case (Cons x ks)
  obtain k d where x: "x = (k, d)"
    by fastforce
  obtain c where c: "read_strings L p ks w = (c, w)" "\<forall>(k, d) \<in> set ks. c k = Some (string_or (m k) d)"
    using Cons by auto
  have "CJsonImpl_GetString L p (Some k) (Some d) w = (Some (Some (string_or (m k) d)), w)"
    using Cons.prems(1) x by (intro GetString_document [OF assms(1)]) auto
  then show ?case
    using c Cons.prems(2) by (force simp: x)
qed simp

lemma read_config_document:
  assumes o: "is_object L V p w m" and g: "good_config m"
  shows "\<exists>c. read_config L p w = (Some c, w) \<and> Init_numbers a c = Init_numbers a (document_config m) \<and>
    Init_strings c = Init_strings (document_config m)"
proof -
  let ?ks = "[(''logger_name'', []), (''log_path'', ''./log''), (''log_prefix'', []), (''log_suffix'', ''.log'')]"
  obtain c where c: "read_strings L p ?ks w = (c, w)" "\<forall>(k, d) \<in> set ?ks. c k = Some (string_or (m k) d)"
    using read_strings_document [OF o, of ?ks] g by (auto simp: good_config_def)
  show ?thesis
    using g c unfolding good_config_def
    by (auto simp: read_config_def GetUint_document [OF o] GetBool_document [OF o] fun_eq_iff Init_numbers_def
        Init_strings_def document_config_def Let_def simp del: read_strings.simps)
qed

lemma ILogger_Create_config:
  assumes "Init_numbers a c = Init_numbers a c'" "Init_strings c = Init_strings c'"
  shows "ILogger_Create ans sl sc sk jl jn a (Some c) lw = ILogger_Create ans sl sc sk jl jn a (Some c') lw"
proof -
  have e: "CLoggerImpl_Init sc sk a (Some c) = CLoggerImpl_Init sc sk a (Some c')"
    by (intro ext) (simp add: CLoggerImpl_Init_def assms)
  show ?thesis
    unfolding ILogger_Create_def e ..
qed

lemma ILogger_Create_json_object:
  assumes o: "is_object L V p w m" and g: "good_config m"
  shows "ILogger_Create_json ans sl sc sk jl jn a L (Some p) w lw =
    (map_option (\<lambda>(r, lw). (Inr r, lw)) (ILogger_Create ans sl sc sk jl jn a (Some (document_config m)) lw), w)"
proof -
  obtain c where "read_config L p w = (Some c, w)"
      and c: "Init_numbers a c = Init_numbers a (document_config m)" "Init_strings c = Init_strings (document_config m)"
    using read_config_document [OF o g] by blast
  then show ?thesis
  proof (cases ans)
    case None
    then show ?thesis
      by (simp add: ILogger_Create_json_def ILogger_Create_def IAllocatorEx_New_def CAllocatorImpl_Malloc_def)
  next
    case (Some q)
    with \<open>read_config L p w = (Some c, w)\<close> show ?thesis
      by (simp add: ILogger_Create_json_def IAllocatorEx_New_def CAllocatorImpl_Malloc_def ILogger_Create_config [OF c])
  qed
qed

section \<open>Properties\<close>


text \<open>
  C35: creating a logger from a JSON object whose members \<open>Init\<close> can read as they are: numbers that are
  integers in range or strings, a boolean \<open>log_async\<close> that is missing or false, and strings where strings
  are expected. \<open>Create\<close> succeeds as soon as the object can be allocated. Every one of the eleven options that
  \<open>Init\<close> reads is the member of the document, or its own default when the member is missing or is a
  string in the place of a number; a level above the highest is the level info, and so is a level that is
  given by its name.
\<close>

theorem logger_from_json:
  assumes o: "is_object L V p w m" and g: "good_config m" and sync: "\<not> bool_or (m ''log_async'') False"
  shows "\<exists>l. ILogger_Create_json (Some q) n sc sk jl jn a L (Some p) w lw =
      (Some (Inr (Some (q, l)), lw\<lparr>lw_heap := (lw_heap lw)(q \<mapsto> n)\<rparr>), w) \<and>
    m_eLogLevel l = level_of (let u = number_or (m ''log_level'') 2 in if u > 6 then 2 else u) \<and>
    m_uLogFileMaxSizeMB l = number_or (m ''log_file_max_size_mb'') 16 \<and>
    m_uLogTotalSizeMB l = number_or (m ''log_total_size_mb'') 4096 \<and>
    m_uBindCpuNo l = number_or (m ''bind_cpu_no'') (- 1) \<and>
    m_uLogFormatBufferSize l = number_or (m ''log_format_buffer_size'') 4096 \<and>
    m_uLogChannelMaxMemMB l = number_or (m ''log_channel_max_mem_mb'') 128 \<and>
    m_strLoggerName l = string_or (m ''logger_name'') [] \<and> m_strLogPath l = string_or (m ''log_path'') ''./log'' \<and>
    m_strLogPrefix l = string_or (m ''log_prefix'') [] \<and> m_strLogSuffix l = string_or (m ''log_suffix'') ''.log'' \<and>
    \<not> m_bAsync l \<and> m_uPid l = la_pid a \<and> m_pLogFile l = nullptr \<and> m_pChannel l = nullptr \<and> m_pThread l = nullptr"
  using sync by (auto simp: ILogger_Create_json_object [OF o g] ILogger_Create_def IAllocatorEx_New_def
      CAllocatorImpl_Malloc_def CLoggerImpl_Init_def Init_strings_def Init_numbers_def document_config_def
      CLoggerImpl_default_def Let_def)

text \<open>
  Fact: with a document that is an array or a scalar the exception of the first getter leaves \<open>Create\<close>, and
  the block of the logger, which nobody knows, stays allocated.
\<close>

theorem logger_leaks_on_array:
  assumes L: "jsoncpp_laws L V" "live V (jw_lib w) (the_value p w)"
    and m: "members (vw V (jw_lib w) (the_value p w)) = None"
  shows "ILogger_Create_json (Some q) n sc sk jl jn a L (Some p) w lw =
    (Some (Inl (), lw\<lparr>lw_heap := (lw_heap lw)(q \<mapsto> n)\<rparr>), w)"
  by (simp add: ILogger_Create_json_def IAllocatorEx_New_def CAllocatorImpl_Malloc_def read_config_def
      typed_getters GetValue_throws [OF L m])

section \<open>Examples\<close>


theorem logger_from_json_witness:
  "\<exists>l. ILogger_Create_json (Some 1024) 512 256 8 kTrace_lvl [] example_answers tree_lib (Some 16)
      (example_json [JObject [''log_level'' \<mapsto> JString ''error'', ''log_file_max_size_mb'' \<mapsto> JInt 8], JNull]) example_world =
      (Some (Inr (Some (1024, l)), example_world\<lparr>lw_heap := (lw_heap example_world)(1024 \<mapsto> 512)\<rparr>),
       example_json [JObject [''log_level'' \<mapsto> JString ''error'', ''log_file_max_size_mb'' \<mapsto> JInt 8], JNull]) \<and>
    m_eLogLevel l = kInfo_lvl \<and> m_uLogFileMaxSizeMB l = 8"
proof -
  let ?m = "[''log_level'' \<mapsto> JString ''error'', ''log_file_max_size_mb'' \<mapsto> JInt 8]"
  have "good_config ?m" "\<not> bool_or (?m ''log_async'') False"
    by (simp_all add: good_config_def number_ok_def bool_or_def)
  from logger_from_json [OF example_is_object this, of 1024 512 256 8 kTrace_lvl "[]" example_answers JNull example_world]
  show ?thesis
    by (fastforce simp: number_or_def level_of_def Let_def)
qed

theorem logger_leaks_on_array_witness:
  "ILogger_Create_json (Some 1024) 512 256 8 kTrace_lvl [] example_answers tree_lib (Some 16)
      (example_json [JArray [], JNull]) example_world =
    (Some (Inl (), example_world\<lparr>lw_heap := [1024 \<mapsto> 512]\<rparr>), example_json [JArray [], JNull])"
  using logger_leaks_on_array [OF tree_laws, of "example_json [JArray [], JNull]" 16 1024 512 256 8 kTrace_lvl "[]"
      example_answers example_world]
  by (simp add: example_world_def)

end
