(* ===== verification/JsonForest.thy ===== *)
theory JsonForest
  imports JsonImpl JsonTree
begin

text \<open>
  Who owns whom among the \<open>CJsonImpl\<close> objects. The pointers of \<open>m_vecJsonValues\<close> make the objects alive
  a forest (\<open>json_forest\<close>): every operation keeps it, so that destroying a root, or clearing an object,
  ends, deletes every descendant exactly once, and touches nothing else. The blocks come from
  \<open>std::malloc\<close>; \<open>delete\<close> of one is taken to free it.
\<close>

section \<open>The forest\<close>

fun pointers :: "pointer list \<Rightarrow> uint64_t list" where
  "pointers [] = []"
| "pointers (None # ps) = pointers ps"
| "pointers (Some c # ps) = c # pointers ps"

abbreviation children :: "'r CJsonImpl \<Rightarrow> uint64_t list" where
  "children obj \<equiv> pointers (m_vecJsonValues obj)"

definition owns :: "(uint64_t \<rightharpoonup> 'r CJsonImpl) \<Rightarrow> (uint64_t \<times> uint64_t) set" where
  "owns f = {(p, c). \<exists>obj. f p = Some obj \<and> c \<in> set (children obj)}"

definition forest :: "(uint64_t \<rightharpoonup> 'r CJsonImpl) \<Rightarrow> bool" where
  "forest f \<longleftrightarrow> finite (dom f) \<and> acyclic (owns f) \<and>
     (\<forall>p obj. f p = Some obj \<longrightarrow> distinct (children obj)) \<and>
     (\<forall>p c. (p, c) \<in> owns f \<longrightarrow> c \<in> dom f) \<and>
     (\<forall>p q c. (p, c) \<in> owns f \<longrightarrow> (q, c) \<in> owns f \<longrightarrow> p = q)"

text \<open>Every object alive occupies a block of the heap.\<close>

definition json_forest :: "('h, 'r) json_world \<Rightarrow> bool" where
  "json_forest w \<longleftrightarrow> forest (jw_objs w) \<and> dom (jw_objs w) \<subseteq> dom (jw_heap w)"

definition is_root :: "(uint64_t \<rightharpoonup> 'r CJsonImpl) \<Rightarrow> uint64_t \<Rightarrow> bool" where
  "is_root f p \<longleftrightarrow> p \<in> dom f \<and> (\<forall>q. (q, p) \<notin> owns f)"

definition descendants :: "(uint64_t \<rightharpoonup> 'r CJsonImpl) \<Rightarrow> uint64_t set \<Rightarrow> uint64_t set" where
  "descendants f D = (owns f)\<^sup>* `` D"

lemma pointers_append [simp]: "pointers (ps @ qs) = pointers ps @ pointers qs"
  by (induction ps rule: pointers.induct) simp_all

lemma restrict_UNIV [simp]: "f |` UNIV = f"
  by (rule ext) simp

lemma descendants_step: "y \<in> descendants f D \<Longrightarrow> (y, z) \<in> owns f \<Longrightarrow> z \<in> descendants f D"
  by (auto simp: descendants_def intro: rtrancl_into_rtrancl)

lemma owns_remove: "owns (f(p := None)) = owns f - {p} \<times> UNIV"
  by (auto simp: owns_def split: if_splits)

lemma descendants_remove:
  assumes "f p = Some obj"
  shows "descendants f (insert p D) = insert p (descendants (f(p := None)) (set (children obj) \<union> D))"
proof (intro equalityI subsetI)
  fix y
  assume "y \<in> descendants f (insert p D)"
  then obtain x where "(x, y) \<in> (owns f)\<^sup>*" "x \<in> insert p D"
    by (auto simp: descendants_def)
  then show "y \<in> insert p (descendants (f(p := None)) (set (children obj) \<union> D))"
  proof (induction rule: rtrancl_induct)
    case base
    then show ?case
      by (auto simp: descendants_def)
  next
    case (step y z)
    from step.IH consider "y = p" | "y \<noteq> p" "y \<in> descendants (f(p := None)) (set (children obj) \<union> D)"
      using step.prems by blast
    then show ?case
    proof cases
      case 1
      then have "z \<in> set (children obj)"
        using step(2) assms by (auto simp: owns_def)
      then show ?thesis
        by (auto simp: descendants_def)
    next
      case 2
      then have "(y, z) \<in> owns (f(p := None))"
        using step(2) by (simp add: owns_remove)
      then show ?thesis
        using descendants_step [OF 2(2)] by blast
    qed
  qed
next
  fix y
  assume y: "y \<in> insert p (descendants (f(p := None)) (set (children obj) \<union> D))"
  have sub: "(owns (f(p := None)))\<^sup>* \<subseteq> (owns f)\<^sup>*"
    by (rule rtrancl_mono) (auto simp: owns_remove)
  have kid: "(p, c) \<in> owns f" if "c \<in> set (children obj)" for c
    using that assms by (auto simp: owns_def)
  show "y \<in> descendants f (insert p D)"
  proof (cases "y = p")
    case True
    then show ?thesis
      by (auto simp: descendants_def)
  next
    case False
    with y obtain x where x: "(x, y) \<in> (owns (f(p := None)))\<^sup>*" "x \<in> set (children obj) \<or> x \<in> D"
      by (auto simp only: descendants_def)
    then have "(x, y) \<in> (owns f)\<^sup>*"
      using sub by (rule_tac subsetD)
    with x(2) kid show ?thesis
      by (auto simp: descendants_def intro: converse_rtrancl_into_rtrancl)
  qed
qed

lemma forest_remove:
  assumes "forest f" "is_root f p"
  shows "forest (f(p := None))"
proof -
  have "acyclic (owns (f(p := None)))"
    using assms(1) by (auto simp: forest_def owns_remove intro: acyclic_subset)
  moreover have "c \<in> dom (f(p := None))" if "(q, c) \<in> owns f" for q c
    using assms that by (auto simp: forest_def is_root_def)
  ultimately show ?thesis
    using assms(1) by (auto simp: forest_def owns_remove split: if_splits)
qed

section \<open>Deleting\<close>

fun to_delete :: "delete_item list \<Rightarrow> uint64_t list" where
  "to_delete [] = []"
| "to_delete (Del None # is) = to_delete is"
| "to_delete (Del (Some p) # is) = p # to_delete is"
| "to_delete (FreeBlock p # is) = to_delete is"

fun to_free :: "delete_item list \<Rightarrow> uint64_t list" where
  "to_free [] = []"
| "to_free (Del q # is) = to_free is"
| "to_free (FreeBlock p # is) = p # to_free is"

lemma to_delete_append [simp]: "to_delete (is @ js) = to_delete is @ to_delete js"
  by (induction "is" rule: to_delete.induct) simp_all

lemma to_free_append [simp]: "to_free (is @ js) = to_free is @ to_free js"
  by (induction "is" rule: to_free.induct) simp_all

lemma to_delete_Del [simp]: "to_delete (map Del ps) = pointers ps" "to_free (map Del ps) = []"
  by (induction ps rule: pointers.induct) simp_all

text \<open>Work that can be done: the pointers are distinct roots, the blocks are allocated and hold no object.\<close>

definition deletable :: "delete_item list \<Rightarrow> ('h, 'r) json_world \<Rightarrow> bool" where
  "deletable is w \<longleftrightarrow> json_forest w \<and> distinct (to_delete is) \<and> distinct (to_free is) \<and>
     (\<forall>p \<in> set (to_delete is). is_root (jw_objs w) p) \<and>
     (\<forall>p \<in> set (to_free is). jw_objs w p = None \<and> jw_heap w p \<noteq> None)"

text \<open>The state when the objects of \<open>D\<close> are gone with their blocks, and the blocks of \<open>F\<close> as well.\<close>

definition without ::
  "uint64_t set \<Rightarrow> uint64_t set \<Rightarrow> ('h, 'r) json_world \<Rightarrow> ('h, 'r) json_world" where
  "without D F w =
     w\<lparr>jw_objs := jw_objs w |` (- D),
       jw_heap := jw_heap w |` (- (F \<union> (D \<inter> dom (jw_objs w))))\<rparr>"

lemma deletable_object:
  assumes d: "deletable (Del (Some p) # is) w" and obj: "jw_objs w p = Some obj"
  shows "deletable (map Del (m_vecJsonValues obj) @ FreeBlock p # is) (w\<lparr>jw_objs := (jw_objs w)(p := None)\<rparr>)"
proof -
  let ?f = "jw_objs w" and ?g = "(jw_objs w)(p := None)"
  from d have f: "forest ?f" and r: "is_root ?f p" and dom: "dom ?f \<subseteq> dom (jw_heap w)"
    by (simp_all add: deletable_def json_forest_def)
  have kids: "distinct (children obj)"
    using f obj by (simp add: forest_def)
  have own: "(p, c) \<in> owns ?f" if "c \<in> set (children obj)" for c
    using that obj by (auto simp: owns_def)
  have "is_root ?g c" if "c \<in> set (children obj)" for c
    using own [OF that] f r unfolding forest_def is_root_def owns_remove by auto
  moreover have "is_root ?g q" if "q \<in> set (to_delete is)" for q
    using d that by (auto simp: deletable_def is_root_def owns_remove)
  moreover have "set (children obj) \<inter> set (to_delete is) = {}"
    using d own by (auto simp: deletable_def is_root_def)
  moreover have "p \<notin> set (to_free is)"
    using d obj by (auto simp: deletable_def)
  moreover have "jw_heap w p \<noteq> None"
    using dom obj by auto
  moreover have "json_forest (w\<lparr>jw_objs := ?g\<rparr>)"
    using forest_remove [OF f r] dom by (auto simp: json_forest_def)
  ultimately show ?thesis
    using d kids(1) by (auto simp: deletable_def)
qed

lemma delete_items_forest:
  "deletable is w \<Longrightarrow>
     delete_items is w = Some (without (descendants (jw_objs w) (set (to_delete is))) (set (to_free is)) w)"
proof (induction "is" w rule: delete_items.induct)
  case (1 w)
  show ?case
    by (simp add: without_def descendants_def)
next
  case (2 "is" w)
  then show ?case
    by (simp add: deletable_def)
next
  case (3 p "is" w)
  then obtain obj where obj: "jw_objs w p = Some obj"
    by (auto simp: deletable_def is_root_def)
  let ?g = "(jw_objs w)(p := None)"
  let ?D = "descendants ?g (set (children obj) \<union> set (to_delete is))"
  have fin: "finite (dom (jw_objs w))"
    using 3(2) by (simp add: deletable_def json_forest_def forest_def)
  have D: "descendants (jw_objs w) (insert p (set (to_delete is))) = insert p ?D"
    by (rule descendants_remove [where f = "jw_objs w", OF obj])
  have "?g |` (- ?D) = jw_objs w |` (- insert p ?D)"
    by (auto simp: restrict_map_def)
  moreover have "insert p (set (to_free is)) \<union> ?D \<inter> dom ?g =
      set (to_free is) \<union> insert p ?D \<inter> dom (jw_objs w)"
    using obj by auto
  ultimately have "without ?D (insert p (set (to_free is))) (w\<lparr>jw_objs := ?g\<rparr>) =
      without (insert p ?D) (set (to_free is)) w"
    by (simp add: without_def)
  then show ?case
    using 3(1) [of obj] deletable_object [OF 3(2) obj] fin obj D by (simp add: fun_upd_def)
next
  case (4 p "is" w)
  let ?w = "w\<lparr>jw_heap := CAllocatorImpl_Free (Some p) (jw_heap w)\<rparr>"
  have p: "jw_heap w p \<noteq> None" "jw_objs w p = None"
    using 4(2) by (auto simp: deletable_def)
  have "deletable is ?w"
    using 4(2) p by (auto simp: deletable_def json_forest_def CAllocatorImpl_Free_def)
  moreover have "without D F ?w = without D (insert p F) w" for D F
    by (auto simp: without_def CAllocatorImpl_Free_def restrict_map_def intro!: json_world.equality)
  ultimately show ?case
    using 4(1) p by simp
qed

lemma forest_restrict:
  assumes "forest f" "\<And>p c. (p, c) \<in> owns f \<Longrightarrow> c \<in> D \<Longrightarrow> p \<in> D"
  shows "forest (f |` (- D))"
proof -
  have o: "owns (f |` (- D)) \<subseteq> owns f" "\<And>p c. (p, c) \<in> owns (f |` (- D)) \<Longrightarrow> p \<notin> D"
    by (auto simp: owns_def restrict_map_def split: if_splits)
  have "c \<in> dom (f |` (- D))" if "(p, c) \<in> owns (f |` (- D))" for p c
    using assms o that by (fastforce simp: forest_def)
  moreover have "p = q" if "(p, c) \<in> owns (f |` (- D))" "(q, c) \<in> owns (f |` (- D))" for p q c
    using assms(1) o that unfolding forest_def by blast
  moreover have "distinct (children obj)" if "(f |` (- D)) p = Some obj" for p obj
    using assms(1) that by (simp add: forest_def restrict_map_def split: if_splits)
  ultimately show ?thesis
    using assms(1) acyclic_subset [OF _ o(1)] unfolding forest_def by auto
qed

lemma descendants_parent:
  assumes f: "forest f" and r: "\<And>d. d \<in> D \<Longrightarrow> is_root f d"
    and "(p, c) \<in> owns f" "c \<in> descendants f D"
  shows "p \<in> descendants f D"
proof -
  obtain d where d: "(d, c) \<in> (owns f)\<^sup>*" "d \<in> D"
    using assms(4) by (auto simp: descendants_def)
  from d(1) show ?thesis
  proof (cases rule: rtranclE)
    case base
    then show ?thesis
      using r [OF d(2)] assms(3) by (simp add: is_root_def)
  next
    case (step q)
    then have "q = p"
      using f assms(3) by (auto simp: forest_def)
    then show ?thesis
      using step d(2) by (auto simp: descendants_def)
  qed
qed

lemma without_forest:
  assumes "json_forest w" "\<And>d. d \<in> D \<Longrightarrow> is_root (jw_objs w) d"
  shows "json_forest (without (descendants (jw_objs w) D) {} w)"
  using assms forest_restrict [OF _ descendants_parent [OF _ assms(2)]]
  by (auto simp: json_forest_def without_def)

lemma Destroy_root:
  assumes "json_forest w" "is_root (jw_objs w) p"
  shows "IJson_Destroy (Some p) w = Some (without (descendants (jw_objs w) {p}) {} w)"
  using delete_items_forest [of "[Del (Some p)]" w] assms by (simp add: IJson_Destroy_def deletable_def)

section \<open>Clearing\<close>

text \<open>\<open>Clear\<close> empties \<open>m_vecJsonValues\<close> only after the children are deleted; it could as well before.\<close>

lemma clear_children_commute:
  assumes "jw_objs w p \<noteq> None" "p \<notin> descendants (jw_objs w) (set (to_delete is))"
  shows "delete_items is (clear_children p w) = map_option (clear_children p) (delete_items is w)"
  using assms
proof (induction "is" w rule: delete_items.induct)
  case (3 q "is" w)
  have q: "q \<noteq> p"
    using 3(3) by (auto simp: descendants_def)
  have same: "(clear_children p w)\<lparr>jw_objs := (jw_objs (clear_children p w))(q := None)\<rparr> =
      clear_children p (w\<lparr>jw_objs := (jw_objs w)(q := None)\<rparr>)"
    using q by (simp add: clear_children_def the_obj_def fun_upd_twist)
  have fin: "finite (dom (jw_objs (clear_children p w))) = finite (dom (jw_objs w))"
    by (simp add: clear_children_def)
  have lookup: "jw_objs (clear_children p w) q = jw_objs w q"
    using q by (simp add: clear_children_def)
  show ?case
  proof (cases "finite (dom (jw_objs w)) \<and> jw_objs w q \<noteq> None")
    case True
    then obtain obj where obj: "jw_objs w q = Some obj" "finite (dom (jw_objs w))"
      by auto
    have "p \<notin> descendants ((jw_objs w)(q := None)) (set (children obj) \<union> set (to_delete is))"
      using 3(3) descendants_remove [where f = "jw_objs w", OF obj(1)] by auto
    then show ?thesis
      using 3(1) [of obj] 3(2) obj q same fin lookup by (simp add: fun_upd_def)
  next
    case False
    then show ?thesis
      using fin lookup by auto
  qed
next
  case (4 q "is" w)
  have "(clear_children p w)\<lparr>jw_heap := h\<rparr> = clear_children p (w\<lparr>jw_heap := h\<rparr>)" for h
    by (simp add: clear_children_def the_obj_def)
  moreover have "jw_heap (clear_children p w) = jw_heap w"
    by (simp add: clear_children_def)
  ultimately show ?case
    using 4 by simp
qed simp_all

lemma owns_clear:
  assumes "jw_objs w p = Some obj"
  shows "owns (jw_objs (clear_children p w)) = owns (jw_objs w) - {p} \<times> UNIV"
  using assms by (auto simp: owns_def clear_children_def the_obj_def split: if_splits)

lemma clear_children_forest:
  assumes "json_forest w" "jw_objs w p = Some obj"
  shows "json_forest (clear_children p w)"
proof -
  have "acyclic (owns (jw_objs (clear_children p w)))"
    unfolding owns_clear [OF assms(2)] using assms(1)
    by (auto simp: json_forest_def forest_def intro: acyclic_subset)
  moreover have "dom (jw_objs (clear_children p w)) = dom (jw_objs w)"
    using assms(2) by (auto simp: clear_children_def)
  moreover have "distinct (children x)" if "jw_objs (clear_children p w) q = Some x" for q x
    using assms that by (auto simp: json_forest_def forest_def clear_children_def split: if_splits)
  ultimately show ?thesis
    using assms unfolding json_forest_def forest_def owns_clear [OF assms(2)]
    by (auto simp: clear_children_def)
qed

lemma Clear_children:
  assumes w: "json_forest w" and obj: "jw_objs w p = Some obj"
  shows "delete_items (map Del (m_vecJsonValues obj)) w \<noteq> None"
    "map_option (clear_children p) (delete_items (map Del (m_vecJsonValues obj)) w) =
       Some (without (descendants (jw_objs (clear_children p w)) (set (children obj))) {} (clear_children p w))"
    "\<And>c. c \<in> set (children obj) \<Longrightarrow> is_root (jw_objs (clear_children p w)) c"
proof -
  let ?w = "clear_children p w" and ?is = "map Del (m_vecJsonValues obj)"
  from w have f: "forest (jw_objs w)"
    by (simp add: json_forest_def)
  have own: "(p, c) \<in> owns (jw_objs w)" if "c \<in> set (children obj)" for c
    using that obj by (auto simp: owns_def)
  show root: "is_root (jw_objs ?w) c" if "c \<in> set (children obj)" for c
  proof -
    have "c \<in> dom (jw_objs ?w)"
      using own [OF that] f by (auto simp: forest_def clear_children_def)
    then show ?thesis
      using own [OF that] f unfolding is_root_def forest_def owns_clear [OF obj] by auto
  qed
  have "deletable ?is ?w"
    using clear_children_forest [OF w obj] f obj root by (auto simp: deletable_def forest_def)
  moreover have "p \<notin> descendants (jw_objs w) (set (to_delete ?is))"
  proof
    assume "p \<in> descendants (jw_objs w) (set (to_delete ?is))"
    then obtain c where "c \<in> set (children obj)" "(c, p) \<in> (owns (jw_objs w))\<^sup>*"
      by (auto simp: descendants_def)
    with own have "(p, p) \<in> (owns (jw_objs w))\<^sup>+"
      by (blast intro: rtrancl_into_trancl2)
    with f show False
      by (simp add: forest_def acyclic_def)
  qed
  ultimately show eq: "map_option (clear_children p) (delete_items ?is w) =
      Some (without (descendants (jw_objs ?w) (set (children obj))) {} ?w)"
    using delete_items_forest [of ?is ?w] clear_children_commute [of w p ?is] obj by simp
  then show "delete_items ?is w \<noteq> None"
    by auto
qed

section \<open>Operations that keep the objects, or add a child\<close>

text \<open>The call leaves the objects and the heap alone, whether it returns or throws.\<close>

definition quiet :: "('h, 'r) json_world \<Rightarrow> 'a \<times> ('h, 'r) json_world \<Rightarrow> bool" where
  "quiet w res \<longleftrightarrow> jw_objs (snd res) = jw_objs w \<and> jw_heap (snd res) = jw_heap w"

named_theorems quiet_intros \<open>calls that leave the objects alone\<close>

lemma quiet_jbind [quiet_intros]:
  assumes "quiet w m" "\<And>a w1. m = (Some a, w1) \<Longrightarrow> quiet w1 (f a w1)"
  shows "quiet w (jbind m f)"
  using assms by (cases m; cases "fst m") (auto simp: quiet_def)

lemma quiet_jcatch [quiet_intros]:
  assumes "quiet w m" "\<And>w1. m = (None, w1) \<Longrightarrow> quiet w1 (f w1)"
  shows "quiet w (jcatch m f)"
  using assms by (cases m; cases "fst m") (auto simp: quiet_def)

lemma quiet_basic [quiet_intros]:
  "quiet w (jlib f w)" "quiet w (jread g w)" "quiet w (jfail c r w)" "quiet w (x, w)"
  by (simp_all add: quiet_def jlib_def jread_def jfail_def jerror_def split: prod.splits)

lemma quiet_if [quiet_intros]: "quiet w a \<Longrightarrow> quiet w b \<Longrightarrow> quiet w (if c then a else b)"
  by simp

lemma quiet_option [quiet_intros]:
  "quiet w a \<Longrightarrow> (\<And>x. c = Some x \<Longrightarrow> quiet w (b x)) \<Longrightarrow> quiet w (case c of None \<Rightarrow> a | Some x \<Rightarrow> b x)"
  by (cases c) auto

lemma quiet_bool [quiet_intros]:
  "quiet w a \<Longrightarrow> quiet w b \<Longrightarrow> quiet w (case c of True \<Rightarrow> a | False \<Rightarrow> b)"
  by (cases c) auto

lemma quiet_forest: "quiet w res \<Longrightarrow> json_forest w \<Longrightarrow> json_forest (snd res)"
  by (simp add: quiet_def json_forest_def)

text \<open>The call may append null pointers, then one new object, to the children of \<open>p\<close>.\<close>

definition push_all :: "uint64_t \<Rightarrow> pointer list \<Rightarrow> (uint64_t \<rightharpoonup> 'r CJsonImpl) \<Rightarrow> (uint64_t \<rightharpoonup> 'r CJsonImpl)" where
  "push_all p ps f = f(p \<mapsto> (the (f p))\<lparr>m_vecJsonValues := m_vecJsonValues (the (f p)) @ ps\<rparr>)"

definition grows :: "uint64_t \<Rightarrow> ('h, 'r) json_world \<Rightarrow> ('h, 'r) json_world \<Rightarrow> bool" where
  "grows p w w' \<longleftrightarrow>
     (\<exists>ns. pointers ns = [] \<and>
       (jw_objs w' = push_all p ns (jw_objs w) \<and> jw_heap w' = jw_heap w \<or>
        (\<exists>c obj n. jw_heap w c = None \<and> m_vecJsonValues obj = [] \<and>
           jw_objs w' = push_all p (ns @ [Some c]) ((jw_objs w)(c \<mapsto> obj)) \<and>
           jw_heap w' = (jw_heap w)(c \<mapsto> n))))"

lemma push_all_nil: "jw_objs w p \<noteq> None \<Longrightarrow> push_all p [] (jw_objs w) = jw_objs w"
  by (auto simp: push_all_def)

lemma quiet_grows: "quiet w res \<Longrightarrow> jw_objs w p \<noteq> None \<Longrightarrow> grows p w (snd res)"
  unfolding grows_def quiet_def by (rule exI [of _ "[]"]) (simp add: push_all_nil)

lemma grows_cong:
  assumes "grows p w1 w2" "jw_objs w1 = jw_objs w" "jw_heap w1 = jw_heap w"
    "jw_objs w' = jw_objs w2" "jw_heap w' = jw_heap w2"
  shows "grows p w w'"
  using assms by (simp add: grows_def)

lemma owns_push_nulls:
  assumes "f p = Some y" "pointers ns = []"
  shows "owns (push_all p ns f) = owns f"
  using assms by (auto simp: owns_def push_all_def split: if_splits)

lemma owns_push_child:
  assumes "f p = Some y" "pointers ns = []" "f c = None" "m_vecJsonValues obj = []"
  shows "owns (push_all p (ns @ [Some c]) (f(c \<mapsto> obj))) = insert (p, c) (owns f)"
  using assms by (auto simp: owns_def push_all_def split: if_splits)

lemma dom_push_all: "f p = Some y \<Longrightarrow> dom (push_all p ps f) = dom f"
  by (auto simp: push_all_def)

lemma grows_forest:
  assumes g: "grows p w w'" and w: "json_forest w" and p: "jw_objs w p = Some y"
  shows "json_forest w'"
proof -
  let ?f = "jw_objs w"
  from w have f: "forest ?f" and dom: "dom ?f \<subseteq> dom (jw_heap w)"
    by (simp_all add: json_forest_def)
  from g consider ns where "pointers ns = []" "jw_objs w' = push_all p ns ?f" "jw_heap w' = jw_heap w"
    | ns c obj n where "pointers ns = []" "jw_heap w c = None" "m_vecJsonValues obj = []"
      "jw_objs w' = push_all p (ns @ [Some c]) (?f(c \<mapsto> obj))" "jw_heap w' = (jw_heap w)(c \<mapsto> n)"
    unfolding grows_def by blast
  then show ?thesis
  proof cases
    case 1
    have "distinct (children x)" if "push_all p ns ?f q = Some x" for q x
      using that f p 1(1) by (auto simp: forest_def push_all_def split: if_splits)
    then have "forest (push_all p ns ?f)"
      using f unfolding forest_def owns_push_nulls [of ?f, OF p 1(1)] dom_push_all [of ?f, OF p] by blast
    then show ?thesis
      using 1 dom dom_push_all [of ?f, OF p] by (simp add: json_forest_def)
  next
    case 2
    have c: "?f c = None"
      using dom 2(2) by (auto simp: domIff)
    have no: "(x, c) \<notin> owns ?f" "(c, x) \<notin> owns ?f" for x
      using f c by (auto simp: forest_def) (auto simp: owns_def)
    have pc: "p \<noteq> c"
      using p c by auto
    have "(c, p) \<notin> (owns ?f)\<^sup>*"
      using no(2) pc by (auto elim: converse_rtranclE)
    then have ac: "acyclic (insert (p, c) (owns ?f))"
      using f by (simp add: forest_def acyclic_insert)
    have o: "owns (jw_objs w') = insert (p, c) (owns ?f)"
      using owns_push_child [of ?f, OF p 2(1) c 2(3)] 2(4) by simp
    have d: "dom (jw_objs w') = insert c (dom ?f)"
      using p 2(4) by (auto simp: push_all_def)
    have "c \<notin> set (children y)"
      using no(1) p by (auto simp: owns_def)
    then have "distinct (children x)" if "jw_objs w' q = Some x" for q x
      using that f p pc 2 by (auto simp: forest_def push_all_def split: if_splits)
    then have "forest (jw_objs w')"
      using f p no ac unfolding forest_def o d by auto
    then show ?thesis
      using 2(5) dom d by (auto simp: json_forest_def)
  qed
qed

section \<open>Every call\<close>

lemma new_child_grows:
  assumes "malloc_fresh (jw_heap w) (jm_malloc a)" "json_forest w" "jw_objs w p = Some y"
    and ctor: "\<And>h obj h'. ctor h = (Some obj, h') \<Longrightarrow> m_vecJsonValues obj = []"
  shows "grows p w (snd (new_child L a p ctor w))"
proof (cases "jm_malloc a")
  case None
  then show ?thesis
    using assms(3) quiet_grows [of w "new_child L a p ctor w" p]
    by (auto simp: quiet_def new_child_def New_CJsonImpl_def IAllocatorEx_New_def CAllocatorImpl_Malloc_def
        jfail_def jerror_def)
next
  case (Some c)
  have c: "jw_heap w c = None" "jw_objs w c = None" "p \<noteq> c"
    using assms(1-3) Some by (auto simp: malloc_fresh_def json_forest_def domIff)
  obtain o' h' where ct: "ctor (jw_lib w) = (o', h')"
    by (cases "ctor (jw_lib w)")
  show ?thesis
  proof (cases "o' \<noteq> None \<and> jm_push a")
    case True
    then obtain obj where obj: "o' = Some obj" "m_vecJsonValues obj = []"
      using ct ctor by auto
    then have "snd (new_child L a p ctor w) =
        w\<lparr>jw_lib := h', jw_heap := (jw_heap w)(c \<mapsto> sizeof_CJsonImpl L),
          jw_objs := push_all p ([] @ [Some c]) ((jw_objs w)(c \<mapsto> obj))\<rparr>"
      using Some ct True by (simp add: new_child_def New_CJsonImpl_def IAllocatorEx_New_def
          CAllocatorImpl_Malloc_def push_child_def push_all_def the_obj_def)
    then show ?thesis
      using obj(2) c(1) unfolding grows_def by (intro exI [of _ "[]"]) auto
  next
    case False
    then have "quiet w (new_child L a p ctor w)"
      using Some ct c
      by (cases o') (auto simp: quiet_def new_child_def New_CJsonImpl_def IAllocatorEx_New_def
          CAllocatorImpl_Malloc_def CAllocatorImpl_Free_def Delete_new_def IAllocatorEx_Delete_def
          jfail_def jerror_def)
    then show ?thesis
      using quiet_grows assms(3) by blast
  qed
qed

lemma constructor_no_children:
  "CJsonImpl_of_ref L r b h = (Some obj, h') \<Longrightarrow> m_vecJsonValues obj = []"
  "CJsonImpl_of_value L r h = (Some obj, h') \<Longrightarrow> m_vecJsonValues obj = []"
  "CJsonImpl_of_type L t h = (Some obj, h') \<Longrightarrow> m_vecJsonValues obj = []"
  by (auto simp: CJsonImpl_of_ref_def CJsonImpl_of_value_def CJsonImpl_of_type_def jbind_def
      split: prod.splits option.splits)

text \<open>A step that leaves the objects alone may come before or after one that adds a child.\<close>

lemma grows_jbind:
  assumes "quiet w m" "\<And>a w1. m = (Some a, w1) \<Longrightarrow> grows p w1 (snd (f a w1))" "jw_objs w p \<noteq> None"
  shows "grows p w (snd (jbind m f))"
proof (cases m)
  case (Pair r w1)
  show ?thesis
  proof (cases r)
    case None
    then show ?thesis
      using Pair assms(1,3) quiet_grows [of w m p] by simp
  next
    case (Some b)
    then have "grows p w1 (snd (f b w1))"
      using Pair assms(2) by blast
    then show ?thesis
      using Pair Some assms(1) by (auto simp: quiet_def intro: grows_cong)
  qed
qed

lemma grows_jcatch:
  assumes "grows p w (snd m)"
  shows "grows p w (snd (jcatch m (jfail c r)))"
  using assms by (cases m; cases "fst m") (auto simp: jfail_def jerror_def grows_def)

lemma grows_adopt:
  assumes "quiet w m" "jw_objs w p = Some y" "json_forest w" "malloc_fresh (jw_heap w) (jm_malloc a)"
  shows "grows p w (snd (jbind m (\<lambda>r w. new_child L a p (CJsonImpl_of_ref L r False) w)))"
proof (rule grows_jbind [OF assms(1)])
  fix r w1
  assume "m = (Some r, w1)"
  then have "jw_objs w1 = jw_objs w" "jw_heap w1 = jw_heap w"
    using assms(1) by (simp_all add: quiet_def)
  then show "grows p w1 (snd (new_child L a p (CJsonImpl_of_ref L r False) w1))"
    using assms by (intro new_child_grows) (auto simp: json_forest_def constructor_no_children)
qed (simp add: assms(2))

lemma push_all_twice:
  "f p = Some y \<Longrightarrow> push_all p qs (push_all p ps f) = push_all p (ps @ qs) f"
  by (simp add: push_all_def)

lemma grows_after_null:
  assumes g: "grows p (push_child p nullptr w) w'" and w: "json_forest w" and y: "jw_objs w p = Some y"
  shows "grows p w w'"
proof -
  let ?f = "jw_objs w" and ?g = "push_all p [nullptr] (jw_objs w)"
  have eq: "jw_objs (push_child p nullptr w) = ?g" "jw_heap (push_child p nullptr w) = jw_heap w"
    by (simp_all add: push_child_def push_all_def the_obj_def)
  have twice: "push_all p ns ?g = push_all p (nullptr # ns) ?f" for ns
    using push_all_twice [of ?f p y ns "[nullptr]", OF y] by simp
  from g consider ns where "pointers ns = []" "jw_objs w' = push_all p ns ?g" "jw_heap w' = jw_heap w"
    | ns c obj n where "pointers ns = []" "jw_heap w c = None" "m_vecJsonValues obj = []"
      "jw_objs w' = push_all p (ns @ [Some c]) (?g(c \<mapsto> obj))" "jw_heap w' = (jw_heap w)(c \<mapsto> n)"
    unfolding grows_def eq by blast
  then show ?thesis
  proof cases
    case 1
    then show ?thesis
      using twice unfolding grows_def by (intro exI [of _ "nullptr # ns"]) simp
  next
    case 2
    have "p \<noteq> c"
      using w y 2(2) by (auto simp: json_forest_def domIff)
    then have "?g(c \<mapsto> obj) = push_all p [nullptr] (?f(c \<mapsto> obj))"
      by (auto simp: push_all_def)
    then have "jw_objs w' = push_all p ((nullptr # ns) @ [Some c]) (?f(c \<mapsto> obj))"
      using push_all_twice [of "?f(c \<mapsto> obj)" p y "ns @ [Some c]" "[nullptr]"] 2(4) y \<open>p \<noteq> c\<close> by simp
    then show ?thesis
      using 2 unfolding grows_def by (intro exI [of _ "nullptr # ns"]) auto
  qed
qed

subsection \<open>Calls that leave the objects alone\<close>

lemma quiet_SetValue: "quiet w (SetValue L p pKey v w)"
  unfolding SetValue_def by (intro quiet_intros)

lemma quiet_AppendValue: "quiet w (AppendValue L p v w)"
  unfolding AppendValue_def by (intro quiet_intros)

lemma quiet_GetValue: "quiet w (GetValue_key L as p pKey d w)" "quiet w (GetValue_index L as p i d w)"
  unfolding GetValue_key_def GetValue_index_def by (intro quiet_intros)+

lemma quiet_parse: "quiet w (parse_into L f str p w)"
  unfolding parse_into_def by (intro quiet_intros)

lemma quiet_member_is: "quiet w (member_is L isX v pKey w)"
  unfolding member_is_def by (intro quiet_intros)

lemmas quiet_calls =
  CJsonImpl_Parse_def CJsonImpl_ParseFile_def CJsonImpl_GetBool_def CJsonImpl_GetInt32_def
  CJsonImpl_GetInt64_def CJsonImpl_GetUint32_def CJsonImpl_GetUint64_def CJsonImpl_GetDouble_def
  CJsonImpl_GetString_def CJsonImpl_GetObject_into_def CJsonImpl_GetArray_into_def CJsonImpl_SetBool_def
  CJsonImpl_SetInt32_def CJsonImpl_SetInt64_def CJsonImpl_SetUint32_def CJsonImpl_SetUint64_def
  CJsonImpl_SetDouble_def CJsonImpl_SetString_def CJsonImpl_SetObject_from_def CJsonImpl_SetArray_from_def
  CJsonImpl_GetBool_at_def CJsonImpl_GetInt32_at_def CJsonImpl_GetInt64_at_def CJsonImpl_GetUint32_at_def
  CJsonImpl_GetUint64_at_def CJsonImpl_GetDouble_at_def CJsonImpl_GetString_at_def
  CJsonImpl_GetObject_at_into_def CJsonImpl_GetArray_at_into_def CJsonImpl_AppendBool_def
  CJsonImpl_AppendInt32_def CJsonImpl_AppendInt64_def CJsonImpl_AppendUint32_def CJsonImpl_AppendUint64_def
  CJsonImpl_AppendDouble_def CJsonImpl_AppendString_def CJsonImpl_AppendObject_from_def
  CJsonImpl_AppendArray_from_def CJsonImpl_Delete_def CJsonImpl_GetType_def CJsonImpl_GetType_at_def

lemmas quiet_rules =
  quiet_intros quiet_SetValue quiet_AppendValue quiet_GetValue quiet_parse quiet_member_is

text \<open>
  A call of a method on the object at \<open>p\<close>, with every argument and every answer of the library; the
  relation is between the states before and after, whether the call returned or threw. The memory
  answers with blocks that are free.
\<close>

inductive json_call ::
  "('h, 'r) jsoncpp \<Rightarrow> uint64_t \<Rightarrow> ('h, 'r) json_world \<Rightarrow> ('h, 'r) json_world \<Rightarrow> bool"
  for L p w where
  Parse: "json_call L p w (snd (CJsonImpl_Parse L p str w))"
| ParseFile: "json_call L p w (snd (CJsonImpl_ParseFile L opened p str w))"
| GetBool: "json_call L p w (snd (CJsonImpl_GetBool L p k db w))"
| GetInt32: "json_call L p w (snd (CJsonImpl_GetInt32 L p k di w))"
| GetInt64: "json_call L p w (snd (CJsonImpl_GetInt64 L p k dj w))"
| GetUint32: "json_call L p w (snd (CJsonImpl_GetUint32 L p k di w))"
| GetUint64: "json_call L p w (snd (CJsonImpl_GetUint64 L p k dj w))"
| GetDouble: "json_call L p w (snd (CJsonImpl_GetDouble L p k dj w))"
| GetString: "json_call L p w (snd (CJsonImpl_GetString L p k ds w))"
| GetObject_into: "json_call L p w (snd (CJsonImpl_GetObject_into L p k q w))"
| GetArray_into: "json_call L p w (snd (CJsonImpl_GetArray_into L p k q w))"
| SetBool: "json_call L p w (snd (CJsonImpl_SetBool L p k b w))"
| SetInt32: "json_call L p w (snd (CJsonImpl_SetInt32 L p k i w))"
| SetInt64: "json_call L p w (snd (CJsonImpl_SetInt64 L p k j w))"
| SetUint32: "json_call L p w (snd (CJsonImpl_SetUint32 L p k i w))"
| SetUint64: "json_call L p w (snd (CJsonImpl_SetUint64 L p k j w))"
| SetDouble: "json_call L p w (snd (CJsonImpl_SetDouble L p k j w))"
| SetString: "json_call L p w (snd (CJsonImpl_SetString L p k s w))"
| SetObject_from: "json_call L p w (snd (CJsonImpl_SetObject_from L p k q w))"
| SetArray_from: "json_call L p w (snd (CJsonImpl_SetArray_from L p k q w))"
| GetBool_at: "json_call L p w (snd (CJsonImpl_GetBool_at L p i db w))"
| GetInt32_at: "json_call L p w (snd (CJsonImpl_GetInt32_at L p i di w))"
| GetInt64_at: "json_call L p w (snd (CJsonImpl_GetInt64_at L p i dj w))"
| GetUint32_at: "json_call L p w (snd (CJsonImpl_GetUint32_at L p i di w))"
| GetUint64_at: "json_call L p w (snd (CJsonImpl_GetUint64_at L p i dj w))"
| GetDouble_at: "json_call L p w (snd (CJsonImpl_GetDouble_at L p i dj w))"
| GetString_at: "json_call L p w (snd (CJsonImpl_GetString_at L p i ds w))"
| GetObject_at_into: "json_call L p w (snd (CJsonImpl_GetObject_at_into L p i q w))"
| GetArray_at_into: "json_call L p w (snd (CJsonImpl_GetArray_at_into L p i q w))"
| AppendBool: "json_call L p w (snd (CJsonImpl_AppendBool L p b w))"
| AppendInt32: "json_call L p w (snd (CJsonImpl_AppendInt32 L p i w))"
| AppendInt64: "json_call L p w (snd (CJsonImpl_AppendInt64 L p j w))"
| AppendUint32: "json_call L p w (snd (CJsonImpl_AppendUint32 L p i w))"
| AppendUint64: "json_call L p w (snd (CJsonImpl_AppendUint64 L p j w))"
| AppendDouble: "json_call L p w (snd (CJsonImpl_AppendDouble L p j w))"
| AppendString: "json_call L p w (snd (CJsonImpl_AppendString L p s w))"
| AppendObject_from: "json_call L p w (snd (CJsonImpl_AppendObject_from L p q w))"
| AppendArray_from: "json_call L p w (snd (CJsonImpl_AppendArray_from L p q w))"
| Delete: "json_call L p w (snd (CJsonImpl_Delete L p k w))"
| GetType: "json_call L p w (snd (CJsonImpl_GetType L p k w))"
| GetType_at: "json_call L p w (snd (CJsonImpl_GetType_at L p i w))"
| ToString: "json_call L p w (snd (CJsonImpl_ToString L p b w))"
| GetObject: "malloc_fresh (jw_heap w) (jm_malloc a) \<Longrightarrow> json_call L p w (snd (CJsonImpl_GetObject L a p k w))"
| GetArray: "malloc_fresh (jw_heap w) (jm_malloc a) \<Longrightarrow> json_call L p w (snd (CJsonImpl_GetArray L a p k w))"
| SetObject: "malloc_fresh (jw_heap w) (jm_malloc a) \<Longrightarrow> json_call L p w (snd (CJsonImpl_SetObject L a p k w))"
| SetArray: "malloc_fresh (jw_heap w) (jm_malloc a) \<Longrightarrow> json_call L p w (snd (CJsonImpl_SetArray L a p k w))"
| GetObject_at: "malloc_fresh (jw_heap w) (jm_malloc a) \<Longrightarrow>
    json_call L p w (snd (CJsonImpl_GetObject_at L a p i w))"
| GetArray_at: "malloc_fresh (jw_heap w) (jm_malloc a) \<Longrightarrow>
    json_call L p w (snd (CJsonImpl_GetArray_at L a p i w))"
| AppendObject: "malloc_fresh (jw_heap w) (jm_malloc a) \<Longrightarrow>
    json_call L p w (snd (CJsonImpl_AppendObject L a p w))"
| AppendArray: "malloc_fresh (jw_heap w) (jm_malloc a) \<Longrightarrow>
    json_call L p w (snd (CJsonImpl_AppendArray L a p w))"
| Clear: "CJsonImpl_Clear L p w = Some (r, w') \<Longrightarrow> json_call L p w w'"

text \<open>What a program may do: create objects, call methods of objects alive, destroy roots.\<close>

inductive json_step :: "('h, 'r) jsoncpp \<Rightarrow> ('h, 'r) json_world \<Rightarrow> ('h, 'r) json_world \<Rightarrow> bool"
  for L where
  Create: "malloc_fresh (jw_heap w) ans \<Longrightarrow> json_step L w (snd (IJson_Create L ans t w))"
| Call: "jw_objs w p = Some y \<Longrightarrow> json_call L p w w' \<Longrightarrow> json_step L w w'"
| Destroy: "is_root (jw_objs w) p \<Longrightarrow> IJson_Destroy (Some p) w = Some w' \<Longrightarrow> json_step L w w'"
| Destroy_null: "json_step L w w"

lemma store_string_forest:
  assumes "json_forest w" "jw_objs w p = Some y"
  shows "json_forest (store_string p s w)"
proof -
  let ?g = "(jw_objs w)(p \<mapsto> y\<lparr>m_strJsonString := s\<rparr>)"
  have "owns ?g = owns (jw_objs w)"
    using assms(2) by (auto simp: owns_def split: if_splits)
  moreover have "dom ?g = dom (jw_objs w)"
    using assms(2) by auto
  moreover have "distinct (children x)" if "?g q = Some x" for q x
    using assms that by (auto simp: json_forest_def forest_def split: if_splits)
  ultimately show ?thesis
    using assms by (simp add: json_forest_def forest_def store_string_def the_obj_def)
qed

lemma ToString_forest:
  assumes "json_forest w" "jw_objs w p = Some y"
  shows "json_forest (snd (CJsonImpl_ToString L p b w))"
proof (cases "toStyledString L (the_value p w) (jw_lib w)")
  case None
  then show ?thesis
    using assms by (simp add: CJsonImpl_ToString_def jread_def jfail_def jerror_def json_forest_def)
next
  case (Some s)
  then show ?thesis
    using store_string_forest [OF assms] by (simp add: CJsonImpl_ToString_def jread_def Let_def)
qed

lemma Clear_forest:
  assumes w: "json_forest w" and y: "jw_objs w p = Some y" and c: "CJsonImpl_Clear L p w = Some (r, w')"
  shows "json_forest w'"
proof -
  let ?w = "clear_children p w"
  let ?d = "without (descendants (jw_objs ?w) (set (children y))) {} ?w"
  have "the_obj p w = y"
    using y by (simp add: the_obj_def)
  then obtain w1 where "delete_items (map Del (m_vecJsonValues y)) w = Some w1"
      "jlib (Value_clear L (the_value p w1)) (clear_children p w1) = (r, w')"
    using c by (auto simp: CJsonImpl_Clear_def)
  then have "jlib (Value_clear L (the_value p w1)) ?d = (r, w')"
    using Clear_children(2) [OF w y] by simp
  moreover have "json_forest ?d"
    using without_forest [OF clear_children_forest [OF w y] Clear_children(3) [OF w y]] .
  moreover have "jw_objs w' = jw_objs ?d" "jw_heap w' = jw_heap ?d"
    using calculation(1) by (auto simp: jlib_def split: prod.splits)
  ultimately show ?thesis
    by (simp add: json_forest_def)
qed

text \<open>The object \<open>p\<close> is alive in a forest and the next block is free; quiet steps keep it so.\<close>

definition ready :: "uint64_t \<Rightarrow> json_memory \<Rightarrow> ('h, 'r) json_world \<Rightarrow> bool" where
  "ready p a w \<longleftrightarrow> json_forest w \<and> jw_objs w p \<noteq> None \<and> malloc_fresh (jw_heap w) (jm_malloc a)"

lemma ready_quiet: "ready p a w \<Longrightarrow> quiet w (x, w1) \<Longrightarrow> ready p a w1"
  by (simp add: ready_def quiet_def json_forest_def)

lemma ready_jbind:
  assumes "ready p a w" "quiet w m" "\<And>x w1. m = (Some x, w1) \<Longrightarrow> ready p a w1 \<Longrightarrow> grows p w1 (snd (f x w1))"
  shows "grows p w (snd (jbind m f))"
proof (rule grows_jbind [OF assms(2)])
  fix x w1
  assume "m = (Some x, w1)"
  with assms(2) ready_quiet [OF assms(1)] show "grows p w1 (snd (f x w1))"
    by (intro assms(3)) auto
qed (use assms(1) in \<open>simp add: ready_def\<close>)

lemma ready_jfail: "ready p a w \<Longrightarrow> grows p w (snd (jfail c r w))"
  using quiet_grows [of w "jfail c r w" p] by (simp add: ready_def quiet_intros)

lemma ready_new_child:
  assumes "ready p a w" "\<And>h obj h'. ctor h = (Some obj, h') \<Longrightarrow> m_vecJsonValues obj = []"
  shows "grows p w (snd (new_child L a p ctor w))"
  using assms new_child_grows [of w a p _ ctor L] by (auto simp: ready_def)

lemma ready_if:
  "(b \<Longrightarrow> grows p w (snd x)) \<Longrightarrow> (\<not> b \<Longrightarrow> grows p w (snd y)) \<Longrightarrow> grows p w (snd (if b then x else y))"
  by simp

lemma ready_null_child:
  assumes r: "ready p a w"
  shows "grows p w (snd (if jm_push_null a
    then new_child L a p (CJsonImpl_of_ref L v False) (push_child p nullptr w) else (None, w)))"
proof -
  from r obtain y where w: "json_forest w" and y: "jw_objs w p = Some y"
    by (auto simp: ready_def)
  have "grows p w (push_child p nullptr w)"
    unfolding grows_def
    by (intro exI [of _ "[nullptr]"] conjI disjI1) (simp_all add: push_child_def push_all_def the_obj_def)
  then have "json_forest (push_child p nullptr w)"
    using grows_forest [OF _ w y] by blast
  then have "ready p a (push_child p nullptr w)"
    using r by (simp add: ready_def push_child_def)
  then have "grows p w (snd (new_child L a p (CJsonImpl_of_ref L v False) (push_child p nullptr w)))"
    using grows_after_null [OF _ w y] ready_new_child constructor_no_children(1) by metis
  then show ?thesis
    using quiet_grows [of w "(None, w)" p] y by (simp add: quiet_def)
qed

lemmas grows_rules =
  ready_if ready_jfail ready_jbind grows_jcatch ready_null_child ready_new_child

lemma adopting_grows:
  assumes r: "ready p a w"
  shows "grows p w (snd (CJsonImpl_GetObject L a p k w))" "grows p w (snd (CJsonImpl_GetArray L a p k w))"
    "grows p w (snd (CJsonImpl_SetObject L a p k w))" "grows p w (snd (CJsonImpl_SetArray L a p k w))"
    "grows p w (snd (CJsonImpl_GetObject_at L a p i w))" "grows p w (snd (CJsonImpl_GetArray_at L a p i w))"
    "grows p w (snd (CJsonImpl_AppendObject L a p w))" "grows p w (snd (CJsonImpl_AppendArray L a p w))"
proof -
  show "grows p w (snd (CJsonImpl_GetObject L a p k w))"
    unfolding CJsonImpl_GetObject_def copied_child_def
    using r by (auto intro!: grows_rules quiet_rules dest: constructor_no_children)
  show "grows p w (snd (CJsonImpl_GetArray L a p k w))"
    unfolding CJsonImpl_GetArray_def copied_child_def
    using r by (auto intro!: grows_rules quiet_rules dest: constructor_no_children)
  show "grows p w (snd (CJsonImpl_SetObject L a p k w))"
    unfolding CJsonImpl_SetObject_def
    using r by (auto intro!: grows_rules quiet_rules dest: constructor_no_children)
  show "grows p w (snd (CJsonImpl_SetArray L a p k w))"
    unfolding CJsonImpl_SetArray_def
    using r by (auto intro!: grows_rules quiet_rules dest: constructor_no_children)
  show "grows p w (snd (CJsonImpl_GetObject_at L a p i w))"
    unfolding CJsonImpl_GetObject_at_def
    using r by (auto intro!: grows_rules quiet_rules dest: constructor_no_children)
  show "grows p w (snd (CJsonImpl_GetArray_at L a p i w))"
    unfolding CJsonImpl_GetArray_at_def
    using r by (auto intro!: grows_rules quiet_rules dest: constructor_no_children)
  show "grows p w (snd (CJsonImpl_AppendObject L a p w))"
    unfolding CJsonImpl_AppendObject_def last_element_def
    using r by (auto intro!: grows_rules quiet_rules dest: constructor_no_children)
  show "grows p w (snd (CJsonImpl_AppendArray L a p w))"
    unfolding CJsonImpl_AppendArray_def last_element_def
    using r by (auto intro!: grows_rules quiet_rules dest: constructor_no_children)
qed

lemma call_forest:
  assumes "json_call L p w w'" "json_forest w" "jw_objs w p = Some y"
  shows "json_forest w'"
proof -
  have grown: "json_forest u" if "grows p w u" for u
    using grows_forest [OF that assms(2,3)] .
  have "ready p a w" if "malloc_fresh (jw_heap w) (jm_malloc a)" for a
    using that assms(2,3) by (simp add: ready_def)
  note adopted = grown [OF adopting_grows(1) [OF this]] grown [OF adopting_grows(2) [OF this]]
    grown [OF adopting_grows(3) [OF this]] grown [OF adopting_grows(4) [OF this]]
    grown [OF adopting_grows(5) [OF this]] grown [OF adopting_grows(6) [OF this]]
    grown [OF adopting_grows(7) [OF this]] grown [OF adopting_grows(8) [OF this]]
  from assms(1) show ?thesis
    by cases (auto intro!: quiet_forest [OF _ assms(2)] quiet_rules
        simp: quiet_calls adopted assms(2) ToString_forest [OF assms(2,3)]
        dest: Clear_forest [OF assms(2,3)] simp del: split_paired_Ex)
qed

lemma Create_forest:
  assumes "malloc_fresh (jw_heap w) ans" "json_forest w"
  shows "json_forest (snd (IJson_Create L ans t w))"
proof (cases ans)
  case None
  then show ?thesis
    using assms(2) by (simp add: IJson_Create_def New_CJsonImpl_def IAllocatorEx_New_def
        CAllocatorImpl_Malloc_def json_forest_def)
next
  case (Some c)
  have c: "jw_heap w c = None" "jw_objs w c = None"
    using assms Some by (auto simp: malloc_fresh_def json_forest_def domIff)
  obtain o' h' where ct: "CJsonImpl_of_type L t (jw_lib w) = (o', h')"
    by (cases "CJsonImpl_of_type L t (jw_lib w)")
  show ?thesis
  proof (cases o')
    case None
    then show ?thesis
      using assms(2) Some ct c
      by (auto simp: IJson_Create_def New_CJsonImpl_def IAllocatorEx_New_def CAllocatorImpl_Malloc_def
          CAllocatorImpl_Free_def json_forest_def)
  next
    case (Some obj)
    let ?g = "(jw_objs w)(c \<mapsto> obj)"
    have "owns ?g = owns (jw_objs w)"
      using constructor_no_children(3) [of L t "jw_lib w" obj h'] ct Some c
      by (auto simp: owns_def split: if_splits)
    then have "forest ?g"
      using assms(2) constructor_no_children(3) [of L t "jw_lib w" obj h'] ct Some
      by (auto simp: json_forest_def forest_def split: if_splits)
    then show ?thesis
      using assms(2) \<open>ans = Some c\<close> ct Some
      by (auto simp: IJson_Create_def New_CJsonImpl_def IAllocatorEx_New_def CAllocatorImpl_Malloc_def
          json_forest_def)
  qed
qed

lemma step_forest: "json_step L w w' \<Longrightarrow> json_forest w \<Longrightarrow> json_forest w'"
proof (induction rule: json_step.induct)
  case (Destroy w p w')
  then have "w' = without (descendants (jw_objs w) {p}) {} w"
    using Destroy_root by fastforce
  then show ?case
    using without_forest [of w "{p}"] Destroy by simp
qed (auto intro: Create_forest call_forest)

definition no_objects :: "('h, 'r) json_world \<Rightarrow> bool" where
  "no_objects w \<longleftrightarrow> jw_objs w = Map.empty"

lemma steps_forest:
  assumes "(json_step L)\<^sup>*\<^sup>* w0 w" "no_objects w0"
  shows "json_forest w"
  using assms
proof (induction rule: rtranclp_induct)
  case base
  then show ?case
    by (simp add: no_objects_def json_forest_def forest_def owns_def acyclic_def)
next
  case (step w w')
  then show ?case
    using step_forest by blast
qed

section \<open>The properties\<close>

text \<open>C27: in every state a program can reach by creating objects, calling their methods in any order,
  with any outcome of the library and of the memory, and destroying roots, the objects form a forest: each
  pointer of \<open>m_vecJsonValues\<close> is null or the address of an object alive, no object has two owners or is
  owned twice, none owns itself through others, and each occupies an allocated block.\<close>

theorem objects_form_forest:
  assumes "(json_step L)\<^sup>*\<^sup>* w0 w" "no_objects w0"
  shows "json_forest w"
  using assms by (rule steps_forest)

text \<open>C28: destroying a root in such a state terminates. No \<open>delete\<close> on the way is given an object that
  is dead or a block that is not allocated, so nothing is deleted twice; it ends the life of exactly the
  root and its descendants and gives back their blocks, each once, and no other block. That \<open>delete\<close>
  gives back a block of \<open>std::malloc\<close>, as the ones of all these objects are, is what the usual
  implementation does and not what C++ promises.\<close>

theorem destroy_deletes_descendants:
  assumes "(json_step L)\<^sup>*\<^sup>* w0 w" "no_objects w0" "is_root (jw_objs w) p"
  shows "\<exists>w'. IJson_Destroy (Some p) w = Some w' \<and>
    jw_objs w' = jw_objs w |` (- descendants (jw_objs w) {p}) \<and>
    jw_heap w' = jw_heap w |` (- (descendants (jw_objs w) {p} \<inter> dom (jw_objs w))) \<and>
    jw_lib w' = jw_lib w"
  using Destroy_root [OF steps_forest [OF assms(1,2)] assms(3)] by (simp add: without_def)

text \<open>Fact: \<open>Clear\<close> on an object alive in such a state terminates, deletes exactly the descendants of the
  object and leaves it without children.\<close>

theorem clear_deletes_descendants:
  assumes "(json_step L)\<^sup>*\<^sup>* w0 w" "no_objects w0" "jw_objs w p = Some y"
  shows "\<exists>r w'. CJsonImpl_Clear L p w = Some (r, w') \<and>
    jw_objs w' = ((jw_objs w)(p \<mapsto> y\<lparr>m_vecJsonValues := []\<rparr>)) |`
      (- descendants ((jw_objs w)(p \<mapsto> y\<lparr>m_vecJsonValues := []\<rparr>)) (set (children y)))"
proof -
  let ?is = "map Del (m_vecJsonValues y)" and ?w = "clear_children p w"
  have w: "json_forest w"
    using steps_forest [OF assms(1,2)] .
  obtain w1 where w1: "delete_items ?is w = Some w1"
    using Clear_children(1) [OF w assms(3)] by auto
  then have "clear_children p w1 = without (descendants (jw_objs ?w) (set (children y))) {} ?w"
    using Clear_children(2) [OF w assms(3)] by simp
  moreover have "jw_objs ?w = (jw_objs w)(p \<mapsto> y\<lparr>m_vecJsonValues := []\<rparr>)"
    using assms(3) by (simp add: clear_children_def the_obj_def)
  ultimately have "jw_objs (clear_children p w1) = ((jw_objs w)(p \<mapsto> y\<lparr>m_vecJsonValues := []\<rparr>)) |`
      (- descendants ((jw_objs w)(p \<mapsto> y\<lparr>m_vecJsonValues := []\<rparr>)) (set (children y)))"
    by (simp add: without_def)
  then show ?thesis
    using w1 assms(3) by (simp add: CJsonImpl_Clear_def the_obj_def jlib_def split: prod.splits)
qed

section \<open>Witnesses\<close>

text \<open>A program on no library value yet creates an object in the block at 16, and adds the child at 32
  to it.\<close>

definition empty_json :: "(json list, tree_ref) json_world" where
  "empty_json = \<lparr>jw_lib = [], jw_objs = Map.empty, jw_heap = Map.empty, jw_err = kSuccess\<rparr>"

definition one_json :: "(json list, tree_ref) json_world" where
  "one_json = snd (IJson_Create tree_lib (Some 16) kObject empty_json)"

definition two_json :: "(json list, tree_ref) json_world" where
  "two_json = snd (CJsonImpl_SetObject tree_lib \<lparr>jm_malloc = Some 32, jm_push = True, jm_push_null = True\<rparr>
     16 (Some ''k'') one_json)"

lemma one_json_objects:
  "jw_objs one_json = [16 \<mapsto> \<lparr>m_jsonValueData = (0, []), m_jsonValue = (0, []), m_vecJsonValues = [], m_strJsonString = []\<rparr>]"
  "jw_heap one_json = [16 \<mapsto> 120]" "jw_lib one_json = [JObject Map.empty]"
  by (simp_all add: one_json_def empty_json_def IJson_Create_def New_CJsonImpl_def CJsonImpl_of_type_def
      IAllocatorEx_New_def CAllocatorImpl_Malloc_def tree_lib_def tree_new_def)

lemma two_json_objects:
  "jw_objs two_json =
     [16 \<mapsto> \<lparr>m_jsonValueData = (0, []), m_jsonValue = (0, []), m_vecJsonValues = [Some 32], m_strJsonString = []\<rparr>,
      32 \<mapsto> \<lparr>m_jsonValueData = (2, []), m_jsonValue = (0, [Key ''k'']), m_vecJsonValues = [], m_strJsonString = []\<rparr>]"
  by (auto simp: two_json_def CJsonImpl_SetObject_def SetValue_def jlib_def tree_lib_def tree_new_def
      tree_at_def tree_value_def tree_set_def tree_child_def the_value_def the_obj_def one_json_objects
      new_child_def New_CJsonImpl_def CJsonImpl_of_ref_def IAllocatorEx_New_def CAllocatorImpl_Malloc_def
      push_child_def)

lemma two_json_reached: "(json_step tree_lib)\<^sup>*\<^sup>* empty_json two_json"
proof -
  have "json_step tree_lib empty_json one_json"
    unfolding one_json_def by (rule json_step.Create) (simp add: malloc_fresh_def empty_json_def)
  moreover have "json_call tree_lib 16 one_json two_json"
    unfolding two_json_def by (rule json_call.SetObject) (simp add: malloc_fresh_def one_json_objects)
  then have "json_step tree_lib one_json two_json"
    by (rule json_step.Call [rotated]) (simp add: one_json_objects)
  ultimately show ?thesis
    by auto
qed

lemma empty_json_none: "no_objects empty_json"
  by (simp add: no_objects_def empty_json_def)

lemma two_json_owns: "owns (jw_objs two_json) = {(16, 32)}"
  by (auto simp: owns_def two_json_objects split: if_splits)

lemma two_json_root: "is_root (jw_objs two_json) 16"
  by (simp add: is_root_def two_json_owns) (simp add: two_json_objects)

theorem objects_form_forest_witness: "json_forest two_json"
  using objects_form_forest [OF two_json_reached empty_json_none] .

theorem destroy_deletes_descendants_witness:
  "\<exists>w'. IJson_Destroy (Some 16) two_json = Some w' \<and> jw_objs w' = Map.empty"
proof -
  have "x \<in> {16, 32}" if "(16, x) \<in> {(16, 32)}\<^sup>*" for x :: uint64_t
    using that by (induction rule: rtrancl_induct) auto
  then have "descendants (jw_objs two_json) {16} = {16, 32}"
    by (auto simp: descendants_def two_json_owns)
  then have "jw_objs two_json |` (- descendants (jw_objs two_json) {16}) = Map.empty"
    by (auto simp: two_json_objects)
  then show ?thesis
    using destroy_deletes_descendants [OF two_json_reached empty_json_none two_json_root] by auto
qed

end
