(* ===== verification/Spec2Isabelle.thy ===== *)
theory Spec2Isabelle
  imports FixedQueue FixedChannelConc VariableQueue TimeImpl Spin SchedulerRun
    ChannelFacade MessageImpl NetProps WrapParam LoggerConfig JsonForest
begin

text \<open>
  A verification development for libcppx: the base library (\<open>src/base\<close>) and the network library
  (\<open>src/network\<close>).

  \<^bold>\<open>Parts of the program.\<close> The base library has an allocator (\<open>memory\<close>), lock-free channels for one
  producer and one consumer (\<open>channel\<close>), threads, a thread manager, a spin lock and a task scheduler
  (\<open>thread\<close>), a logger (\<open>logger\<close>), and error codes, dates, helpers and a wrapper of the JSON library
  jsoncpp (\<open>utilities\<close>). The channels take
  their storage from the allocator; the thread manager owns the thread objects; the scheduler and the
  logger run on threads of the manager, the scheduler keeps its tasks in a \<open>std::map\<close>, the logger its
  entries in a channel. The network library has an engine that owns acceptors and connections, one event
  dispatcher that accepts, connects and disconnects, and IO dispatchers that read; they talk through
  task queues and through epoll registrations.

  \<^bold>\<open>Theories of the base library.\<close>
    \<^item> \<open>Prelude\<close>: fixed-width integers, pointers, error codes (\<open>error_code.h\<close>, \<open>error_code_impl.cpp\<close>),
      and word lemmas about ring positions. \<open>Common\<close>: \<open>common.h\<close>, alignment, pointer tags, time units.
    \<^item> \<open>Allocator\<close>: \<open>allocator_impl.cpp\<close> and \<open>allocator_ex.h\<close>; a heap is the map of the live blocks, the
      answer of \<open>malloc\<close> an argument.
    \<^item> \<open>ChannelCommon\<close>: \<open>channel.h\<close> and \<open>channel_common.h\<close>: entry headers, statistics, \<open>Up2PowerOf2\<close>.
    \<^item> \<open>Fifo\<close>: the contract of a queue as the locales \<open>lossy_fifo\<close> (which may lose some kinds of items),
      \<open>fifo\<close> and \<open>bounded_fifo\<close>, and what follows from it for every sequence of calls.
    \<^item> \<open>FixedChannel\<close>, \<open>FixedQueue\<close>: \<open>spsc_fixed_bounded_channel.cpp\<close> and \<open>channel_ex.h\<close>; the invariant,
      the interpretation of \<open>bounded_fifo\<close>, the refinement of the list queue, leaks, exceptions.
      \<open>ChannelFacade\<close>: the members of \<open>IChannel\<close> that forward, the life cycle of the typed wrapper, and the
      size of the storage.
    \<^item> \<open>FixedChannelConc\<close>: the same operations with a producer and a consumer interleaved, each call and
      each access of a slot a step.
    \<^item> \<open>VariableChannel\<close>, \<open>VariableQueue\<close>: \<open>spsc_variable_bounded_channel.cpp\<close> over a memory of 64-bit
      cells; the assertions of the source; the tiling of the ring by entries and paddings, and the
      interpretation of \<open>lossy_fifo\<close>, since the code loses some messages of length zero.
    \<^item> \<open>Calendar\<close>, \<open>TimeImpl\<close>: \<open>timegm\<close> and \<open>gmtime_r\<close> of the C library, and \<open>time_impl.cpp\<close>.
    \<^item> \<open>Thread\<close>: \<open>thread_impl.cpp\<close>; the owner's calls and the worker loop as interleaved steps.
    \<^item> \<open>Spin\<close>: \<open>spin_lock_impl.h\<close> and the guard of \<open>spin_lock.h\<close> in many threads.
    \<^item> \<open>ThreadManager\<close>: \<open>thread_manager_impl.cpp\<close>, its life cycle, the ownership of the thread objects
      with respect to a client that holds handles, and thread-local memory.
    \<^item> \<open>OrdMap\<close>: the contract of \<open>std::map\<close> as the locale \<open>std_map\<close>, met by sorted lists.
    \<^item> \<open>TaskScheduler\<close>, \<open>SchedulerInv\<close>: \<open>task_scheduler_impl.cpp\<close>; posting, cancelling and the parts of
      \<open>Run\<close> as interleaved steps, the invariant and what follows from it. \<open>SchedulerRun\<close>: the life cycle
      and one whole \<open>Run\<close>, which returns and is a sequence of those steps.
    \<^item> \<open>LogMacro\<close>: the levels of \<open>logger.h\<close> and the macros of \<open>logger_ex.h\<close> and \<open>logger_ex2.h\<close>. \<open>Printf\<close>:
      decimal numbers, \<open>snprintf\<close> into a buffer. \<open>WrapParam\<close>: the \<open>Wrap\<close> helpers, with \<open>%f\<close> on IEEE 754 values.
    \<^item> \<open>LogLine\<close>: \<open>LogItem\<close> and the formatting part of \<open>CLoggerImpl::WriteLog\<close> at the width of its indices,
      against a reference line; when the line fits its block. \<open>LogFile\<close>: writing, rotation and cleaning of
      the log files over a file system that is an ordered map, an instance of \<open>std_map\<close>, for any answers
      of \<open>fopen\<close> and \<open>fwrite\<close>. \<open>Logger\<close>: the object, its life cycle for a configuration whose getters
      return, \<open>Log\<close>, \<open>LogFormat\<close> and the writer thread.
    \<^item> \<open>JsonLib\<close>: the functions of jsoncpp that the wrapper calls, as the record \<open>jsoncpp\<close> over arbitrary
      types of states and references, and their documented behaviour \<open>jsoncpp_laws\<close>, the hypothesis of the
      properties about documents; \<open>JsonTree\<close>: an instance that satisfies it. \<open>JsonImpl\<close>: \<open>json_impl.cpp\<close>, every
      operation of \<open>CJsonImpl\<close>, an exception that leaves a call being the result \<open>None\<close>. \<open>JsonSpec\<close>: the
      operations as updates of the document. \<open>JsonForest\<close>: the ownership of the objects under every sequence
      of calls, and the recursion of the destructor.
    \<^item> \<open>LoggerConfig\<close>: the whole \<open>ILogger::Create\<close>, composed with the getters of the JSON object it is given,
      whose exceptions leave the call.

  \<^bold>\<open>Theories of the network library.\<close>
    \<^item> \<open>MessageImpl\<close>: \<open>message_impl.h\<close>. \<open>ReceiveBuffer\<close>, \<open>SendBuffer\<close>: the buffers of a connection; \<open>Delivery\<close>:
      \<open>DeliverMessage\<close> and the loop of \<open>Recv\<close> in \<open>connection_impl.cpp\<close>, against a parser of the stream.
    \<^item> \<open>Dispatcher\<close>: \<open>dispatcher.h\<close> and \<open>epoll_impl.h\<close>; the task queue is an instance of \<open>fifo\<close>.
    \<^item> \<open>NetWorld\<close>: the objects and the state of an engine with its dispatchers (\<open>engine_impl.h\<close>,
      \<open>connection_impl.h\<close>, \<open>acceptor_impl.h\<close>), attaching, detaching and closing. \<open>Connection\<close>, \<open>Acceptor\<close>,
      \<open>EventDispatcher\<close>, \<open>Engine\<close>: \<open>connection_impl.cpp\<close>, \<open>accpetor_impl.cpp\<close>, \<open>event_dispatcher.cpp\<close> with
      \<open>io_dispatcher.cpp\<close>, and \<open>engine_impl.cpp\<close>.
    \<^item> \<open>NetCore\<close>: an abstract machine of objects, descriptors and registrations with its invariants. \<open>NetInv\<close>:
      the operations simulate it, and the step relation of a whole engine. \<open>NetProps\<close>: what follows.

  \<^bold>\<open>How the model corresponds to the code.\<close> A class is a record with the fields of the class, an
  operation a definition named after class and function that takes the state and returns the new
  one. The thread-local last error is passed along where an operation sets it. What the system
  decides (the answers of \<open>malloc\<close> and \<open>new\<close>, times, thread ids, descriptors, epoll events, what the
  kernel reads and writes, whether a file opens, whether a container throws) is an argument. Undefined
  behaviour, such as deleting an address twice or writing past a buffer, is the result \<open>None\<close>; so is an
  exception that leaves a call of the logger. One undefined call has a result all the same: \<open>delete\<close> of
  the JSON objects, whose blocks are from \<open>std::malloc\<close>, frees them, as the usual implementations do. Integers have the width of the code; only the ids of tasks
  are unbounded. Callbacks of the client answer and are recorded; they do not call back into the engine. \<open>CEngineImpl_Exit\<close>
  is modelled and is no step of the step relation of the engine, which ends before it.

  \<^bold>\<open>Bounds.\<close> The loop of the scheduler that searches a free key has one round more than the map has
  entries, which is enough (\<open>next_free_enough\<close>). The recursion of the JSON destructor needs no bound:
  each object it enters leaves the finite set of objects alive. The channel properties hold below \<open>2^64\<close> calls, since
  the test \<open>m_uHead < m_uTailRef\<close> of the consumer does not survive the wrap of the counters. The
  properties of the network hold below \<open>2^64\<close> connections, the distribution over the IO dispatchers
  below \<open>2^32\<close> attachments. The receive buffer has no bound: where its 32-bit size wraps, from blocks of
  \<open>2^31\<close> bytes on, the model has no result, and the properties say exactly when (\<open>rb_overflows\<close>). Messages
  of the variable-size channel have at most \<open>2^32 - 16\<close> bytes, beyond which \<open>CalSize\<close> wraps. Log lines are
  below \<open>2^30\<close> bytes where their lengths are computed.

  \<^bold>\<open>Not modelled.\<close> The multi-producer channel, whose source is disabled by \<open>#if 0\<close>; the parts of the
  library that only forward to the system (thread names, processor binding); jsoncpp itself, a git submodule, and the storage it uses; weak memory: steps are sequentially consistent; one engine at a time.
  Declared in the repository and not defined there, and hence parameters or left out:
  \<open>CIODispatcher::ProcessTask\<close>, \<open>CConnectionImpl::Send (uint32_t)\<close>, \<open>GetStats\<close> of acceptors and connections,
  \<open>CMessagePool\<close>, \<open>IEngine::Create\<close>.
\<close>

end
